(* ===== verification/Prelude.thy ===== *)
theory Prelude
  imports Main "HOL-Library.AList" "HOL-Library.Sublist" "HOL-Library.Char_ord"
    "HOL-Library.List_Lexorder" "HOL-Library.Product_Lexorder"
begin

text \<open>
  Shared vocabulary of the development: the result type the models return where the
  Python code raises or returns a \<open>Result\<close> value, insertion-ordered dictionaries as
  association lists, the string operations of the standard library that the code calls
  (\<open>str.split\<close>, \<open>str.join\<close>), and the generic facts about them that the component
  theories share. No definition here models code of the repository itself.
\<close>

section \<open>Results\<close>

text \<open>An outcome is \<open>Err e\<close> where the code raises or returns an error, \<open>Ok v\<close> otherwise.\<close>

abbreviation Err :: "'e \<Rightarrow> 'e + 'a" where "Err \<equiv> Inl"
abbreviation Ok :: "'a \<Rightarrow> 'e + 'a" where "Ok \<equiv> Inr"

fun rbind :: "'e + 'a \<Rightarrow> ('a \<Rightarrow> 'e + 'b) \<Rightarrow> 'e + 'b" where
  "rbind (Inl e) f = Inl e"
| "rbind (Inr a) f = f a"

lemma rbind_Ok_iff: "rbind r f = Ok b \<longleftrightarrow> (\<exists>a. r = Ok a \<and> f a = Ok b)"
  by (cases r) auto

lemma rbind_Err_iff:
  "rbind r f = Err e \<longleftrightarrow> r = Err e \<or> (\<exists>a. r = Ok a \<and> f a = Err e)"
  by (cases r) auto

lemmas rbind_iffs = rbind_Ok_iff rbind_Err_iff

text \<open>An exception of Python, where only its report is used: its class and its text.\<close>

type_synonym exn = "string \<times> string"

section \<open>Insertion-ordered dictionaries\<close>

text \<open>
  A Python \<open>dict\<close> keeps insertion order, and assigning to a present key keeps its place.
  The model is an association list with distinct keys; assignment is the library's
  \<^const>\<open>AList.update\<close>, lookup is \<^const>\<open>map_of\<close>.
\<close>

type_synonym ('k, 'v) dict = "('k \<times> 'v) list"

abbreviation dict_get :: "('k, 'v) dict \<Rightarrow> 'k \<Rightarrow> 'v option" where
  "dict_get d k \<equiv> map_of d k"

abbreviation dict_set :: "'k \<Rightarrow> 'v \<Rightarrow> ('k, 'v) dict \<Rightarrow> ('k, 'v) dict" where
  "dict_set \<equiv> AList.update"

abbreviation dict_keys :: "('k, 'v) dict \<Rightarrow> 'k list" where
  "dict_keys d \<equiv> map fst d"

abbreviation dict_values :: "('k, 'v) dict \<Rightarrow> 'v list" where
  "dict_values d \<equiv> map snd d"

definition dict_wf :: "('k, 'v) dict \<Rightarrow> bool" where
  "dict_wf d \<longleftrightarrow> distinct (dict_keys d)"

text \<open>The display \<open>{**left, **right}\<close>: every item of \<open>right\<close> assigned in turn.\<close>

definition dict_merge :: "('k, 'v) dict \<Rightarrow> ('k, 'v) dict \<Rightarrow> ('k, 'v) dict" where
  "dict_merge l r = fold (\<lambda>(k, v) d. dict_set k v d) r l"

named_theorems dict_simps "lookup and well-formedness of dictionary operations"

lemma dict_get_set [dict_simps]:
  "dict_get (dict_set k v d) k' = (if k' = k then Some v else dict_get d k')"
  by (simp add: update_conv')

lemma dict_set_fresh [dict_simps]:
  "k \<notin> set (dict_keys d) \<Longrightarrow> dict_set k v d = d @ [(k, v)]"
  by (induction d) auto

lemma dict_wf_Nil [dict_simps]: "dict_wf []"
  by (simp add: dict_wf_def)

lemma dict_wf_set [dict_simps]: "dict_wf d \<Longrightarrow> dict_wf (dict_set k v d)"
  by (simp add: dict_wf_def distinct_update)

lemma dict_wf_merge [dict_simps]: "dict_wf l \<Longrightarrow> dict_wf (dict_merge l r)"
  unfolding dict_merge_def
  by (induction r arbitrary: l) (auto simp: dict_simps)

lemma dict_get_merge [dict_simps]:
  "dict_wf r \<Longrightarrow> dict_get (dict_merge l r) k =
     (case dict_get r k of Some v \<Rightarrow> Some v | None \<Rightarrow> dict_get l k)"
proof (induction r arbitrary: l)
  case Nil
  then show ?case by (simp add: dict_merge_def)
next
  case (Cons kv r)
  obtain a b where kv: "kv = (a, b)" by (cases kv)
  with Cons.prems have wf: "dict_wf r" and a: "dict_get r a = None"
    by (auto simp: dict_wf_def map_of_eq_None_iff)
  have "dict_get (dict_merge l (kv # r)) k = dict_get (dict_merge (dict_set a b l) r) k"
    by (simp add: dict_merge_def kv)
  with Cons.IH [OF wf] a show ?case
    by (auto simp: kv dict_get_set split: option.splits)
qed

lemma dict_keys_set [dict_simps]:
  "set (dict_keys (dict_set k v d)) = insert k (set (dict_keys d))"
  by (induction d) auto

lemma dict_get_in_values: "dict_get d k = Some v \<Longrightarrow> v \<in> set (dict_values d)"
  by (drule map_of_SomeD) force

section \<open>Strings: \<open>split\<close> and \<open>join\<close>\<close>

text \<open>
  \<open>s.split(sep)\<close> with a non-empty separator cuts at the leftmost occurrences, which do not
  overlap. The empty separator (a \<open>ValueError\<close> in Python) is never passed by the code; the
  model leaves the string whole there.
\<close>

function split_go :: "string \<Rightarrow> string \<Rightarrow> string \<Rightarrow> string list" where
  "split_go sep acc s =
     (if s = [] then [rev acc]
      else if sep \<noteq> [] \<and> prefix sep s then rev acc # split_go sep [] (drop (length sep) s)
      else split_go sep (hd s # acc) (tl s))"
  by pat_completeness auto
termination
  by (relation "measure (\<lambda>(sep, acc, s). length s)") (auto simp: prefix_def)

declare split_go.simps [simp del]

definition py_split :: "string \<Rightarrow> string \<Rightarrow> string list" where
  "py_split sep s = split_go sep [] s"

fun py_join :: "string \<Rightarrow> string list \<Rightarrow> string" where
  "py_join sep [] = []"
| "py_join sep [p] = p"
| "py_join sep (p # q # ps) = p @ sep @ py_join sep (q # ps)"

lemma split_go_Nil [simp]: "split_go sep acc [] = [rev acc]"
  by (simp add: split_go.simps)

lemma split_go_Cons:
  "split_go sep acc (c # s) =
     (if sep \<noteq> [] \<and> prefix sep (c # s) then rev acc # split_go sep [] (drop (length sep) (c # s))
      else split_go sep (c # acc) s)"
  by (subst split_go.simps) simp

lemma split_go_not_Nil [simp]: "split_go sep acc s \<noteq> []"
  by (induction sep acc s rule: split_go.induct) (subst split_go.simps, auto)

lemma py_join_Cons: "ps \<noteq> [] \<Longrightarrow> py_join sep (p # ps) = p @ sep @ py_join sep ps"
  by (cases ps) auto

lemma py_join_split_go: "py_join sep (split_go sep acc s) = rev acc @ s"
proof (induction sep acc s rule: split_go.induct)
  case (1 sep acc s)
  show ?case
  proof (cases s)
    case Nil
    then show ?thesis by simp
  next
    case (Cons c s')
    with "1.IH" show ?thesis
      by (auto simp: split_go_Cons py_join_Cons prefix_def)
  qed
qed

lemma py_join_split: "py_join sep (py_split sep s) = s"
  by (simp add: py_split_def py_join_split_go)

text \<open>
  A part that is followed by a separator is recovered when the separator does not start
  earlier than where it was put; a last part when the separator does not occur in it.
\<close>

definition split_safe :: "string \<Rightarrow> string \<Rightarrow> bool" where
  "split_safe sep p \<longleftrightarrow> (\<forall>k < length p. \<not> prefix sep (drop k (p @ sep)))"

definition split_last :: "string \<Rightarrow> string \<Rightarrow> bool" where
  "split_last sep p \<longleftrightarrow> (\<forall>k < length p. \<not> prefix sep (drop k p))"

lemma split_safe_Cons:
  "split_safe sep (c # p) \<longleftrightarrow> \<not> prefix sep (c # p @ sep) \<and> split_safe sep p"
  by (simp add: split_safe_def All_less_Suc2)

lemma split_last_Cons:
  "split_last sep (c # p) \<longleftrightarrow> \<not> prefix sep (c # p) \<and> split_last sep p"
  by (simp add: split_last_def All_less_Suc2)

lemma prefix_longer: "prefix sep (p @ sep @ r) \<Longrightarrow> prefix sep (p @ sep)"
  by (rule prefix_length_prefix [where xs = "p @ sep @ r"]) auto

lemma split_go_safe:
  assumes "sep \<noteq> []" and "split_safe sep p"
  shows "split_go sep acc (p @ sep @ r) = (rev acc @ p) # split_go sep [] r"
  using assms(2)
proof (induction p arbitrary: acc)
  case Nil
  with assms(1) show ?case by (cases sep) (auto simp: split_go_Cons)
next
  case (Cons c p)
  have "\<not> prefix sep ((c # p) @ sep @ r)"
    using Cons.prems prefix_longer [of sep "c # p" r] by (auto simp: split_safe_Cons)
  with Cons show ?case by (simp add: split_go_Cons split_safe_Cons)
qed

lemma split_go_last: "split_last sep p \<Longrightarrow> split_go sep acc p = [rev acc @ p]"
  by (induction p arbitrary: acc) (auto simp: split_go_Cons split_last_Cons)

text \<open>Conversely, the parts a split yields are of that kind.\<close>

lemma split_go_shape:
  "sep \<noteq> [] \<Longrightarrow> \<exists>p rest. split_go sep acc s = (rev acc @ p) # rest
     \<and> (if rest = [] then split_last sep p else split_safe sep p)"
proof (induction sep acc s rule: split_go.induct)
  case (1 sep acc s)
  show ?case
  proof (cases s)
    case Nil
    then show ?thesis by (simp add: split_last_def)
  next
    case (Cons c s')
    show ?thesis
    proof (cases "prefix sep s")
      case True
      with "1.prems" Cons show ?thesis
        by (auto simp: split_go_Cons split_safe_def)
    next
      case False
      with "1.IH"(2) "1.prems" Cons obtain p rest where
        eq: "split_go sep (c # acc) s' = (rev (c # acc) @ p) # rest"
        and safe: "if rest = [] then split_last sep p else split_safe sep p"
        by auto
      have "s' = (if rest = [] then p else p @ sep @ py_join sep rest)"
        using arg_cong [OF eq, of "py_join sep"]
        by (auto simp: py_join_split_go py_join_Cons)
      then have "prefix (if rest = [] then c # p else c # p @ sep) s"
        by (auto simp: Cons prefix_def)
      with False have "\<not> prefix sep (if rest = [] then c # p else c # p @ sep)"
        by (meson prefix_order.trans)
      with safe eq Cons False show ?thesis
        by (intro exI [of _ "c # p"] exI [of _ rest])
           (auto simp: split_go_Cons split_safe_Cons split_last_Cons)
    qed
  qed
qed

lemma split_go_tail:
  "split_go sep acc s = p # q # ps \<Longrightarrow> \<exists>r. split_go sep [] r = q # ps"
proof (induction sep acc s rule: split_go.induct)
  case (1 sep acc s)
  show ?case
  proof (cases s)
    case Nil
    with "1.prems" show ?thesis by simp
  next
    case (Cons c s')
    with 1 show ?thesis
      by (cases "sep \<noteq> [] \<and> prefix sep s") (auto simp: split_go_Cons)
  qed
qed

text \<open>A split into three parts: the two first are safe, the last holds no separator.\<close>

lemma py_split_three:
  assumes "sep \<noteq> []" and "py_split sep s = [a, b, c]"
  shows "split_safe sep a \<and> split_safe sep b \<and> split_last sep c"
proof -
  from assms(2) have one: "split_go sep [] s = [a, b, c]" by (simp add: py_split_def)
  from split_go_tail [OF one] obtain r where two: "split_go sep [] r = [b, c]" ..
  from split_go_tail [OF two] obtain r' where three: "split_go sep [] r' = [c]" ..
  show ?thesis
    using split_go_shape [OF assms(1), of "[]" s] split_go_shape [OF assms(1), of "[]" r]
      split_go_shape [OF assms(1), of "[]" r'] one two three
    by auto
qed

section \<open>Sorting by a key\<close>

text \<open>\<open>sorted(xs, key=f)\<close> is a stable sort, as \<^const>\<open>sort_key\<close> is.\<close>

lemma sort_key_head_min:
  "sort_key f xs = y # ys \<Longrightarrow> x \<in> set xs \<Longrightarrow> f y \<le> f x"
  by (metis list.set_intros(1) list.simps(9) set_ConsD set_sort sorted_simps(2)
      sorted_sort_key image_eqI list.set_map order_refl)

lemma sort_key_Nil_iff [simp]: "sort_key f xs = [] \<longleftrightarrow> xs = []"
  by (metis set_empty set_sort)

lemma sort_key_head_in: "sort_key f xs = y # ys \<Longrightarrow> y \<in> set xs"
  by (metis list.set_intros(1) set_sort)

section \<open>Numbers and representations in messages\<close>

text \<open>\<open>str(n)\<close> of an integer, and \<open>repr(s)\<close> of a string whose characters are below 256.\<close>

definition digit_char :: "nat \<Rightarrow> char" where
  "digit_char d = char_of (48 + d)"

fun nat_str :: "nat \<Rightarrow> string" where
  "nat_str n = (if n < 10 then [digit_char n] else nat_str (n div 10) @ [digit_char (n mod 10)])"

declare nat_str.simps [simp del]

definition int_str :: "int \<Rightarrow> string" where
  "int_str i = (if i < 0 then CHR ''-'' # nat_str (nat (- i)) else nat_str (nat i))"

definition hex_char :: "nat \<Rightarrow> char" where
  "hex_char d = (if d < 10 then char_of (48 + d) else char_of (87 + d))"

definition repr_char :: "char \<Rightarrow> char \<Rightarrow> string" where
  "repr_char q c =
     (let n = of_char c :: nat in
      if c = q \<or> n = 92 then [CHR 0x5C, c]
      else if n = 10 then [CHR 0x5C, CHR ''n'']
      else if n = 13 then [CHR 0x5C, CHR ''r'']
      else if n = 9 then [CHR 0x5C, CHR ''t'']
      else if n < 32 \<or> 127 \<le> n \<and> n \<le> 160 \<or> n = 173
        then [CHR 0x5C, CHR ''x'', hex_char (n div 16), hex_char (n mod 16)]
      else [c])"

definition py_repr :: "string \<Rightarrow> string" where
  "py_repr s =
     (let q = (if CHR 0x27 \<in> set s \<and> CHR 0x22 \<notin> set s then CHR 0x22 else CHR 0x27) in
      q # concat (map (repr_char q) s) @ [q])"

lemma repr_char_not_Nil [simp]: "repr_char q c \<noteq> []"
  by (simp add: repr_char_def Let_def)

lemma length_concat_ge: "(\<And>x. f x \<noteq> []) \<Longrightarrow> length xs \<le> length (concat (map f xs))"
proof (induction xs)
  case (Cons x xs)
  then have "length xs \<le> length (concat (map f xs))" "1 \<le> length (f x)"
    by (simp_all add: Suc_le_eq)
  then show ?case unfolding list.map concat.simps length_append list.size by linarith
qed simp

lemma length_repr: "length s + 2 \<le> length (py_repr s)"
  using length_concat_ge [of "repr_char q" s for q] by (simp add: py_repr_def Let_def)

text \<open>\<open>s.removeprefix(p)\<close>.\<close>

definition remove_prefix :: "string \<Rightarrow> string \<Rightarrow> string" where
  "remove_prefix p s = (if prefix p s then drop (length p) s else s)"

section \<open>Substrings\<close>

text \<open>\<open>sub in s\<close> of two strings or two byte strings.\<close>

definition py_in :: "'a list \<Rightarrow> 'a list \<Rightarrow> bool" where
  "py_in sub s = list_ex (prefix sub) (suffixes s)"

lemma py_in_iff: "py_in sub s \<longleftrightarrow> (\<exists>a b. s = a @ sub @ b)"
proof -
  have "py_in sub s \<longleftrightarrow> (\<exists>t. suffix t s \<and> prefix sub t)" by (simp add: py_in_def list_ex_iff Bex_def)
  then show ?thesis unfolding suffix_def prefix_def by blast
qed

lemma py_in_append: "py_in sub s \<Longrightarrow> py_in sub (a @ s @ b)"
  unfolding py_in_iff by (metis append.assoc)

lemma py_in_prefix: "py_in sub s \<Longrightarrow> prefix s t \<Longrightarrow> py_in sub t"
  using py_in_append [of sub s "[]"] by (auto simp: prefix_def)

lemma py_in_map: "py_in sub s \<Longrightarrow> py_in (map f sub) (map f s)"
  unfolding py_in_iff by (metis map_append)

end
