(* ===== verification/Parsers.thy ===== *)
theory Parsers
  imports Prelude
begin

text \<open>
  \<open>src/src/codegenie/parsers\<close>: the capped readers \<open>_io.open_capped\<close>, \<open>safe_json.load\<close>,
  \<open>safe_yaml.load\<close>, \<open>loads\<close> and \<open>load_all\<close>, and the shared depth walker \<open>_depth\<close>. The file system
  appears as what \<open>os.open\<close>, \<open>os.fstat\<close> and \<open>os.read\<close> answered; \<open>json.loads\<close> and PyYAML's
  \<open>CSafeLoader\<close> are function parameters from bytes to a decoded object. Decoded objects live in
  a heap, because the depth walker memoizes by \<open>id()\<close> and YAML aliases share containers. The
  structured log events that accompany a refusal are not modelled.
\<close>

section \<open>Decoded objects\<close>

type_synonym addr = nat

datatype pyval = VNone | VScalar string | VRef addr

datatype container = PyDict "(string \<times> pyval) list" | PyList "pyval list"

type_synonym heap = "(addr, container) dict"

fun members :: "container \<Rightarrow> pyval list" where
  "members (PyDict kvs) = map snd kvs"
| "members (PyList vs) = vs"

text \<open>\<open>isinstance(obj, (dict, list))\<close>: only references into the heap are containers.\<close>

fun as_container :: "heap \<Rightarrow> pyval \<Rightarrow> (addr \<times> container) option" where
  "as_container h (VRef a) = map_option (\<lambda>c. (a, c)) (dict_get h a)"
| "as_container h v = None"

definition is_dict :: "heap \<Rightarrow> pyval \<Rightarrow> bool" where
  "is_dict h v \<longleftrightarrow> (case as_container h v of Some (_, PyDict _) \<Rightarrow> True | _ \<Rightarrow> False)"

section \<open>Errors and the file system's answers\<close>

datatype parser_error =
    SymlinkRefusedError
  | SizeCapExceeded int int
  | OSError int
  | MalformedJSONError string
  | MalformedYAMLError string
  | DepthCapExceeded int

datatype open_answer = OpenFailed int | Opened int string

definition errno_ELOOP :: int where "errno_ELOOP = 40"

definition open_capped :: "open_answer \<Rightarrow> int \<Rightarrow> parser_error + string" where
  "open_capped answer max_bytes =
     (case answer of
        OpenFailed errno \<Rightarrow> if errno = errno_ELOOP then Err SymlinkRefusedError else Err (OSError errno)
      | Opened sz data \<Rightarrow>
          if sz > max_bytes then Err (SizeCapExceeded sz max_bytes)
          else Ok (if sz > 0 then data else []))"

section \<open>The depth walker\<close>

definition unseen :: "heap \<Rightarrow> addr list \<Rightarrow> nat" where
  "unseen h seen = card (set (dict_keys h) - set seen)"

lemma unseen_mono: "set seen \<subseteq> set seen' \<Longrightarrow> unseen h seen' \<le> unseen h seen"
  unfolding unseen_def by (intro card_mono) auto

lemma as_container_Some:
  "as_container h v = Some (a, c) \<longleftrightarrow> v = VRef a \<and> dict_get h a = Some c"
  by (cases v) auto

lemma unseen_enter:
  assumes "as_container h v = Some (a, c)" and "a \<notin> set seen"
  shows "unseen h (a # seen) < unseen h seen"
proof -
  from assms(1) have "a \<in> set (dict_keys h)"
    by (cases v) (auto simp: rev_image_eqI dest!: map_of_SomeD)
  with assms(2) show ?thesis
    unfolding unseen_def by (intro psubset_card_mono) auto
qed

text \<open>
  \<open>_walk\<close> threads the mutable set \<open>seen\<close>; it is returned. The recursion ends because every
  container is entered at most once: what is left of the heap shrinks.
\<close>

function depth_walk :: "heap \<Rightarrow> int \<Rightarrow> pyval \<Rightarrow> int \<Rightarrow> addr list \<Rightarrow> parser_error + addr list"
and depth_walk_all :: "heap \<Rightarrow> int \<Rightarrow> pyval list \<Rightarrow> int \<Rightarrow> addr list \<Rightarrow> parser_error + addr list" where
  "depth_walk h max_depth obj current seen =
     (case as_container h obj of
        None \<Rightarrow> Ok seen
      | Some (obj_id, c) \<Rightarrow>
          if current > max_depth then Err (DepthCapExceeded max_depth)
          else if obj_id \<in> set seen then Ok seen
          else depth_walk_all h max_depth (members c) (current + 1) (obj_id # seen))"
| "depth_walk_all h max_depth [] current seen = Ok seen"
| "depth_walk_all h max_depth (v # vs) current seen =
     (case depth_walk h max_depth v current seen of
        Err e \<Rightarrow> Err e
      | Ok seen' \<Rightarrow> depth_walk_all h max_depth vs current (List.union seen seen'))"
  by pat_completeness auto

termination
proof (relation "measures [
      \<lambda>x. case x of Inl (h, m, v, c, s) \<Rightarrow> unseen h s | Inr (h, m, vs, c, s) \<Rightarrow> unseen h s,
      \<lambda>x. case x of Inl (h, m, v, c, s) \<Rightarrow> 0 | Inr (h, m, vs, c, s) \<Rightarrow> Suc (length vs)]",
    goal_cases)
  case 1
  show ?case by simp
next
  case (2 h m v c s x a d)
  then show ?case using unseen_enter [of h v a d s] by auto
next
  case (3 h m v vs c s)
  then show ?case by simp
next
  case (4 h m v vs c s s')
  then show ?case using unseen_mono [of s "List.union s s'" h] by (auto simp: le_less)
qed

text \<open>
  The union keeps the recursion visibly within the heap: \<open>seen'\<close> already contains \<open>seen\<close>
  (\<open>depth_walk_extends\<close> below), so as a set it is \<open>seen'\<close> itself.
\<close>

declare depth_walk.simps [simp del]

definition assert_max_depth :: "heap \<Rightarrow> pyval \<Rightarrow> int \<Rightarrow> parser_error + unit" where
  "assert_max_depth h obj max_depth =
     (case depth_walk h max_depth obj 0 [] of Err e \<Rightarrow> Err e | Ok _ \<Rightarrow> Ok ())"

section \<open>What the depth walker decides\<close>

text \<open>The tree a reference unfolds to, with the addresses of its containers in walking order.\<close>

datatype jtree = Leaf | Node "jtree list"

inductive unfolds :: "heap \<Rightarrow> pyval \<Rightarrow> jtree \<Rightarrow> addr list \<Rightarrow> bool"
  and unfolds_all :: "heap \<Rightarrow> pyval list \<Rightarrow> jtree list \<Rightarrow> addr list \<Rightarrow> bool"
  for h where
  leaf: "as_container h v = None \<Longrightarrow> unfolds h v Leaf []"
| node: "as_container h v = Some (a, c) \<Longrightarrow> unfolds_all h (members c) ts ids \<Longrightarrow>
    unfolds h v (Node ts) (a # ids)"
| none: "unfolds_all h [] [] []"
| more: "unfolds h v t ids \<Longrightarrow> unfolds_all h vs ts ids' \<Longrightarrow> unfolds_all h (v # vs) (t # ts) (ids @ ids')"

fun depth_ok :: "int \<Rightarrow> int \<Rightarrow> jtree \<Rightarrow> bool" where
  "depth_ok m c Leaf = True"
| "depth_ok m c (Node ts) = (c \<le> m \<and> list_all (depth_ok m (c + 1)) ts)"

text \<open>A chain of containers, each a member of the one before.\<close>

inductive nested :: "heap \<Rightarrow> pyval \<Rightarrow> nat \<Rightarrow> bool" for h where
  here: "as_container h v = Some (a, c) \<Longrightarrow> nested h v 0"
| inner: "as_container h v = Some (a, c) \<Longrightarrow> w \<in> set (members c) \<Longrightarrow> nested h w n \<Longrightarrow> nested h v (Suc n)"

lemma depth_walk_extends:
  "depth_walk h m v c seen = Ok seen' \<Longrightarrow> set seen \<subseteq> set seen'"
  "depth_walk_all h m vs c seen = Ok seen' \<Longrightarrow> set seen \<subseteq> set seen'"
proof (induction h m v c seen and h m vs c seen arbitrary: seen' and seen'
    rule: depth_walk_depth_walk_all.induct)
  case (1 h m v c s)
  then show ?case
    by (subst (asm) depth_walk.simps) (fastforce split: option.splits prod.splits if_splits)
next
  case (3 h m v vs c s)
  then show ?case by (fastforce split: sum.splits)
qed simp

lemma depth_walk_tree:
  "unfolds h v t ids \<Longrightarrow> distinct ids \<Longrightarrow> set ids \<inter> set seen = {} \<Longrightarrow>
     (if depth_ok m c t then \<exists>seen'. depth_walk h m v c seen = Ok seen' \<and> set seen' = set seen \<union> set ids
      else depth_walk h m v c seen = Err (DepthCapExceeded m))"
  "unfolds_all h vs ts ids \<Longrightarrow> distinct ids \<Longrightarrow> set ids \<inter> set seen = {} \<Longrightarrow>
     (if list_all (depth_ok m c) ts
      then \<exists>seen'. depth_walk_all h m vs c seen = Ok seen' \<and> set seen' = set seen \<union> set ids
      else depth_walk_all h m vs c seen = Err (DepthCapExceeded m))"
proof (induction arbitrary: c seen and c seen rule: unfolds_unfolds_all.inducts)
  case (leaf v)
  then show ?case by (simp add: depth_walk.simps)
next
  case (node v a ct ts ids)
  then show ?case

    using node.IH(3) [of "a # seen" "c + 1"]
    by (subst (1 2) depth_walk.simps) (auto split: if_splits)
next
  case none
  then show ?case by simp
next
  case (more v t ids vs ts ids')
  from more.prems have d: "distinct ids" "set ids \<inter> set seen = {}" by auto
  note one = more.IH(2) [OF d, of c]
  show ?case
  proof (cases "depth_ok m c t")
    case False
    with one more.prems show ?thesis by auto
  next
    case True
    with one more.prems obtain s1 where s1: "depth_walk h m v c seen = Ok s1"
      "set s1 = set seen \<union> set ids" by auto
    with more.prems have "set ids' \<inter> set (List.union seen s1) = {}" by auto
    from more.IH(4) [OF _ this, of c] s1 more.prems True show ?thesis
      by (auto split: if_splits)
  qed
qed

lemma depth_walk_refusal:
  "depth_walk h m v c seen = Err e \<Longrightarrow> e = DepthCapExceeded m \<and> (\<exists>n. nested h v n \<and> c + int n > m)"
  "depth_walk_all h m vs c seen = Err e \<Longrightarrow>
     e = DepthCapExceeded m \<and> (\<exists>v \<in> set vs. \<exists>n. nested h v n \<and> c + int n > m)"
proof (induction h m v c seen and h m vs c seen rule: depth_walk_depth_walk_all.induct)
  case (1 h m v c s)
  from "1.prems" obtain a ct where cont: "as_container h v = Some (a, ct)"
    by (auto simp: depth_walk.simps [of h m v c s] split: option.splits)
  show ?case
  proof (cases "c > m")
    case True
    with "1.prems" cont show ?thesis
      by (auto simp: depth_walk.simps [of h m v c s] intro: nested.here exI [of _ 0])
  next
    case False
    with "1.prems" cont have a: "a \<notin> set s"
      and all: "depth_walk_all h m (members ct) (c + 1) (a # s) = Err e"
      by (auto simp: depth_walk.simps [of h m v c s] split: if_splits)
    from "1.IH" [OF cont refl False a all] obtain w n where
      "e = DepthCapExceeded m" "w \<in> set (members ct)" "nested h w n" "c + 1 + int n > m" by auto
    with cont show ?thesis
      by (auto intro!: exI [of _ "Suc n"] intro: nested.inner)
  qed
next
  case (2 h m c s)
  then show ?case by simp
next
  case (3 h m v vs c s)
  show ?case
  proof (cases "depth_walk h m v c s")
    case (Inl e')
    with 3 show ?thesis by auto
  next
    case (Inr s')
    with "3.prems" "3.IH"(2) [OF Inr] show ?thesis by auto
  qed
qed

lemma depth_check_tree:
  "unfolds h obj t ids \<Longrightarrow> distinct ids \<Longrightarrow> assert_max_depth h obj max_depth =
    (if depth_ok max_depth 0 t then Ok () else Err (DepthCapExceeded max_depth))"
  using depth_walk_tree(1) [of h obj t ids "[]" max_depth 0]
  by (auto simp: assert_max_depth_def split: if_splits)

section \<open>The readers\<close>

text \<open>\<open>json.loads\<close> answers a decode error message or an object in a heap.\<close>

type_synonym decoder = "string \<Rightarrow> string + (heap \<times> pyval)"

definition safe_json_decode :: "decoder \<Rightarrow> string \<Rightarrow> parser_error + (heap \<times> pyval)" where
  "safe_json_decode json_loads data =
     (if data = [] then Err (MalformedJSONError ''empty file'')
      else case json_loads data of
        Err detail \<Rightarrow> Err (MalformedJSONError (take 200 detail))
      | Ok (h, obj) \<Rightarrow>
          if \<not> is_dict h obj then Err (MalformedJSONError ''expected JSON object at top level'')
          else Ok (h, obj))"

definition safe_json_load ::
  "decoder \<Rightarrow> open_answer \<Rightarrow> int \<Rightarrow> int \<Rightarrow> parser_error + (heap \<times> pyval)" where
  "safe_json_load json_loads answer max_bytes max_depth =
     rbind (open_capped answer max_bytes) (\<lambda>data.
       rbind (safe_json_decode json_loads data) (\<lambda>(h, obj).
         rbind (assert_max_depth h obj max_depth) (\<lambda>_. Ok (h, obj))))"

text \<open>\<open>yaml.load\<close> answers a \<open>YAMLError\<close> or a document; \<open>yaml.load_all\<close> a sequence of
  documents that ends normally or with a \<open>YAMLError\<close>.\<close>

definition yaml_parse_one :: "decoder \<Rightarrow> string \<Rightarrow> parser_error + (heap \<times> pyval)" where
  "yaml_parse_one yaml_load data =
     (case yaml_load data of
        Err detail \<Rightarrow> Err (MalformedYAMLError detail)
      | Ok r \<Rightarrow> Ok r)"

definition yaml_top_mapping :: "int \<Rightarrow> heap \<times> pyval \<Rightarrow> parser_error + (heap \<times> pyval)" where
  "yaml_top_mapping max_depth r = (case r of (h, obj) \<Rightarrow>
     if obj = VNone \<or> \<not> is_dict h obj then Err (MalformedYAMLError ''top-level must be a mapping'')
     else rbind (assert_max_depth h obj max_depth) (\<lambda>_. Ok (h, obj)))"

definition safe_yaml_load ::
  "decoder \<Rightarrow> open_answer \<Rightarrow> int \<Rightarrow> int \<Rightarrow> parser_error + (heap \<times> pyval)" where
  "safe_yaml_load yaml_load answer max_bytes max_depth =
     rbind (open_capped answer max_bytes) (\<lambda>data.
       rbind (yaml_parse_one yaml_load data) (yaml_top_mapping max_depth))"

definition safe_yaml_loads ::
  "decoder \<Rightarrow> string \<Rightarrow> int \<Rightarrow> int \<Rightarrow> parser_error + (heap \<times> pyval)" where
  "safe_yaml_loads yaml_load data max_bytes max_depth =
     (if int (length data) > max_bytes then Err (SizeCapExceeded (int (length data)) max_bytes)
      else rbind (yaml_parse_one yaml_load data) (yaml_top_mapping max_depth))"

text \<open>The generator of \<open>load_all\<close>, driven to its end: the documents yielded, and how it ended.\<close>

fun yaml_generate ::
  "heap \<Rightarrow> pyval list \<Rightarrow> string option \<Rightarrow> int \<Rightarrow> pyval list \<times> (parser_error + unit)" where
  "yaml_generate h [] trailing max_depth =
     ([], case trailing of None \<Rightarrow> Ok () | Some detail \<Rightarrow> Err (MalformedYAMLError detail))"
| "yaml_generate h (doc # docs) trailing max_depth =
     (if doc \<noteq> VNone \<and> \<not> is_dict h doc
      then ([], Err (MalformedYAMLError ''document must be a mapping or empty''))
      else case (if doc \<noteq> VNone then assert_max_depth h doc max_depth else Ok ()) of
        Err e \<Rightarrow> ([], Err e)
      | Ok _ \<Rightarrow> (case yaml_generate h docs trailing max_depth of (out, ending) \<Rightarrow> (doc # out, ending)))"

definition safe_yaml_load_all ::
  "(string \<Rightarrow> heap \<times> pyval list \<times> string option) \<Rightarrow> open_answer \<Rightarrow> int \<Rightarrow> int
     \<Rightarrow> parser_error + (heap \<times> pyval list \<times> (parser_error + unit))" where
  "safe_yaml_load_all yaml_load_all answer max_bytes max_depth =
     rbind (open_capped answer max_bytes) (\<lambda>data.
       case yaml_load_all data of (h, docs, trailing) \<Rightarrow>
         case yaml_generate h docs trailing max_depth of (out, ending) \<Rightarrow> Ok (h, out, ending))"

lemma safe_json_decode_Ok:
  "safe_json_decode dec data = Ok (h, obj) \<longleftrightarrow> data \<noteq> [] \<and> dec data = Ok (h, obj) \<and> is_dict h obj"
  by (cases "dec data") (auto simp: safe_json_decode_def split: if_splits)

lemma safe_json_load_Ok:
  "safe_json_load dec answer mb md = Ok (h, obj) \<longleftrightarrow>
     (\<exists>data. open_capped answer mb = Ok data \<and> data \<noteq> [] \<and> dec data = Ok (h, obj)
        \<and> is_dict h obj \<and> assert_max_depth h obj md = Ok ())"
  by (auto simp: safe_json_load_def rbind_iffs safe_json_decode_Ok split: prod.splits)

section \<open>Properties\<close>

text \<open>On a decoded object without shared containers the depth check is exact: it accepts if
  and only if no container lies deeper than the cap, and otherwise raises the cap error.\<close>

theorem depth_check_exact_on_trees:
  assumes "unfolds h obj t ids" and "distinct ids"
  shows "assert_max_depth h obj max_depth =
    (if depth_ok max_depth 0 t then Ok () else Err (DepthCapExceeded max_depth))"
  by (rule depth_check_tree [OF assms])

text \<open>A three-level list, and a mapping whose two members share one container.\<close>

definition deep_heap :: heap where
  "deep_heap = [(0, PyList [VRef 1]), (1, PyList [VRef 2, VScalar ''x'']), (2, PyDict [])]"

definition alias_heap :: heap where
  "alias_heap = [(0, PyList [VRef 2, VRef 1]), (1, PyList [VRef 2]), (2, PyList [VRef 3]), (3, PyList [])]"

theorem depth_check_exact_on_trees_witness:
  "assert_max_depth deep_heap (VRef 0) 2 = Ok () \<and>
   assert_max_depth deep_heap (VRef 0) 1 = Err (DepthCapExceeded 1)"
proof -
  have "unfolds deep_heap (VRef 2) (Node []) [2]"
    by (rule node [where c = "PyDict []"]) (simp_all add: deep_heap_def none)
  moreover have "unfolds deep_heap (VScalar ''x'') Leaf []" by (simp add: leaf)
  ultimately have "unfolds_all deep_heap [VRef 2, VScalar ''x''] [Node [], Leaf] ([2] @ [] @ [])"
    by (intro more none)
  then have "unfolds deep_heap (VRef 1) (Node [Node [], Leaf]) [1, 2]"
    by (intro node [where c = "PyList [VRef 2, VScalar ''x'']"]) (simp_all add: deep_heap_def)
  then have "unfolds_all deep_heap [VRef 1] [Node [Node [], Leaf]] ([1, 2] @ [])"
    by (intro more none)
  then have u: "unfolds deep_heap (VRef 0) (Node [Node [Node [], Leaf]]) [0, 1, 2]"
    by (intro node [where c = "PyList [VRef 1]"]) (simp_all add: deep_heap_def)
  from depth_check_exact_on_trees [OF u, of 2] depth_check_exact_on_trees [OF u, of 1]
  show ?thesis by simp
qed

text \<open>A refusal is never spurious, aliases or not: when the depth check raises, there is a
  chain of nested containers that is longer than the cap allows.\<close>

theorem depth_check_refusal_genuine:
  assumes "assert_max_depth h obj max_depth = Err e"
  shows "e = DepthCapExceeded max_depth \<and> (\<exists>n. nested h obj n \<and> int n > max_depth)"
  using assms depth_walk_refusal(1) [of h max_depth obj 0 "[]"]
  by (auto simp: assert_max_depth_def split: sum.splits)

theorem depth_check_refusal_genuine_witness:
  "\<exists>n. nested deep_heap (VRef 0) n \<and> int n > 1"
proof -
  have h: "assert_max_depth deep_heap (VRef 0) 1 = Err (DepthCapExceeded 1)"
    by code_simp
  show ?thesis using depth_check_refusal_genuine [OF h] by simp
qed

text \<open>
  With aliases the check is not exact: a container that was first met near the root is not
  entered again below a longer path, so a chain that is deeper than the cap is accepted.
\<close>

lemma depth_check_misses_alias:
  "assert_max_depth alias_heap (VRef 0) 2 = Ok () \<and> nested alias_heap (VRef 0) 3"
proof
  show "assert_max_depth alias_heap (VRef 0) 2 = Ok ()" by code_simp
  have "nested alias_heap (VRef 3) 0"
    by (rule nested.here [where c = "PyList []"]) (simp add: alias_heap_def)
  then have "nested alias_heap (VRef 2) (Suc 0)"
    by (rule nested.inner [where c = "PyList [VRef 3]", rotated 2]) (simp_all add: alias_heap_def)
  then have "nested alias_heap (VRef 1) (Suc (Suc 0))"
    by (rule nested.inner [where c = "PyList [VRef 2]", rotated 2]) (simp_all add: alias_heap_def)
  then have "nested alias_heap (VRef 0) (Suc (Suc (Suc 0)))"
    by (rule nested.inner [where c = "PyList [VRef 2, VRef 1]", rotated 2]) (simp_all add: alias_heap_def)
  then show "nested alias_heap (VRef 0) 3" by (simp add: numeral_3_eq_3)
qed

text \<open>What \<open>safe_json.load\<close> returns is a mapping read from a file within the size cap, and
  every chain of containers in an unshared result respects the depth cap.\<close>

theorem safe_json_load_bounded:
  assumes "safe_json_load dec (Opened sz data) max_bytes max_depth = Ok (h, obj)"
    and "unfolds h obj t ids" and "distinct ids"
  shows "sz \<le> max_bytes \<and> is_dict h obj \<and> depth_ok max_depth 0 t"
  using assms(1) depth_check_tree [OF assms(2,3), of max_depth]
  by (auto simp: safe_json_load_Ok open_capped_def split: if_splits)

theorem safe_json_load_bounded_witness:
  "is_dict [(0, PyDict [])] (VRef 0) \<and> depth_ok 64 0 (Node [])"
proof -
  have l: "safe_json_load (\<lambda>_. Ok ([(0, PyDict [])], VRef 0)) (Opened 2 ''{}'') 10 64
      = Ok ([(0, PyDict [])], VRef 0)"
    by code_simp
  have u: "unfolds [(0, PyDict [])] (VRef 0) (Node []) [0]"
    by (rule node [where c = "PyDict []"]) (simp_all add: none)
  from safe_json_load_bounded [OF l u] show ?thesis by simp
qed

end
