(* ===== verification/Jsonc.thy ===== *)
theory Jsonc
  imports Parsers
begin

text \<open>
  \<open>src/src/codegenie/parsers/jsonc.py\<close>: the comment stripper in front of \<open>json.loads\<close> and the
  loader around it. Bytes are 8-bit characters. The loop of \<open>_strip_comments\<close> walks an index
  through \<open>data\<close> with one byte of lookahead; the model recurses on the bytes from that index on
  (\<open>i + 1 < n\<close> is that the rest is not empty). The declarative grammar \<open>stripped\<close> is the
  specification: it says which texts are well formed and what remains of them.
\<close>

section \<open>The stripper\<close>

datatype jsonc_state = S_CODE | S_STRING | S_LINE_COMMENT | S_BLOCK_COMMENT

abbreviation byte_newline :: char where "byte_newline \<equiv> CHR 0x0A"
abbreviation byte_backslash :: char where "byte_backslash \<equiv> CHR 0x5C"
abbreviation byte_double_quote :: char where "byte_double_quote \<equiv> CHR 0x22"
abbreviation byte_slash :: char where "byte_slash \<equiv> CHR 0x2F"
abbreviation byte_star :: char where "byte_star \<equiv> CHR 0x2A"

datatype jsonc_error = UnterminatedString | UnterminatedBlockComment | AssertionError

text \<open>\<open>peek c rest\<close>: there is a next byte and it is \<open>c\<close>.\<close>

definition peek :: "char \<Rightarrow> string \<Rightarrow> bool" where
  "peek c rest \<longleftrightarrow> rest \<noteq> [] \<and> hd rest = c"

fun strip_loop :: "jsonc_state \<Rightarrow> int \<Rightarrow> bool \<Rightarrow> string \<Rightarrow> string \<Rightarrow> jsonc_state \<times> string" where
  "strip_loop state block_depth escaped out [] = (state, out)"
| "strip_loop S_CODE block_depth escaped out (b # rest) =
     (if b = byte_slash \<and> peek byte_slash rest
        then strip_loop S_LINE_COMMENT block_depth escaped out (tl rest)
      else if b = byte_slash \<and> peek byte_star rest
        then strip_loop S_BLOCK_COMMENT 1 escaped out (tl rest)
      else if b = byte_double_quote
        then strip_loop S_STRING block_depth False (out @ [b]) rest
      else strip_loop S_CODE block_depth escaped (out @ [b]) rest)"
| "strip_loop S_STRING block_depth escaped out (b # rest) =
     (if escaped then strip_loop S_STRING block_depth False (out @ [b]) rest
      else if b = byte_backslash then strip_loop S_STRING block_depth True (out @ [b]) rest
      else if b = byte_double_quote then strip_loop S_CODE block_depth escaped (out @ [b]) rest
      else strip_loop S_STRING block_depth escaped (out @ [b]) rest)"
| "strip_loop S_LINE_COMMENT block_depth escaped out (b # rest) =
     (if b = byte_newline then strip_loop S_CODE block_depth escaped (out @ [b]) rest
      else strip_loop S_LINE_COMMENT block_depth escaped out rest)"
| "strip_loop S_BLOCK_COMMENT block_depth escaped out (b # rest) =
     (if b = byte_slash \<and> peek byte_star rest
        then strip_loop S_BLOCK_COMMENT (block_depth + 1) escaped out (tl rest)
      else if b = byte_star \<and> peek byte_slash rest
        then (if block_depth - 1 = 0
              then strip_loop S_CODE (block_depth - 1) escaped out (tl rest)
              else strip_loop S_BLOCK_COMMENT (block_depth - 1) escaped out (tl rest))
      else strip_loop S_BLOCK_COMMENT block_depth escaped out rest)"

definition strip_comments :: "string \<Rightarrow> jsonc_error + string" where
  "strip_comments data =
     (case strip_loop S_CODE 0 False [] data of (state, out) \<Rightarrow>
        if state = S_STRING then Err UnterminatedString
        else if state = S_BLOCK_COMMENT then Err UnterminatedBlockComment
        else if length out \<le> length data then Ok out
        else Err AssertionError)"

section \<open>The loader\<close>

definition jsonc_load ::
  "decoder \<Rightarrow> open_answer \<Rightarrow> int \<Rightarrow> int \<Rightarrow> parser_error + (heap \<times> pyval)" where
  "jsonc_load json_loads answer max_bytes max_depth =
     (case answer of
        OpenFailed errno \<Rightarrow> if errno = errno_ELOOP then Err SymlinkRefusedError else Err (OSError errno)
      | Opened sz data0 \<Rightarrow>
          if sz > max_bytes then Err (SizeCapExceeded sz max_bytes)
          else let data = (if sz > 0 then data0 else []) in
          if int (length data) \<noteq> sz then Err (MalformedJSONError ''short read'')
          else case strip_comments data of
            Err UnterminatedString \<Rightarrow> Err (MalformedJSONError ''unterminated string'')
          | Err UnterminatedBlockComment \<Rightarrow> Err (MalformedJSONError ''unterminated block comment'')
          | Err AssertionError \<Rightarrow> Err (MalformedJSONError ''assertion'')
          | Ok stripped \<Rightarrow>
              if stripped = [] then Err (MalformedJSONError ''empty file'')
              else case json_loads stripped of
                Err detail \<Rightarrow> Err (MalformedJSONError (take 200 detail))
              | Ok (h, obj) \<Rightarrow>
                  if \<not> is_dict h obj then Err (MalformedJSONError ''expected JSON object at top level'')
                  else rbind (assert_max_depth h obj max_depth) (\<lambda>_. Ok (h, obj)))"

section \<open>The grammar\<close>

text \<open>A string body up to its closing quote: escapes hide the byte that follows them.\<close>

inductive string_rest :: "string \<Rightarrow> bool" where
  str_close: "string_rest [byte_double_quote]"
| str_escape: "string_rest s \<Longrightarrow> string_rest (byte_backslash # c # s)"
| str_plain: "c \<noteq> byte_backslash \<Longrightarrow> c \<noteq> byte_double_quote \<Longrightarrow> string_rest s \<Longrightarrow> string_rest (c # s)"

text \<open>The rest of a block comment at a nesting depth, up to the delimiter that closes it.\<close>

definition block_plain :: "char \<Rightarrow> string \<Rightarrow> bool" where
  "block_plain c s \<longleftrightarrow> \<not> (c = byte_slash \<and> peek byte_star s) \<and> \<not> (c = byte_star \<and> peek byte_slash s)"

inductive block_rest :: "nat \<Rightarrow> string \<Rightarrow> bool" where
  blk_last: "block_rest 1 [byte_star, byte_slash]"
| blk_close: "0 < d \<Longrightarrow> block_rest d s \<Longrightarrow> block_rest (Suc d) (byte_star # byte_slash # s)"
| blk_nest: "block_rest (Suc d) s \<Longrightarrow> block_rest d (byte_slash # byte_star # s)"
| blk_plain: "block_plain c s \<Longrightarrow> block_rest d s \<Longrightarrow> block_rest d (c # s)"

text \<open>A byte of code: not a quote, and not the start of a comment given what follows.\<close>

definition code_plain :: "char \<Rightarrow> string \<Rightarrow> bool" where
  "code_plain c s \<longleftrightarrow> c \<noteq> byte_double_quote \<and>
     \<not> (c = byte_slash \<and> (peek byte_slash s \<or> peek byte_star s))"

text \<open>
  \<open>stripped text out\<close>: \<open>text\<close> is a sequence of code bytes, string literals, line comments (closed
  by a newline or the end of the text) and nested block comments, and \<open>out\<close> is \<open>text\<close> without the
  comments, with the newlines that close line comments.
\<close>

inductive stripped :: "string \<Rightarrow> string \<Rightarrow> bool" where
  finish: "stripped [] []"
| code: "code_plain c s \<Longrightarrow> stripped s out \<Longrightarrow> stripped (c # s) (c # out)"
| str: "string_rest body \<Longrightarrow> stripped s out \<Longrightarrow>
    stripped (byte_double_quote # body @ s) (byte_double_quote # body @ out)"
| line: "byte_newline \<notin> set body \<Longrightarrow> stripped s out \<Longrightarrow>
    stripped (byte_slash # byte_slash # body @ byte_newline # s) (byte_newline # out)"
| line_eof: "byte_newline \<notin> set body \<Longrightarrow> stripped (byte_slash # byte_slash # body) []"
| block: "block_rest 1 body \<Longrightarrow> stripped s out \<Longrightarrow>
    stripped (byte_slash # byte_star # body @ s) out"

section \<open>The loop implements the grammar\<close>

lemma peek_simps [simp]: "\<not> peek c []" "peek c (d # s) \<longleftrightarrow> d = c"
  by (auto simp: peek_def)

lemma strip_loop_code_plain:
  "code_plain c s \<Longrightarrow> strip_loop S_CODE k e out (c # s) = strip_loop S_CODE k e (out @ [c]) s"
  by (auto simp: code_plain_def)

lemma strip_loop_string:
  "string_rest body \<Longrightarrow>
     strip_loop S_STRING k False out (body @ s) = strip_loop S_CODE k False (out @ body) s"
  by (induction arbitrary: out rule: string_rest.induct) auto

lemma strip_loop_line:
  "byte_newline \<notin> set body \<Longrightarrow>
     strip_loop S_LINE_COMMENT k e out (body @ byte_newline # s) = strip_loop S_CODE k e (out @ [byte_newline]) s"
  by (induction body) auto

lemma strip_loop_line_eof:
  "byte_newline \<notin> set body \<Longrightarrow> strip_loop S_LINE_COMMENT k e out body = (S_LINE_COMMENT, out)"
  by (induction body) auto

lemma block_rest_pos: "block_rest d s \<Longrightarrow> d = Suc d' \<Longrightarrow> s \<noteq> []"
  by (induction rule: block_rest.induct) auto

lemma strip_loop_block:
  "block_rest d body \<Longrightarrow> 0 < d \<Longrightarrow>
     strip_loop S_BLOCK_COMMENT (int d) e out (body @ s) = strip_loop S_CODE 0 e out s"
proof (induction rule: block_rest.induct)
  case (blk_plain c b d)
  then have "b \<noteq> []" by (metis block_rest_pos gr0_implies_Suc)
  with blk_plain show ?case
    by (cases b) (auto simp: block_plain_def)
next
  case (blk_close d b)
  then show ?case by (simp add: algebra_simps)
qed (auto simp: add.commute)

text \<open>The output and the depth on entry are irrelevant outside a block comment.\<close>

lemma strip_loop_stripped:
  "stripped text r \<Longrightarrow> \<exists>st. strip_loop S_CODE k e out text = (st, out @ r) \<and> st \<in> {S_CODE, S_LINE_COMMENT}"
proof (induction arbitrary: k e out rule: stripped.induct)
  case (code c s r)
  then show ?case
    using code.IH [of k e "out @ [c]"]
    by (simp del: strip_loop.simps(2) add: strip_loop_code_plain)
next
  case (str body s r)
  then show ?case
    using str.IH [of k False "out @ byte_double_quote # body"] by (auto simp: strip_loop_string)
next
  case (line body s r)
  then show ?case
    using line.IH [of k e "out @ [byte_newline]"] by (auto simp: strip_loop_line)
next
  case (line_eof body)
  then show ?case by (auto simp: strip_loop_line_eof)
next
  case (block body s r)
  then show ?case
    using strip_loop_block [of 1 body e out s] by auto
qed auto

text \<open>Conversely, what each state of the loop has accepted when it ends outside a string and a
  block comment.\<close>

fun accepts :: "jsonc_state \<Rightarrow> nat \<Rightarrow> bool \<Rightarrow> string \<Rightarrow> string \<Rightarrow> bool" where
  "accepts S_CODE d e text r = stripped text r"
| "accepts S_STRING d e text r = (\<exists>body s q. text = body @ s \<and> r = body @ q \<and> stripped s q \<and>
     (if e then body \<noteq> [] \<and> string_rest (tl body) else string_rest body))"
| "accepts S_LINE_COMMENT d e text r = ((byte_newline \<notin> set text \<and> r = []) \<or>
     (\<exists>body s q. text = body @ byte_newline # s \<and> byte_newline \<notin> set body \<and> r = byte_newline # q \<and> stripped s q))"
| "accepts S_BLOCK_COMMENT d e text r = (\<exists>body s. text = body @ s \<and> block_rest d body \<and> stripped s r)"

lemma accepts_stringI:
  "stripped s q \<Longrightarrow> (if e then body \<noteq> [] \<and> string_rest (tl body) else string_rest body) \<Longrightarrow>
     accepts S_STRING d e (body @ s) (body @ q)"
  by (simp only: accepts.simps) blast

lemma accepts_blockI:
  "stripped s r \<Longrightarrow> block_rest d body \<Longrightarrow> accepts S_BLOCK_COMMENT d e (body @ s) r"
  by auto

lemma accepts_lineI:
  "byte_newline \<notin> set body \<Longrightarrow> stripped s q \<Longrightarrow>
     accepts S_LINE_COMMENT d e (body @ byte_newline # s) (byte_newline # q)"
  by auto

lemma accepts_string_Cons:
  "accepts S_STRING d e' rest r \<Longrightarrow>
     (e \<and> \<not> e') \<or> (\<not> e \<and> e' \<and> b = byte_backslash)
       \<or> (\<not> e \<and> \<not> e' \<and> b \<noteq> byte_backslash \<and> b \<noteq> byte_double_quote) \<Longrightarrow>
   accepts S_STRING d e (b # rest) (b # r)"
proof -
  assume "accepts S_STRING d e' rest r"
  then obtain body s q where body: "rest = body @ s" "r = body @ q" "stripped s q"
    and str: "if e' then body \<noteq> [] \<and> string_rest (tl body) else string_rest body" by auto
  assume "(e \<and> \<not> e') \<or> (\<not> e \<and> e' \<and> b = byte_backslash)
       \<or> (\<not> e \<and> \<not> e' \<and> b \<noteq> byte_backslash \<and> b \<noteq> byte_double_quote)"
  then have "if e then string_rest body else string_rest (b # body)"
  proof (elim disjE conjE)
    assume "\<not> e" "e'" "b = byte_backslash"
    with str show ?thesis by (cases body) (auto intro: str_escape)
  qed (use str in \<open>auto intro: str_plain\<close>)
  with body accepts_stringI [of s q e "b # body" d] show ?thesis by simp
qed

lemma accepts_line_Cons:
  assumes "accepts S_LINE_COMMENT d e rest r" and b: "b \<noteq> byte_newline"
  shows "accepts S_LINE_COMMENT d e (b # rest) r"
proof (cases "byte_newline \<in> set rest")
  case True
  with assms(1) obtain body s q where "rest = body @ byte_newline # s"
    "byte_newline \<notin> set body" "r = byte_newline # q" "stripped s q" by auto
  with b accepts_lineI [of "b # body" s q d e] show ?thesis by simp
next
  case False
  with assms show ?thesis by auto
qed

lemma accepts_block_plain:
  "accepts S_BLOCK_COMMENT d e rest r \<Longrightarrow> block_plain b rest \<Longrightarrow> accepts S_BLOCK_COMMENT d e (b # rest) r"
proof -
  assume "accepts S_BLOCK_COMMENT d e rest r" and plain: "block_plain b rest"
  then obtain body s where body: "rest = body @ s" "block_rest d body" "stripped s r" by auto
  from plain body(1) have "block_plain b body" by (cases body) (auto simp: block_plain_def)
  with body have "block_rest d (b # body)" by (auto intro: blk_plain)
  with body accepts_blockI [of s r d "b # body" e] show ?thesis by simp
qed

lemma accepts_code_line: "accepts S_LINE_COMMENT d e s r \<Longrightarrow> stripped (byte_slash # byte_slash # s) r"
  by (auto intro: stripped.line stripped.line_eof)

lemma accepts_code_string:
  "accepts S_STRING d False s r \<Longrightarrow> stripped (byte_double_quote # s) (byte_double_quote # r)"
  by (auto intro: stripped.str)

lemma accepts_code_block: "accepts S_BLOCK_COMMENT 1 e s r \<Longrightarrow> stripped (byte_slash # byte_star # s) r"
  by (auto intro: stripped.block)

lemma accepts_block_nest:
  "accepts S_BLOCK_COMMENT (Suc d) e s r \<Longrightarrow> accepts S_BLOCK_COMMENT d e (byte_slash # byte_star # s) r"
  by (auto, metis append_Cons blk_nest)

lemma accepts_block_close:
  "0 < d \<Longrightarrow> accepts S_BLOCK_COMMENT d e s r \<Longrightarrow> accepts S_BLOCK_COMMENT (Suc d) e (byte_star # byte_slash # s) r"
  by (auto, metis append_Cons blk_close)

lemma accepts_block_last: "stripped s r \<Longrightarrow> accepts S_BLOCK_COMMENT 1 e (byte_star # byte_slash # s) r"
  using accepts_blockI [of s r 1 "[byte_star, byte_slash]" e] blk_last by simp

lemma accepts_string_close: "stripped s r \<Longrightarrow> accepts S_STRING d False (byte_double_quote # s) (byte_double_quote # r)"
  using accepts_stringI [of s r False "[byte_double_quote]" d] str_close by simp

lemma peekE: "peek c s \<Longrightarrow> (\<And>t. s = c # t \<Longrightarrow> P) \<Longrightarrow> P"
  by (cases s) auto

lemma strip_loop_accepts:
  "strip_loop st k e out inp = (fin, o') \<Longrightarrow> fin \<in> {S_CODE, S_LINE_COMMENT} \<Longrightarrow>
     (st = S_BLOCK_COMMENT \<Longrightarrow> k = int d \<and> 0 < d) \<Longrightarrow>
     \<exists>r. o' = out @ r \<and> accepts st d e inp r"
proof (induction st k e out inp arbitrary: d o' rule: strip_loop.induct)
  case (1 st k e out)
  then show ?case by (cases st) (auto intro: stripped.finish)
next
  case (2 k e out b rest)
  consider (line) "b = byte_slash" "peek byte_slash rest"
    | (block) "b = byte_slash" "peek byte_star rest"
    | (str) "b = byte_double_quote"
    | (code) "code_plain b rest" by (auto simp: code_plain_def)
  then show ?case
  proof cases
    case line
    with "2.prems" "2.IH"(1) [of o' d] obtain r where "o' = out @ r"
      "accepts S_LINE_COMMENT d e (tl rest) r" by auto
    with line show ?thesis by (auto elim!: peekE simp del: accepts.simps(3) intro!: accepts_code_line)
  next
    case block
    then have nl: "\<not> peek byte_slash rest" by (auto elim!: peekE)
    with block "2.prems" "2.IH"(2) [of o' 1] obtain r where "o' = out @ r"
      "accepts S_BLOCK_COMMENT 1 e (tl rest) r" by auto
    with block show ?thesis by (auto elim!: peekE simp del: accepts.simps(4) intro!: accepts_code_block)
  next
    case str
    with "2.prems" "2.IH"(3) [of o' d] obtain r where "o' = (out @ [b]) @ r"
      "accepts S_STRING d False rest r" by auto
    with str show ?thesis by (auto simp del: accepts.simps(2) intro!: accepts_code_string)
  next
    case code
    then have "\<not> (b = byte_slash \<and> peek byte_slash rest)" "\<not> (b = byte_slash \<and> peek byte_star rest)"
      "b \<noteq> byte_double_quote" by (auto simp: code_plain_def)
    with "2.prems" "2.IH"(4) [of o' d] obtain r where "o' = (out @ [b]) @ r" "stripped rest r" by auto
    with code show ?thesis by (auto intro!: stripped.code)
  qed
next
  case (3 k e out b rest)
  consider (esc) "e" | (bs) "\<not> e" "b = byte_backslash" | (dq) "\<not> e" "b = byte_double_quote"
    | (other) "\<not> e" "b \<noteq> byte_backslash" "b \<noteq> byte_double_quote" by blast
  then show ?case
  proof cases
    case esc
    with "3.prems" "3.IH"(1) [of o' d] obtain r where "o' = (out @ [b]) @ r"
      "accepts S_STRING d False rest r" by auto
    with esc accepts_string_Cons [of d False rest r e b] show ?thesis by auto
  next
    case bs
    with "3.prems" "3.IH"(2) [of o' d] obtain r where "o' = (out @ [b]) @ r"
      "accepts S_STRING d True rest r" by auto
    with bs accepts_string_Cons [of d True rest r e b] show ?thesis by auto
  next
    case dq
    with "3.prems" "3.IH"(3) [of o' d] obtain r where "o' = (out @ [b]) @ r" "stripped rest r" by auto
    with dq accepts_string_close [of rest r d] show ?thesis by auto
  next
    case other
    with "3.prems" "3.IH"(4) [of o' d] obtain r where "o' = (out @ [b]) @ r"
      "accepts S_STRING d e rest r" by auto
    with other accepts_string_Cons [of d e rest r e b] show ?thesis by auto
  qed
next
  case (4 k e out b rest)
  show ?case
  proof (cases "b = byte_newline")
    case True
    with "4.prems" "4.IH"(1) [of o' d] obtain r where "o' = (out @ [b]) @ r" "stripped rest r" by auto
    with True accepts_lineI [of "[]" rest r d e] show ?thesis by auto
  next
    case False
    with "4.prems" "4.IH"(2) [of o' d] obtain r where "o' = out @ r"
      "accepts S_LINE_COMMENT d e rest r" by auto
    with False accepts_line_Cons show ?thesis by blast
  qed
next
  case (5 k e out b rest)
  from "5.prems" obtain d' where d: "k = int d" "d = Suc d'" by (auto simp: gr0_conv_Suc)
  consider (nest) "b = byte_slash" "peek byte_star rest"
    | (shut) "b = byte_star" "peek byte_slash rest"
    | (other) "block_plain b rest" by (auto simp: block_plain_def)
  then show ?case
  proof cases
    case nest
    with "5.prems" "5.IH"(1) [of o' "Suc d"] d obtain r where "o' = out @ r"
      "accepts S_BLOCK_COMMENT (Suc d) e (tl rest) r" by (auto simp del: accepts.simps)
    with nest show ?thesis
      by (auto elim!: peekE simp del: accepts.simps intro!: accepts_block_nest)
  next
    case shut
    show ?thesis
    proof (cases d')
      case 0
      with shut "5.prems" "5.IH"(2) [of o' d] d obtain r where "o' = out @ r" "stripped (tl rest) r"
        by auto
      with shut 0 d show ?thesis
        by (auto elim!: peekE simp del: accepts.simps intro!: accepts_block_last [simplified])
    next
      case (Suc d2)
      with shut "5.prems" "5.IH"(3) [of o' d'] d obtain r where "o' = out @ r"
        "accepts S_BLOCK_COMMENT d' e (tl rest) r" by (auto simp del: accepts.simps)
      with shut Suc d show ?thesis
        by (auto elim!: peekE simp del: accepts.simps intro!: accepts_block_close)
    qed
  next
    case other
    then have "\<not> (b = byte_slash \<and> peek byte_star rest)" "\<not> (b = byte_star \<and> peek byte_slash rest)"
      by (auto simp: block_plain_def)
    with "5.prems" "5.IH"(4) [of o' d] obtain r where "o' = out @ r"
      "accepts S_BLOCK_COMMENT d e rest r" by (auto simp del: accepts.simps)
    with other accepts_block_plain show ?thesis by blast
  qed
qed

lemma stripped_length: "stripped data out \<Longrightarrow> length out \<le> length data"
  by (induction rule: stripped.induct) auto

lemma strip_comments_stripped: "strip_comments data = Ok out \<longleftrightarrow> stripped data out"
proof
  assume "strip_comments data = Ok out"
  then obtain fin where "strip_loop S_CODE 0 False [] data = (fin, out)" "fin \<in> {S_CODE, S_LINE_COMMENT}"
    by (cases "fst (strip_loop S_CODE 0 False [] data)")
       (auto simp: strip_comments_def split: prod.splits if_splits)
  from strip_loop_accepts [OF this] show "stripped data out" by auto
next
  assume st: "stripped data out"
  from strip_loop_stripped [OF st, of 0 False "[]"] stripped_length [OF st]
  show "strip_comments data = Ok out" by (auto simp: strip_comments_def)
qed

lemma strip_loop_out: "strip_loop st k e out inp = (fin, o') \<Longrightarrow> length o' \<le> length out + length inp"
proof (induction st k e out inp arbitrary: o' rule: strip_loop.induct)
  case (2 k e out b rest)
  then show ?case by (fastforce split: if_splits elim!: peekE)
next
  case (5 k e out b rest)
  then show ?case by (fastforce split: if_splits elim!: peekE)
qed (fastforce split: if_splits)+

lemma stripped_peek: "stripped s out \<Longrightarrow> peek c out \<Longrightarrow> \<not> peek byte_slash s \<Longrightarrow> peek c s"
  by (cases rule: stripped.cases) auto

lemma stripped_idem: "stripped data out \<Longrightarrow> stripped out out"
proof (induction rule: stripped.induct)
  case (code c s out)
  then have "code_plain c out"
    using stripped_peek [OF code.hyps(2)] by (auto simp: code_plain_def)
  with code.IH show ?case by (rule stripped.code [rotated])
next
  case (line body s out)
  then show ?case by (auto intro!: stripped.code simp: code_plain_def)
qed (auto intro: stripped.intros)

text \<open>The part of the loader after the stripper.\<close>

lemma jsonc_load_stripped:
  assumes "0 < sz" "sz \<le> mb" "sz = int (length data)" "strip_comments data = Ok out"
  shows "jsonc_load dec (Opened sz data) mb md =
     (if out = [] then Err (MalformedJSONError ''empty file'')
      else case dec out of
        Err detail \<Rightarrow> Err (MalformedJSONError (take 200 detail))
      | Ok (h, obj) \<Rightarrow>
          if \<not> is_dict h obj then Err (MalformedJSONError ''expected JSON object at top level'')
          else rbind (assert_max_depth h obj md) (\<lambda>_. Ok (h, obj)))"
  using assms by (simp add: jsonc_load_def)

lemma jsonc_load_decoded:
  "(case dec out of
        Err detail \<Rightarrow> Err (MalformedJSONError (take 200 detail))
      | Ok (h, obj) \<Rightarrow>
          if \<not> is_dict h obj then Err (MalformedJSONError ''expected JSON object at top level'')
          else rbind (assert_max_depth h obj md) (\<lambda>_. Ok (h, obj))) = Ok (h', obj') \<longleftrightarrow>
     dec out = Ok (h', obj') \<and> is_dict h' obj' \<and> assert_max_depth h' obj' md = Ok ()"
proof (cases "dec out")
  case (Inr r)
  then show ?thesis by (cases r) (auto simp: rbind_iffs)
qed simp

lemma jsonc_load_Err:
  assumes "\<not> (0 < sz \<and> sz \<le> mb \<and> sz = int (length data)) \<or> strip_comments data = Err e"
  shows "jsonc_load dec (Opened sz data) mb md \<noteq> Ok r"
proof (cases "0 < sz \<and> sz \<le> mb \<and> sz = int (length data)")
  case True
  with assms have "strip_comments data = Err e" by blast
  moreover from True have "data \<noteq> []" by auto
  ultimately show ?thesis using True by (cases e) (simp_all add: jsonc_load_def)
next
  case False
  moreover have "strip_comments [] = Ok []" by (simp add: strip_comments_def)
  ultimately show ?thesis by (auto simp: jsonc_load_def Let_def)
qed

lemma jsonc_load_Ok:
  "jsonc_load dec (Opened sz data) mb md = Ok (h, obj) \<longleftrightarrow>
     0 < sz \<and> sz \<le> mb \<and> sz = int (length data) \<and>
     (\<exists>out. stripped data out \<and> out \<noteq> [] \<and> dec out = Ok (h, obj)
        \<and> is_dict h obj \<and> assert_max_depth h obj md = Ok ())"
proof (cases "0 < sz \<and> sz \<le> mb \<and> sz = int (length data)")
  case True
  show ?thesis
  proof (cases "strip_comments data")
    case (Inl e)
    then have "\<not> stripped data out" for out
      by (metis Inl_Inr_False strip_comments_stripped)
    with jsonc_load_Err [OF disjI2, OF Inl] show ?thesis by blast
  next
    case (Inr out)
    then have "stripped data out' \<longleftrightarrow> out' = out" for out'
      by (auto simp flip: strip_comments_stripped)
    moreover note jsonc_load_stripped [where sz = sz and mb = mb and dec = dec and md = md, OF _ _ _ Inr]
    ultimately show ?thesis using True jsonc_load_decoded [where dec = dec and out = out and md = md and h' = h and obj' = obj]
      by (cases "data = []"; simp)
  qed
next
  case False
  with jsonc_load_Err [OF disjI1, OF False] show ?thesis by blast
qed

section \<open>Properties\<close>

text \<open>C40. The comment stripper is the grammar: it accepts a text with output \<open>out\<close> exactly when
  the text is a sequence of code bytes, string literals kept byte for byte, line comments and
  properly nested block comments whose comment-free rest is \<open>out\<close>.\<close>

theorem strip_comments_correct: "strip_comments data = Ok out \<longleftrightarrow> stripped data out"
  by (rule strip_comments_stripped)

text \<open>The stripper never emits more bytes than it consumed, so its structural assertion
  cannot fail: the only errors are the two unterminated constructs.\<close>

theorem strip_comments_never_asserts:
  "strip_comments data \<noteq> Err AssertionError
   \<and> (case strip_comments data of Ok out \<Rightarrow> length out \<le> length data | Err _ \<Rightarrow> True)"
proof (cases "strip_loop S_CODE 0 False [] data")
  case (Pair fin out)
  with strip_loop_out [OF Pair] show ?thesis by (auto simp: strip_comments_def)
qed

text \<open>Stripping is idempotent: the output contains no comment and is accepted unchanged.\<close>

theorem strip_comments_idempotent:
  assumes "strip_comments data = Ok out"
  shows "strip_comments out = Ok out"
  using assms by (simp add: strip_comments_stripped stripped_idem)

theorem strip_comments_idempotent_witness:
  "strip_comments ''{/* a /* b */ */1 //c'' = Ok ''{1 '' \<and> strip_comments ''{1 '' = Ok ''{1 ''"
proof -
  have h: "strip_comments ''{/* a /* b */ */1 //c'' = Ok ''{1 ''" by code_simp
  show ?thesis using h strip_comments_idempotent [OF h] by simp
qed

text \<open>\<open>jsonc.load\<close> succeeds exactly when the file is within the size cap, was read in full, is
  well-formed JSONC with a non-empty rest, and that rest decodes to a mapping within the depth
  cap; the result is what \<open>json.loads\<close> made of the rest.\<close>

theorem jsonc_load_correct:
  "jsonc_load dec (Opened sz data) mb md = Ok (h, obj) \<longleftrightarrow>
     0 < sz \<and> sz \<le> mb \<and> sz = int (length data) \<and>
     (\<exists>out. stripped data out \<and> out \<noteq> [] \<and> dec out = Ok (h, obj)
        \<and> is_dict h obj \<and> assert_max_depth h obj md = Ok ())"
  by (rule jsonc_load_Ok)

text \<open>
  Newlines inside a block comment are dropped with it, so the line numbers of a later decode
  error are those of the source only up to the first multi-line block comment.
\<close>

lemma strip_comments_block_newline:
  "strip_comments (''/*'' @ [byte_newline] @ ''*/1'') = Ok ''1''"
  by code_simp

end
