(* ===== verification/Seccomp.thy ===== *)
theory Seccomp
  imports Prelude "HOL-Library.Word"
begin

text \<open>
  \<open>src/src/codegenie/transforms/sandbox/_seccomp.py\<close>: the hand-written builder of the seccomp
  filter. The builder emits packed \<open>sock_filter\<close> records as bytes (8-bit words), with two
  passes: the instructions with placeholder offsets first, then the jump offsets patched in.
  The meaning of the three instruction forms it uses is given by a small interpreter, which is
  a specification (classic BPF as documented for \<open>seccomp\<close>) and models no code of the
  repository; the main theorem says what the built program decides for every system call.
\<close>

section \<open>System calls and constants\<close>

datatype syscall = MOUNT | PIVOT_ROOT | PTRACE | BPF | UNSHARE | KEYCTL

fun syscall_value :: "syscall \<Rightarrow> string" where
  "syscall_value MOUNT = ''mount''"
| "syscall_value PIVOT_ROOT = ''pivot_root''"
| "syscall_value PTRACE = ''ptrace''"
| "syscall_value BPF = ''bpf''"
| "syscall_value UNSHARE = ''unshare''"
| "syscall_value KEYCTL = ''keyctl''"

fun syscall_nr_x86_64 :: "syscall \<Rightarrow> int" where
  "syscall_nr_x86_64 MOUNT = 165"
| "syscall_nr_x86_64 PIVOT_ROOT = 155"
| "syscall_nr_x86_64 PTRACE = 101"
| "syscall_nr_x86_64 BPF = 321"
| "syscall_nr_x86_64 UNSHARE = 272"
| "syscall_nr_x86_64 KEYCTL = 250"

definition audit_arch_x86_64 :: int where "audit_arch_x86_64 = 0xC000003E"

text \<open>The opcode constants, combined as the code combines them with \<open>|\<close>.\<close>

definition bpf_ld_w_abs :: int where "bpf_ld_w_abs = or (or 0x00 0x00) 0x20"
definition bpf_jmp_jeq_k :: int where "bpf_jmp_jeq_k = or (or 0x05 0x10) 0x00"
definition bpf_ret_k :: int where "bpf_ret_k = or 0x06 0x00"

definition offset_nr :: int where "offset_nr = 0"
definition offset_arch :: int where "offset_arch = 4"
definition ret_allow :: int where "ret_allow = 0x7FFF0000"
definition ret_kill_process :: int where "ret_kill_process = 0x80000000"

section \<open>Packing\<close>

datatype filter_error = EmptyFilter | StructError

type_synonym u8 = "8 word"

text \<open>\<open>struct.pack("HBBI", ...)\<close> on x86_64: little-endian, no padding, range-checked.\<close>

definition insn :: "int \<Rightarrow> int \<Rightarrow> int \<Rightarrow> int \<Rightarrow> filter_error + u8 list" where
  "insn code jt jf k =
     (if 0 \<le> code \<and> code < 2 ^ 16 \<and> 0 \<le> jt \<and> jt < 256 \<and> 0 \<le> jf \<and> jf < 256 \<and> 0 \<le> k \<and> k < 2 ^ 32
      then Ok [of_int code, of_int (code div 256), of_int jt, of_int jf,
               of_int k, of_int (k div 2 ^ 8), of_int (k div 2 ^ 16), of_int (k div 2 ^ 24)]
      else Err StructError)"

text \<open>\<open>struct.unpack\<close> of one record: code, jt, jf, k.\<close>

fun unpack_insn :: "u8 list \<Rightarrow> filter_error + (int \<times> int \<times> int \<times> int)" where
  "unpack_insn [c0, c1, t, f, k0, k1, k2, k3] =
     Ok (uint c0 + 2 ^ 8 * uint c1, uint t, uint f,
         uint k0 + 2 ^ 8 * uint k1 + 2 ^ 16 * uint k2 + 2 ^ 24 * uint k3)"
| "unpack_insn _ = Err StructError"

section \<open>The builder\<close>

fun syscall_checks :: "syscall list \<Rightarrow> filter_error + u8 list list" where
  "syscall_checks [] = Ok []"
| "syscall_checks (s # ss) =
     rbind (insn bpf_jmp_jeq_k 0 0 (syscall_nr_x86_64 s)) (\<lambda>i.
       rbind (syscall_checks ss) (\<lambda>is. Ok (i # is)))"

fun patch_checks :: "nat \<Rightarrow> nat list \<Rightarrow> u8 list list \<Rightarrow> filter_error + u8 list list" where
  "patch_checks kill_idx [] instructions = Ok instructions"
| "patch_checks kill_idx (idx # idxs) instructions =
     rbind (unpack_insn (instructions ! idx)) (\<lambda>(code, _, _, k).
       rbind (insn code (int kill_idx - int idx - 1) 0 k) (\<lambda>i.
         patch_checks kill_idx idxs (instructions[idx := i])))"

text \<open>
  \<open>blocked\<close> is the frozenset in some iteration order. \<open>instructions[idx]\<close> is in range: the
  indices were recorded when the placeholders were appended.
\<close>

definition build_filter :: "syscall list \<Rightarrow> filter_error + u8 list" where
  "build_filter blocked =
     (if blocked = [] then Err EmptyFilter
      else
        let blocked_sorted = sort_key syscall_value blocked in
        rbind (insn bpf_ld_w_abs 0 0 offset_arch) (\<lambda>load_arch.
        rbind (insn bpf_jmp_jeq_k 0 0 audit_arch_x86_64) (\<lambda>arch_placeholder.
        rbind (insn bpf_ld_w_abs 0 0 offset_nr) (\<lambda>load_nr.
        rbind (syscall_checks blocked_sorted) (\<lambda>checks.
        rbind (insn bpf_ret_k 0 0 ret_allow) (\<lambda>allow.
        rbind (insn bpf_ret_k 0 0 ret_kill_process) (\<lambda>kill.
          let arch_check_idx = 1;
              syscall_check_indices = map (\<lambda>i. 3 + i) [0..<length blocked_sorted];
              instructions = [load_arch, arch_placeholder, load_nr] @ checks @ [allow, kill];
              kill_idx = length instructions - 1 in
          rbind (insn bpf_jmp_jeq_k 0 (int kill_idx - int arch_check_idx - 1) audit_arch_x86_64) (\<lambda>arch_check.
          rbind (patch_checks kill_idx syscall_check_indices (instructions[arch_check_idx := arch_check]))
            (\<lambda>patched. Ok (concat patched))))))))))"

section \<open>The meaning of a filter program\<close>

record seccomp_data =
  sd_nr :: "32 word"
  sd_arch :: "32 word"

text \<open>Cut a byte string into 8-byte records, and read each.\<close>

fun decode_program :: "u8 list \<Rightarrow> (int \<times> int \<times> int \<times> int) list option" where
  "decode_program (c0 # c1 # t # f # k0 # k1 # k2 # k3 # rest) =
     (case unpack_insn [c0, c1, t, f, k0, k1, k2, k3] of
        Err _ \<Rightarrow> None
      | Ok i \<Rightarrow> map_option (\<lambda>is. i # is) (decode_program rest))"
| "decode_program [] = Some []"
| "decode_program _ = None"

definition load_word :: "seccomp_data \<Rightarrow> int \<Rightarrow> int option" where
  "load_word d k = (if k = 0 then Some (uint (sd_nr d)) else if k = 4 then Some (uint (sd_arch d)) else None)"

function bpf_run :: "seccomp_data \<Rightarrow> int \<Rightarrow> (int \<times> int \<times> int \<times> int) list \<Rightarrow> int option" where
  "bpf_run d acc [] = None"
| "bpf_run d acc ((code, jt, jf, k) # rest) =
     (if code = 0x20 then (case load_word d k of None \<Rightarrow> None | Some w \<Rightarrow> bpf_run d w rest)
      else if code = 0x15 then bpf_run d acc (drop (nat (if acc = k then jt else jf)) rest)
      else if code = 0x06 then Some k
      else None)"
  by pat_completeness auto
termination
  by (relation "measure (\<lambda>(d, acc, prog). length prog)") auto

definition filter_verdict :: "u8 list \<Rightarrow> seccomp_data \<Rightarrow> int option" where
  "filter_verdict bytes d = Option.bind (decode_program bytes) (bpf_run d 0)"

section \<open>Lemmas\<close>

lemma opcodes [simp]: "bpf_ld_w_abs = 0x20" "bpf_jmp_jeq_k = 0x15" "bpf_ret_k = 0x06"
  by (simp_all add: bpf_ld_w_abs_def bpf_jmp_jeq_k_def bpf_ret_k_def)

lemma uint_of_int_u8: "uint (of_int x :: u8) = x mod 256"
  by (simp add: uint_word_of_int)

lemma bytes_of_u32:
  fixes k :: int
  assumes "0 \<le> k" "k < 4294967296"
  shows "k mod 256 + 256 * (k div 256 mod 256) + 65536 * (k div 65536 mod 256)
    + 16777216 * (k div 16777216 mod 256) = k"
proof -
  have "k div 16777216 mod 256 = k div 16777216" using assms by simp
  moreover have "k div 65536 = k div 16777216 * 256 + k div 65536 mod 256"
    using div_mult_mod_eq [of "k div 65536" 256] by (simp add: zdiv_zmult2_eq [symmetric])
  moreover have "k div 256 = k div 65536 * 256 + k div 256 mod 256"
    using div_mult_mod_eq [of "k div 256" 256] by (simp add: zdiv_zmult2_eq [symmetric])
  moreover have "k = k div 256 * 256 + k mod 256" by simp
  ultimately show ?thesis by linarith
qed

definition insn_range :: "int \<Rightarrow> int \<Rightarrow> int \<Rightarrow> int \<Rightarrow> bool" where
  "insn_range code jt jf k \<longleftrightarrow> 0 \<le> code \<and> code < 65536 \<and> 0 \<le> jt \<and> jt < 256 \<and> 0 \<le> jf \<and> jf < 256
     \<and> 0 \<le> k \<and> k < 4294967296"

definition insn_bytes :: "int \<Rightarrow> int \<Rightarrow> int \<Rightarrow> int \<Rightarrow> u8 list" where
  "insn_bytes code jt jf k =
     [of_int code, of_int (code div 256), of_int jt, of_int jf,
      of_int k, of_int (k div 256), of_int (k div 65536), of_int (k div 16777216)]"

lemma insn_Ok: "insn_range code jt jf k \<Longrightarrow> insn code jt jf k = Ok (insn_bytes code jt jf k)"
  by (simp add: insn_def insn_range_def insn_bytes_def)

lemma length_insn_bytes [simp]: "length (insn_bytes code jt jf k) = 8"
  by (simp add: insn_bytes_def)

lemma unpack_insn_bytes:
  assumes "insn_range code jt jf k"
  shows "unpack_insn (insn_bytes code jt jf k) = Ok (code, jt, jf, k)"
proof -
  have r: "0 \<le> code" "code < 65536" "0 \<le> k" "k < 4294967296" "jt mod 256 = jt" "jf mod 256 = jf"
    using assms by (auto simp: insn_range_def)
  have "code div 256 mod 256 = code div 256" using r by simp
  then have c: "code mod 256 + 256 * (code div 256 mod 256) = code" by simp
  show ?thesis
    unfolding insn_bytes_def unpack_insn.simps uint_of_int_u8 r
    using c bytes_of_u32 [OF r(3,4)] by (simp only: power_numeral) simp
qed

text \<open>What \<open>build_filter\<close> assembles, once every offset is known.\<close>

fun jumps_to :: "nat \<Rightarrow> nat \<Rightarrow> syscall list \<Rightarrow> (int \<times> int \<times> int \<times> int) list" where
  "jumps_to kill idx [] = []"
| "jumps_to kill idx (s # ss) =
     (0x15, int kill - int idx - 1, 0, syscall_nr_x86_64 s) # jumps_to kill (Suc idx) ss"

definition program_of :: "syscall list \<Rightarrow> (int \<times> int \<times> int \<times> int) list" where
  "program_of ss =
     [(0x20, 0, 0, 4), (0x15, 0, int (length ss) + 2, audit_arch_x86_64), (0x20, 0, 0, 0)]
     @ jumps_to (length ss + 4) 3 ss @ [(0x06, 0, 0, ret_allow), (0x06, 0, 0, ret_kill_process)]"

abbreviation insn_of :: "int \<times> int \<times> int \<times> int \<Rightarrow> u8 list" where
  "insn_of i \<equiv> (case i of (code, jt, jf, k) \<Rightarrow> insn_bytes code jt jf k)"

abbreviation in_range :: "int \<times> int \<times> int \<times> int \<Rightarrow> bool" where
  "in_range i \<equiv> (case i of (code, jt, jf, k) \<Rightarrow> insn_range code jt jf k)"

lemma syscall_nr_range [simp]:
  "0 \<le> syscall_nr_x86_64 s" "syscall_nr_x86_64 s < 4294967296" "syscall_nr_x86_64 s < 1000"
  by (cases s; simp)+

lemma syscall_checks_Ok:
  "syscall_checks ss = Ok (map (\<lambda>s. insn_bytes 0x15 0 0 (syscall_nr_x86_64 s)) ss)"
  by (induction ss) (simp_all add: insn_Ok insn_range_def)

lemma patch_checks_Ok:
  assumes "length pre + length ss \<le> kill" "kill \<le> length pre + 200"
  shows "patch_checks kill [length pre..<length pre + length ss]
           (pre @ map (\<lambda>s. insn_bytes 0x15 0 0 (syscall_nr_x86_64 s)) ss @ post)
         = Ok (pre @ map insn_of (jumps_to kill (length pre) ss) @ post)"
  using assms
proof (induction ss arbitrary: pre)
  case (Cons s ss)
  let ?i = "insn_bytes 0x15 (int kill - int (length pre) - 1) 0 (syscall_nr_x86_64 s)"
  have r: "insn_range 0x15 (int kill - int (length pre) - 1) 0 (syscall_nr_x86_64 s)"
    "insn_range 0x15 0 0 (syscall_nr_x86_64 s)"
    using Cons.prems by (simp_all add: insn_range_def)
  have idx: "[length pre..<length pre + length (s # ss)] =
      length pre # [length (pre @ [?i])..<length (pre @ [?i]) + length ss]"
    by (simp add: upt_rec [of "length pre"] del: upt_Suc)
  show ?case
    unfolding idx using Cons.IH [of "pre @ [?i]"] Cons.prems
    by (simp add: unpack_insn_bytes [OF r(2)] insn_Ok [OF r(1)] nth_append list_update_append)
qed simp

lemma decode_insns:
  assumes "\<forall>i \<in> set is. in_range i"
  shows "decode_program (concat (map insn_of is)) = Some is"
  using assms
proof (induction "is")
  case (Cons i js)
  obtain code jt jf k where i: "i = (code, jt, jf, k)" by (cases i)
  then have "unpack_insn (insn_bytes code jt jf k) = Ok (code, jt, jf, k)"
    using Cons.prems unpack_insn_bytes by auto
  with Cons show ?case by (simp add: i insn_bytes_def del: unpack_insn.simps)
qed simp

lemma jumps_to_range:
  "idx + length ss \<le> kill \<Longrightarrow> kill \<le> idx + 200 \<Longrightarrow> \<forall>i \<in> set (jumps_to kill idx ss). in_range i"
proof (induction ss arbitrary: idx)
  case (Cons s ss)
  have "insn_range 0x15 (int kill - int idx - 1) 0 (syscall_nr_x86_64 s)"
    using Cons.prems by (simp add: insn_range_def)
  moreover have "\<forall>i \<in> set (jumps_to kill (Suc idx) ss). in_range i"
    by (rule Cons.IH) (use Cons.prems in simp_all)
  ultimately show ?case by simp
qed simp

lemma length_jumps_to [simp]: "length (jumps_to kill idx ss) = length ss"
  by (induction ss arbitrary: idx) auto

lemma few_syscalls: "distinct (ss :: syscall list) \<Longrightarrow> length ss \<le> 6"
proof -
  assume "distinct ss"
  have "set ss \<subseteq> {MOUNT, PIVOT_ROOT, PTRACE, BPF, UNSHARE, KEYCTL}"
    using syscall.exhaust by blast
  then have "card (set ss) \<le> card {MOUNT, PIVOT_ROOT, PTRACE, BPF, UNSHARE, KEYCTL}"
    by (intro card_mono) simp_all
  with \<open>distinct ss\<close> show ?thesis by (simp add: distinct_card)
qed

lemma build_filter_Ok:
  assumes "blocked \<noteq> []" "distinct blocked"
  shows "build_filter blocked = Ok (concat (map insn_of (program_of (sort_key syscall_value blocked))))"
    (is "_ = Ok (concat (map insn_of (program_of ?ss)))")
proof -
  let ?n = "length blocked"
  let ?pre = "[insn_bytes 0x20 0 0 4, insn_bytes 0x15 0 (int ?n + 2) audit_arch_x86_64,
               insn_bytes 0x20 0 0 0]"
  have n: "?n \<le> 6" using few_syscalls assms(2) by blast
  have r: "insn_range 0x20 0 0 4" "insn_range 0x15 0 0 audit_arch_x86_64" "insn_range 0x20 0 0 0"
    "insn_range 0x06 0 0 ret_allow" "insn_range 0x06 0 0 ret_kill_process"
    "insn_range 0x15 0 (int ?n + 2) audit_arch_x86_64"
    using n by (simp_all add: insn_range_def audit_arch_x86_64_def ret_allow_def ret_kill_process_def)
  have patch: "patch_checks (?n + 4) [3..<3 + ?n]
        (?pre @ map (\<lambda>s. insn_bytes 0x15 0 0 (syscall_nr_x86_64 s)) ?ss
          @ [insn_bytes 0x06 0 0 ret_allow, insn_bytes 0x06 0 0 ret_kill_process])
      = Ok (?pre @ map insn_of (jumps_to (?n + 4) 3 ?ss)
          @ [insn_bytes 0x06 0 0 ret_allow, insn_bytes 0x06 0 0 ret_kill_process])"
    using patch_checks_Ok [of ?pre ?ss "?n + 4"
        "[insn_bytes 0x06 0 0 ret_allow, insn_bytes 0x06 0 0 ret_kill_process]"] n
    by (simp add: numeral_3_eq_3 del: upt_Suc)
  have idx: "map (\<lambda>i. 3 + i) [0..<?n] = [3..<3 + ?n]"
    by (rule nth_equalityI) simp_all
  have kill: "length ([i1, i2, i3] @ map f ?ss @ [i4, i5]) - 1 = ?n + 4" for i1 i2 i3 i4 i5 and f :: "syscall \<Rightarrow> u8 list"
    by simp
  have jump: "int (?n + 4) - int 1 - 1 = int ?n + 2" by simp
  have upd: "([i1, i2, i3] @ xs)[1 := j] = [i1, j, i3] @ xs" for i1 i2 i3 j :: "u8 list" and xs
    by simp
  have len: "length ?ss = ?n" by simp
  show ?thesis
    using assms(1)
    unfolding build_filter_def Let_def offset_arch_def offset_nr_def opcodes syscall_checks_Ok
    by (simp only: r [THEN insn_Ok] rbind.simps kill jump upd len idx patch if_False
        program_of_def) (simp add: add.commute)
qed

lemma bpf_run_jumps:
  assumes "kill = idx + length ss + 1"
  shows "bpf_run d acc (jumps_to kill idx ss @ [(0x06, 0, 0, a), (0x06, 0, 0, b)])
    = Some (if acc \<in> syscall_nr_x86_64 ` set ss then b else a)"
  using assms
proof (induction ss arbitrary: idx)
  case (Cons s ss)
  have "nat (int kill - int idx - 1) = length ss + 1" using Cons.prems by simp
  then show ?case using Cons by (simp add: bpf_run.simps)
qed (simp add: bpf_run.simps)

lemma bpf_run_program:
  "bpf_run d 0 (program_of ss) =
     Some (if uint (sd_arch d) = audit_arch_x86_64 \<and> uint (sd_nr d) \<notin> syscall_nr_x86_64 ` set ss
           then ret_allow else ret_kill_process)"
proof -
  have "nat (int (length ss) + 2) = Suc (Suc (length ss))" by simp
  then show ?thesis
    using bpf_run_jumps [of "length ss + 4" 3 ss]
    by (simp add: program_of_def bpf_run.simps load_word_def)
qed

section \<open>Properties\<close>

text \<open>C39. For every set of blocked syscalls but the empty one, given in any iteration order,
  \<open>build_filter\<close> succeeds, the result is \<open>5 + n\<close> records of 8 bytes, and the program it
  encodes kills the process exactly on a foreign architecture or a blocked syscall number and
  allows every other call.\<close>

theorem build_filter_correct:
  assumes "blocked \<noteq> []" "distinct blocked"
  shows "\<exists>bytes. build_filter blocked = Ok bytes \<and> length bytes = 8 * (5 + length blocked) \<and>
    (\<forall>d. filter_verdict bytes d =
       Some (if uint (sd_arch d) = audit_arch_x86_64 \<and>
                uint (sd_nr d) \<notin> syscall_nr_x86_64 ` set blocked
             then ret_allow else ret_kill_process))"
proof -
  let ?ss = "sort_key syscall_value blocked"
  let ?bytes = "concat (map insn_of (program_of ?ss))"
  have n: "length blocked \<le> 6" using few_syscalls assms(2) by blast
  have "\<forall>i \<in> set (program_of ?ss). in_range i"
    using jumps_to_range [of 3 ?ss "length blocked + 4"] n
    by (simp add: program_of_def insn_range_def audit_arch_x86_64_def ret_allow_def
        ret_kill_process_def)
  then have dec: "decode_program ?bytes = Some (program_of ?ss)" by (rule decode_insns)
  have "filter_verdict ?bytes d = Some (if uint (sd_arch d) = audit_arch_x86_64 \<and>
      uint (sd_nr d) \<notin> syscall_nr_x86_64 ` set blocked then ret_allow else ret_kill_process)" for d
    unfolding filter_verdict_def dec by (simp add: bpf_run_program)
  moreover have "length ?bytes = 8 * (5 + length blocked)"
  proof -
    have "length (concat (map insn_of is)) = 8 * length is" for "is"
      by (induction "is") auto
    then show ?thesis by (simp add: program_of_def)
  qed
  ultimately show ?thesis using build_filter_Ok [OF assms] by blast
qed

lemma build_filter_correct_witness:
  "\<exists>bytes. build_filter [PTRACE, MOUNT] = Ok bytes \<and> length bytes = 56 \<and>
    filter_verdict bytes \<lparr>sd_nr = 101, sd_arch = 0xC000003E\<rparr> = Some ret_kill_process \<and>
    filter_verdict bytes \<lparr>sd_nr = 0, sd_arch = 0xC000003E\<rparr> = Some ret_allow \<and>
    filter_verdict bytes \<lparr>sd_nr = 0, sd_arch = 0x40000003\<rparr> = Some ret_kill_process"
  using build_filter_correct [of "[PTRACE, MOUNT]"] by (auto simp: audit_arch_x86_64_def)

text \<open>The bytes do not depend on the iteration order of the frozenset, and the empty set is
  refused.\<close>

theorem build_filter_deterministic:
  "build_filter [] = Err EmptyFilter \<and>
   (\<forall>b1 b2. distinct b1 \<longrightarrow> distinct b2 \<longrightarrow> set b1 = set b2 \<longrightarrow> build_filter b1 = build_filter b2)"
proof -
  have inj: "inj syscall_value"
  proof (rule injI)
    fix s t assume "syscall_value s = syscall_value t" then show "s = t" by (cases s; cases t) simp_all
  qed
  have same: "sort_key syscall_value b1 = sort_key syscall_value b2"
    if "distinct b1" "distinct b2" "set b1 = set b2" for b1 b2
  proof -
    have "map syscall_value (sort_key syscall_value b1) = map syscall_value (sort_key syscall_value b2)"
      by (rule sorted_distinct_set_unique)
        (use that inj in \<open>simp_all add: distinct_map inj_on_subset [OF inj]\<close>)
    with inj show ?thesis by (simp add: inj_map_eq_map)
  qed
  show ?thesis
  proof (intro conjI allI impI)
    fix b1 b2 :: "syscall list" assume b: "distinct b1" "distinct b2" "set b1 = set b2"
    then have "b1 = [] \<longleftrightarrow> b2 = []" by auto
    with same [OF b] show "build_filter b1 = build_filter b2"
      by (metis build_filter_Ok b(1,2))
  qed (simp add: build_filter_def)
qed

lemma build_filter_deterministic_witness:
  "build_filter [] = Err EmptyFilter \<and> build_filter [PTRACE, MOUNT] = build_filter [MOUNT, PTRACE]"
  using build_filter_deterministic by (auto intro!: build_filter_deterministic [THEN conjunct2, rule_format])

end
