(* ===== verification/Json.thy ===== *)
theory Json
  imports Prelude
begin

text \<open>
  JSON values and \<open>json.dumps\<close> of the standard library with \<open>sort_keys=True\<close>,
  \<open>separators=(",", ":")\<close> and the default \<open>ensure_ascii=True\<close>, as the event log calls it. A float
  is represented by its shortest \<open>repr\<close>. Reading JSON back (\<open>json.loads\<close>) is a parameter of the
  models that use it.
\<close>

datatype json = JNull | JBool bool | JInt int | JFloat string | JStr string | JArr "json list"
  | JObj "(string \<times> json) list"

section \<open>Writing\<close>

definition json_char :: "char \<Rightarrow> string" where
  "json_char c =
     (let n = of_char c :: nat in
      if n = 34 \<or> n = 92 then [CHR 0x5C, c]
      else if n = 10 then [CHR 0x5C, CHR ''n'']
      else if n = 13 then [CHR 0x5C, CHR ''r'']
      else if n = 9 then [CHR 0x5C, CHR ''t'']
      else if n = 12 then [CHR 0x5C, CHR ''f'']
      else if n = 8 then [CHR 0x5C, CHR ''b'']
      else if n < 32 \<or> 126 < n
        then [CHR 0x5C, CHR ''u'', CHR ''0'', CHR ''0'', hex_char (n div 16), hex_char (n mod 16)]
      else [c])"

definition json_str :: "string \<Rightarrow> string" where
  "json_str s = CHR 0x22 # concat (map json_char s) @ [CHR 0x22]"

fun json_text :: "json \<Rightarrow> string" where
  "json_text JNull = ''null''"
| "json_text (JBool b) = (if b then ''true'' else ''false'')"
| "json_text (JInt i) = int_str i"
| "json_text (JFloat r) = r"
| "json_text (JStr s) = json_str s"
| "json_text (JArr js) = ''['' @ py_join '','' (map json_text js) @ '']''"
| "json_text (JObj kvs) = ''{'' @ py_join '','' (map (\<lambda>(k, v). json_str k @ '':'' @ json_text v) kvs) @ ''}''"

text \<open>\<open>sort_keys=True\<close> sorts at every level.\<close>

fun sort_keys :: "json \<Rightarrow> json" where
  "sort_keys (JArr js) = JArr (map sort_keys js)"
| "sort_keys (JObj kvs) = JObj (sort_key fst (map (\<lambda>(k, v). (k, sort_keys v)) kvs))"
| "sort_keys j = j"

definition json_dumps :: "json \<Rightarrow> string" where
  "json_dumps j = json_text (sort_keys j)"

text \<open>\<open>obj.pop(k, None)\<close>, and the comprehension that leaves out one key.\<close>

definition pop_key :: "string \<Rightarrow> (string \<times> json) list \<Rightarrow> (string \<times> json) list" where
  "pop_key k kvs = filter (\<lambda>kv. fst kv \<noteq> k) kvs"

text \<open>\<open>d.get(k)\<close>: an absent key and a null are the same to every caller.\<close>

definition jget :: "string \<Rightarrow> (string \<times> json) list \<Rightarrow> json" where
  "jget k kvs = (case map_of kvs k of None \<Rightarrow> JNull | Some v \<Rightarrow> v)"

text \<open>The truth value of a JSON value in \<open>a or b\<close>.\<close>

fun truthy :: "json \<Rightarrow> bool" where
  "truthy JNull = False"
| "truthy (JBool b) = b"
| "truthy (JInt i) = (i \<noteq> 0)"
| "truthy (JFloat r) = (r \<notin> {''0.0'', ''-0.0''})"
| "truthy (JStr s) = (s \<noteq> [])"
| "truthy (JArr js) = (js \<noteq> [])"
| "truthy (JObj kvs) = (kvs \<noteq> [])"

section \<open>Lemmas\<close>

lemma sort_key_sorted: "sorted (map f xs) \<Longrightarrow> sort_key f xs = xs"
  by (induction xs) (auto simp: insort_is_Cons)

lemma map_insort_fst:
  "map (\<lambda>(k, v). (k, h v)) (insort_key fst x xs) =
   insort_key fst ((\<lambda>(k, v). (k, h v)) x) (map (\<lambda>(k, v). (k, h v)) xs)"
  by (induction xs) (auto split: prod.splits)

lemma map_sort_fst:
  "map (\<lambda>(k, v). (k, h v)) (sort_key fst xs) = sort_key fst (map (\<lambda>(k, v). (k, h v)) xs)"
  by (induction xs) (simp_all add: map_insort_fst)

lemma sort_keys_idem [simp]: "sort_keys (sort_keys j) = sort_keys j"
proof (induction j rule: sort_keys.induct)
  case (2 kvs)
  let ?h = "\<lambda>(k, v). (k, sort_keys v)"
  have "map ?h (map ?h kvs) = map ?h kvs" using 2 by auto
  then have "sort_key fst (map ?h (sort_key fst (map ?h kvs))) = sort_key fst (map ?h kvs)"
    unfolding map_sort_fst by (simp only: sort_key_sorted sorted_sort_key)
  then show ?case by (simp only: sort_keys.simps)
qed simp_all

lemma pop_key_map:
  "pop_key k (map (\<lambda>(a, v). (a, h v)) kvs) = map (\<lambda>(a, v). (a, h v)) (pop_key k kvs)"
  by (induction kvs) (auto simp: pop_key_def)

lemma pop_key_sort: "pop_key k (sort_key fst kvs) = sort_key fst (pop_key k kvs)"
  by (simp add: pop_key_def filter_sort)

lemma pop_key_set [simp]: "pop_key k (dict_set k v kvs) = pop_key k kvs"
  by (induction kvs) (auto simp: pop_key_def)

text \<open>Sorting a record and dropping a key gives the body that was sorted without the key.\<close>

lemma sort_keys_pop:
  "sort_keys (JObj kvs) = JObj kvs' \<Longrightarrow> sort_keys (JObj (pop_key k kvs')) = sort_keys (JObj (pop_key k kvs))"
proof -
  assume "sort_keys (JObj kvs) = JObj kvs'"
  then have kvs': "kvs' = sort_key fst (map (\<lambda>(k, v). (k, sort_keys v)) kvs)" by simp
  have "sort_keys (JObj (pop_key k kvs')) = sort_keys (sort_keys (JObj (pop_key k kvs)))"
    by (simp only: kvs' pop_key_sort pop_key_map sort_keys.simps)
  then show ?thesis by (simp only: sort_keys_idem)
qed

lemma map_of_sort_keys:
  "sort_keys (JObj kvs) = JObj kvs' \<Longrightarrow> dict_wf kvs \<Longrightarrow> map_of kvs' k = map_option sort_keys (map_of kvs k)"
proof -
  assume s: "sort_keys (JObj kvs) = JObj kvs'" and d: "dict_wf kvs"
  let ?m = "map (\<lambda>(k, v). (k, sort_keys v)) kvs"
  have "map fst ?m = map fst kvs" by (induction kvs) auto
  with d have m: "distinct (map fst ?m)" by (simp only: dict_wf_def)
  then have "distinct (map fst (sort_key fst ?m))"
    by (simp only: distinct_map [of fst ?m] distinct_map [of fst "sort_key fst ?m"] distinct_sort set_sort)
  with m have "map_of (sort_key fst ?m) = map_of ?m"
    by (subst map_of_inject_set) simp_all
  moreover have "map_of ?m k = map_option sort_keys (map_of kvs k)" by (induction kvs) auto
  ultimately show ?thesis using s by simp
qed

end
