(* ===== verification/Ledger.thy ===== *)
theory Ledger
  imports Json Complex_Main
begin

text \<open>
  \<open>src/src/codegenie/workflows/vuln_ledger.py\<close> (and the \<open>RemediationError\<close> payload of
  \<open>transforms/outcomes.py\<close>): the seven ledger states, the validated constructors, the table of
  legal transitions and the transition events that carry them. The lemmas treat the table as
  the transition relation of a state machine.
\<close>

section \<open>Kinds and states\<close>

datatype ledger_kind =
    needs_plan | plan_ready | patch_applied | gate_failed_retryable
  | awaiting_human_review | completed | failed_unrecoverable

definition all_ledger_kinds :: "ledger_kind list" where
  "all_ledger_kinds = [needs_plan, plan_ready, patch_applied, gate_failed_retryable,
     awaiting_human_review, completed, failed_unrecoverable]"

definition non_terminal_kinds :: "ledger_kind list" where
  "non_terminal_kinds = [needs_plan, plan_ready, patch_applied, gate_failed_retryable]"

definition terminal_kinds :: "ledger_kind list" where
  "terminal_kinds = [awaiting_human_review, completed, failed_unrecoverable]"

datatype failed_reason =
    checkpoint_integrity | subgraph_aborted | manifest_rejected | policy_violation
  | internal_invariant_violated

datatype human_review_reason =
    no_concrete_match | trust_outcome_failed | policy_violation_unrecoverable | MULTI_PACKAGE_CVE

datatype detail_value = DStr string | DInt int | DBool bool | DFloat rat

record remediation_error =
  re_error_id :: string
  re_message :: string
  re_details :: "(string, detail_value) dict option"

datatype ledger_state =
    NeedsPlan
  | PlanReady string
  | PatchApplied string
  | GateFailedRetryable "string list" int
  | AwaitingHumanReview human_review_reason "string option"
  | Completed "string option"
  | FailedUnrecoverable failed_reason "remediation_error option"

fun state_kind :: "ledger_state \<Rightarrow> ledger_kind" where
  "state_kind NeedsPlan = needs_plan"
| "state_kind (PlanReady _) = plan_ready"
| "state_kind (PatchApplied _) = patch_applied"
| "state_kind (GateFailedRetryable _ _) = gate_failed_retryable"
| "state_kind (AwaitingHumanReview _ _) = awaiting_human_review"
| "state_kind (Completed _) = completed"
| "state_kind (FailedUnrecoverable _ _) = failed_unrecoverable"

section \<open>Validated constructors\<close>

text \<open>The \<open>ValueError\<close>s of the validators, by the message they start with.\<close>

datatype validation_error = PlanSummaryTooLong | MessageTooLong | IllegalTransition ledger_kind ledger_kind

definition plan_summary_max_len :: nat where "plan_summary_max_len = 4096"
definition message_max_len :: nat where "message_max_len = 4096"

definition mk_plan_ready :: "string \<Rightarrow> validation_error + ledger_state" where
  "mk_plan_ready v = (if length v > plan_summary_max_len then Err PlanSummaryTooLong else Ok (PlanReady v))"

definition mk_remediation_error ::
  "string \<Rightarrow> string \<Rightarrow> (string, detail_value) dict option \<Rightarrow> validation_error + remediation_error" where
  "mk_remediation_error error_id message details =
     (if length message > message_max_len then Err MessageTooLong
      else Ok \<lparr>re_error_id = error_id, re_message = message, re_details = details\<rparr>)"

section \<open>Transitions\<close>

definition legal_transitions :: "(ledger_kind \<times> ledger_kind) list" where
  "legal_transitions =
    [(needs_plan, plan_ready),
     (plan_ready, patch_applied),
     (plan_ready, awaiting_human_review),
     (plan_ready, failed_unrecoverable),
     (patch_applied, completed),
     (patch_applied, gate_failed_retryable),
     (patch_applied, awaiting_human_review),
     (patch_applied, failed_unrecoverable),
     (gate_failed_retryable, needs_plan),
     (gate_failed_retryable, awaiting_human_review),
     (gate_failed_retryable, failed_unrecoverable),
     (awaiting_human_review, plan_ready),
     (awaiting_human_review, completed),
     (awaiting_human_review, failed_unrecoverable)]"

record transition_event =
  te_transition_id :: string
  te_prior_state_id :: ledger_kind
  te_next_state_id :: ledger_kind
  te_triggering_outcome :: json
  te_evidence_digest :: string
  te_chain_head :: string
  te_workflow_id :: string

definition enforce_legal_transition :: "transition_event \<Rightarrow> validation_error + transition_event" where
  "enforce_legal_transition e =
     (let pair = (te_prior_state_id e, te_next_state_id e) in
      if pair \<notin> set legal_transitions then Err (IllegalTransition (fst pair) (snd pair)) else Ok e)"

section \<open>The table as a state machine\<close>

inductive legal_run :: "ledger_kind \<Rightarrow> transition_event list \<Rightarrow> ledger_kind \<Rightarrow> bool" where
  run_nil: "legal_run k [] k"
| run_step: "enforce_legal_transition e = Ok e \<Longrightarrow> te_prior_state_id e = k \<Longrightarrow>
    legal_run (te_next_state_id e) es k' \<Longrightarrow> legal_run k (e # es) k'"

inductive_cases legal_run_ConsE: "legal_run k (e # es) k'"
inductive_simps legal_run_Nil_iff [simp]: "legal_run k [] k'"

lemma legal_iff [simp]:
  "enforce_legal_transition e = Ok e' \<longleftrightarrow>
     e' = e \<and> (te_prior_state_id e, te_next_state_id e) \<in> set legal_transitions"
  by (auto simp: enforce_legal_transition_def Let_def)

lemma ledger_kind_cases_in: "k \<in> set all_ledger_kinds"
  by (cases k) (simp_all add: all_ledger_kinds_def)

text \<open>The two kinds with no way out, and how every other kind reaches each of them.\<close>

lemma legal_sources:
  "(k, k') \<in> set legal_transitions \<Longrightarrow> k \<noteq> completed \<and> k \<noteq> failed_unrecoverable"
  by (auto simp: legal_transitions_def)

lemma legal_outgoing: "(\<exists>k'. (k, k') \<in> set legal_transitions) = (k \<notin> {completed, failed_unrecoverable})"
proof -
  have "(\<exists>k'. (k, k') \<in> set legal_transitions) = (k \<in> set (map fst legal_transitions))" by force
  also have "\<dots> = (k \<notin> {completed, failed_unrecoverable})"
    by (cases k) (simp_all add: legal_transitions_def)
  finally show ?thesis .
qed

lemma sinks_stay: "legal_run k es k' \<Longrightarrow> k \<in> {completed, failed_unrecoverable} \<Longrightarrow> es = [] \<and> k' = k"
  by (induction rule: legal_run.induct) (auto dest: legal_sources)

lemma legal_run_append:
  "legal_run a es b \<Longrightarrow> legal_run b fs c \<Longrightarrow> legal_run a (es @ fs) c"
  by (induction rule: legal_run.induct) (auto intro: legal_run.intros)

text \<open>A completed run passed through a patch or a human.\<close>

lemma completed_needs_gate:
  "legal_run k es k' \<Longrightarrow> k' = completed \<Longrightarrow> k \<noteq> completed \<Longrightarrow>
     es \<noteq> [] \<and> te_prior_state_id (last es) \<in> {patch_applied, awaiting_human_review}"
proof (induction rule: legal_run.induct)
  case (run_step e k es k')
  show ?case
  proof (cases "te_next_state_id e = completed")
    case True
    with run_step sinks_stay [OF run_step.hyps(3)] show ?thesis by (auto simp: legal_transitions_def)
  next
    case False
    with run_step show ?thesis by auto
  qed
qed simp

definition legal_closure :: "ledger_kind \<Rightarrow> ledger_kind \<Rightarrow> bool" where
  "legal_closure k k' \<longleftrightarrow> (\<exists>es. legal_run k es k')"

lemma legal_closure_step: "(k, k1) \<in> set legal_transitions \<Longrightarrow> legal_closure k1 k2 \<Longrightarrow> legal_closure k k2"
proof -
  assume s: "(k, k1) \<in> set legal_transitions" and "legal_closure k1 k2"
  then obtain es where es: "legal_run k1 es k2" by (auto simp: legal_closure_def)
  let ?e = "\<lparr>te_transition_id = [], te_prior_state_id = k, te_next_state_id = k1,
    te_triggering_outcome = JNull, te_evidence_digest = [], te_chain_head = [], te_workflow_id = []\<rparr>"
  have "legal_run k (?e # es) k2"
    by (rule legal_run.run_step) (use s es in simp_all)
  then show ?thesis unfolding legal_closure_def by blast
qed

lemma legal_closure_refl [simp]: "legal_closure k k"
  unfolding legal_closure_def by (blast intro: legal_run.run_nil)

lemma reach_human: "k \<notin> {completed, failed_unrecoverable} \<Longrightarrow> legal_closure k awaiting_human_review"
proof -
  have p: "legal_closure plan_ready awaiting_human_review"
    "legal_closure patch_applied awaiting_human_review"
    "legal_closure gate_failed_retryable awaiting_human_review"
    by (rule legal_closure_step [OF _ legal_closure_refl]; simp add: legal_transitions_def)+
  have "legal_closure needs_plan awaiting_human_review"
    by (rule legal_closure_step [OF _ p(1)]) (simp add: legal_transitions_def)
  with p show "k \<notin> {completed, failed_unrecoverable} \<Longrightarrow> legal_closure k awaiting_human_review"
    by (cases k) simp_all
qed

lemma from_human:
  "k' \<noteq> needs_plan \<Longrightarrow> legal_closure awaiting_human_review k'" 
  "legal_closure awaiting_human_review needs_plan"
proof -
  have p: "legal_closure awaiting_human_review plan_ready" "legal_closure awaiting_human_review completed"
    "legal_closure awaiting_human_review failed_unrecoverable"
    by (rule legal_closure_step [OF _ legal_closure_refl]; simp add: legal_transitions_def)+
  have trans: "legal_closure a b \<Longrightarrow> (b, c) \<in> set legal_transitions \<Longrightarrow> legal_closure a c" for a b c
    using legal_closure_step [OF _ legal_closure_refl] legal_run_append
    unfolding legal_closure_def by blast
  have q: "legal_closure awaiting_human_review patch_applied"
    by (rule trans [OF p(1)]) (simp add: legal_transitions_def)
  have r: "legal_closure awaiting_human_review gate_failed_retryable"
    by (rule trans [OF q]) (simp add: legal_transitions_def)
  show s: "legal_closure awaiting_human_review needs_plan"
    by (rule trans [OF r]) (simp add: legal_transitions_def)
  show "legal_closure awaiting_human_review k'"
    using p q r s by (cases k') simp_all
qed

section \<open>Properties\<close>

text \<open>The transition table: exactly \<open>completed\<close> and \<open>failed_unrecoverable\<close> have no outgoing edge,
  from every other state every state can be reached, and a run that ends in \<open>completed\<close> took its
  last step from \<open>patch_applied\<close> or \<open>awaiting_human_review\<close>. So \<open>awaiting_human_review\<close>, although
  listed as terminal, can be left again.\<close>

theorem ledger_state_machine:
  "(\<forall>k. (\<exists>k'. (k, k') \<in> set legal_transitions) = (k \<notin> {completed, failed_unrecoverable})) \<and>
   (\<forall>k k'. k \<notin> {completed, failed_unrecoverable} \<longrightarrow> (\<exists>es. legal_run k es k')) \<and>
   (\<forall>k es. legal_run k es completed \<longrightarrow> k = completed \<or>
      es \<noteq> [] \<and> te_prior_state_id (last es) \<in> {patch_applied, awaiting_human_review})"
proof (intro conjI allI impI)
  fix k show "(\<exists>k'. (k, k') \<in> set legal_transitions) = (k \<notin> {completed, failed_unrecoverable})"
    by (rule legal_outgoing)
next
  fix k k' assume "k \<notin> {completed, failed_unrecoverable}"
  then obtain es where "legal_run k es awaiting_human_review"
    using reach_human [of k] unfolding legal_closure_def by blast
  moreover obtain fs where "legal_run awaiting_human_review fs k'"
    using from_human(1) [of k'] from_human(2) unfolding legal_closure_def
    by (cases "k' = needs_plan") blast+
  ultimately show "\<exists>es. legal_run k es k'" by (blast intro: legal_run_append)
next
  fix k es assume "legal_run k es completed"
  then show "k = completed \<or> es \<noteq> [] \<and> te_prior_state_id (last es) \<in> {patch_applied, awaiting_human_review}"
    using completed_needs_gate [of k es completed] by (cases "k = completed") simp_all
qed

lemma ledger_state_machine_witness:
  "(\<exists>es. legal_run needs_plan es completed) \<and> (awaiting_human_review, plan_ready) \<in> set legal_transitions"
  using ledger_state_machine [THEN conjunct2, THEN conjunct1, rule_format, of needs_plan completed]
  by (simp add: legal_transitions_def)

end
