(* ===== verification/Checkpoints.thy ===== *)
theory Checkpoints
  imports Ledger
begin

text \<open>
  The checkpoint stores of \<open>src/src/codegenie/workflows/\<close>: \<open>checkpoints.py\<close> (boundary policy,
  size cap, canonical bytes, the store protocol), \<open>_chain.py\<close> (the hash chain),
  \<open>in_memory_checkpoints.py\<close> and \<open>sqlite_checkpoints.py\<close> (the two adapters), and
  \<open>_replay.py\<close> and \<open>replay.py\<close> (the verifier and the hydration gate).

  Outside the model are the JSON writer and reader of pydantic, BLAKE3 and the redaction regexes
  of the sanitizer: they are the fields of a record \<open>wire\<close> that the definitions take as an
  argument. SQLite is modelled by the meaning of the three statements the adapter runs (the
  uniqueness constraints included); the file lock makes each append atomic, so a history is a
  sequence of appends.
\<close>

section \<open>Canonical bytes and the chain\<close>

record wire =
  w_dump :: "transition_event \<Rightarrow> string"
  w_parse :: "string \<Rightarrow> transition_event option"
  w_sanitize :: "string \<Rightarrow> string"
  w_hash :: "string \<Rightarrow> string"

text \<open>\<open>TransitionEvent.model_validate_json\<close>: the field-level parse, then the model validator.\<close>

definition validate_event :: "wire \<Rightarrow> string \<Rightarrow> transition_event option" where
  "validate_event w bytes =
     (case w_parse w bytes of
        None \<Rightarrow> None
      | Some e \<Rightarrow> (case enforce_legal_transition e of Err _ \<Rightarrow> None | Ok e' \<Rightarrow> Some e'))"

definition blake3_prefix :: string where "blake3_prefix = ''blake3:''"

definition chain_payload :: "wire \<Rightarrow> string \<Rightarrow> transition_event \<Rightarrow> string" where
  "chain_payload w prior_head e = prior_head @ [CHR 0x1E] @ w_dump w e"

definition compute_chain_head :: "wire \<Rightarrow> string \<Rightarrow> transition_event \<Rightarrow> string" where
  "compute_chain_head w prior_head e = remove_prefix blake3_prefix (w_hash w (chain_payload w prior_head e))"

definition genesis_chain_head :: string where "genesis_chain_head = replicate 64 (CHR ''0'')"

fun replay_fold :: "wire \<Rightarrow> transition_event list \<Rightarrow> string \<Rightarrow> string" where
  "replay_fold w [] head = head"
| "replay_fold w (e # es) head = replay_fold w es (compute_chain_head w head e)"

section \<open>The append policy\<close>

definition semantic_boundary_kinds :: "ledger_kind list" where
  "semantic_boundary_kinds = [plan_ready, patch_applied, gate_failed_retryable,
     awaiting_human_review, completed, failed_unrecoverable]"

definition max_event_bytes :: nat where "max_event_bytes = 65536"

datatype store_error =
    BoundaryViolation ledger_kind
  | CheckpointPayloadTooLarge
  | ValidationError
  | IntegrityError

definition assert_boundary :: "transition_event \<Rightarrow> store_error + unit" where
  "assert_boundary e =
     (if te_next_state_id e \<notin> set semantic_boundary_kinds
      then Err (BoundaryViolation (te_next_state_id e)) else Ok ())"

definition canonical_event_bytes :: "wire \<Rightarrow> transition_event \<Rightarrow> string" where
  "canonical_event_bytes w e = w_dump w e"

text \<open>The part of \<open>append\<close> before the store is touched, the same in both adapters: the bytes to
  store, and the event the chain is computed over, which is what the stored bytes read back to.\<close>

definition prepare_append :: "wire \<Rightarrow> transition_event \<Rightarrow> store_error + (string \<times> transition_event)" where
  "prepare_append w e =
     rbind (assert_boundary e) (\<lambda>_.
       let payload = canonical_event_bytes w e in
       if length payload > max_event_bytes then Err CheckpointPayloadTooLarge
       else
         let stored = w_sanitize w payload in
         (case validate_event w stored of
            None \<Rightarrow> Err ValidationError
          | Some chain_input_event \<Rightarrow> Ok (stored, chain_input_event)))"

section \<open>The in-memory adapter\<close>

type_synonym mem_store = "(string, (string \<times> string) list) dict"

definition mem_init :: mem_store where "mem_init = []"

definition mem_rows :: "mem_store \<Rightarrow> string \<Rightarrow> (string \<times> string) list" where
  "mem_rows lg wid = (case dict_get lg wid of None \<Rightarrow> [] | Some rows \<Rightarrow> rows)"

definition mem_tail_chain_head :: "mem_store \<Rightarrow> string \<Rightarrow> string" where
  "mem_tail_chain_head lg wid =
     (let rows = mem_rows lg wid in if rows = [] then genesis_chain_head else fst (last rows))"

definition mem_append :: "wire \<Rightarrow> mem_store \<Rightarrow> transition_event \<Rightarrow> store_error + (mem_store \<times> string)" where
  "mem_append w lg e =
     rbind (prepare_append w e) (\<lambda>(stored, chain_input_event).
       let prior = mem_tail_chain_head lg (te_workflow_id e);
           next_head = compute_chain_head w prior chain_input_event in
       Ok (dict_set (te_workflow_id e) (mem_rows lg (te_workflow_id e) @ [(next_head, stored)]) lg,
           next_head))"

text \<open>The generator as the list of what its \<open>next\<close> calls do: \<open>None\<close> where the row fails to
  validate (the generator is finished then, and so is its only consumer).\<close>

definition mem_iter_persisted_chain ::
  "wire \<Rightarrow> mem_store \<Rightarrow> string \<Rightarrow> (transition_event option \<times> string) list" where
  "mem_iter_persisted_chain w lg wid = map (\<lambda>(head, stored). (validate_event w stored, head)) (mem_rows lg wid)"

definition mem_read_all :: "wire \<Rightarrow> mem_store \<Rightarrow> string \<Rightarrow> transition_event option list" where
  "mem_read_all w lg wid = map (\<lambda>(head, stored). validate_event w stored) (mem_rows lg wid)"

definition mem_close :: "mem_store \<Rightarrow> mem_store" where "mem_close lg = []"

section \<open>The SQLite adapter\<close>

record chain_row =
  cr_transition_id :: string
  cr_prior_head :: string
  cr_next_head :: string
  cr_event_bytes :: string
  cr_written_at :: string

text \<open>The database files by workflow, each table in the order of its \<open>sequence\<close> column, and the
  cached connections.\<close>

record sqlite_store =
  sq_files :: "(string, chain_row list) dict"
  sq_connections :: "string list"

definition sqlite_init :: sqlite_store where
  "sqlite_init = \<lparr>sq_files = [], sq_connections = []\<rparr>"

definition sqlite_table :: "sqlite_store \<Rightarrow> string \<Rightarrow> chain_row list" where
  "sqlite_table s wid = (case dict_get (sq_files s) wid of None \<Rightarrow> [] | Some rows \<Rightarrow> rows)"

definition connection_for :: "sqlite_store \<Rightarrow> string \<Rightarrow> sqlite_store" where
  "connection_for s wid =
     (if wid \<in> set (sq_connections s) then s
      else s\<lparr>sq_files := dict_set wid (sqlite_table s wid) (sq_files s),
             sq_connections := sq_connections s @ [wid]\<rparr>)"

definition tail_chain_head_locked :: "chain_row list \<Rightarrow> string" where
  "tail_chain_head_locked rows = (if rows = [] then genesis_chain_head else cr_next_head (last rows))"

definition insert_row :: "chain_row list \<Rightarrow> chain_row \<Rightarrow> store_error + chain_row list" where
  "insert_row rows r =
     (if cr_transition_id r \<in> cr_transition_id ` set rows \<or> cr_next_head r \<in> cr_next_head ` set rows
      then Err IntegrityError else Ok (rows @ [r]))"

definition sqlite_append ::
  "wire \<Rightarrow> string \<Rightarrow> sqlite_store \<Rightarrow> transition_event \<Rightarrow> store_error + (sqlite_store \<times> string)" where
  "sqlite_append w written_at s e =
     rbind (prepare_append w e) (\<lambda>(stored, chain_input_event).
       let s1 = connection_for s (te_workflow_id e);
           rows = sqlite_table s1 (te_workflow_id e);
           prior = tail_chain_head_locked rows;
           next_head = compute_chain_head w prior chain_input_event in
       rbind (insert_row rows \<lparr>cr_transition_id = te_transition_id e, cr_prior_head = prior,
                cr_next_head = next_head, cr_event_bytes = stored, cr_written_at = written_at\<rparr>) (\<lambda>rows'.
         Ok (s1\<lparr>sq_files := dict_set (te_workflow_id e) rows' (sq_files s1)\<rparr>, next_head)))"

definition sqlite_tail_chain_head :: "sqlite_store \<Rightarrow> string \<Rightarrow> string" where
  "sqlite_tail_chain_head s wid = tail_chain_head_locked (sqlite_table (connection_for s wid) wid)"

definition sqlite_iter_persisted_chain ::
  "wire \<Rightarrow> sqlite_store \<Rightarrow> string \<Rightarrow> (transition_event option \<times> string) list" where
  "sqlite_iter_persisted_chain w s wid =
     map (\<lambda>r. (validate_event w (cr_event_bytes r), cr_next_head r)) (sqlite_table (connection_for s wid) wid)"

definition sqlite_read_all :: "wire \<Rightarrow> sqlite_store \<Rightarrow> string \<Rightarrow> transition_event option list" where
  "sqlite_read_all w s wid = map (\<lambda>r. validate_event w (cr_event_bytes r)) (sqlite_table (connection_for s wid) wid)"

definition sqlite_close :: "sqlite_store \<Rightarrow> sqlite_store" where
  "sqlite_close s = s\<lparr>sq_connections := []\<rparr>"

section \<open>The verifier and the hydration gate\<close>

datatype torn_reason = unparseable_event | null_event_bytes | duplicate_chain_link

datatype replay_verdict =
    Verified string "transition_event list"
  | ChainMismatch string string nat string
  | TornWrite torn_reason nat
  | EmptyWorkflow string

datatype hydration_result =
    Hydrated "transition_event list" ledger_kind
  | HydrationFailed ledger_state

text \<open>The loop of \<open>ReplayVerifier.verify\<close>; the first argument is what \<open>tail_chain_head\<close> returns.\<close>

fun verify_loop ::
  "wire \<Rightarrow> string \<Rightarrow> string \<Rightarrow> transition_event list \<Rightarrow> nat \<Rightarrow> (transition_event option \<times> string) list
    \<Rightarrow> replay_verdict" where
  "verify_loop w persisted_tail running_head events sequence_count [] =
     (if events = [] then EmptyWorkflow genesis_chain_head else Verified running_head events)"
| "verify_loop w persisted_tail running_head events sequence_count ((None, persisted_next_head) # rows) =
     TornWrite unparseable_event sequence_count"
| "verify_loop w persisted_tail running_head events sequence_count ((Some event, persisted_next_head) # rows) =
     (let events' = events @ [event];
          head' = replay_fold w [event] running_head in
      if head' \<noteq> persisted_next_head
      then ChainMismatch persisted_tail head' sequence_count (te_transition_id event)
      else verify_loop w persisted_tail head' events' (sequence_count + 1) rows)"

definition verify :: "wire \<Rightarrow> string \<Rightarrow> (transition_event option \<times> string) list \<Rightarrow> replay_verdict" where
  "verify w persisted_tail rows = verify_loop w persisted_tail genesis_chain_head [] 0 rows"

definition integrity_error_id :: string where
  "integrity_error_id = ''workflows.checkpoint_integrity_violation''"

fun torn_reason_str :: "torn_reason \<Rightarrow> string" where
  "torn_reason_str unparseable_event = ''unparseable_event''"
| "torn_reason_str null_event_bytes = ''null_event_bytes''"
| "torn_reason_str duplicate_chain_link = ''duplicate_chain_link''"

fun format_integrity_message :: "replay_verdict \<Rightarrow> string" where
  "format_integrity_message (ChainMismatch persisted_tail recomputed_tail divergence_index offending) =
     ''Checkpoint integrity violation: chain_mismatch at divergence_index='' @ nat_str divergence_index
     @ ''; offending_transition_id='' @ py_repr offending
     @ ''; persisted_tail='' @ py_repr persisted_tail
     @ ''; recomputed_tail='' @ py_repr recomputed_tail
     @ ''. ADR-0003: tamper or partial writes fail closed.''"
| "format_integrity_message (TornWrite reason offending) =
     ''Checkpoint integrity violation: torn_write (reason='' @ py_repr (torn_reason_str reason)
     @ '') at offending_sequence='' @ nat_str offending
     @ ''. ADR-0003: tamper or partial writes fail closed.''"
| "format_integrity_message _ = []"

definition failed_closed :: "replay_verdict \<Rightarrow> validation_error + hydration_result" where
  "failed_closed verdict =
     rbind (mk_remediation_error integrity_error_id (format_integrity_message verdict) None)
       (\<lambda>err. Ok (HydrationFailed (FailedUnrecoverable checkpoint_integrity (Some err))))"

fun dispatch_verdict :: "replay_verdict \<Rightarrow> validation_error + hydration_result" where
  "dispatch_verdict (Verified tail events) =
     (let latest = (if events \<noteq> [] then te_next_state_id (last events) else needs_plan) in
      Ok (Hydrated events latest))"
| "dispatch_verdict (EmptyWorkflow _) = Ok (Hydrated [] needs_plan)"
| "dispatch_verdict (ChainMismatch p r d t) = failed_closed (ChainMismatch p r d t)"
| "dispatch_verdict (TornWrite r n) = failed_closed (TornWrite r n)"

definition hydrate_or_fail ::
  "wire \<Rightarrow> string \<Rightarrow> (transition_event option \<times> string) list \<Rightarrow> validation_error + hydration_result" where
  "hydrate_or_fail w persisted_tail rows = dispatch_verdict (verify w persisted_tail rows)"

section \<open>Sound chains\<close>

text \<open>The specification of a persisted sequence: every row reads back, and every persisted head is
  the chain head of the event over the head before.\<close>

fun chain_ok :: "wire \<Rightarrow> string \<Rightarrow> (transition_event option \<times> string) list \<Rightarrow> bool" where
  "chain_ok w head [] = True"
| "chain_ok w head ((None, h) # rows) = False"
| "chain_ok w head ((Some e, h) # rows) = (h = compute_chain_head w head e \<and> chain_ok w h rows)"

fun tail_of :: "string \<Rightarrow> (transition_event option \<times> string) list \<Rightarrow> string" where
  "tail_of head rows = (if rows = [] then head else snd (last rows))"

definition events_of :: "(transition_event option \<times> string) list \<Rightarrow> transition_event list" where
  "events_of rows = map (\<lambda>r. the (fst r)) rows"

definition latest_kind :: "transition_event list \<Rightarrow> ledger_kind" where
  "latest_kind es = (if es = [] then needs_plan else te_next_state_id (last es))"

lemma chain_ok_append:
  "chain_ok w head (rows @ rows') \<longleftrightarrow> chain_ok w head rows \<and> chain_ok w (tail_of head rows) rows'"
  by (induction w head rows rule: chain_ok.induct) auto

lemma chain_ok_snoc:
  "chain_ok w head (rows @ [(Some e, h)]) \<longleftrightarrow>
     chain_ok w head rows \<and> h = compute_chain_head w (tail_of head rows) e"
  by (simp add: chain_ok_append)

lemma events_of_simps [simp]:
  "events_of [] = []" "events_of (r # rows) = the (fst r) # events_of rows"
  "events_of (rows @ rows') = events_of rows @ events_of rows'"
  by (simp_all add: events_of_def)

lemma events_of_Nil_iff [simp]:
  "events_of rows = [] \<longleftrightarrow> rows = []" "[] = events_of rows \<longleftrightarrow> rows = []"
  by (auto simp: events_of_def)

lemma verify_loop_prefix:
  "chain_ok w head good \<Longrightarrow>
   verify_loop w t head es n (good @ rest) =
   verify_loop w t (tail_of head good) (es @ events_of good) (n + length good) rest"
proof (induction good arbitrary: head es n)
  case (Cons r good)
  then obtain e h where r: "r = (Some e, h)" "h = compute_chain_head w head e" "chain_ok w h good"
    by (cases r; cases "fst r") auto
  with Cons.IH [of h "es @ [e]" "Suc n"] show ?case by (cases good) (simp_all add: Let_def)
qed simp

lemma chain_ok_fold:
  "chain_ok w head rows \<Longrightarrow> replay_fold w (events_of rows) head = tail_of head rows"
proof (induction rows arbitrary: head)
  case (Cons r rows)
  then obtain e h where r: "r = (Some e, h)" "h = compute_chain_head w head e" "chain_ok w h rows"
    by (cases r; cases "fst r") auto
  with Cons.IH [of h] show ?case by simp
qed simp

lemma verify_good:
  "chain_ok w genesis_chain_head rows \<Longrightarrow>
   verify w t rows = (if rows = [] then EmptyWorkflow genesis_chain_head
                      else Verified (snd (last rows)) (events_of rows))"
  using verify_loop_prefix [of w genesis_chain_head rows t "[]" 0 "[]"] by (simp add: verify_def)

lemma verify_torn:
  "chain_ok w genesis_chain_head good \<Longrightarrow>
   verify w t (good @ (None, h) # rest) = TornWrite unparseable_event (length good)"
  by (simp add: verify_def verify_loop_prefix)

lemma verify_mismatch:
  "chain_ok w genesis_chain_head good \<Longrightarrow> h \<noteq> compute_chain_head w (tail_of genesis_chain_head good) e \<Longrightarrow>
   verify w t (good @ (Some e, h) # rest) =
     ChainMismatch t (compute_chain_head w (tail_of genesis_chain_head good) e) (length good)
       (te_transition_id e)"
  by (simp add: verify_def verify_loop_prefix del: tail_of.simps)

text \<open>Every sequence is sound or has a first bad row.\<close>

lemma first_bad_row:
  "chain_ok w head rows \<or> (\<exists>good r rest. rows = good @ r # rest \<and> chain_ok w head good \<and>
     (fst r = None \<or> (\<exists>e. fst r = Some e \<and> snd r \<noteq> compute_chain_head w (tail_of head good) e)))"
proof (induction rows rule: rev_induct)
  case (snoc r rows)
  then show ?case
  proof (elim disjE exE conjE)
    assume ok: "chain_ok w head rows"
    show ?thesis
    proof (cases "chain_ok w head (rows @ [r])")
      case False
      have "rows @ [r] = rows @ r # []" by simp
      moreover have "fst r = None \<or> (\<exists>e. fst r = Some e \<and> snd r \<noteq> compute_chain_head w (tail_of head rows) e)"
        using False ok by (cases r; cases "fst r") (auto simp: chain_ok_append simp del: tail_of.simps)
      ultimately show ?thesis using ok by blast
    qed simp
  next
    fix good b rest assume "rows = good @ b # rest" "chain_ok w head good" and bad:
      "fst b = None"
    then have "rows @ [r] = good @ b # (rest @ [r])" by simp
    with bad \<open>chain_ok w head good\<close> show ?thesis by blast
  next
    fix good b rest e assume "rows = good @ b # rest" "chain_ok w head good" and bad:
      "fst b = Some e" "snd b \<noteq> compute_chain_head w (tail_of head good) e"
    then have "rows @ [r] = good @ b # (rest @ [r])" by simp
    with bad \<open>chain_ok w head good\<close> show ?thesis by blast
  qed
qed simp

end
