(* ===== verification/Replay.thy ===== *)
theory Replay
  imports Checkpoints
begin

text \<open>
  What the checkpoint stores promise the replay verifier: the interface as a locale, the two
  adapters as its interpretations, and the properties of histories, tampering, hydration and
  adapter parity. The definitions are in \<open>Checkpoints\<close>.
\<close>

section \<open>Histories\<close>

text \<open>A refused append raises and leaves the store as it was.\<close>

fun run_appends ::
  "(string \<Rightarrow> 's \<Rightarrow> transition_event \<Rightarrow> store_error + ('s \<times> string)) \<Rightarrow> 's \<Rightarrow> (string \<times> transition_event) list \<Rightarrow> 's"
  where
  "run_appends app s [] = s"
| "run_appends app s ((clock, e) # es) =
     (case app clock s e of
        Err _ \<Rightarrow> run_appends app s es
      | Ok (s', _) \<Rightarrow> run_appends app s' es)"

section \<open>The store interface\<close>

locale checkpoint_store =
  fixes w :: wire
    and store_init :: 's
    and store_append :: "string \<Rightarrow> 's \<Rightarrow> transition_event \<Rightarrow> store_error + ('s \<times> string)"
    and store_iter :: "'s \<Rightarrow> string \<Rightarrow> (transition_event option \<times> string) list"
    and store_tail :: "'s \<Rightarrow> string \<Rightarrow> string"
  assumes iter_init: "store_iter store_init wid = []"
    and iter_append: "store_append c s e = Ok (s', h) \<Longrightarrow>
          \<exists>e'. h = compute_chain_head w (store_tail s (te_workflow_id e)) e' \<and>
            store_iter s' wid = store_iter s wid @ (if wid = te_workflow_id e then [(Some e', h)] else [])"
    and tail_iter: "store_tail s wid = tail_of genesis_chain_head (store_iter s wid)"
begin

lemma append_keeps_chain:
  assumes "store_append c s e = Ok (s', h)" "chain_ok w genesis_chain_head (store_iter s wid)"
  shows "chain_ok w genesis_chain_head (store_iter s' wid)"
  using iter_append [OF assms(1), of wid] assms(2)
  by (auto simp: chain_ok_snoc tail_iter simp del: tail_of.simps)

lemma history_chain:
  "chain_ok w genesis_chain_head (store_iter s wid) \<Longrightarrow>
   chain_ok w genesis_chain_head (store_iter (run_appends store_append s es) wid)"
proof (induction es arbitrary: s)
  case (Cons ce es)
  obtain c e where ce: "ce = (c, e)" by (cases ce)
  show ?case
  proof (cases "store_append c s e")
    case (Inr sh)
    then show ?thesis using Cons append_keeps_chain by (cases sh) (auto simp: ce)
  qed (use Cons ce in simp)
qed simp

lemma history_from_init:
  "chain_ok w genesis_chain_head (store_iter (run_appends store_append store_init es) wid)"
  by (rule history_chain) (simp add: iter_init)

lemma history_verifies:
  fixes es wid
  defines "s \<equiv> run_appends store_append store_init es"
  shows "verify w (store_tail s wid) (store_iter s wid) =
    (if store_iter s wid = [] then EmptyWorkflow genesis_chain_head
     else Verified (store_tail s wid) (events_of (store_iter s wid)))"
  using verify_good [OF history_from_init] by (simp add: s_def tail_iter)

lemma history_hydrates:
  fixes es wid
  defines "s \<equiv> run_appends store_append store_init es"
  shows "hydrate_or_fail w (store_tail s wid) (store_iter s wid) =
    Ok (Hydrated (events_of (store_iter s wid)) (latest_kind (events_of (store_iter s wid))))"
  unfolding s_def hydrate_or_fail_def history_verifies
  by (simp add: latest_kind_def)

end

section \<open>The adapters provide it\<close>

lemma prepare_append_Ok:
  "prepare_append w e = Ok (stored, e') \<longleftrightarrow>
     te_next_state_id e \<in> set semantic_boundary_kinds \<and> length (w_dump w e) \<le> max_event_bytes \<and>
     stored = w_sanitize w (w_dump w e) \<and> validate_event w stored = Some e'"
  by (auto simp: prepare_append_def assert_boundary_def canonical_event_bytes_def Let_def
      rbind_iffs split: if_splits option.splits)

lemma mem_rows_set [simp]:
  "mem_rows (dict_set wid rows lg) wid' = (if wid' = wid then rows else mem_rows lg wid')"
  by (simp add: mem_rows_def dict_simps)

lemma mem_append_Ok:
  "mem_append w lg e = Ok (lg', h) \<longleftrightarrow>
     (\<exists>stored e'. prepare_append w e = Ok (stored, e') \<and>
        h = compute_chain_head w (mem_tail_chain_head lg (te_workflow_id e)) e' \<and>
        lg' = dict_set (te_workflow_id e) (mem_rows lg (te_workflow_id e) @ [(h, stored)]) lg)"
  by (auto simp: mem_append_def rbind_iffs Let_def)

interpretation mem: checkpoint_store w mem_init "\<lambda>_. mem_append w" "mem_iter_persisted_chain w"
  mem_tail_chain_head for w
proof (unfold_locales, goal_cases)
  case (1 wid)
  show ?case by (simp add: mem_iter_persisted_chain_def mem_rows_def mem_init_def)
next
  case (2 c s e s' h wid)
  then show ?case by (auto simp: mem_append_Ok prepare_append_Ok mem_iter_persisted_chain_def)
next
  case (3 s wid)
  show ?case
    by (simp add: mem_tail_chain_head_def mem_iter_persisted_chain_def Let_def last_map split: prod.split)
qed

lemma sqlite_table_connection [simp]: "sqlite_table (connection_for s wid) wid' = sqlite_table s wid'"
  by (simp add: connection_for_def sqlite_table_def dict_simps)

lemma sqlite_table_set [simp]:
  "sqlite_table (s\<lparr>sq_files := dict_set wid rows (sq_files s0)\<rparr>) wid' =
     (if wid' = wid then rows else sqlite_table s0 wid')"
  by (simp add: sqlite_table_def dict_simps)

lemma insert_row_Ok:
  "insert_row rows r = Ok rows' \<longleftrightarrow> rows' = rows @ [r] \<and>
     cr_transition_id r \<notin> cr_transition_id ` set rows \<and> cr_next_head r \<notin> cr_next_head ` set rows"
  by (auto simp: insert_row_def)

lemma sqlite_append_Ok:
  assumes "sqlite_append w t s e = Ok (s', h)"
  shows "\<exists>stored e' r. prepare_append w e = Ok (stored, e') \<and>
     h = compute_chain_head w (tail_chain_head_locked (sqlite_table s (te_workflow_id e))) e' \<and>
     cr_next_head r = h \<and> cr_event_bytes r = stored \<and>
     (\<forall>wid. sqlite_table s' wid = sqlite_table s wid @ (if wid = te_workflow_id e then [r] else []))"
  using assms
  by (auto simp: sqlite_append_def rbind_iffs Let_def insert_row_Ok)

interpretation sqlite: checkpoint_store w sqlite_init "sqlite_append w" "sqlite_iter_persisted_chain w"
  sqlite_tail_chain_head for w
proof (unfold_locales, goal_cases)
  case (1 wid)
  show ?case by (simp add: sqlite_iter_persisted_chain_def) (simp add: sqlite_table_def sqlite_init_def)
next
  case (2 c s e s' h wid)
  from sqlite_append_Ok [OF this] obtain stored e' r where r:
    "prepare_append w e = Ok (stored, e')"
    "h = compute_chain_head w (tail_chain_head_locked (sqlite_table s (te_workflow_id e))) e'"
    "cr_next_head r = h" "cr_event_bytes r = stored"
    "\<forall>wid. sqlite_table s' wid = sqlite_table s wid @ (if wid = te_workflow_id e then [r] else [])"
    by blast
  then show ?case
    by (intro exI [of _ e'])
      (auto simp: prepare_append_Ok sqlite_iter_persisted_chain_def sqlite_tail_chain_head_def)
next
  case (3 s wid)
  show ?case
    by (simp add: sqlite_tail_chain_head_def tail_chain_head_locked_def sqlite_iter_persisted_chain_def
        last_map)
qed

section \<open>Tampering\<close>

text \<open>The byte strings a fold hashes.\<close>

fun hashed :: "wire \<Rightarrow> string \<Rightarrow> transition_event list \<Rightarrow> string list" where
  "hashed w head [] = []"
| "hashed w head (e # es) = chain_payload w head e # hashed w (compute_chain_head w head e) es"

definition head_of_payload :: "wire \<Rightarrow> string \<Rightarrow> string" where
  "head_of_payload w p = remove_prefix blake3_prefix (w_hash w p)"

text \<open>What is asked of BLAKE3 on the byte strings at hand: no two of them collide, and a head is
  hexadecimal (no record separator) and is not the genesis constant.\<close>

definition hash_good_on :: "wire \<Rightarrow> string set \<Rightarrow> bool" where
  "hash_good_on w P \<longleftrightarrow> inj_on (head_of_payload w) P \<and>
     (\<forall>p \<in> P. CHR 0x1E \<notin> set (head_of_payload w p) \<and> head_of_payload w p \<noteq> genesis_chain_head)"

lemma hashed_snoc:
  "hashed w head (es @ [e]) = hashed w head es @ [chain_payload w (replay_fold w es head) e]"
  by (induction es arbitrary: head) simp_all

lemma replay_fold_snoc:
  "replay_fold w (es @ [e]) head = head_of_payload w (chain_payload w (replay_fold w es head) e)"
  by (induction es arbitrary: head) (simp_all add: compute_chain_head_def head_of_payload_def)

lemma split_at_separator:
  assumes "xs @ [s] @ ys = xs' @ [s] @ ys'" "s \<notin> set xs" "s \<notin> set xs'"
  shows "xs = xs' \<and> ys = ys'"
  using assms
proof (induction xs arbitrary: xs')
  case Nil then show ?case by (cases xs') auto
next
  case (Cons x xs) then show ?case by (cases xs') auto
qed

lemma fold_head_clean:
  "hash_good_on w (set (hashed w genesis_chain_head es)) \<Longrightarrow>
   CHR 0x1E \<notin> set (replay_fold w es genesis_chain_head)"
proof (cases es rule: rev_cases)
  case Nil
  then show ?thesis by (simp add: genesis_chain_head_def)
next
  case (snoc es' e)
  assume "hash_good_on w (set (hashed w genesis_chain_head es))"
  then show ?thesis by (simp add: snoc hashed_snoc replay_fold_snoc hash_good_on_def)
qed

lemma hash_good_on_mono: "hash_good_on w P \<Longrightarrow> Q \<subseteq> P \<Longrightarrow> hash_good_on w Q"
  unfolding hash_good_on_def by (blast intro: inj_on_subset)

lemma equal_tails_equal_dumps:
  assumes "hash_good_on w (set (hashed w genesis_chain_head es) \<union> set (hashed w genesis_chain_head fs))"
    and "replay_fold w es genesis_chain_head = replay_fold w fs genesis_chain_head"
  shows "map (w_dump w) es = map (w_dump w) fs"
  using assms
proof (induction es arbitrary: fs rule: rev_induct)
  case Nil
  show ?case
  proof (cases fs rule: rev_cases)
    case (snoc fs' f)
    with Nil show ?thesis by (auto simp: hashed_snoc replay_fold_snoc hash_good_on_def)
  qed simp
next
  case (snoc e es)
  show ?case
  proof (cases fs rule: rev_cases)
    case Nil
    with snoc.prems show ?thesis by (auto simp: hashed_snoc replay_fold_snoc hash_good_on_def)
  next
    case fs: (snoc fs' f)
    let ?he = "replay_fold w es genesis_chain_head" and ?hf = "replay_fold w fs' genesis_chain_head"
    have eq: "head_of_payload w (chain_payload w ?he e) = head_of_payload w (chain_payload w ?hf f)"
      using snoc.prems(2) by (simp only: fs replay_fold_snoc)
    have same: "chain_payload w ?he e = chain_payload w ?hf f"
      by (rule inj_onD [OF conjunct1 [OF snoc.prems(1) [unfolded hash_good_on_def]] eq])
        (simp_all add: fs hashed_snoc)
    have sub: "hash_good_on w (set (hashed w genesis_chain_head es) \<union> set (hashed w genesis_chain_head fs'))"
      by (rule hash_good_on_mono [OF snoc.prems(1)]) (auto simp: fs hashed_snoc)
    have "CHR 0x1E \<notin> set ?he" "CHR 0x1E \<notin> set ?hf"
      by (rule fold_head_clean, rule hash_good_on_mono [OF sub], simp)+
    with same have "?he = ?hf \<and> w_dump w e = w_dump w f"
      unfolding chain_payload_def by (intro split_at_separator)
    with snoc.IH [OF sub] show ?thesis by (simp add: fs)
  qed
qed

section \<open>Hydration\<close>

lemma verify_Verified_iff:
  "verify w t rows = Verified h es \<longleftrightarrow>
     chain_ok w genesis_chain_head rows \<and> rows \<noteq> [] \<and> h = snd (last rows) \<and> es = events_of rows"
proof (cases "chain_ok w genesis_chain_head rows")
  case True
  then show ?thesis by (auto simp: verify_good)
next
  case False
  with first_bad_row [of w genesis_chain_head rows] obtain good r rest where r:
    "rows = good @ r # rest" "chain_ok w genesis_chain_head good"
    "fst r = None \<or> (\<exists>e. fst r = Some e \<and> snd r \<noteq> compute_chain_head w (tail_of genesis_chain_head good) e)"
    by blast
  obtain o1 h1 where "r = (o1, h1)" by (cases r)
  with r False show ?thesis
    by (auto simp: verify_torn verify_mismatch simp del: tail_of.simps)
qed

lemma failed_closed_not_hydrated: "failed_closed v \<noteq> Ok (Hydrated es k)"
  by (auto simp: failed_closed_def rbind_iffs)

lemma hydrated_iff:
  "hydrate_or_fail w t rows = Ok (Hydrated es k) \<longleftrightarrow>
     chain_ok w genesis_chain_head rows \<and> es = events_of rows \<and> k = latest_kind es"
proof (cases "chain_ok w genesis_chain_head rows")
  case True
  then show ?thesis by (auto simp: hydrate_or_fail_def verify_good latest_kind_def)
next
  case False
  with first_bad_row [of w genesis_chain_head rows] obtain good r rest where r:
    "rows = good @ r # rest" "chain_ok w genesis_chain_head good"
    "fst r = None \<or> (\<exists>e. fst r = Some e \<and> snd r \<noteq> compute_chain_head w (tail_of genesis_chain_head good) e)"
    by blast
  obtain o1 h1 where "r = (o1, h1)" by (cases r)
  with r False show ?thesis
    by (auto simp: hydrate_or_fail_def verify_torn verify_mismatch failed_closed_not_hydrated
        simp del: tail_of.simps)
qed

lemma failed_closed_cases:
  "failed_closed v = Err MessageTooLong \<or>
   (\<exists>err. failed_closed v = Ok (HydrationFailed (FailedUnrecoverable checkpoint_integrity (Some err))))"
  by (auto simp: failed_closed_def mk_remediation_error_def)

section \<open>A concrete wire\<close>

text \<open>A toy serialiser, to evaluate the model: the transition id, the kinds by number and the
  workflow; the hash renders the record separator as a bar.\<close>

definition kind_char :: "ledger_kind \<Rightarrow> char" where
  "kind_char k = (case k of needs_plan \<Rightarrow> CHR ''0'' | plan_ready \<Rightarrow> CHR ''1'' | patch_applied \<Rightarrow> CHR ''2''
     | gate_failed_retryable \<Rightarrow> CHR ''3'' | awaiting_human_review \<Rightarrow> CHR ''4'' | completed \<Rightarrow> CHR ''5''
     | failed_unrecoverable \<Rightarrow> CHR ''6'')"

definition char_kind :: "char \<Rightarrow> ledger_kind option" where
  "char_kind c = find (\<lambda>k. kind_char k = c) all_ledger_kinds"

definition toy_event :: "string \<Rightarrow> ledger_kind \<Rightarrow> ledger_kind \<Rightarrow> string \<Rightarrow> transition_event" where
  "toy_event tid k k' wid = \<lparr>te_transition_id = tid, te_prior_state_id = k, te_next_state_id = k',
     te_triggering_outcome = JNull, te_evidence_digest = [], te_chain_head = [], te_workflow_id = wid\<rparr>"

definition toy_wire :: wire where
  "toy_wire = \<lparr>
     w_dump = (\<lambda>e. kind_char (te_prior_state_id e) # kind_char (te_next_state_id e) #
       te_transition_id e @ ''/'' @ te_workflow_id e),
     w_parse = (\<lambda>s. case s of a # b # rest \<Rightarrow>
         (case (char_kind a, char_kind b, py_split ''/'' rest) of
            (Some k, Some k', [tid, wid]) \<Rightarrow> Some (toy_event tid k k' wid) | _ \<Rightarrow> None)
       | _ \<Rightarrow> None),
     w_sanitize = (\<lambda>s. s),
     w_hash = (\<lambda>s. ''blake3:'' @ map (\<lambda>c. if c = CHR 0x1E then CHR ''|'' else c) s)\<rparr>"

definition toy_history :: "(string \<times> transition_event) list" where
  "toy_history = [(''t0'', toy_event ''a'' needs_plan plan_ready ''w''),
     (''t1'', toy_event ''b'' plan_ready patch_applied ''w''),
     (''t2'', toy_event ''c'' gate_failed_retryable needs_plan ''w''),
     (''t3'', toy_event ''d'' patch_applied completed ''w'')]"

section \<open>What was appended\<close>

text \<open>The events a history leaves for a workflow: of every attempt that passes the policy, what its
  sanitised bytes read back to.\<close>

definition accepted :: "wire \<Rightarrow> string \<Rightarrow> (string \<times> transition_event) list \<Rightarrow> transition_event list" where
  "accepted w wid es = concat (map (\<lambda>(c, e).
     case prepare_append w e of Ok (_, e') \<Rightarrow> (if te_workflow_id e = wid then [e'] else []) | Err _ \<Rightarrow> []) es)"

lemma mem_history_events:
  "events_of (mem_iter_persisted_chain w (run_appends (\<lambda>_. mem_append w) s es) wid) =
   events_of (mem_iter_persisted_chain w s wid) @ accepted w wid es"
proof (induction es arbitrary: s)
  case Nil
  show ?case by (simp add: accepted_def)
next
  case (Cons ce es)
  obtain c e where ce: "ce = (c, e)" by (cases ce)
  show ?case
  proof (cases "prepare_append w e")
    case (Inl err)
    then have "mem_append w s e = Err err" by (simp add: mem_append_def)
    with Cons Inl show ?thesis by (simp add: ce accepted_def)
  next
    case (Inr se)
    obtain stored e' where se: "se = (stored, e')" by (cases se)
    with Inr have "validate_event w stored = Some e'" by (auto simp: prepare_append_Ok)
    with Cons Inr se show ?thesis
      by (simp add: ce accepted_def mem_append_def Let_def mem_iter_persisted_chain_def)
  qed
qed

section \<open>Properties\<close>

text \<open>C8. Whatever sequence of appends was attempted on a fresh store, refused ones included,
  the persisted chain of every workflow verifies with the tail head the store reports, and
  hydration returns its events and the state the last one leads to. Both adapters.\<close>

theorem checkpoint_history_verifies:
  "let s = run_appends (sqlite_append w) sqlite_init es;
       rows = sqlite_iter_persisted_chain w s wid;
       tail = sqlite_tail_chain_head s wid;
       m = run_appends (\<lambda>_. mem_append w) mem_init es;
       mrows = mem_iter_persisted_chain w m wid;
       mtail = mem_tail_chain_head m wid in
   verify w tail rows = (if rows = [] then EmptyWorkflow genesis_chain_head else Verified tail (events_of rows)) \<and>
   hydrate_or_fail w tail rows = Ok (Hydrated (events_of rows) (latest_kind (events_of rows))) \<and>
   verify w mtail mrows = (if mrows = [] then EmptyWorkflow genesis_chain_head else Verified mtail (events_of mrows)) \<and>
   hydrate_or_fail w mtail mrows = Ok (Hydrated (events_of mrows) (latest_kind (events_of mrows))) \<and>
   events_of mrows = accepted w wid es"
  using mem_history_events [of w mem_init es wid]
  by (simp add: Let_def sqlite.history_verifies sqlite.history_hydrates mem.history_verifies
      mem.history_hydrates mem.iter_init)

text \<open>The verifier names the first bad row: after any number of sound rows it returns
  \<open>TornWrite\<close> with the index of a row that does not read back, and \<open>ChainMismatch\<close> with the
  index, the transition id and the recomputed head of a row whose persisted head is wrong,
  whatever follows; and it returns \<open>Verified\<close> for sound sequences only.\<close>

theorem verify_names_first_bad_row:
  assumes "chain_ok w genesis_chain_head good"
  shows "verify w t (good @ (None, h) # rest) = TornWrite unparseable_event (length good) \<and>
    (h \<noteq> compute_chain_head w (tail_of genesis_chain_head good) e \<longrightarrow>
      verify w t (good @ (Some e, h) # rest) =
        ChainMismatch t (compute_chain_head w (tail_of genesis_chain_head good) e) (length good)
          (te_transition_id e)) \<and>
    (verify w t rows = Verified tail es \<longleftrightarrow>
      chain_ok w genesis_chain_head rows \<and> rows \<noteq> [] \<and> tail = snd (last rows) \<and> es = events_of rows)"
  by (intro conjI impI verify_torn [OF assms] verify_mismatch [OF assms] verify_Verified_iff)

text \<open>Two persisted sequences that verify with the same tail head have the same events, byte for
  byte, when the hash does not collide on the payloads of the two: an edit, a reordering or a
  substitution of rows changes the tail or fails to verify.\<close>

theorem tampering_changes_tail:
  assumes "verify w t rows = Verified h es" "verify w t' rows' = Verified h es'"
    and "hash_good_on w (set (hashed w genesis_chain_head es) \<union> set (hashed w genesis_chain_head es'))"
  shows "map (w_dump w) es = map (w_dump w) es'"
proof (rule equal_tails_equal_dumps [OF assms(3)])
  from assms(1,2) show "replay_fold w es genesis_chain_head = replay_fold w es' genesis_chain_head"
    using chain_ok_fold [of w genesis_chain_head rows] chain_ok_fold [of w genesis_chain_head rows']
    by (simp add: verify_Verified_iff)
qed

text \<open>C33. Hydration fails closed: it returns \<open>Hydrated\<close> exactly for sound sequences; for any other it
  returns \<open>FailedUnrecoverable\<close> with reason \<open>checkpoint_integrity\<close>, or raises because the
  diagnostic message is longer than its cap.\<close>

theorem hydrate_fails_closed:
  "(hydrate_or_fail w t rows = Ok (Hydrated es k) \<longleftrightarrow>
      chain_ok w genesis_chain_head rows \<and> es = events_of rows \<and> k = latest_kind es) \<and>
   (chain_ok w genesis_chain_head rows \<or>
    hydrate_or_fail w t rows = Err MessageTooLong \<or>
    (\<exists>err. hydrate_or_fail w t rows = Ok (HydrationFailed (FailedUnrecoverable checkpoint_integrity (Some err)))))"
proof (intro conjI hydrated_iff)
  show "chain_ok w genesis_chain_head rows \<or> hydrate_or_fail w t rows = Err MessageTooLong \<or>
    (\<exists>err. hydrate_or_fail w t rows = Ok (HydrationFailed (FailedUnrecoverable checkpoint_integrity (Some err))))"
  proof (cases "verify w t rows")
    case Verified
    then show ?thesis by (simp add: verify_Verified_iff)
  next
    case EmptyWorkflow
    then have "hydrate_or_fail w t rows = Ok (Hydrated [] needs_plan)"
      by (simp add: hydrate_or_fail_def)
    then show ?thesis using hydrated_iff [of w t rows "[]" needs_plan] by simp
  next
    case ChainMismatch
    then show ?thesis
      using failed_closed_cases [of "verify w t rows"] by (simp add: hydrate_or_fail_def)
  next
    case TornWrite
    then show ?thesis
      using failed_closed_cases [of "verify w t rows"] by (simp add: hydrate_or_fail_def)
  qed
qed

text \<open>The in-memory adapter refines to the SQLite one: from stores with the same rows the same append
  gives the same head and again the same rows, and the same refusals. SQLite refuses more in one
  case only, its uniqueness constraints: a transition id, or a head, that the table already has.\<close>

definition same_rows :: "sqlite_store \<Rightarrow> mem_store \<Rightarrow> bool" where
  "same_rows s m \<longleftrightarrow> (\<forall>wid. mem_rows m wid = map (\<lambda>r. (cr_next_head r, cr_event_bytes r)) (sqlite_table s wid))"

lemma same_rows_tail:
  "same_rows s m \<Longrightarrow> mem_tail_chain_head m wid = tail_chain_head_locked (sqlite_table s wid)"
  by (simp add: same_rows_def mem_tail_chain_head_def tail_chain_head_locked_def Let_def last_map)

text \<open>Adapter parity, as above.\<close>

theorem adapters_agree:
  assumes "same_rows s m"
  shows "case sqlite_append w t s e of
      Ok (s', h) \<Rightarrow> (\<exists>m'. mem_append w m e = Ok (m', h) \<and> same_rows s' m')
    | Err err \<Rightarrow>
        (if err = IntegrityError
         then \<exists>m' h. mem_append w m e = Ok (m', h) \<and>
           (te_transition_id e \<in> cr_transition_id ` set (sqlite_table s (te_workflow_id e)) \<or>
            h \<in> cr_next_head ` set (sqlite_table s (te_workflow_id e)))
         else mem_append w m e = Err err)"
proof (cases "prepare_append w e")
  case (Inl err)
  moreover have "err \<noteq> IntegrityError"
    using Inl by (auto simp: prepare_append_def assert_boundary_def Let_def split: if_splits option.splits)
  ultimately show ?thesis by (simp add: sqlite_append_def mem_append_def)
next
  case (Inr p)
  obtain stored e' where p: "p = (stored, e')" by (cases p)
  let ?h = "compute_chain_head w (mem_tail_chain_head m (te_workflow_id e)) e'"
  let ?m = "dict_set (te_workflow_id e) (mem_rows m (te_workflow_id e) @ [(?h, stored)]) m"
  have mem: "mem_append w m e = Ok (?m, ?h)"
    using Inr by (simp add: p mem_append_def Let_def)
  show ?thesis
  proof (cases "sqlite_append w t s e")
    case (Inr sh)
    obtain s' h where sh: "sh = (s', h)" by (cases sh)
    from sqlite_append_Ok [OF Inr [unfolded sh]] obtain r where
      "h = ?h" "cr_next_head r = h" "cr_event_bytes r = stored"
      "\<forall>wid. sqlite_table s' wid = sqlite_table s wid @ (if wid = te_workflow_id e then [r] else [])"
      using \<open>prepare_append w e = Ok p\<close> assms by (auto simp: p same_rows_tail)
    with mem assms Inr show ?thesis by (simp add: sh same_rows_def)
  next
    case (Inl err)
    with \<open>prepare_append w e = Ok p\<close> have "err = IntegrityError \<and>
      (te_transition_id e \<in> cr_transition_id ` set (sqlite_table s (te_workflow_id e)) \<or>
       ?h \<in> cr_next_head ` set (sqlite_table s (te_workflow_id e)))"
      using assms
      by (auto simp: p sqlite_append_def rbind_iffs Let_def insert_row_def same_rows_tail split: if_splits)
    with Inl mem show ?thesis by auto
  qed
qed

section \<open>Witnesses and limits\<close>

definition toy_rows :: "(transition_event option \<times> string) list" where
  "toy_rows = mem_iter_persisted_chain toy_wire (run_appends (\<lambda>_. mem_append toy_wire) mem_init toy_history) ''w''"

lemma toy_dump: "w_dump toy_wire e = kind_char (te_prior_state_id e) #
    kind_char (te_next_state_id e) # te_transition_id e @ ''/'' @ te_workflow_id e"
  by (simp add: toy_wire_def)

lemma toy_validate: "(k, k') \<in> set legal_transitions \<Longrightarrow> py_split ''/'' (tid @ ''/'' @ wid) = [tid, wid] \<Longrightarrow>
    validate_event toy_wire (w_dump toy_wire (toy_event tid k k' wid)) = Some (toy_event tid k k' wid)"
  by (cases k; cases k') (simp_all add: toy_wire_def validate_event_def toy_event_def kind_char_def
      char_kind_def all_ledger_kinds_def enforce_legal_transition_def)

lemma toy_prepare:
  "(k, k') \<in> set legal_transitions \<Longrightarrow> k' \<noteq> needs_plan \<Longrightarrow>
   prepare_append toy_wire (toy_event [c] k k' ''w'') =
     Ok (w_dump toy_wire (toy_event [c] k k' ''w''), toy_event [c] k k' ''w'')"
  if "c \<noteq> CHR ''/''"
  using toy_validate [of k k' "[c]" "''w''"] that
  by (cases k') (auto simp: prepare_append_Ok semantic_boundary_kinds_def toy_event_def max_event_bytes_def
      toy_dump py_split_def split_go_Cons toy_wire_def)

lemma toy_refused:
  "prepare_append toy_wire (toy_event tid k needs_plan wid) = Err (BoundaryViolation needs_plan)"
  by (simp add: prepare_append_def assert_boundary_def semantic_boundary_kinds_def toy_event_def)

lemma toy_accepted: "map te_transition_id (accepted toy_wire ''w'' toy_history) = [''a'', ''b'', ''d'']"
  by (simp add: accepted_def toy_history_def toy_prepare toy_refused legal_transitions_def)
    (simp add: toy_event_def)

lemma toy_rows_ok: "chain_ok toy_wire genesis_chain_head toy_rows"
  unfolding toy_rows_def by (rule mem.history_from_init)

lemma toy_rows_events: "map te_transition_id (events_of toy_rows) = [''a'', ''b'', ''d'']"
  using toy_accepted mem_history_events [of toy_wire mem_init toy_history "''w''"]
  by (simp add: toy_rows_def mem.iter_init)

lemma length_toy_rows: "length toy_rows = 3"
proof -
  have "length (map te_transition_id (events_of toy_rows)) = 3" by (simp only: toy_rows_events) simp
  then show ?thesis by (simp add: events_of_def)
qed

lemma verify_names_first_bad_row_witness:
  "verify toy_wire [] (toy_rows @ [(None, [])]) = TornWrite unparseable_event 3"
  using verify_names_first_bad_row [OF toy_rows_ok, of "[]" "[]" "[]"] length_toy_rows by simp

lemma adapters_agree_witness:
  "same_rows sqlite_init mem_init \<and>
   (\<exists>s' h m'. sqlite_append toy_wire ''t'' sqlite_init (toy_event ''a'' needs_plan plan_ready ''w'') = Ok (s', h) \<and>
     mem_append toy_wire mem_init (toy_event ''a'' needs_plan plan_ready ''w'') = Ok (m', h) \<and> same_rows s' m')"
proof -
  let ?e = "toy_event ''a'' needs_plan plan_ready ''w''"
  have same: "same_rows sqlite_init mem_init"
    by (simp add: same_rows_def mem_rows_def sqlite_table_def mem_init_def sqlite_init_def)
  have "\<exists>s' h. sqlite_append toy_wire ''t'' sqlite_init ?e = Ok (s', h)"
    by (simp add: sqlite_append_def toy_prepare legal_transitions_def Let_def insert_row_def)
      (simp add: sqlite_table_def sqlite_init_def)
  then obtain s' h where sq: "sqlite_append toy_wire ''t'' sqlite_init ?e = Ok (s', h)" by blast
  with adapters_agree [OF same, of toy_wire ?e "''t''"] same show ?thesis by auto
qed

lemma tampering_changes_tail_witness:
  "map (w_dump toy_wire) [toy_event ''a'' needs_plan plan_ready ''w''] =
   map (w_dump toy_wire) [(toy_event ''a'' needs_plan plan_ready ''w'')\<lparr>te_evidence_digest := ''x''\<rparr>]"
proof -
  let ?e = "toy_event ''a'' needs_plan plan_ready ''w''" and ?f = "toy_event ''a'' needs_plan plan_ready ''w''\<lparr>te_evidence_digest := ''x''\<rparr>"
  let ?h = "compute_chain_head toy_wire genesis_chain_head ?e"
  have dump: "w_dump toy_wire ?e = w_dump toy_wire ?f" by (simp add: toy_dump toy_event_def)
  have v: "verify toy_wire [] [(Some ?e, ?h)] = Verified ?h [?e]"
    "verify toy_wire [] [(Some ?f, ?h)] = Verified ?h [?f]"
    by (simp_all add: verify_def Let_def compute_chain_head_def chain_payload_def dump)
  have pay: "chain_payload toy_wire genesis_chain_head ?e = chain_payload toy_wire genesis_chain_head ?f"
    by (simp add: chain_payload_def dump)
  have "hash_good_on toy_wire {chain_payload toy_wire genesis_chain_head ?e}"
    by (auto simp: hash_good_on_def head_of_payload_def chain_payload_def toy_dump toy_event_def
        kind_char_def toy_wire_def remove_prefix_def blake3_prefix_def genesis_chain_head_def)
  then have good: "hash_good_on toy_wire (set (hashed toy_wire genesis_chain_head [?e]) \<union> set (hashed toy_wire genesis_chain_head [?f]))"
    by (simp add: pay)
  show ?thesis by (rule tampering_changes_tail [OF v good])
qed

text \<open>What the chain cannot see: dropping rows at the end leaves a sound, shorter sequence.\<close>

lemma truncation_verifies:
  "chain_ok w genesis_chain_head (rows @ dropped) \<Longrightarrow> rows \<noteq> [] \<Longrightarrow>
   verify w t rows = Verified (snd (last rows)) (events_of rows)"
  by (simp add: chain_ok_append verify_good)

text \<open>The in-memory adapter accepts a second event with a transition id it has already stored.\<close>

lemma mem_accepts_duplicate_id:
  "\<exists>m1 h1 m2 h2. mem_append toy_wire mem_init (toy_event ''a'' needs_plan plan_ready ''w'') = Ok (m1, h1) \<and>
     mem_append toy_wire m1 (toy_event ''a'' plan_ready patch_applied ''w'') = Ok (m2, h2)"
  by (auto simp: mem_append_def toy_prepare legal_transitions_def Let_def)

text \<open>A long transition id makes the fail-closed path raise instead of returning a state.\<close>

lemma long_id_raises:
  assumes "length tid > 4096" "h \<noteq> compute_chain_head w genesis_chain_head e" "te_transition_id e = tid"
  shows "hydrate_or_fail w t [(Some e, h)] = Err MessageTooLong"
  using assms length_repr [of tid]
  by (auto simp: hydrate_or_fail_def verify_def Let_def failed_closed_def mk_remediation_error_def message_max_len_def)

end
