(* ===== verification/Event_Types.thy ===== *)
theory Event_Types
  imports Json
begin

text \<open>
  The event vocabulary of \<open>src/src/codegenie/plugins/events.py\<close> (and \<open>CacheGcCompletedEvent\<close> of
  \<open>plugins/cache_gc.py\<close>): one constructor per pydantic model, its fields in declaration order, and
  for each its \<open>event_type\<close> discriminator and the JSON fields \<open>model_dump(mode="json")\<close> writes.
  The envelope fields (\<open>event_id\<close>, \<open>workflow_id\<close>, \<open>timestamp\<close>) that all of them share are a record
  of their own. New-types over \<open>str\<close> are strings, a \<open>Decimal\<close> is the text pydantic dumps for it.
\<close>

section \<open>Closed vocabularies\<close>

datatype fence_source_kind =
    fsk_cve_description
  | fsk_repo_readme
  | fsk_transitive_dep_meta
  | fsk_source_snippet
  | fsk_sandbox_stderr
  | fsk_rag_retrieved
  | fsk_prior_attempt_summary

fun fence_source_kind_str :: "fence_source_kind \<Rightarrow> string" where
  "fence_source_kind_str fsk_cve_description = ''cve_description''"
| "fence_source_kind_str fsk_repo_readme = ''repo_readme''"
| "fence_source_kind_str fsk_transitive_dep_meta = ''transitive_dep_meta''"
| "fence_source_kind_str fsk_source_snippet = ''source_snippet''"
| "fence_source_kind_str fsk_sandbox_stderr = ''sandbox_stderr''"
| "fence_source_kind_str fsk_rag_retrieved = ''rag_retrieved''"
| "fence_source_kind_str fsk_prior_attempt_summary = ''prior_attempt_summary''"

datatype budget_cap_reason =
    bcr_per_call_max_exceeded
  | bcr_workflow_max_tokens_exceeded
  | bcr_workflow_max_dollars_exceeded

fun budget_cap_reason_str :: "budget_cap_reason \<Rightarrow> string" where
  "budget_cap_reason_str bcr_per_call_max_exceeded = ''per_call_max_exceeded''"
| "budget_cap_reason_str bcr_workflow_max_tokens_exceeded = ''workflow_max_tokens_exceeded''"
| "budget_cap_reason_str bcr_workflow_max_dollars_exceeded = ''workflow_max_dollars_exceeded''"

datatype provenance_kind =
    prov_app_direct
  | prov_app_transitive
  | prov_app_vendored
  | prov_base_image
  | prov_runtime_bundled
  | prov_both
  | prov_unknown

fun provenance_kind_str :: "provenance_kind \<Rightarrow> string" where
  "provenance_kind_str prov_app_direct = ''app_direct''"
| "provenance_kind_str prov_app_transitive = ''app_transitive''"
| "provenance_kind_str prov_app_vendored = ''app_vendored''"
| "provenance_kind_str prov_base_image = ''base_image''"
| "provenance_kind_str prov_runtime_bundled = ''runtime_bundled''"
| "provenance_kind_str prov_both = ''both''"
| "provenance_kind_str prov_unknown = ''unknown''"

datatype rag_miss_reason =
    rmr_empty_store
  | rmr_all_candidates_chain_orphan
  | rmr_all_candidates_model_mismatch
  | rmr_top1_below_floor

fun rag_miss_reason_str :: "rag_miss_reason \<Rightarrow> string" where
  "rag_miss_reason_str rmr_empty_store = ''empty_store''"
| "rag_miss_reason_str rmr_all_candidates_chain_orphan = ''all_candidates_chain_orphan''"
| "rag_miss_reason_str rmr_all_candidates_model_mismatch = ''all_candidates_model_mismatch''"
| "rag_miss_reason_str rmr_top1_below_floor = ''top1_below_floor''"

datatype plan_kind =
    plan_dep_bump
  | plan_override
  | plan_callsite_rewrite
  | plan_refuse

fun plan_kind_str :: "plan_kind \<Rightarrow> string" where
  "plan_kind_str plan_dep_bump = ''dep_bump''"
| "plan_kind_str plan_override = ''override''"
| "plan_kind_str plan_callsite_rewrite = ''callsite_rewrite''"
| "plan_kind_str plan_refuse = ''refuse''"

datatype harvest_skip_reason =
    hsr_low_confidence
  | hsr_trust_failed
  | hsr_outcome_not_harvestable
  | hsr_already_harvested

fun harvest_skip_reason_str :: "harvest_skip_reason \<Rightarrow> string" where
  "harvest_skip_reason_str hsr_low_confidence = ''low_confidence''"
| "harvest_skip_reason_str hsr_trust_failed = ''trust_failed''"
| "harvest_skip_reason_str hsr_outcome_not_harvestable = ''outcome_not_harvestable''"
| "harvest_skip_reason_str hsr_already_harvested = ''already_harvested''"

datatype plan_outcome_kind =
    pok_llm
  | pok_recipe
  | pok_rag_only
  | pok_refused

fun plan_outcome_kind_str :: "plan_outcome_kind \<Rightarrow> string" where
  "plan_outcome_kind_str pok_llm = ''llm''"
| "plan_outcome_kind_str pok_recipe = ''recipe''"
| "plan_outcome_kind_str pok_rag_only = ''rag_only''"
| "plan_outcome_kind_str pok_refused = ''refused''"

datatype emitted_outcome_kind =
    eok_recipe
  | eok_llm
  | eok_rag_only
  | eok_refused

fun emitted_outcome_kind_str :: "emitted_outcome_kind \<Rightarrow> string" where
  "emitted_outcome_kind_str eok_recipe = ''recipe''"
| "emitted_outcome_kind_str eok_llm = ''llm''"
| "emitted_outcome_kind_str eok_rag_only = ''rag_only''"
| "emitted_outcome_kind_str eok_refused = ''refused''"

definition opt_str :: "string option \<Rightarrow> json" where
  "opt_str s = (case s of None \<Rightarrow> JNull | Some v \<Rightarrow> JStr v)"

section \<open>The variants\<close>

datatype plugin_event =
    PluginsLoaded "string list" string
  | PluginResolved string string int
  | BundleBuilt string int bool
  | BundleEntryPromoted string string string

fun plugin_event_type :: "plugin_event \<Rightarrow> string" where
  "plugin_event_type (PluginsLoaded _ _) = ''plugins_loaded''"
| "plugin_event_type (PluginResolved _ _ _) = ''plugin_resolved''"
| "plugin_event_type (BundleBuilt _ _ _) = ''bundle_built''"
| "plugin_event_type (BundleEntryPromoted _ _ _) = ''bundle_entry_promoted''"

fun plugin_event_fields :: "plugin_event \<Rightarrow> (string \<times> json) list" where
  "plugin_event_fields (PluginsLoaded plugin_ids registry_digest) = [(''plugin_ids'', JArr (map
     JStr plugin_ids)), (''registry_digest'', JStr registry_digest)]"
| "plugin_event_fields (PluginResolved plugin_id matched_scope specificity) = [(''plugin_id'', JStr
     plugin_id), (''matched_scope'', JStr matched_scope), (''specificity'', JInt specificity)]"
| "plugin_event_fields (BundleBuilt bundle_key plugin_count cache_hit) = [(''bundle_key'', JStr
     bundle_key), (''plugin_count'', JInt plugin_count), (''cache_hit'', JBool cache_hit)]"
| "plugin_event_fields (BundleEntryPromoted plugin_id from_scope to_scope) = [(''plugin_id'', JStr
     plugin_id), (''from_scope'', JStr from_scope), (''to_scope'', JStr to_scope)]"

datatype recipe_event =
    RecipeMatched string string string
  | RecipeApplied string string "string list"
  | RecipeSkipped string string
  | RecipeFailed string string string

fun recipe_event_type :: "recipe_event \<Rightarrow> string" where
  "recipe_event_type (RecipeMatched _ _ _) = ''recipe_matched''"
| "recipe_event_type (RecipeApplied _ _ _) = ''recipe_applied''"
| "recipe_event_type (RecipeSkipped _ _) = ''recipe_skipped''"
| "recipe_event_type (RecipeFailed _ _ _) = ''recipe_failed''"

fun recipe_event_fields :: "recipe_event \<Rightarrow> (string \<times> json) list" where
  "recipe_event_fields (RecipeMatched recipe_id plugin_id cve_id) = [(''recipe_id'', JStr
     recipe_id), (''plugin_id'', JStr plugin_id), (''cve_id'', JStr cve_id)]"
| "recipe_event_fields (RecipeApplied recipe_id transform_id files_changed) = [(''recipe_id'', JStr
     recipe_id), (''transform_id'', JStr transform_id), (''files_changed'', JArr (map JStr
     files_changed))]"
| "recipe_event_fields (RecipeSkipped recipe_id reason) = [(''recipe_id'', JStr recipe_id),
     (''reason'', JStr reason)]"
| "recipe_event_fields (RecipeFailed recipe_id error_id detail) = [(''recipe_id'', JStr recipe_id),
     (''error_id'', JStr error_id), (''detail'', JStr detail)]"

datatype stage_event =
    InstallStageOutcome bool int int
  | TestStageOutcome bool int int
  | LocalBranchWritten string int
  | RequiresHumanReview string string
  | AdapterDegraded string string string
  | StageOutcome string bool int
  | FilesystemRaceDetected string int string
  | GitHooksDisabledForRun "string list" string

fun stage_event_type :: "stage_event \<Rightarrow> string" where
  "stage_event_type (InstallStageOutcome _ _ _) = ''install_stage_outcome''"
| "stage_event_type (TestStageOutcome _ _ _) = ''test_stage_outcome''"
| "stage_event_type (LocalBranchWritten _ _) = ''local_branch_written''"
| "stage_event_type (RequiresHumanReview _ _) = ''requires_human_review''"
| "stage_event_type (AdapterDegraded _ _ _) = ''adapter_degraded''"
| "stage_event_type (StageOutcome _ _ _) = ''stage_outcome''"
| "stage_event_type (FilesystemRaceDetected _ _ _) = ''filesystem_race_detected''"
| "stage_event_type (GitHooksDisabledForRun _ _) = ''git_hooks_disabled_for_run''"

fun stage_event_fields :: "stage_event \<Rightarrow> (string \<times> json) list" where
  "stage_event_fields (InstallStageOutcome passed duration_ms exit_code) = [(''passed'', JBool
     passed), (''duration_ms'', JInt duration_ms), (''exit_code'', JInt exit_code)]"
| "stage_event_fields (TestStageOutcome passed duration_ms tests_run) = [(''passed'', JBool
     passed), (''duration_ms'', JInt duration_ms), (''tests_run'', JInt tests_run)]"
| "stage_event_fields (LocalBranchWritten branch commit_count) = [(''branch'', JStr branch),
     (''commit_count'', JInt commit_count)]"
| "stage_event_fields (RequiresHumanReview reason handoff_path) = [(''reason'', JStr reason),
     (''handoff_path'', JStr handoff_path)]"
| "stage_event_fields (AdapterDegraded adapter_name signal detail) = [(''adapter_name'', JStr
     adapter_name), (''signal'', JStr signal), (''detail'', JStr detail)]"
| "stage_event_fields (StageOutcome stage passed duration_ms) = [(''stage'', JStr stage),
     (''passed'', JBool passed), (''duration_ms'', JInt duration_ms)]"
| "stage_event_fields (FilesystemRaceDetected path errno detail) = [(''path'', JStr path),
     (''errno'', JInt errno), (''detail'', JStr detail)]"
| "stage_event_fields (GitHooksDisabledForRun hook_names reason) = [(''hook_names'', JArr (map JStr
     hook_names)), (''reason'', JStr reason)]"

datatype provenance_event =
    ProvenanceClassified provenance_kind "string option"

fun provenance_event_type :: "provenance_event \<Rightarrow> string" where
  "provenance_event_type (ProvenanceClassified _ _) = ''provenance_classified''"

fun provenance_event_fields :: "provenance_event \<Rightarrow> (string \<times> json) list" where
  "provenance_event_fields (ProvenanceClassified provenance_kind adapter_error) =
     [(''provenance_kind'', JStr (provenance_kind_str provenance_kind)), (''adapter_error'', opt_str
     adapter_error)]"

datatype fence_event =
    FenceApplied fence_source_kind string bool int
  | CanaryCollisionEvent fence_source_kind string string
  | PromptAssembled int "fence_source_kind list" int int
  | SegmentCountTruncated fence_source_kind int int

fun fence_event_type :: "fence_event \<Rightarrow> string" where
  "fence_event_type (FenceApplied _ _ _ _) = ''fence_applied''"
| "fence_event_type (CanaryCollisionEvent _ _ _) = ''canary_collision''"
| "fence_event_type (PromptAssembled _ _ _ _) = ''prompt_assembled''"
| "fence_event_type (SegmentCountTruncated _ _ _) = ''segment_count_truncated''"

fun fence_event_fields :: "fence_event \<Rightarrow> (string \<times> json) list" where
  "fence_event_fields (FenceApplied source_kind nonce truncated original_byte_length) =
     [(''source_kind'', JStr (fence_source_kind_str source_kind)), (''nonce'', JStr nonce),
     (''truncated'', JBool truncated), (''original_byte_length'', JInt original_byte_length)]"
| "fence_event_fields (CanaryCollisionEvent source_kind nonce pattern_id) = [(''source_kind'', JStr
     (fence_source_kind_str source_kind)), (''nonce'', JStr nonce), (''pattern_id'', JStr
     pattern_id)]"
| "fence_event_fields (PromptAssembled segment_count source_kinds_used system_prompt_byte_length
     fenced_body_byte_length) = [(''segment_count'', JInt segment_count), (''source_kinds_used'',
     JArr (map (\<lambda>k. JStr (fence_source_kind_str k)) source_kinds_used)),
     (''system_prompt_byte_length'', JInt system_prompt_byte_length), (''fenced_body_byte_length'',
     JInt fenced_body_byte_length)]"
| "fence_event_fields (SegmentCountTruncated source_kind requested kept) = [(''source_kind'', JStr
     (fence_source_kind_str source_kind)), (''requested'', JInt requested), (''kept'', JInt kept)]"

datatype budget_event =
    BudgetPrecharged string int string
  | BudgetReconciled string int int string
  | BudgetReconciledDuplicate string
  | BudgetCapExceeded budget_cap_reason
  | BudgetUnknownTokenReconcile string

fun budget_event_type :: "budget_event \<Rightarrow> string" where
  "budget_event_type (BudgetPrecharged _ _ _) = ''budget_precharged''"
| "budget_event_type (BudgetReconciled _ _ _ _) = ''budget_reconciled''"
| "budget_event_type (BudgetReconciledDuplicate _) = ''budget_reconciled_duplicate''"
| "budget_event_type (BudgetCapExceeded _) = ''budget_cap_exceeded''"
| "budget_event_type (BudgetUnknownTokenReconcile _) = ''budget_unknown_token_reconcile''"

fun budget_event_fields :: "budget_event \<Rightarrow> (string \<times> json) list" where
  "budget_event_fields (BudgetPrecharged token_id precharged_tokens precharged_dollars) =
     [(''token_id'', JStr token_id), (''precharged_tokens'', JInt precharged_tokens),
     (''precharged_dollars'', JStr precharged_dollars)]"
| "budget_event_fields (BudgetReconciled token_id actual_in actual_out actual_dollars) =
     [(''token_id'', JStr token_id), (''actual_in'', JInt actual_in), (''actual_out'', JInt
     actual_out), (''actual_dollars'', JStr actual_dollars)]"
| "budget_event_fields (BudgetReconciledDuplicate token_id) = [(''token_id'', JStr token_id)]"
| "budget_event_fields (BudgetCapExceeded reason) = [(''reason'', JStr (budget_cap_reason_str
     reason))]"
| "budget_event_fields (BudgetUnknownTokenReconcile token_id) = [(''token_id'', JStr token_id)]"

datatype leaf_event =
    LeafKeyLoaded bool
  | LeafInvoked string string
  | LeafReturned string int int int int
  | LeafProtocolViolationEvent string string

fun leaf_event_type :: "leaf_event \<Rightarrow> string" where
  "leaf_event_type (LeafKeyLoaded _) = ''leaf_key_loaded''"
| "leaf_event_type (LeafInvoked _ _) = ''leaf_invoked''"
| "leaf_event_type (LeafReturned _ _ _ _ _) = ''leaf_returned''"
| "leaf_event_type (LeafProtocolViolationEvent _ _) = ''leaf_protocol_violation''"

fun leaf_event_fields :: "leaf_event \<Rightarrow> (string \<times> json) list" where
  "leaf_event_fields (LeafKeyLoaded present) = [(''present'', JBool present)]"
| "leaf_event_fields (LeafInvoked prompt_digest_blake3 model) = [(''prompt_digest_blake3'', JStr
     prompt_digest_blake3), (''model'', JStr model)]"
| "leaf_event_fields (LeafReturned response_digest_blake3 tokens_in tokens_out cache_read_tokens
     cache_creation_tokens) = [(''response_digest_blake3'', JStr response_digest_blake3),
     (''tokens_in'', JInt tokens_in), (''tokens_out'', JInt tokens_out), (''cache_read_tokens'', JInt
     cache_read_tokens), (''cache_creation_tokens'', JInt cache_creation_tokens)]"
| "leaf_event_fields (LeafProtocolViolationEvent first_error second_error) = [(''first_error'',
     JStr first_error), (''second_error'', JStr second_error)]"

datatype harvest_event =
    SolvedExampleHarvested string string string
  | RagRecordChainOrphan string string string

fun harvest_event_type :: "harvest_event \<Rightarrow> string" where
  "harvest_event_type (SolvedExampleHarvested _ _ _) = ''solved_example_harvested''"
| "harvest_event_type (RagRecordChainOrphan _ _ _) = ''rag_record_chain_orphan''"

fun harvest_event_fields :: "harvest_event \<Rightarrow> (string \<times> json) list" where
  "harvest_event_fields (SolvedExampleHarvested solved_example_id embedding_model event_chain_head)
     = [(''solved_example_id'', JStr solved_example_id), (''embedding_model'', JStr embedding_model),
     (''event_chain_head'', JStr event_chain_head), (''origin'', JStr ''llm_solved'')]"
| "harvest_event_fields (RagRecordChainOrphan record_id record_event_chain_head spanning_log_head)
     = [(''record_id'', JStr record_id), (''record_event_chain_head'', JStr record_event_chain_head),
     (''spanning_log_head'', JStr spanning_log_head)]"

datatype rag_event =
    QueryBuiltEvent
  | QueryRenderedEvent
  | RecordsEmbeddedEvent
  | StoreQueriedEvent int
  | RecordsChainVerifiedEvent int int
  | RecordsFencedEvent int
  | RagRecordModelMismatch int string string
  | RagHitEvent string
  | RagDegradedEvent string
  | RagMissEvent rag_miss_reason
  | RagCandidateSelectedEvent string string

fun rag_event_type :: "rag_event \<Rightarrow> string" where
  "rag_event_type QueryBuiltEvent = ''rag_query_built''"
| "rag_event_type QueryRenderedEvent = ''rag_query_rendered''"
| "rag_event_type RecordsEmbeddedEvent = ''rag_records_embedded''"
| "rag_event_type (StoreQueriedEvent _) = ''rag_store_queried''"
| "rag_event_type (RecordsChainVerifiedEvent _ _) = ''rag_records_chain_verified''"
| "rag_event_type (RecordsFencedEvent _) = ''rag_records_fenced''"
| "rag_event_type (RagRecordModelMismatch _ _ _) = ''rag_record_model_mismatch''"
| "rag_event_type (RagHitEvent _) = ''rag_hit''"
| "rag_event_type (RagDegradedEvent _) = ''rag_degraded''"
| "rag_event_type (RagMissEvent _) = ''rag_miss''"
| "rag_event_type (RagCandidateSelectedEvent _ _) = ''rag_candidate_selected''"

fun rag_event_fields :: "rag_event \<Rightarrow> (string \<times> json) list" where
  "rag_event_fields QueryBuiltEvent = []"
| "rag_event_fields QueryRenderedEvent = []"
| "rag_event_fields RecordsEmbeddedEvent = []"
| "rag_event_fields (StoreQueriedEvent count) = [(''count'', JInt count)]"
| "rag_event_fields (RecordsChainVerifiedEvent surviving_count excluded_count) =
     [(''surviving_count'', JInt surviving_count), (''excluded_count'', JInt excluded_count)]"
| "rag_event_fields (RecordsFencedEvent count) = [(''count'', JInt count)]"
| "rag_event_fields (RagRecordModelMismatch count current_model sample_stale_model) = [(''count'',
     JInt count), (''current_model'', JStr current_model), (''sample_stale_model'', JStr
     sample_stale_model)]"
| "rag_event_fields (RagHitEvent record_id) = [(''record_id'', JStr record_id)]"
| "rag_event_fields (RagDegradedEvent record_id) = [(''record_id'', JStr record_id)]"
| "rag_event_fields (RagMissEvent reason) = [(''reason'', JStr (rag_miss_reason_str reason))]"
| "rag_event_fields (RagCandidateSelectedEvent record_id fenced_digest) = [(''record_id'', JStr
     record_id), (''fenced_digest'', JStr fenced_digest)]"

datatype fallback_event =
    BudgetPrechecked int int
  | TransformBuilt plan_kind
  | RagSkippedOnRetry int int "string list"
  | HarvestSkipped harvest_skip_reason plan_outcome_kind
  | PlanOutcomeEmitted emitted_outcome_kind json
  | AttemptAnchorRecorded string json

fun fallback_event_type :: "fallback_event \<Rightarrow> string" where
  "fallback_event_type (BudgetPrechecked _ _) = ''budget_prechecked''"
| "fallback_event_type (TransformBuilt _) = ''transform_built''"
| "fallback_event_type (RagSkippedOnRetry _ _ _) = ''rag_skipped_on_retry''"
| "fallback_event_type (HarvestSkipped _ _) = ''harvest_skipped''"
| "fallback_event_type (PlanOutcomeEmitted _ _) = ''plan_outcome_emitted''"
| "fallback_event_type (AttemptAnchorRecorded _ _) = ''attempt_anchor_recorded''"

fun fallback_event_fields :: "fallback_event \<Rightarrow> (string \<times> json) list" where
  "fallback_event_fields (BudgetPrechecked running requested) = [(''running'', JInt running),
     (''requested'', JInt requested)]"
| "fallback_event_fields (TransformBuilt plan_kind) = [(''plan_kind'', JStr (plan_kind_str
     plan_kind))]"
| "fallback_event_fields (RagSkippedOnRetry attempt_count last_attempt_number last_failing_signals)
     = [(''attempt_count'', JInt attempt_count), (''last_attempt_number'', JInt last_attempt_number),
     (''last_failing_signals'', JArr (map JStr last_failing_signals))]"
| "fallback_event_fields (HarvestSkipped reason plan_outcome_kind) = [(''reason'', JStr
     (harvest_skip_reason_str reason)), (''plan_outcome_kind'', JStr (plan_outcome_kind_str
     plan_outcome_kind))]"
| "fallback_event_fields (PlanOutcomeEmitted outcome_kind outcome_payload) = [(''outcome_kind'',
     JStr (emitted_outcome_kind_str outcome_kind)), (''outcome_payload'', outcome_payload)]"
| "fallback_event_fields (AttemptAnchorRecorded attempt_id anchor) = [(''attempt_id'', JStr
     attempt_id), (''anchor'', anchor)]"

datatype chained_event =
    WorkflowStarted
  | WorkflowCompleted string int
  | CostSandboxRun int int int
  | CapabilityMinted string string
  | CapabilityUsed string string
  | PluginRegistryCorrupted string string
  | BenchReplayable string string
  | StaleVulnIndex int string

fun chained_event_type :: "chained_event \<Rightarrow> string" where
  "chained_event_type WorkflowStarted = ''workflow_started''"
| "chained_event_type (WorkflowCompleted _ _) = ''workflow_completed''"
| "chained_event_type (CostSandboxRun _ _ _) = ''cost_sandbox_run''"
| "chained_event_type (CapabilityMinted _ _) = ''capability_minted''"
| "chained_event_type (CapabilityUsed _ _) = ''capability_used''"
| "chained_event_type (PluginRegistryCorrupted _ _) = ''plugin_registry_corrupted''"
| "chained_event_type (BenchReplayable _ _) = ''bench_replayable''"
| "chained_event_type (StaleVulnIndex _ _) = ''stale_vuln_index''"

fun chained_event_fields :: "chained_event \<Rightarrow> (string \<times> json) list" where
  "chained_event_fields WorkflowStarted = []"
| "chained_event_fields (WorkflowCompleted outcome duration_ms) = [(''outcome'', JStr outcome),
     (''duration_ms'', JInt duration_ms)]"
| "chained_event_fields (CostSandboxRun cpu_ms wall_ms exit_code) = [(''cpu_ms'', JInt cpu_ms),
     (''wall_ms'', JInt wall_ms), (''exit_code'', JInt exit_code)]"
| "chained_event_fields (CapabilityMinted primitive plugin_id) = [(''primitive'', JStr primitive),
     (''plugin_id'', JStr plugin_id)]"
| "chained_event_fields (CapabilityUsed primitive detail) = [(''primitive'', JStr primitive),
     (''detail'', JStr detail)]"
| "chained_event_fields (PluginRegistryCorrupted reason detail) = [(''reason'', JStr reason),
     (''detail'', JStr detail)]"
| "chained_event_fields (BenchReplayable bench_name replay_digest) = [(''bench_name'', JStr
     bench_name), (''replay_digest'', JStr replay_digest)]"
| "chained_event_fields (StaleVulnIndex index_age_days index_digest) = [(''index_age_days'', JInt
     index_age_days), (''index_digest'', JStr index_digest)]"

section \<open>Events\<close>

record event_header =
  eh_event_id :: string
  eh_workflow_id :: string
  eh_timestamp :: int

datatype internal_payload =
    PluginEv plugin_event
  | RecipeEv recipe_event
  | StageEv stage_event
  | ProvenanceEv provenance_event
  | FenceEv fence_event
  | BudgetEv budget_event
  | LeafEv leaf_event
  | HarvestEv harvest_event
  | RagEv rag_event
  | FallbackEv fallback_event

record internal_event =
  ie_header :: event_header
  ie_payload :: internal_payload

datatype gc_trigger = gct_amortized | gct_operator_cli

fun gc_trigger_str :: "gc_trigger \<Rightarrow> string" where
  "gc_trigger_str gct_amortized = ''amortized''"
| "gc_trigger_str gct_operator_cli = ''operator_cli''"

record cache_gc_event =
  gc_cache_dir :: string
  gc_entries_evicted :: int
  gc_bytes_reclaimed :: int
  gc_ttl_days :: int
  gc_duration_ms :: int
  gc_wall_clock_iso :: string
  gc_trigger :: gc_trigger

datatype spanning_event =
    Chained event_header string chained_event
  | CacheGcCompleted cache_gc_event

text \<open>The argument of an emit call may be of either stream.\<close>

datatype workflow_event = InternalEvent internal_event | SpanningEvent spanning_event

fun payload_type :: "internal_payload \<Rightarrow> string" where
  "payload_type (PluginEv e) = plugin_event_type e"
| "payload_type (RecipeEv e) = recipe_event_type e"
| "payload_type (StageEv e) = stage_event_type e"
| "payload_type (ProvenanceEv e) = provenance_event_type e"
| "payload_type (FenceEv e) = fence_event_type e"
| "payload_type (BudgetEv e) = budget_event_type e"
| "payload_type (LeafEv e) = leaf_event_type e"
| "payload_type (HarvestEv e) = harvest_event_type e"
| "payload_type (RagEv e) = rag_event_type e"
| "payload_type (FallbackEv e) = fallback_event_type e"

fun payload_fields :: "internal_payload \<Rightarrow> (string \<times> json) list" where
  "payload_fields (PluginEv e) = plugin_event_fields e"
| "payload_fields (RecipeEv e) = recipe_event_fields e"
| "payload_fields (StageEv e) = stage_event_fields e"
| "payload_fields (ProvenanceEv e) = provenance_event_fields e"
| "payload_fields (FenceEv e) = fence_event_fields e"
| "payload_fields (BudgetEv e) = budget_event_fields e"
| "payload_fields (LeafEv e) = leaf_event_fields e"
| "payload_fields (HarvestEv e) = harvest_event_fields e"
| "payload_fields (RagEv e) = rag_event_fields e"
| "payload_fields (FallbackEv e) = fallback_event_fields e"

section \<open>Dumping\<close>

text \<open>The first argument renders a timestamp the way pydantic does.\<close>

definition header_fields :: "(int \<Rightarrow> string) \<Rightarrow> string \<Rightarrow> event_header \<Rightarrow> (string \<times> json) list" where
  "header_fields isof event_type h =
     [(''event_type'', JStr event_type), (''event_id'', JStr (eh_event_id h)),
      (''workflow_id'', JStr (eh_workflow_id h)), (''timestamp'', JStr (isof (eh_timestamp h)))]"

definition dump_internal :: "(int \<Rightarrow> string) \<Rightarrow> internal_event \<Rightarrow> (string \<times> json) list" where
  "dump_internal isof e =
     header_fields isof (payload_type (ie_payload e)) (ie_header e) @ payload_fields (ie_payload e)"

definition cache_gc_fields :: "cache_gc_event \<Rightarrow> (string \<times> json) list" where
  "cache_gc_fields g =
     [(''event_type'', JStr ''cache_gc_completed''), (''cache_dir'', JStr (gc_cache_dir g)),
      (''entries_evicted'', JInt (gc_entries_evicted g)),
      (''bytes_reclaimed'', JInt (gc_bytes_reclaimed g)), (''ttl_days'', JInt (gc_ttl_days g)),
      (''duration_ms'', JInt (gc_duration_ms g)),
      (''wall_clock_iso'', JStr (gc_wall_clock_iso g)),
      (''trigger'', JStr (gc_trigger_str (gc_trigger g)))]"

fun dump_spanning :: "(int \<Rightarrow> string) \<Rightarrow> spanning_event \<Rightarrow> (string \<times> json) list" where
  "dump_spanning isof (Chained h prev_hash e) =
     header_fields isof (chained_event_type e) h @ (''prev_hash'', JStr prev_hash) # chained_event_fields e"
| "dump_spanning isof (CacheGcCompleted g) = cache_gc_fields g"

section \<open>Lemmas\<close>

text \<open>The discriminators are pairwise distinct, and no variant declares a field of the envelope.\<close>

lemma chained_fields_no_prev [simp]: "pop_key ''prev_hash'' (chained_event_fields e) = chained_event_fields e"
  by (cases e) (simp_all add: pop_key_def)

lemma dump_spanning_pop:
  "pop_key ''prev_hash'' (dump_spanning isof (Chained h p e)) =
     header_fields isof (chained_event_type e) h @ chained_event_fields e"
  using chained_fields_no_prev [of e]
  by (simp add: pop_key_def header_fields_def)

lemma cache_gc_pop: "pop_key ''prev_hash'' (cache_gc_fields g) = cache_gc_fields g"
  by (simp add: pop_key_def cache_gc_fields_def)

lemma payload_fields_no_prev [simp]: "pop_key ''prev_hash'' (payload_fields p) = payload_fields p"
proof (cases p)
  case (PluginEv e) then show ?thesis by (cases e) (simp_all add: pop_key_def)
next
  case (RecipeEv e) then show ?thesis by (cases e) (simp_all add: pop_key_def)
next
  case (StageEv e) then show ?thesis by (cases e) (simp_all add: pop_key_def)
next
  case (ProvenanceEv e) then show ?thesis by (cases e) (simp_all add: pop_key_def)
next
  case (FenceEv e) then show ?thesis by (cases e) (simp_all add: pop_key_def)
next
  case (BudgetEv e) then show ?thesis by (cases e) (simp_all add: pop_key_def)
next
  case (LeafEv e) then show ?thesis by (cases e) (simp_all add: pop_key_def)
next
  case (HarvestEv e) then show ?thesis by (cases e) (simp_all add: pop_key_def)
next
  case (RagEv e) then show ?thesis by (cases e) (simp_all add: pop_key_def)
next
  case (FallbackEv e) then show ?thesis by (cases e) (simp_all add: pop_key_def)
qed

lemma dump_internal_pop: "pop_key ''prev_hash'' (dump_internal isof e) = dump_internal isof e"
  using payload_fields_no_prev [of "ie_payload e"]
  by (simp add: dump_internal_def header_fields_def pop_key_def)

lemma dict_wf_chained: "dict_wf (header_fields isof t h @ chained_event_fields e)"
  by (cases e) (simp_all add: dict_wf_def header_fields_def)

lemma dict_wf_dump_spanning: "dict_wf (dump_spanning isof e)"
proof (cases e)
  case (Chained h p c) then show ?thesis by (cases c) (simp_all add: dict_wf_def header_fields_def)
next
  case (CacheGcCompleted g) then show ?thesis by (simp add: dict_wf_def cache_gc_fields_def)
qed

end
