(* ===== verification/Event_Log.thy ===== *)
theory Event_Log
  imports Event_Types
begin

text \<open>
  The two-stream event log of \<open>src/src/codegenie/plugins/events.py\<close>: the chain step, the two
  sinks (in memory, and one zstd frame per record appended to a file), \<open>EventLog.emit_internal\<close>,
  \<open>emit_spanning\<close> and \<open>replay\<close> with its chain verification.

  The fields of \<open>event_lib\<close> are what lies outside the repository: BLAKE3, \<open>json.loads\<close>, the
  pydantic validators of the two event unions, the rendering and reading of timestamps. Timestamps
  are instants (an \<open>int\<close> of microseconds); naive datetimes are not modelled. The file lock makes an
  emission atomic, so a log is the result of a sequence of emissions.
\<close>

section \<open>Errors and library functions\<close>

datatype stream = internal_stream | spanning_stream

datatype log_error =
    EventLogCorrupted stream nat string
  | ChainTamperDetected "string option" string
  | LogTypeError
  | JSONDecodeError
  | LogAttributeError
  | LogValueError

record event_lib =
  ev_hexdigest :: "string \<Rightarrow> string"
  ev_loads :: "string \<Rightarrow> json option"
  ev_validate_internal :: "(string \<times> json) list \<Rightarrow> internal_event option"
  ev_validate_spanning :: "(string \<times> json) list \<Rightarrow> spanning_event option"
  ev_isoformat :: "int \<Rightarrow> string"
  ev_fromisoformat :: "string \<Rightarrow> int option"

section \<open>The chain step\<close>

definition genesis_head :: string where "genesis_head = replicate 64 (CHR ''0'')"
definition log_blake3_prefix :: string where "log_blake3_prefix = ''blake3:''"

definition content_hash_bytes :: "event_lib \<Rightarrow> string \<Rightarrow> string" where
  "content_hash_bytes lib b = ''blake3:'' @ ev_hexdigest lib b"

definition hex_value :: "char \<Rightarrow> nat option" where
  "hex_value c =
     (let n = of_char c :: nat in
      if 48 \<le> n \<and> n \<le> 57 then Some (n - 48)
      else if 97 \<le> n \<and> n \<le> 102 then Some (n - 87)
      else if 65 \<le> n \<and> n \<le> 70 then Some (n - 55)
      else None)"

definition ascii_space :: "char \<Rightarrow> bool" where
  "ascii_space c = (let n = of_char c :: nat in n = 32 \<or> 9 \<le> n \<and> n \<le> 13)"

text \<open>\<open>bytes.fromhex\<close>: pairs of hex digits, ASCII whitespace allowed between the pairs.\<close>

fun from_hex :: "string \<Rightarrow> string option" where
  "from_hex [] = Some []"
| "from_hex [c] = (if ascii_space c then Some [] else None)"
| "from_hex (c # d # s) =
     (if ascii_space c then from_hex (d # s)
      else case (hex_value c, hex_value d) of
        (Some a, Some b) \<Rightarrow> map_option (\<lambda>bs. char_of (16 * a + b) # bs) (from_hex s)
      | _ \<Rightarrow> None)"

definition chain_step :: "event_lib \<Rightarrow> string \<Rightarrow> string \<Rightarrow> log_error + string" where
  "chain_step lib prior_head event_bytes =
     (case from_hex prior_head of
        None \<Rightarrow> Err LogValueError
      | Some bs \<Rightarrow> Ok (remove_prefix log_blake3_prefix (content_hash_bytes lib (bs @ event_bytes))))"

text \<open>\<open>canonical_json_bytes\<close> on a dumped event.\<close>

definition canonical_json_bytes :: "(string \<times> json) list \<Rightarrow> string" where
  "canonical_json_bytes data = json_dumps (JObj (pop_key ''prev_hash'' data))"

section \<open>Sinks\<close>

text \<open>What \<open>read_all\<close> yields, and the error that ends the iteration if one does.\<close>

type_synonym reading = "string list \<times> log_error option"

type_synonym memory_sink = "string list"

definition memory_append :: "memory_sink \<Rightarrow> string \<Rightarrow> memory_sink" where
  "memory_append ls line = ls @ [line]"

definition memory_read_all :: "memory_sink \<Rightarrow> reading" where
  "memory_read_all ls = (ls, None)"

text \<open>The file's bytes, \<open>None\<close> before it exists. Decoding one frame from the front of the bytes is
  zstandard's: its content and the unused data after it.\<close>

record zstd_codec =
  zs_compress :: "string \<Rightarrow> string"
  zs_frame :: "string \<Rightarrow> (string \<times> string) option"

type_synonym file_sink = "string option"

definition file_append :: "zstd_codec \<Rightarrow> file_sink \<Rightarrow> string \<Rightarrow> file_sink" where
  "file_append z f line =
     Some ((case f of None \<Rightarrow> [] | Some raw \<Rightarrow> raw) @ zs_compress z (line @ [CHR 0x0A]))"

definition rstrip_newlines :: "string \<Rightarrow> string" where
  "rstrip_newlines s = rev (dropWhile (\<lambda>c. c = CHR 0x0A) (rev s))"

text \<open>The unused data of a frame is shorter than what was decoded (a frame has at least one byte);
  the guard states it, its \<open>else\<close> is not reachable with zstandard.\<close>

function frames_loop :: "zstd_codec \<Rightarrow> stream \<Rightarrow> nat \<Rightarrow> string \<Rightarrow> reading" where
  "frames_loop z path line_number remaining =
     (if remaining = [] then ([], None)
      else case zs_frame z remaining of
        None \<Rightarrow> ([], Some (EventLogCorrupted path (line_number + 1) ''truncated_frame''))
      | Some (content, unused_data) \<Rightarrow>
          if length unused_data < length remaining then
            (let record = rstrip_newlines content;
                 (records, err) = frames_loop z path (line_number + 1) unused_data in
             (if record = [] then records else record # records, err))
          else ([], Some (EventLogCorrupted path (line_number + 1) ''truncated_frame'')))"
  by pat_completeness auto
termination
  by (relation "measure (\<lambda>(z, path, n, remaining). length remaining)") auto

declare frames_loop.simps [simp del]

definition file_read_all :: "zstd_codec \<Rightarrow> stream \<Rightarrow> file_sink \<Rightarrow> reading" where
  "file_read_all z path f = (case f of None \<Rightarrow> ([], None) | Some raw \<Rightarrow> frames_loop z path 0 raw)"

text \<open>The chain tail: the last record whose \<open>prev_hash\<close> is a string.\<close>

fun tail_loop :: "event_lib \<Rightarrow> string \<Rightarrow> reading \<Rightarrow> log_error + string" where
  "tail_loop lib head ([], None) = Ok head"
| "tail_loop lib head ([], Some e) = Err e"
| "tail_loop lib head (line # lines, err) =
     (case ev_loads lib line of
        None \<Rightarrow> Err JSONDecodeError
      | Some (JObj obj) \<Rightarrow>
          (case dict_get obj ''prev_hash'' of
             Some (JStr v) \<Rightarrow> tail_loop lib v (lines, err)
           | _ \<Rightarrow> tail_loop lib head (lines, err))
      | Some _ \<Rightarrow> Err LogAttributeError)"

definition log_tail_chain_head :: "event_lib \<Rightarrow> reading \<Rightarrow> log_error + string" where
  "log_tail_chain_head lib r = tail_loop lib genesis_head r"

section \<open>The event log\<close>

record 's sink_ops =
  so_append :: "'s \<Rightarrow> string \<Rightarrow> 's"
  so_read_all :: "'s \<Rightarrow> reading"

record ('i, 's) event_log =
  lg_workflow_id :: string
  lg_internal_sink :: 'i
  lg_spanning_sink :: 's
  lg_chain_head :: string

definition open_log ::
  "event_lib \<Rightarrow> 's sink_ops \<Rightarrow> string \<Rightarrow> 'i \<Rightarrow> 's \<Rightarrow> log_error + ('i, 's) event_log" where
  "open_log lib so workflow_id internal_sink spanning_sink =
     rbind (log_tail_chain_head lib (so_read_all so spanning_sink)) (\<lambda>head.
       Ok \<lparr>lg_workflow_id = workflow_id, lg_internal_sink = internal_sink,
           lg_spanning_sink = spanning_sink, lg_chain_head = head\<rparr>)"

definition stamp_header :: "int \<Rightarrow> event_header \<Rightarrow> event_header" where
  "stamp_header now h = h\<lparr>eh_timestamp := now\<rparr>"

definition stamp_internal :: "int \<Rightarrow> internal_event \<Rightarrow> internal_event" where
  "stamp_internal now e = e\<lparr>ie_header := stamp_header now (ie_header e)\<rparr>"

fun stamp_spanning :: "int \<Rightarrow> spanning_event \<Rightarrow> spanning_event" where
  "stamp_spanning now (Chained h p e) = Chained (stamp_header now h) p e"
| "stamp_spanning now (CacheGcCompleted g) = CacheGcCompleted g"

fun spanning_event_id :: "spanning_event \<Rightarrow> string option" where
  "spanning_event_id (Chained h p e) = Some (eh_event_id h)"
| "spanning_event_id (CacheGcCompleted g) = None"

definition emit_internal ::
  "event_lib \<Rightarrow> 'i sink_ops \<Rightarrow> int \<Rightarrow> ('i, 's) event_log \<Rightarrow> workflow_event
     \<Rightarrow> log_error + (('i, 's) event_log \<times> string)" where
  "emit_internal lib io now lg event =
     (case event of
        SpanningEvent _ \<Rightarrow> Err LogTypeError
      | InternalEvent e \<Rightarrow>
          let stamped = stamp_internal now e in
          Ok (lg\<lparr>lg_internal_sink := so_append io (lg_internal_sink lg)
                    (canonical_json_bytes (dump_internal (ev_isoformat lib) stamped))\<rparr>,
              eh_event_id (ie_header stamped)))"

definition emit_spanning ::
  "event_lib \<Rightarrow> 's sink_ops \<Rightarrow> int \<Rightarrow> ('i, 's) event_log \<Rightarrow> workflow_event
     \<Rightarrow> log_error + (('i, 's) event_log \<times> string)" where
  "emit_spanning lib so now lg event =
     (case event of
        InternalEvent _ \<Rightarrow> Err LogTypeError
      | SpanningEvent e \<Rightarrow>
          let stamped = stamp_spanning now e;
              dumped = pop_key ''prev_hash'' (dump_spanning (ev_isoformat lib) stamped);
              body = json_dumps (JObj dumped) in
          rbind (log_tail_chain_head lib (so_read_all so (lg_spanning_sink lg))) (\<lambda>prior_head.
          rbind (chain_step lib prior_head body) (\<lambda>new_head.
            let record = dict_set ''prev_hash'' (JStr new_head) dumped;
                line = json_dumps (JObj record) in
            Ok (lg\<lparr>lg_spanning_sink := so_append so (lg_spanning_sink lg) line,
                   lg_chain_head := new_head\<rparr>,
                case spanning_event_id stamped of Some i \<Rightarrow> i | None \<Rightarrow> new_head))))"

section \<open>Replay\<close>

definition datetime_min :: int where "datetime_min = -62135596800000000"

definition replace_z :: "string \<Rightarrow> string" where
  "replace_z s = py_join ''+00:00'' (py_split ''Z'' s)"

fun replay_sort_key :: "event_lib \<Rightarrow> workflow_event \<Rightarrow> int \<times> string" where
  "replay_sort_key lib (InternalEvent e) = (eh_timestamp (ie_header e), eh_event_id (ie_header e))"
| "replay_sort_key lib (SpanningEvent (Chained h p e)) = (eh_timestamp h, eh_event_id h)"
| "replay_sort_key lib (SpanningEvent (CacheGcCompleted g)) =
     (case ev_fromisoformat lib (replace_z (gc_wall_clock_iso g)) of
        Some t \<Rightarrow> t | None \<Rightarrow> datetime_min, [])"

definition loads_record :: "event_lib \<Rightarrow> stream \<Rightarrow> nat \<Rightarrow> string \<Rightarrow> log_error + (string \<times> json) list" where
  "loads_record lib path line_number line =
     (case ev_loads lib line of
        None \<Rightarrow> Err (EventLogCorrupted path line_number ''malformed_json'')
      | Some (JObj obj) \<Rightarrow> Ok obj
      | Some _ \<Rightarrow> Err (EventLogCorrupted path line_number ''non_object_record''))"

definition decode_internal :: "event_lib \<Rightarrow> nat \<Rightarrow> string \<Rightarrow> log_error + workflow_event" where
  "decode_internal lib line_number line =
     rbind (loads_record lib internal_stream line_number line) (\<lambda>obj.
       case ev_validate_internal lib obj of
         None \<Rightarrow> Err (EventLogCorrupted internal_stream line_number ''schema_violation'')
       | Some e \<Rightarrow> Ok (InternalEvent e))"

definition decode_spanning :: "event_lib \<Rightarrow> nat \<Rightarrow> (string \<times> json) list \<Rightarrow> log_error + workflow_event" where
  "decode_spanning lib line_number obj =
     (let payload = (if dict_get obj ''event_type'' = Some (JStr ''cache_gc_completed'')
                     then pop_key ''prev_hash'' obj else obj) in
      case ev_validate_spanning lib payload of
        None \<Rightarrow> Err (EventLogCorrupted spanning_stream line_number ''schema_violation'')
      | Some e \<Rightarrow> Ok (SpanningEvent e))"

fun replay_internal :: "event_lib \<Rightarrow> nat \<Rightarrow> reading \<Rightarrow> log_error + workflow_event list" where
  "replay_internal lib n ([], None) = Ok []"
| "replay_internal lib n ([], Some e) = Err e"
| "replay_internal lib n (line # lines, err) =
     rbind (decode_internal lib n line) (\<lambda>e.
       rbind (replay_internal lib (n + 1) (lines, err)) (\<lambda>es. Ok (e # es)))"

fun replay_spanning :: "event_lib \<Rightarrow> string \<Rightarrow> nat \<Rightarrow> reading \<Rightarrow> log_error + workflow_event list" where
  "replay_spanning lib head n ([], None) = Ok []"
| "replay_spanning lib head n ([], Some e) = Err e"
| "replay_spanning lib head n (line # lines, err) =
     rbind (loads_record lib spanning_stream n line) (\<lambda>obj.
       let body = json_dumps (JObj (pop_key ''prev_hash'' obj)) in
       rbind (chain_step lib head body) (\<lambda>computed.
         let on_disk_prev = dict_get obj ''prev_hash'' in
         if on_disk_prev \<noteq> Some (JStr computed)
         then Err (ChainTamperDetected (case on_disk_prev of Some (JStr v) \<Rightarrow> Some v | _ \<Rightarrow> None) computed)
         else
           rbind (decode_spanning lib n obj) (\<lambda>e.
             rbind (replay_spanning lib computed (n + 1) (lines, err)) (\<lambda>es. Ok (e # es)))))"

definition replay ::
  "event_lib \<Rightarrow> 'i sink_ops \<Rightarrow> 's sink_ops \<Rightarrow> ('i, 's) event_log \<Rightarrow> log_error + workflow_event list" where
  "replay lib io so lg =
     rbind (replay_internal lib 1 (so_read_all io (lg_internal_sink lg))) (\<lambda>internal.
     rbind (replay_spanning lib genesis_head 1 (so_read_all so (lg_spanning_sink lg))) (\<lambda>spanning.
       Ok (sort_key (replay_sort_key lib) (internal @ spanning))))"

end
