(* ===== verification/Event_Replay.thy ===== *)
theory Event_Replay
  imports Event_Log
begin

text \<open>
  What the sinks promise the event log (the locale \<open>event_sink\<close>, interpreted for the in-memory sink
  and for the zstd file sink), and what follows for a log: replay returns what was emitted, and a
  replay that succeeds has verified the chain. The definitions are in \<open>Event_Log\<close>.
\<close>

section \<open>The sink interface\<close>

definition line_ok :: "string \<Rightarrow> bool" where
  "line_ok l \<longleftrightarrow> l \<noteq> [] \<and> last l \<noteq> CHR 0x0A"

locale event_sink =
  fixes sink_append :: "'s \<Rightarrow> string \<Rightarrow> 's"
    and sink_read :: "'s \<Rightarrow> reading"
    and sink_inv :: "'s \<Rightarrow> bool"
  assumes append_inv: "sink_inv s \<Longrightarrow> line_ok l \<Longrightarrow> sink_inv (sink_append s l)"
    and read_append: "sink_inv s \<Longrightarrow> line_ok l \<Longrightarrow>
          fst (sink_read (sink_append s l)) = fst (sink_read s) @ [l]"
    and read_clean: "sink_inv s \<Longrightarrow> snd (sink_read s) = None"
begin

lemma read_eq: "sink_inv s \<Longrightarrow> sink_read s = (fst (sink_read s), None)"
  using read_clean by (metis prod.collapse)

lemma appends_read:
  "sink_inv s \<Longrightarrow> \<forall>l \<in> set ls. line_ok l \<Longrightarrow>
   sink_inv (foldl sink_append s ls) \<and> sink_read (foldl sink_append s ls) = (fst (sink_read s) @ ls, None)"
proof (induction ls arbitrary: s)
  case Nil
  then show ?case using read_eq by simp
next
  case (Cons l ls)
  then show ?case using Cons.IH [of "sink_append s l"] append_inv read_append by simp
qed

end

interpretation memory: event_sink memory_append memory_read_all "\<lambda>_. True"
  by unfold_locales (simp_all add: memory_append_def memory_read_all_def)

text \<open>zstandard, as far as the sink relies on it: a compressed frame is not empty and is decoded
  from the front of any bytes that begin with it.\<close>

definition codec_ok :: "zstd_codec \<Rightarrow> bool" where
  "codec_ok z \<longleftrightarrow> (\<forall>x r. zs_frame z (zs_compress z x @ r) = Some (x, r) \<and> zs_compress z x \<noteq> [])"

definition file_bytes :: "zstd_codec \<Rightarrow> string list \<Rightarrow> string" where
  "file_bytes z ls = concat (map (\<lambda>l. zs_compress z (l @ [CHR 0x0A])) ls)"

definition file_inv :: "zstd_codec \<Rightarrow> file_sink \<Rightarrow> bool" where
  "file_inv z f \<longleftrightarrow> codec_ok z \<and>
     (\<exists>ls. (\<forall>l \<in> set ls. line_ok l) \<and> (case f of None \<Rightarrow> ls = [] | Some raw \<Rightarrow> raw = file_bytes z ls))"

lemma rstrip_line: "line_ok l \<Longrightarrow> rstrip_newlines (l @ [CHR 0x0A]) = l"
  by (cases l rule: rev_cases) (simp_all add: rstrip_newlines_def line_ok_def)

lemma frames_loop_bytes:
  assumes "codec_ok z" "\<forall>l \<in> set ls. line_ok l"
  shows "frames_loop z path n (file_bytes z ls) = (ls, None)"
  using assms(2)
proof (induction ls arbitrary: n)
  case Nil
  show ?case by (simp add: file_bytes_def frames_loop.simps)
next
  case (Cons l ls)
  let ?c = "zs_compress z (l @ [CHR 0x0A])"
  have bytes: "file_bytes z (l # ls) = ?c @ file_bytes z ls" by (simp add: file_bytes_def)
  have "?c \<noteq> []" "zs_frame z (?c @ file_bytes z ls) = Some (l @ [CHR 0x0A], file_bytes z ls)"
    using assms(1) by (auto simp: codec_ok_def)
  moreover from this(1) have "length (file_bytes z ls) < length (?c @ file_bytes z ls)" by simp
  moreover have "l \<noteq> []" "rstrip_newlines (l @ [CHR 0x0A]) = l"
    using Cons.prems rstrip_line by (simp_all add: line_ok_def)
  ultimately show ?case
    using Cons.IH [of "n + 1"] Cons.prems
    by (subst frames_loop.simps) (simp add: bytes Let_def)
qed

lemma file_inv_read:
  assumes "file_inv z f"
  obtains ls where "\<forall>l \<in> set ls. line_ok l" "file_read_all z path f = (ls, None)"
    "(case f of None \<Rightarrow> [] | Some raw \<Rightarrow> raw) = file_bytes z ls"
proof -
  from assms obtain ls where z: "codec_ok z" and ls: "\<forall>l \<in> set ls. line_ok l"
    and f: "case f of None \<Rightarrow> ls = [] | Some raw \<Rightarrow> raw = file_bytes z ls"
    by (auto simp: file_inv_def)
  have "(case f of None \<Rightarrow> [] | Some raw \<Rightarrow> raw) = file_bytes z ls"
    using f by (cases f) (simp_all add: file_bytes_def)
  moreover have "file_read_all z path f = (ls, None)"
    using f frames_loop_bytes [OF z ls] by (cases f) (simp_all add: file_read_all_def)
  ultimately show thesis using ls that by blast
qed

lemma file_append_read:
  assumes "file_inv z f" "line_ok l"
  shows "file_inv z (file_append z f l) \<and>
    file_read_all z path (file_append z f l) = (fst (file_read_all z path f) @ [l], None)"
proof -
  from assms(1) have z: "codec_ok z" by (simp add: file_inv_def)
  obtain ls where ls: "\<forall>l \<in> set ls. line_ok l" "file_read_all z path f = (ls, None)"
    "(case f of None \<Rightarrow> [] | Some raw \<Rightarrow> raw) = file_bytes z ls"
    using file_inv_read [OF assms(1)] by blast
  have new: "file_append z f l = Some (file_bytes z (ls @ [l]))"
    by (simp add: file_append_def ls(3)) (simp add: file_bytes_def)
  have ok: "\<forall>x \<in> set (ls @ [l]). line_ok x" using ls(1) assms(2) by auto
  have "file_inv z (file_append z f l)"
    using z ok by (auto simp: new file_inv_def intro!: exI [of _ "ls @ [l]"])
  moreover have "file_read_all z path (file_append z f l) = (ls @ [l], None)"
    using frames_loop_bytes [OF z ok] by (simp add: new file_read_all_def)
  ultimately show ?thesis by (simp add: ls(2))
qed

interpretation zfile: event_sink "file_append z" "file_read_all z path" "file_inv z" for z path
proof (unfold_locales, goal_cases)
  case (1 s l) then show ?case using file_append_read [of z s l] by blast
next
  case (2 s l) then show ?case using file_append_read [of z s l path] by simp
next
  case (3 s) then show ?case using file_inv_read [of z s path] by (metis snd_conv)
qed

section \<open>Emission histories\<close>

fun emit_all ::
  "event_lib \<Rightarrow> 'i sink_ops \<Rightarrow> 's sink_ops \<Rightarrow> ('i, 's) event_log \<Rightarrow> (int \<times> workflow_event) list
     \<Rightarrow> log_error + ('i, 's) event_log" where
  "emit_all lib io so lg [] = Ok lg"
| "emit_all lib io so lg ((now, InternalEvent e) # es) =
     rbind (emit_internal lib io now lg (InternalEvent e)) (\<lambda>(lg', _). emit_all lib io so lg' es)"
| "emit_all lib io so lg ((now, SpanningEvent e) # es) =
     rbind (emit_spanning lib so now lg (SpanningEvent e)) (\<lambda>(lg', _). emit_all lib io so lg' es)"

text \<open>What was emitted on each stream, stamped.\<close>

definition internals_of :: "(int \<times> workflow_event) list \<Rightarrow> internal_event list" where
  "internals_of es = concat (map (\<lambda>(now, e). case e of
     InternalEvent i \<Rightarrow> [stamp_internal now i] | SpanningEvent _ \<Rightarrow> []) es)"

definition spannings_of :: "(int \<times> workflow_event) list \<Rightarrow> spanning_event list" where
  "spannings_of es = concat (map (\<lambda>(now, e). case e of
     InternalEvent _ \<Rightarrow> [] | SpanningEvent s \<Rightarrow> [stamp_spanning now s]) es)"

lemma internals_of_simps [simp]:
  "internals_of [] = []"
  "internals_of ((now, InternalEvent e) # es) = stamp_internal now e # internals_of es"
  "internals_of ((now, SpanningEvent s) # es) = internals_of es"
  by (simp_all add: internals_of_def)

lemma spannings_of_simps [simp]:
  "spannings_of [] = []"
  "spannings_of ((now, InternalEvent e) # es) = spannings_of es"
  "spannings_of ((now, SpanningEvent s) # es) = stamp_spanning now s # spannings_of es"
  by (simp_all add: spannings_of_def)

section \<open>The chain of a stream\<close>

text \<open>The body that is hashed, and the record with its head.\<close>

definition event_body :: "event_lib \<Rightarrow> spanning_event \<Rightarrow> (string \<times> json) list" where
  "event_body lib e = pop_key ''prev_hash'' (dump_spanning (ev_isoformat lib) e)"

definition next_head :: "event_lib \<Rightarrow> string \<Rightarrow> spanning_event \<Rightarrow> string" where
  "next_head lib head e = ev_hexdigest lib (the (from_hex head) @ json_dumps (JObj (event_body lib e)))"

definition chained_record :: "event_lib \<Rightarrow> string \<Rightarrow> spanning_event \<Rightarrow> (string \<times> json) list" where
  "chained_record lib head e = dict_set ''prev_hash'' (JStr (next_head lib head e)) (event_body lib e)"

fun set_prev :: "string \<Rightarrow> spanning_event \<Rightarrow> spanning_event" where
  "set_prev h (Chained hdr p e) = Chained hdr h e"
| "set_prev h (CacheGcCompleted g) = CacheGcCompleted g"

fun chained_records :: "event_lib \<Rightarrow> string \<Rightarrow> spanning_event list \<Rightarrow> (string \<times> json) list list" where
  "chained_records lib head [] = []"
| "chained_records lib head (e # es) = chained_record lib head e # chained_records lib (next_head lib head e) es"

fun chained_events :: "event_lib \<Rightarrow> string \<Rightarrow> spanning_event list \<Rightarrow> spanning_event list" where
  "chained_events lib head [] = []"
| "chained_events lib head (e # es) = set_prev (next_head lib head e) e # chained_events lib (next_head lib head e) es"

fun chain_tail :: "event_lib \<Rightarrow> string \<Rightarrow> spanning_event list \<Rightarrow> string" where
  "chain_tail lib head [] = head"
| "chain_tail lib head (e # es) = chain_tail lib (next_head lib head e) es"

lemma chained_records_append:
  "chained_records lib head (es @ fs) = chained_records lib head es @ chained_records lib (chain_tail lib head es) fs"
  by (induction es arbitrary: head) simp_all

lemma chain_tail_append: "chain_tail lib head (es @ fs) = chain_tail lib (chain_tail lib head es) fs"
  by (induction es arbitrary: head) simp_all

text \<open>What is asked of the library on the records at hand: digests are hexadecimal, a written record
  reads back, and the validators accept what was dumped from an event and give the event.\<close>

definition hex_digests :: "event_lib \<Rightarrow> bool" where
  "hex_digests lib \<longleftrightarrow> (\<forall>b. from_hex (ev_hexdigest lib b) \<noteq> None)"

definition reads_back :: "event_lib \<Rightarrow> (string \<times> json) list \<Rightarrow> (string \<times> json) list \<Rightarrow> bool" where
  "reads_back lib r obj \<longleftrightarrow> sort_keys (JObj r) = JObj obj \<and> ev_loads lib (json_dumps (JObj r)) = Some (JObj obj)"

definition internal_faithful :: "event_lib \<Rightarrow> internal_event \<Rightarrow> bool" where
  "internal_faithful lib e \<longleftrightarrow> (\<exists>obj. reads_back lib (dump_internal (ev_isoformat lib) e) obj \<and>
     ev_validate_internal lib obj = Some e)"

fun is_cache_gc :: "spanning_event \<Rightarrow> bool" where
  "is_cache_gc (CacheGcCompleted g) = True"
| "is_cache_gc (Chained h p e) = False"

definition spanning_faithful :: "event_lib \<Rightarrow> string \<Rightarrow> spanning_event \<Rightarrow> bool" where
  "spanning_faithful lib head e \<longleftrightarrow> (\<exists>obj. reads_back lib (chained_record lib head e) obj \<and>
     ev_validate_spanning lib (if is_cache_gc e then pop_key ''prev_hash'' obj else obj)
       = Some (set_prev (next_head lib head e) e))"

fun spannings_faithful :: "event_lib \<Rightarrow> string \<Rightarrow> spanning_event list \<Rightarrow> bool" where
  "spannings_faithful lib head [] = True"
| "spannings_faithful lib head (e # es) =
     (spanning_faithful lib head e \<and> spannings_faithful lib (next_head lib head e) es)"

lemma spannings_faithful_append:
  "spannings_faithful lib head (es @ fs) \<longleftrightarrow>
     spannings_faithful lib head es \<and> spannings_faithful lib (chain_tail lib head es) fs"
  by (induction es arbitrary: head) auto

lemma chain_step_Ok:
  "from_hex head \<noteq> None \<Longrightarrow> chain_step lib head b = Ok (ev_hexdigest lib (the (from_hex head) @ b))"
  by (auto simp: chain_step_def content_hash_bytes_def remove_prefix_def log_blake3_prefix_def)

lemma genesis_hex: "from_hex genesis_head \<noteq> None"
  by (simp add: genesis_head_def numeral_eq_Suc ascii_space_def hex_value_def)

lemma next_head_hex: "hex_digests lib \<Longrightarrow> from_hex (next_head lib head e) \<noteq> None"
  by (simp add: hex_digests_def next_head_def)

lemma chain_tail_hex: "hex_digests lib \<Longrightarrow> from_hex head \<noteq> None \<Longrightarrow> from_hex (chain_tail lib head es) \<noteq> None"
  by (induction es arbitrary: head) (simp_all add: next_head_hex del: not_None_eq)

lemma json_line_ok: "line_ok (json_dumps (JObj r))"
  by (simp add: line_ok_def json_dumps_def)

lemma event_body_wf: "dict_wf (event_body lib e)"
  using dict_wf_dump_spanning [of "ev_isoformat lib" e]
  by (simp add: event_body_def dict_wf_def pop_key_def distinct_map_filter)

lemma event_body_pop: "pop_key ''prev_hash'' (event_body lib e) = event_body lib e"
  by (simp add: event_body_def pop_key_def)

lemma event_body_type:
  "dict_get (event_body lib e) ''event_type'' =
     Some (JStr (case e of Chained h p c \<Rightarrow> chained_event_type c | CacheGcCompleted g \<Rightarrow> ''cache_gc_completed''))"
  by (cases e) (simp_all add: event_body_def pop_key_def header_fields_def cache_gc_fields_def)

lemma chained_type_not_gc: "chained_event_type c \<noteq> ''cache_gc_completed''"
  by (cases c) simp_all

text \<open>A record read back: its head, its body, its discriminator.\<close>

lemma chained_record_read:
  assumes "reads_back lib (chained_record lib head e) obj"
  shows "dict_get obj ''prev_hash'' = Some (JStr (next_head lib head e))"
    and "json_dumps (JObj (pop_key ''prev_hash'' obj)) = json_dumps (JObj (event_body lib e))"
    and "dict_get obj ''event_type'' = Some (JStr ''cache_gc_completed'') \<longleftrightarrow> is_cache_gc e"
proof -
  from assms have s: "sort_keys (JObj (chained_record lib head e)) = JObj obj"
    by (simp add: reads_back_def)
  have wf: "dict_wf (chained_record lib head e)"
    unfolding chained_record_def by (intro dict_wf_set event_body_wf)
  note get = map_of_sort_keys [OF s wf]
  show "dict_get obj ''prev_hash'' = Some (JStr (next_head lib head e))"
    by (simp add: get chained_record_def dict_get_set)
  show "json_dumps (JObj (pop_key ''prev_hash'' obj)) = json_dumps (JObj (event_body lib e))"
    using sort_keys_pop [OF s, of "''prev_hash''"]
    by (simp only: json_dumps_def chained_record_def pop_key_set event_body_pop)
  show "dict_get obj ''event_type'' = Some (JStr ''cache_gc_completed'') \<longleftrightarrow> is_cache_gc e"
    unfolding get chained_record_def dict_get_set event_body_type
    by (cases e) (simp_all add: chained_type_not_gc)
qed

definition record_line :: "(string \<times> json) list \<Rightarrow> string" where
  "record_line r = json_dumps (JObj r)"

lemma tail_loop_chain:
  "spannings_faithful lib head es \<Longrightarrow>
   tail_loop lib head (map record_line (chained_records lib head es), None) = Ok (chain_tail lib head es)"
proof (induction es arbitrary: head)
  case (Cons e es)
  then obtain obj where r: "reads_back lib (chained_record lib head e) obj"
    by (auto simp: spanning_faithful_def)
  then have "ev_loads lib (record_line (chained_record lib head e)) = Some (JObj obj)"
    by (simp add: reads_back_def record_line_def)
  with chained_record_read(1) [OF r] Cons show ?case by simp
qed simp

lemma replay_spanning_chain:
  assumes "hex_digests lib"
  shows "spannings_faithful lib head es \<Longrightarrow> from_hex head \<noteq> None \<Longrightarrow>
    replay_spanning lib head n (map record_line (chained_records lib head es), None)
      = Ok (map SpanningEvent (chained_events lib head es))"
proof (induction es arbitrary: head n)
  case (Cons e es)
  then obtain obj where r: "reads_back lib (chained_record lib head e) obj"
    and v: "ev_validate_spanning lib (if is_cache_gc e then pop_key ''prev_hash'' obj else obj)
       = Some (set_prev (next_head lib head e) e)"
    by (auto simp: spanning_faithful_def)
  note read = chained_record_read [OF r]
  have load: "loads_record lib spanning_stream n (record_line (chained_record lib head e)) = Ok obj"
    using r by (simp add: loads_record_def reads_back_def record_line_def)
  have step: "chain_step lib head (json_dumps (JObj (pop_key ''prev_hash'' obj))) = Ok (next_head lib head e)"
    unfolding read(2) chain_step_Ok [OF Cons.prems(2)] by (simp add: next_head_def)
  have dec: "decode_spanning lib n obj = Ok (SpanningEvent (set_prev (next_head lib head e) e))"
    unfolding decode_spanning_def Let_def read(3) using v by (cases "is_cache_gc e") simp_all
  have rest: "replay_spanning lib (next_head lib head e) (n + 1)
      (map record_line (chained_records lib (next_head lib head e) es), None)
    = Ok (map SpanningEvent (chained_events lib (next_head lib head e) es))"
    by (rule Cons.IH) (use Cons.prems next_head_hex [OF assms] in simp_all)
  show ?case
    by (simp only: chained_records.simps list.map replay_spanning.simps load step dec rest rbind.simps
        Let_def read(1) chained_events.simps if_False simp_thms)
qed simp

lemma replay_internal_lines:
  "\<forall>e \<in> set es. internal_faithful lib e \<Longrightarrow>
   replay_internal lib n (map (\<lambda>e. canonical_json_bytes (dump_internal (ev_isoformat lib) e)) es, None)
     = Ok (map InternalEvent es)"
proof (induction es arbitrary: n)
  case (Cons e es)
  then obtain obj where "reads_back lib (dump_internal (ev_isoformat lib) e) obj" "ev_validate_internal lib obj = Some e"
    by (auto simp: internal_faithful_def)
  then have "decode_internal lib n (canonical_json_bytes (dump_internal (ev_isoformat lib) e)) = Ok (InternalEvent e)"
    by (simp add: decode_internal_def loads_record_def canonical_json_bytes_def dump_internal_pop reads_back_def)
  with Cons show ?case by simp
qed simp

section \<open>Logs over any two sinks\<close>

locale two_streams =
  istream: event_sink ia ir ii + sstream: event_sink sa sr si
  for ia :: "'i \<Rightarrow> string \<Rightarrow> 'i" and ir :: "'i \<Rightarrow> reading" and ii :: "'i \<Rightarrow> bool"
    and sa :: "'s \<Rightarrow> string \<Rightarrow> 's" and sr :: "'s \<Rightarrow> reading" and si :: "'s \<Rightarrow> bool"
begin

abbreviation io :: "'i sink_ops" where "io \<equiv> \<lparr>so_append = ia, so_read_all = ir\<rparr>"
abbreviation so :: "'s sink_ops" where "so \<equiv> \<lparr>so_append = sa, so_read_all = sr\<rparr>"

text \<open>The log holds exactly the given internal lines and the chain of the given events.\<close>

definition holds :: "event_lib \<Rightarrow> ('i, 's) event_log \<Rightarrow> string list \<Rightarrow> spanning_event list \<Rightarrow> bool" where
  "holds lib lg ls es \<longleftrightarrow> ii (lg_internal_sink lg) \<and> si (lg_spanning_sink lg) \<and>
     ir (lg_internal_sink lg) = (ls, None) \<and>
     sr (lg_spanning_sink lg) = (map record_line (chained_records lib genesis_head es), None)"

lemma emit_internal_holds:
  assumes "holds lib lg ls es"
  shows "\<exists>lg' i. emit_internal lib io now lg (InternalEvent e) = Ok (lg', i) \<and>
    holds lib lg' (ls @ [canonical_json_bytes (dump_internal (ev_isoformat lib) (stamp_internal now e))]) es"
proof -
  let ?l = "canonical_json_bytes (dump_internal (ev_isoformat lib) (stamp_internal now e))"
  have ok: "line_ok ?l" by (simp add: canonical_json_bytes_def json_line_ok)
  from assms have "ii (lg_internal_sink lg)" "ir (lg_internal_sink lg) = (ls, None)"
    by (simp_all add: holds_def)
  with istream.read_append [OF _ ok] istream.append_inv [OF _ ok]
  have "ii (ia (lg_internal_sink lg) ?l)" "ir (ia (lg_internal_sink lg) ?l) = (ls @ [?l], None)"
    using istream.read_eq by fastforce+
  with assms show ?thesis by (simp add: emit_internal_def Let_def holds_def)
qed

lemma emit_spanning_holds:
  assumes "holds lib lg ls es" "hex_digests lib" "spannings_faithful lib genesis_head es"
  shows "\<exists>lg' i. emit_spanning lib so now lg (SpanningEvent e) = Ok (lg', i) \<and>
    holds lib lg' ls (es @ [stamp_spanning now e])"
proof -
  let ?e = "stamp_spanning now e" and ?head = "chain_tail lib genesis_head es"
  let ?l = "record_line (chained_record lib ?head ?e)"
  have ok: "line_ok ?l" by (simp add: record_line_def json_line_ok)
  from assms(1) have inv: "si (lg_spanning_sink lg)"
    and rd: "sr (lg_spanning_sink lg) = (map record_line (chained_records lib genesis_head es), None)"
    by (simp_all add: holds_def)
  have new: "si (sa (lg_spanning_sink lg) ?l)"
    "sr (sa (lg_spanning_sink lg) ?l) = (map record_line (chained_records lib genesis_head (es @ [?e])), None)"
    using sstream.read_append [OF inv ok] sstream.append_inv [OF inv ok]
      sstream.read_eq [OF sstream.append_inv [OF inv ok]] rd
    by (simp_all add: chained_records_append)
  have tail: "log_tail_chain_head lib (map record_line (chained_records lib genesis_head es), None) = Ok ?head"
    using tail_loop_chain [OF assms(3)] by (simp add: log_tail_chain_head_def)
  have step: "chain_step lib ?head (record_line (event_body lib ?e)) = Ok (next_head lib ?head ?e)"
    using chain_step_Ok [OF chain_tail_hex [OF assms(2) genesis_hex]] by (simp add: next_head_def record_line_def)
  show ?thesis
    using assms(1) new
    by (simp add: emit_spanning_def Let_def event_body_def [symmetric] tail step
        record_line_def [symmetric] chained_record_def [symmetric] holds_def)
qed

lemma emit_all_holds:
  assumes "hex_digests lib"
  shows "holds lib lg ls es0 \<Longrightarrow> spannings_faithful lib genesis_head (es0 @ spannings_of es) \<Longrightarrow>
    \<exists>lg'. emit_all lib io so lg es = Ok lg' \<and>
      holds lib lg' (ls @ map (\<lambda>e. canonical_json_bytes (dump_internal (ev_isoformat lib) e)) (internals_of es))
        (es0 @ spannings_of es)"
proof (induction es arbitrary: lg ls es0)
  case (Cons te es)
  obtain now ev where te: "te = (now, ev)" by (cases te)
  show ?case
  proof (cases ev)
    case (InternalEvent e)
    from emit_internal_holds [OF Cons.prems(1), of now e] obtain lg' i where
      "emit_internal lib io now lg (InternalEvent e) = Ok (lg', i)"
      "holds lib lg' (ls @ [canonical_json_bytes (dump_internal (ev_isoformat lib) (stamp_internal now e))]) es0"
      by blast
    with Cons.IH [OF this(2)] Cons.prems(2) show ?thesis by (auto simp: te InternalEvent)
  next
    case (SpanningEvent e)
    have "spannings_faithful lib genesis_head es0"
      using Cons.prems(2) by (simp add: spannings_faithful_append)
    from emit_spanning_holds [OF Cons.prems(1) assms this, of now e] obtain lg' i where
      "emit_spanning lib so now lg (SpanningEvent e) = Ok (lg', i)"
      "holds lib lg' ls (es0 @ [stamp_spanning now e])"
      by blast
    with Cons.IH [OF this(2)] Cons.prems(2) show ?thesis by (auto simp: te SpanningEvent)
  qed
qed simp

lemma replay_holds:
  assumes "hex_digests lib" "holds lib lg
      (map (\<lambda>e. canonical_json_bytes (dump_internal (ev_isoformat lib) e)) is) es"
    and "\<forall>e \<in> set is. internal_faithful lib e" "spannings_faithful lib genesis_head es"
  shows "replay lib io so lg = Ok (sort_key (replay_sort_key lib)
    (map InternalEvent is @ map SpanningEvent (chained_events lib genesis_head es)))"
  using assms(2) replay_internal_lines [OF assms(3), of 1]
    replay_spanning_chain [OF assms(1) assms(4) genesis_hex, of 1]
  by (simp add: replay_def holds_def)

text \<open>From an empty log, replay returns what was emitted.\<close>

lemma replay_emitted:
  assumes "hex_digests lib" "holds lib lg [] []"
    and "\<forall>e \<in> set (internals_of es). internal_faithful lib e"
    and "spannings_faithful lib genesis_head (spannings_of es)"
  shows "\<exists>lg'. emit_all lib io so lg es = Ok lg' \<and>
    replay lib io so lg' = Ok (sort_key (replay_sort_key lib) (map InternalEvent (internals_of es) @
      map SpanningEvent (chained_events lib genesis_head (spannings_of es))))"
  using emit_all_holds [OF assms(1) assms(2), of es] replay_holds [OF assms(1) _ assms(3,4)] assms(4)
  by auto

end

interpretation files: two_streams "file_append z" "file_read_all z internal_stream" "file_inv z"
  "file_append z" "file_read_all z spanning_stream" "file_inv z" for z
  by unfold_locales

interpretation file_and_memory: two_streams "file_append z" "file_read_all z internal_stream" "file_inv z"
  memory_append memory_read_all "\<lambda>_. True" for z
  by unfold_locales

section \<open>What a successful replay has checked\<close>

text \<open>The records of a chain: every \<open>prev_hash\<close> is the chain step of the record's body over the
  head before it.\<close>

fun linked :: "event_lib \<Rightarrow> string \<Rightarrow> (string \<times> json) list list \<Rightarrow> bool" where
  "linked lib head [] = True"
| "linked lib head (obj # objs) =
     (case chain_step lib head (json_dumps (JObj (pop_key ''prev_hash'' obj))) of
        Err _ \<Rightarrow> False
      | Ok computed \<Rightarrow> dict_get obj ''prev_hash'' = Some (JStr computed) \<and> linked lib computed objs)"



fun linked_tail :: "string \<Rightarrow> (string \<times> json) list list \<Rightarrow> string" where
  "linked_tail head [] = head"
| "linked_tail head (obj # objs) =
     (case dict_get obj ''prev_hash'' of Some (JStr h) \<Rightarrow> linked_tail h objs | _ \<Rightarrow> head)"

lemma replay_spanning_tamper:
  "map (ev_loads lib) good = map (\<lambda>obj. Some (JObj obj)) objs \<Longrightarrow> linked lib head objs \<Longrightarrow>
   \<forall>obj \<in> set objs. \<forall>n. \<exists>e. decode_spanning lib n obj = Ok e \<Longrightarrow>
   ev_loads lib line = Some (JObj obj) \<Longrightarrow>
   chain_step lib (linked_tail head objs) (json_dumps (JObj (pop_key ''prev_hash'' obj))) = Ok computed \<Longrightarrow>
   dict_get obj ''prev_hash'' \<noteq> Some (JStr computed) \<Longrightarrow>
   replay_spanning lib head n (good @ line # rest, err) =
     Err (ChainTamperDetected (case dict_get obj ''prev_hash'' of Some (JStr v) \<Rightarrow> Some v | _ \<Rightarrow> None) computed)"
proof (induction good arbitrary: objs head n)
  case Nil
  then show ?case by (simp add: loads_record_def)
next
  case (Cons g good)
  then obtain o1 os where objs: "objs = o1 # os" by (cases objs) auto
  with Cons.prems obtain h where h:
    "chain_step lib head (json_dumps (JObj (pop_key ''prev_hash'' o1))) = Ok h"
    "dict_get o1 ''prev_hash'' = Some (JStr h)" "linked lib h os"
    by (auto split: sum.splits)
  have "\<forall>n. \<exists>e. decode_spanning lib n o1 = Ok e" using Cons.prems(3) by (rule bspec) (simp add: objs)
  then obtain e where e: "decode_spanning lib n o1 = Ok e" by blast
  have "replay_spanning lib h (n + 1) (good @ line # rest, err) =
     Err (ChainTamperDetected (case dict_get obj ''prev_hash'' of Some (JStr v) \<Rightarrow> Some v | _ \<Rightarrow> None) computed)"
    by (rule Cons.IH [of os]) (use Cons.prems h objs in simp_all)
  with Cons.prems(1) h e objs show ?case by (simp add: loads_record_def)
qed

text \<open>Opening a log reads the chain tail before anything else, and the tail reader does not turn a
  JSON error into \<open>EventLogCorrupted\<close>: on a spanning stream with a malformed line the constructor
  already raises the bare decoding error, so the replay that would name the line cannot be started.\<close>

lemma tail_loop_malformed:
  "\<forall>l \<in> set good. \<exists>obj. ev_loads lib l = Some (JObj obj) \<Longrightarrow> ev_loads lib line = None \<Longrightarrow>
   tail_loop lib head (good @ line # rest, err) = Err JSONDecodeError"
proof (induction good arbitrary: head)
  case (Cons g good)
  then obtain obj where "ev_loads lib g = Some (JObj obj)" by auto
  with Cons show ?case by (auto split: option.splits json.splits)
qed simp

lemma open_log_malformed:
  assumes "so_read_all so s = (good @ line # rest, err)" "ev_loads lib line = None"
    and "\<forall>l \<in> set good. \<exists>obj. ev_loads lib l = Some (JObj obj)"
  shows "open_log lib so wid i s = Err JSONDecodeError"
  using tail_loop_malformed [OF assms(3,2)] assms(1) by (simp add: open_log_def log_tail_chain_head_def)

section \<open>A concrete library\<close>

fun toy_frame :: "string \<Rightarrow> (string \<times> string) option" where
  "toy_frame [] = None"
| "toy_frame (b # s) =
     (if b = CHR ''.'' then Some ([], s)
      else case s of [] \<Rightarrow> None | c # s' \<Rightarrow> map_option (\<lambda>(x, r). (c # x, r)) (toy_frame s'))"

definition toy_codec :: zstd_codec where
  "toy_codec = \<lparr>zs_compress = (\<lambda>x. concat (map (\<lambda>c. [CHR ''c'', c]) x) @ ''.''), zs_frame = toy_frame\<rparr>"

lemma toy_codec_ok: "codec_ok toy_codec"
proof -
  have "toy_frame (concat (map (\<lambda>c. [CHR ''c'', c]) x) @ ''.'' @ r) = Some (x, r)" for x r
    by (induction x) simp_all
  then show ?thesis by (simp add: codec_ok_def toy_codec_def)
qed

text \<open>One internal and one spanning event, and a library that reads back just their two lines.\<close>

definition toy_header :: "string \<Rightarrow> event_header" where
  "toy_header i = \<lparr>eh_event_id = i, eh_workflow_id = ''w'', eh_timestamp = 0\<rparr>"

definition toy_internal :: internal_event where
  "toy_internal = \<lparr>ie_header = toy_header ''a'', ie_payload = FallbackEv (TransformBuilt plan_dep_bump)\<rparr>"

definition toy_spanning :: spanning_event where
  "toy_spanning = Chained (toy_header ''b'') ''00'' WorkflowStarted"

definition toy_base :: event_lib where
  "toy_base = \<lparr>ev_hexdigest = (\<lambda>_. ''00''), ev_loads = (\<lambda>_. None),
     ev_validate_internal = (\<lambda>_. Some toy_internal), ev_validate_spanning = (\<lambda>_. Some toy_spanning),
     ev_isoformat = (\<lambda>_. ''t''), ev_fromisoformat = (\<lambda>_. None)\<rparr>"

definition toy_lib :: event_lib where
  "toy_lib = toy_base\<lparr>ev_loads := (\<lambda>l.
     if l = record_line (chained_record toy_base genesis_head toy_spanning)
     then Some (sort_keys (JObj (chained_record toy_base genesis_head toy_spanning)))
     else if l = record_line (dump_internal (\<lambda>_. ''t'') toy_internal)
     then Some (sort_keys (JObj (dump_internal (\<lambda>_. ''t'') toy_internal)))
     else None)\<rparr>"

lemma toy_lines_differ:
  "record_line (chained_record toy_base genesis_head toy_spanning) \<noteq> record_line (dump_internal (\<lambda>_. ''t'') toy_internal)"
  by code_simp

lemma toy_hex: "hex_digests toy_lib"
  by (simp add: hex_digests_def toy_lib_def toy_base_def ascii_space_def hex_value_def)

lemma toy_fields:
  "ev_hexdigest toy_lib = ev_hexdigest toy_base" "ev_isoformat toy_lib = (\<lambda>_. ''t'')"
  "ev_isoformat toy_base = (\<lambda>_. ''t'')" "ev_hexdigest toy_base = (\<lambda>_. ''00'')"
  "ev_validate_internal toy_lib = (\<lambda>_. Some toy_internal)"
  "ev_validate_spanning toy_lib = (\<lambda>_. Some toy_spanning)"
  by (simp_all add: toy_lib_def toy_base_def)

lemma toy_record: "chained_record toy_lib head toy_spanning = chained_record toy_base genesis_head toy_spanning"
  by (simp add: chained_record_def next_head_def event_body_def toy_fields)

lemma toy_faithful: "internal_faithful toy_lib toy_internal" "spannings_faithful toy_lib genesis_head [toy_spanning]"
proof -
  have "ev_loads toy_lib (json_dumps (JObj (dump_internal (\<lambda>_. ''t'') toy_internal)))
      = Some (sort_keys (JObj (dump_internal (\<lambda>_. ''t'') toy_internal)))"
    using toy_lines_differ by (simp add: toy_lib_def record_line_def)
  then show "internal_faithful toy_lib toy_internal"
    by (simp add: internal_faithful_def reads_back_def toy_fields)
  have "ev_loads toy_lib (json_dumps (JObj (chained_record toy_base genesis_head toy_spanning)))
      = Some (sort_keys (JObj (chained_record toy_base genesis_head toy_spanning)))"
    by (simp add: toy_lib_def record_line_def)
  then show "spannings_faithful toy_lib genesis_head [toy_spanning]"
    by (simp add: spanning_faithful_def reads_back_def toy_record toy_fields next_head_def)
      (simp add: toy_spanning_def)
qed

definition toy_emits :: "(int \<times> workflow_event) list" where
  "toy_emits = [(0, SpanningEvent toy_spanning), (0, InternalEvent toy_internal)]"

lemma toy_emitted: "internals_of toy_emits = [toy_internal]" "spannings_of toy_emits = [toy_spanning]"
  by (simp_all add: toy_emits_def toy_internal_def toy_spanning_def stamp_internal_def stamp_header_def toy_header_def)

section \<open>Properties\<close>

abbreviation memory_ops :: "string list sink_ops" where
  "memory_ops \<equiv> \<lparr>so_append = memory_append, so_read_all = memory_read_all\<rparr>"

abbreviation memory_log :: "(string list, string list) event_log" where
  "memory_log \<equiv> \<lparr>lg_workflow_id = ''w'', lg_internal_sink = [], lg_spanning_sink = [], lg_chain_head = genesis_head\<rparr>"

abbreviation file_ops :: "zstd_codec \<Rightarrow> stream \<Rightarrow> file_sink sink_ops" where
  "file_ops z path \<equiv> \<lparr>so_append = file_append z, so_read_all = file_read_all z path\<rparr>"

text \<open>C1. On a log over fresh files every emission succeeds, and replay then returns exactly the emitted
  events of both streams, stamped with their emission time and chained, in the order of their
  timestamps and ids.\<close>

theorem replay_returns_emitted:
  assumes "codec_ok z" "hex_digests lib"
    and "\<forall>e \<in> set (internals_of es). internal_faithful lib e"
    and "spannings_faithful lib genesis_head (spannings_of es)"
  shows "\<exists>lg lg'. open_log lib (file_ops z spanning_stream) wid None None = Ok lg \<and>
    emit_all lib (file_ops z internal_stream) (file_ops z spanning_stream) lg es = Ok lg' \<and>
    replay lib (file_ops z internal_stream) (file_ops z spanning_stream) lg' =
      Ok (sort_key (replay_sort_key lib) (map InternalEvent (internals_of es) @
        map SpanningEvent (chained_events lib genesis_head (spannings_of es))))"
proof -
  let ?lg = "\<lparr>lg_workflow_id = wid, lg_internal_sink = None, lg_spanning_sink = None, lg_chain_head = genesis_head\<rparr>"
  have "open_log lib (file_ops z spanning_stream) wid None None = Ok ?lg"
    by (simp add: open_log_def file_read_all_def log_tail_chain_head_def)
  moreover have "files.holds z lib ?lg [] []"
    using assms(1) by (simp add: files.holds_def file_inv_def file_read_all_def)
  ultimately show ?thesis using files.replay_emitted [OF assms(2) _ assms(3,4)] by blast
qed

lemma replay_returns_emitted_witness:
  "\<exists>lg lg'. open_log toy_lib (file_ops toy_codec spanning_stream) ''w'' None None = Ok lg \<and>
    emit_all toy_lib (file_ops toy_codec internal_stream) (file_ops toy_codec spanning_stream) lg toy_emits = Ok lg' \<and>
    replay toy_lib (file_ops toy_codec internal_stream) (file_ops toy_codec spanning_stream) lg' =
      Ok [InternalEvent toy_internal, SpanningEvent toy_spanning]"
proof -
  have "sort_key (replay_sort_key toy_lib) [InternalEvent toy_internal, SpanningEvent toy_spanning] =
      [InternalEvent toy_internal, SpanningEvent toy_spanning]"
    by (simp add: toy_internal_def toy_spanning_def toy_header_def)
  moreover have "chained_events toy_lib genesis_head [toy_spanning] = [toy_spanning]"
    by (simp add: next_head_def toy_fields) (simp add: toy_spanning_def)
  ultimately show ?thesis
    using replay_returns_emitted [OF toy_codec_ok toy_hex, of toy_emits "''w''"] toy_faithful
    by (simp add: toy_emitted)
qed



text \<open>A broken link is named: after any number of linked, decodable records a record whose
  \<open>prev_hash\<close> is not the recomputed head makes the replay of the stream raise
  \<open>ChainTamperDetected\<close> with the value on disk and the recomputed one, whatever follows.\<close>

theorem replay_names_tamper:
  assumes "map (ev_loads lib) good = map (\<lambda>obj. Some (JObj obj)) objs" "linked lib genesis_head objs"
    and "\<forall>obj \<in> set objs. \<forall>n. \<exists>e. decode_spanning lib n obj = Ok e"
    and "ev_loads lib line = Some (JObj obj)"
    and "chain_step lib (linked_tail genesis_head objs) (json_dumps (JObj (pop_key ''prev_hash'' obj))) = Ok computed"
    and "dict_get obj ''prev_hash'' \<noteq> Some (JStr computed)"
    and "replay_internal lib 1 (so_read_all io (lg_internal_sink lg)) = Ok es"
    and "so_read_all so (lg_spanning_sink lg) = (good @ line # rest, err)"
  shows "replay lib io so lg =
    Err (ChainTamperDetected (case dict_get obj ''prev_hash'' of Some (JStr v) \<Rightarrow> Some v | _ \<Rightarrow> None) computed)"
  using replay_spanning_tamper [OF assms(1-6)] assms(7,8) by (simp add: replay_def)

definition forged :: "(string \<times> json) list" where
  "forged = [(''prev_hash'', JStr ''ff'')]"

definition forged_lib :: event_lib where
  "forged_lib = toy_base\<lparr>ev_loads := (\<lambda>_. Some (JObj forged))\<rparr>"

lemma replay_names_tamper_witness:
  "replay forged_lib \<lparr>so_append = memory_append, so_read_all = memory_read_all\<rparr>
      \<lparr>so_append = memory_append, so_read_all = memory_read_all\<rparr>
      \<lparr>lg_workflow_id = [], lg_internal_sink = [], lg_spanning_sink = [''x'', ''y''], lg_chain_head = []\<rparr>
    = Err (ChainTamperDetected (Some ''ff'') ''00'')"
proof -
  have step: "chain_step forged_lib genesis_head b = Ok ''00''" for b
    using chain_step_Ok [OF genesis_hex] by (simp add: forged_lib_def toy_base_def)
  show ?thesis
    using replay_names_tamper [of forged_lib "[]" "[]" "''x''" forged "''00''"
        "\<lparr>so_append = memory_append, so_read_all = memory_read_all\<rparr>"
        "\<lparr>lg_workflow_id = [], lg_internal_sink = [], lg_spanning_sink = [''x'', ''y''], lg_chain_head = []\<rparr>"
        "[]" "\<lparr>so_append = memory_append, so_read_all = memory_read_all\<rparr>" "[''y'']" None]
    by (simp add: step memory_read_all_def forged_def) (simp add: forged_lib_def forged_def)
qed

end
