(* ===== verification/Budget.thy ===== *)
theory Budget
  imports Event_Types Complex_Main
begin

text \<open>
  \<open>src/src/codegenie/fallback/budget.py\<close> and \<open>budget_token.py\<close>: the circuit breaker in front of the
  language model. Precharge reserves tokens and dollars, reconcile settles a reservation against
  the actual use, and the snapshot is the projection other parts read. Dollars are rationals: the
  28-digit rounding of \<open>Decimal\<close> is not modelled. The random token id and the clock reading are
  arguments; the events go to the list in the state, in emission order.
\<close>

section \<open>State\<close>

record budget_token =
  bt_id :: string
  bt_precharged_tokens :: int
  bt_precharged_dollars :: rat
  bt_issued_at :: int

record budget_guard =
  bg_max_tokens :: int
  bg_max_dollars :: rat
  bg_per_call_max_tokens :: int
  bg_dollars_per_token :: rat
  bg_decimal_text :: "rat \<Rightarrow> string"
  bg_consumed_tokens :: int
  bg_consumed_dollars :: rat
  bg_outstanding :: "(string, budget_token) dict"
  bg_reconciled_ids :: "string list"
  bg_events :: "budget_event list"

datatype projected = Tokens int | Dollars rat

datatype budget_error =
    BudgetValueError
  | BudgetExceeded budget_cap_reason projected projected
  | BudgetReconcileUnknownToken string

definition default_max_tokens :: int where "default_max_tokens = 250000"
definition default_max_dollars :: rat where "default_max_dollars = 150 / 100"
definition default_per_call_max_tokens :: int where "default_per_call_max_tokens = 32000"
definition default_dollars_per_token :: rat where "default_dollars_per_token = 3 / 1000000"

definition budget_init ::
  "int \<Rightarrow> rat \<Rightarrow> int \<Rightarrow> rat \<Rightarrow> (rat \<Rightarrow> string) \<Rightarrow> budget_error + budget_guard" where
  "budget_init max_tokens max_dollars per_call_max_tokens dollars_per_token decimal_text =
     (if max_tokens < 0 then Err BudgetValueError
      else if max_dollars < 0 then Err BudgetValueError
      else if per_call_max_tokens \<le> 0 then Err BudgetValueError
      else if dollars_per_token < 0 then Err BudgetValueError
      else Ok \<lparr>bg_max_tokens = max_tokens, bg_max_dollars = max_dollars,
               bg_per_call_max_tokens = per_call_max_tokens, bg_dollars_per_token = dollars_per_token,
               bg_decimal_text = decimal_text, bg_consumed_tokens = 0, bg_consumed_dollars = 0,
               bg_outstanding = [], bg_reconciled_ids = [], bg_events = []\<rparr>)"

section \<open>Operations\<close>

definition emit_event :: "budget_event \<Rightarrow> budget_guard \<Rightarrow> budget_guard" where
  "emit_event e g = g\<lparr>bg_events := bg_events g @ [e]\<rparr>"

definition outstanding_tokens_sum :: "budget_guard \<Rightarrow> int" where
  "outstanding_tokens_sum g = sum_list (map bt_precharged_tokens (dict_values (bg_outstanding g)))"

definition outstanding_dollars_sum :: "budget_guard \<Rightarrow> rat" where
  "outstanding_dollars_sum g = sum_list (map bt_precharged_dollars (dict_values (bg_outstanding g)))"

text \<open>A refusal has already emitted its event, so the state comes back with the error.\<close>

definition precharge ::
  "budget_guard \<Rightarrow> string \<Rightarrow> int \<Rightarrow> int \<Rightarrow> budget_guard \<times> (budget_error + budget_token)" where
  "precharge g token_id now requested_tokens =
     (if requested_tokens \<le> 0 then (g, Err BudgetValueError)
      else if requested_tokens > bg_per_call_max_tokens g
        then (emit_event (BudgetCapExceeded bcr_per_call_max_exceeded) g,
              Err (BudgetExceeded bcr_per_call_max_exceeded (Tokens requested_tokens)
                     (Tokens (bg_per_call_max_tokens g))))
      else
        let projected_tokens = bg_consumed_tokens g + outstanding_tokens_sum g + requested_tokens in
        if projected_tokens > bg_max_tokens g
        then (emit_event (BudgetCapExceeded bcr_workflow_max_tokens_exceeded) g,
              Err (BudgetExceeded bcr_workflow_max_tokens_exceeded (Tokens projected_tokens)
                     (Tokens (bg_max_tokens g))))
        else
          let precharged_dollars = bg_dollars_per_token g * of_int requested_tokens;
              projected_dollars = bg_consumed_dollars g + outstanding_dollars_sum g + precharged_dollars in
          if projected_dollars > bg_max_dollars g
          then (emit_event (BudgetCapExceeded bcr_workflow_max_dollars_exceeded) g,
                Err (BudgetExceeded bcr_workflow_max_dollars_exceeded (Dollars projected_dollars)
                       (Dollars (bg_max_dollars g))))
          else
            let token = \<lparr>bt_id = token_id, bt_precharged_tokens = requested_tokens,
                         bt_precharged_dollars = precharged_dollars, bt_issued_at = now\<rparr> in
            (emit_event (BudgetPrecharged token_id requested_tokens (bg_decimal_text g precharged_dollars))
               (g\<lparr>bg_outstanding := dict_set token_id token (bg_outstanding g)\<rparr>),
             Ok token))"

definition reconcile ::
  "budget_guard \<Rightarrow> budget_token \<Rightarrow> int \<Rightarrow> int \<Rightarrow> rat \<Rightarrow> budget_guard \<times> (budget_error + unit)" where
  "reconcile g token actual_in actual_out actual_dollars =
     (if actual_in < 0 then (g, Err BudgetValueError)
      else if actual_out < 0 then (g, Err BudgetValueError)
      else if actual_dollars < 0 then (g, Err BudgetValueError)
      else
        let token_id = bt_id token in
        if token_id \<in> set (dict_keys (bg_outstanding g))
        then (emit_event (BudgetReconciled token_id actual_in actual_out (bg_decimal_text g actual_dollars))
                (g\<lparr>bg_outstanding := AList.delete token_id (bg_outstanding g),
                   bg_consumed_tokens := bg_consumed_tokens g + (actual_in + actual_out),
                   bg_consumed_dollars := bg_consumed_dollars g + actual_dollars,
                   bg_reconciled_ids := List.insert token_id (bg_reconciled_ids g)\<rparr>),
              Ok ())
        else if token_id \<in> set (bg_reconciled_ids g)
        then (emit_event (BudgetReconciledDuplicate token_id) g, Ok ())
        else (emit_event (BudgetUnknownTokenReconcile token_id) g,
              Err (BudgetReconcileUnknownToken token_id)))"

section \<open>The snapshot\<close>

record budget_snapshot =
  bs_consumed_tokens :: int
  bs_consumed_dollars :: rat
  bs_max_tokens :: int
  bs_max_dollars :: rat
  bs_outstanding_tokens :: "(string, int) dict"
  bs_outstanding_dollars :: rat

definition remaining_tokens :: "budget_snapshot \<Rightarrow> int" where
  "remaining_tokens s = bs_max_tokens s - bs_consumed_tokens s - sum_list (dict_values (bs_outstanding_tokens s))"

definition remaining_dollars :: "budget_snapshot \<Rightarrow> rat" where
  "remaining_dollars s = bs_max_dollars s - bs_consumed_dollars s - bs_outstanding_dollars s"

text \<open>The two \<open>ge=0\<close> fields and the model validator.\<close>

definition validate_snapshot :: "budget_snapshot \<Rightarrow> budget_error + budget_snapshot" where
  "validate_snapshot s =
     (if bs_consumed_tokens s < 0 \<or> bs_max_tokens s < 0 then Err BudgetValueError
      else if bs_consumed_dollars s < 0 then Err BudgetValueError
      else if bs_outstanding_dollars s < 0 then Err BudgetValueError
      else if bs_consumed_tokens s + sum_list (dict_values (bs_outstanding_tokens s)) > bs_max_tokens s
        then Err BudgetValueError
      else if bs_consumed_dollars s + bs_outstanding_dollars s > bs_max_dollars s then Err BudgetValueError
      else Ok s)"

definition running_total :: "budget_guard \<Rightarrow> budget_error + budget_snapshot" where
  "running_total g =
     validate_snapshot \<lparr>bs_consumed_tokens = bg_consumed_tokens g,
       bs_consumed_dollars = bg_consumed_dollars g, bs_max_tokens = bg_max_tokens g,
       bs_max_dollars = bg_max_dollars g,
       bs_outstanding_tokens = map (\<lambda>(tid, tok). (tid, bt_precharged_tokens tok)) (bg_outstanding g),
       bs_outstanding_dollars = outstanding_dollars_sum g\<rparr>"

section \<open>Histories\<close>

datatype budget_op = Precharge string int int | Reconcile budget_token int int rat

fun budget_step :: "budget_guard \<Rightarrow> budget_op \<Rightarrow> budget_guard" where
  "budget_step g (Precharge token_id now n) = fst (precharge g token_id now n)"
| "budget_step g (Reconcile t i out d) = fst (reconcile g t i out d)"

definition budget_run :: "budget_guard \<Rightarrow> budget_op list \<Rightarrow> budget_guard" where
  "budget_run g ops = foldl budget_step g ops"

section \<open>Invariants\<close>

definition budget_wf :: "budget_guard \<Rightarrow> bool" where
  "budget_wf g \<longleftrightarrow> dict_wf (bg_outstanding g) \<and>
     (\<forall>(tid, tok) \<in> set (bg_outstanding g). bt_id tok = tid \<and> 0 < bt_precharged_tokens tok \<and> 0 \<le> bt_precharged_dollars tok) \<and>
     set (dict_keys (bg_outstanding g)) \<inter> set (bg_reconciled_ids g) = {} \<and>
     0 \<le> bg_consumed_tokens g \<and> 0 \<le> bg_consumed_dollars g \<and>
     0 \<le> bg_max_tokens g \<and> 0 \<le> bg_max_dollars g \<and> 0 \<le> bg_dollars_per_token g"

definition within_caps :: "budget_guard \<Rightarrow> bool" where
  "within_caps g \<longleftrightarrow> bg_consumed_tokens g + outstanding_tokens_sum g \<le> bg_max_tokens g \<and>
     bg_consumed_dollars g + outstanding_dollars_sum g \<le> bg_max_dollars g"

text \<open>A step with an unused random id, and a settlement that stays within its reservation.\<close>

fun op_fresh :: "budget_guard \<Rightarrow> budget_op \<Rightarrow> bool" where
  "op_fresh g (Precharge token_id _ _) \<longleftrightarrow>
     token_id \<notin> set (dict_keys (bg_outstanding g)) \<and> token_id \<notin> set (bg_reconciled_ids g)"
| "op_fresh g (Reconcile _ _ _ _) \<longleftrightarrow> True"

fun op_within :: "budget_guard \<Rightarrow> budget_op \<Rightarrow> bool" where
  "op_within g (Precharge _ _ _) \<longleftrightarrow> True"
| "op_within g (Reconcile t i out d) \<longleftrightarrow>
     (case dict_get (bg_outstanding g) (bt_id t) of
        None \<Rightarrow> True
      | Some tok \<Rightarrow> i + out \<le> bt_precharged_tokens tok \<and> d \<le> bt_precharged_dollars tok)"

fun run_all :: "(budget_guard \<Rightarrow> budget_op \<Rightarrow> bool) \<Rightarrow> budget_guard \<Rightarrow> budget_op list \<Rightarrow> bool" where
  "run_all P g [] \<longleftrightarrow> True"
| "run_all P g (op # ops) \<longleftrightarrow> P g op \<and> run_all P (budget_step g op) ops"

section \<open>Lemmas\<close>

lemma emit_event_simps [simp]:
  "bg_outstanding (emit_event e g) = bg_outstanding g"
  "bg_reconciled_ids (emit_event e g) = bg_reconciled_ids g"
  "bg_consumed_tokens (emit_event e g) = bg_consumed_tokens g"
  "bg_consumed_dollars (emit_event e g) = bg_consumed_dollars g"
  "bg_max_tokens (emit_event e g) = bg_max_tokens g"
  "bg_max_dollars (emit_event e g) = bg_max_dollars g"
  "bg_per_call_max_tokens (emit_event e g) = bg_per_call_max_tokens g"
  "bg_dollars_per_token (emit_event e g) = bg_dollars_per_token g"
  "bg_decimal_text (emit_event e g) = bg_decimal_text g"
  "outstanding_tokens_sum (emit_event e g) = outstanding_tokens_sum g"
  "outstanding_dollars_sum (emit_event e g) = outstanding_dollars_sum g"
  "budget_wf (emit_event e g) = budget_wf g"
  "within_caps (emit_event e g) = within_caps g"
  by (simp_all add: emit_event_def outstanding_tokens_sum_def outstanding_dollars_sum_def
      budget_wf_def within_caps_def)

lemma sum_dict_delete:
  fixes f :: "'v \<Rightarrow> 'a::ab_group_add"
  shows "dict_wf d \<Longrightarrow> dict_get d k = Some v \<Longrightarrow>
    sum_list (map f (dict_values (AList.delete k d))) = sum_list (map f (dict_values d)) - f v"
proof (induction d)
  case (Cons kv d)
  obtain a b where kv: "kv = (a, b)" by (cases kv)
  show ?case
  proof (cases "a = k")
    case True
    have "AList.delete k d = d"
      using Cons.prems(1) True by (simp add: kv dict_wf_def delete_idem)
    then show ?thesis using Cons.prems True by (simp add: kv)
  next
    case False
    then show ?thesis using Cons by (simp add: kv dict_wf_def)
  qed
qed simp

lemma budget_wf_member:
  "budget_wf g \<Longrightarrow> dict_get (bg_outstanding g) tid = Some tok \<Longrightarrow>
   bt_id tok = tid \<and> 0 < bt_precharged_tokens tok \<and> 0 \<le> bt_precharged_dollars tok"
  by (auto simp: budget_wf_def dest!: map_of_SomeD)

lemma outstanding_nonneg:
  assumes "budget_wf g"
  shows "0 \<le> outstanding_tokens_sum g" "0 \<le> outstanding_dollars_sum g"
  unfolding outstanding_tokens_sum_def outstanding_dollars_sum_def
  by (rule sum_list_nonneg; use assms in \<open>force simp: budget_wf_def\<close>)+

lemma budget_init_wf: "budget_init a b c d txt = Ok g \<Longrightarrow> budget_wf g \<and> within_caps g"
  by (auto simp: budget_init_def budget_wf_def within_caps_def outstanding_tokens_sum_def
      outstanding_dollars_sum_def dict_wf_def split: if_splits)

text \<open>Precharge: when it issues a token, and what a refusal leaves.\<close>

lemma precharge_Ok:
  "snd (precharge g token_id now n) = Ok tok \<longleftrightarrow>
     0 < n \<and> n \<le> bg_per_call_max_tokens g \<and>
     bg_consumed_tokens g + outstanding_tokens_sum g + n \<le> bg_max_tokens g \<and>
     bg_consumed_dollars g + outstanding_dollars_sum g + bg_dollars_per_token g * of_int n \<le> bg_max_dollars g \<and>
     tok = \<lparr>bt_id = token_id, bt_precharged_tokens = n,
            bt_precharged_dollars = bg_dollars_per_token g * of_int n, bt_issued_at = now\<rparr>"
  by (auto simp: precharge_def Let_def)

lemma precharge_state:
  "(\<exists>e. fst (precharge g token_id now n) = emit_event e
      (g\<lparr>bg_outstanding := dict_set token_id tok (bg_outstanding g)\<rparr>)) \<or> snd (precharge g token_id now n) \<noteq> Ok tok"
  by (auto simp: precharge_def Let_def)

lemma precharge_refused:
  "snd (precharge g token_id now n) = Err err \<Longrightarrow>
     fst (precharge g token_id now n) = g \<or> (\<exists>e. fst (precharge g token_id now n) = emit_event e g)"
  by (auto simp: precharge_def Let_def split: if_splits)

lemma budget_wf_issue:
  assumes "budget_wf g" "op_fresh g (Precharge token_id now n)" "snd (precharge g token_id now n) = Ok tok"
  shows "budget_wf (g\<lparr>bg_outstanding := dict_set token_id tok (bg_outstanding g)\<rparr>)
    \<and> within_caps (g\<lparr>bg_outstanding := dict_set token_id tok (bg_outstanding g)\<rparr>)"
proof -
  have new: "dict_set token_id tok (bg_outstanding g) = bg_outstanding g @ [(token_id, tok)]"
    using assms(2) by (simp add: dict_set_fresh)
  have "bt_id tok = token_id" "0 < bt_precharged_tokens tok" "0 \<le> bt_precharged_dollars tok"
    using assms(1,3) by (auto simp: precharge_Ok budget_wf_def)
  then show ?thesis
    using assms unfolding new
    by (auto simp: precharge_Ok budget_wf_def within_caps_def dict_wf_def outstanding_tokens_sum_def
        outstanding_dollars_sum_def)
qed

lemma precharge_keeps:
  assumes "budget_wf g" "op_fresh g (Precharge token_id now n)"
  shows "budget_wf (fst (precharge g token_id now n)) \<and>
    (within_caps g \<longrightarrow> within_caps (fst (precharge g token_id now n)))"
proof (cases "snd (precharge g token_id now n)")
  case (Inl err)
  from precharge_refused [OF this] assms show ?thesis by auto
next
  case (Inr tok)
  with precharge_state [of g token_id now n tok] budget_wf_issue [OF assms Inr] show ?thesis by auto
qed

text \<open>Reconcile: its branches.\<close>

lemma reconcile_refused:
  "snd (reconcile g t i out d) = Err err \<Longrightarrow> fst (reconcile g t i out d) = g \<or> (\<exists>e. fst (reconcile g t i out d) = emit_event e g)"
  by (auto simp: reconcile_def Let_def split: if_splits)

lemma reconcile_duplicate:
  "bt_id t \<notin> set (dict_keys (bg_outstanding g)) \<Longrightarrow> bt_id t \<in> set (bg_reconciled_ids g) \<Longrightarrow>
   0 \<le> i \<Longrightarrow> 0 \<le> out \<Longrightarrow> 0 \<le> d \<Longrightarrow>
   reconcile g t i out d = (emit_event (BudgetReconciledDuplicate (bt_id t)) g, Ok ())"
  by (simp add: reconcile_def Let_def)

definition settled :: "budget_guard \<Rightarrow> string \<Rightarrow> int \<Rightarrow> rat \<Rightarrow> budget_guard" where
  "settled g token_id n d = g\<lparr>bg_outstanding := AList.delete token_id (bg_outstanding g),
     bg_consumed_tokens := bg_consumed_tokens g + n, bg_consumed_dollars := bg_consumed_dollars g + d,
     bg_reconciled_ids := List.insert token_id (bg_reconciled_ids g)\<rparr>"

lemma reconcile_settles:
  "dict_get (bg_outstanding g) (bt_id t) = Some tok \<Longrightarrow> 0 \<le> i \<Longrightarrow> 0 \<le> out \<Longrightarrow> 0 \<le> d \<Longrightarrow>
   \<exists>e. reconcile g t i out d = (emit_event e (settled g (bt_id t) (i + out) d), Ok ())"
proof -
  assume "dict_get (bg_outstanding g) (bt_id t) = Some tok" and n: "0 \<le> i" "0 \<le> out" "0 \<le> d"
  then have "bt_id t \<in> set (dict_keys (bg_outstanding g))" by (force dest: map_of_SomeD)
  with n show ?thesis by (simp add: reconcile_def Let_def settled_def) blast
qed

lemma settled_sums:
  assumes "budget_wf g" "dict_get (bg_outstanding g) token_id = Some tok"
  shows "outstanding_tokens_sum (settled g token_id n d) = outstanding_tokens_sum g - bt_precharged_tokens tok"
    and "outstanding_dollars_sum (settled g token_id n d) = outstanding_dollars_sum g - bt_precharged_dollars tok"
proof -
  have wf: "dict_wf (bg_outstanding g)" using assms(1) by (simp add: budget_wf_def)
  show "outstanding_tokens_sum (settled g token_id n d) = outstanding_tokens_sum g - bt_precharged_tokens tok"
    using sum_dict_delete [OF wf assms(2), of bt_precharged_tokens]
    by (simp add: outstanding_tokens_sum_def settled_def)
  show "outstanding_dollars_sum (settled g token_id n d) = outstanding_dollars_sum g - bt_precharged_dollars tok"
    using sum_dict_delete [OF wf assms(2), of bt_precharged_dollars]
    by (simp add: outstanding_dollars_sum_def settled_def)
qed

lemma settled_wf:
  assumes "budget_wf g" "0 \<le> n" "0 \<le> d"
  shows "budget_wf (settled g token_id n d)"
proof -
  have sub: "set (AList.delete token_id (bg_outstanding g)) \<subseteq> set (bg_outstanding g)"
    by (simp add: AList.delete_eq filter_is_subset)
  moreover have keys: "set (dict_keys (AList.delete token_id (bg_outstanding g))) = set (dict_keys (bg_outstanding g)) - {token_id}"
    by (simp add: delete_keys)
  moreover have "dict_wf (AList.delete token_id (bg_outstanding g))"
    using assms(1) by (simp add: budget_wf_def dict_wf_def distinct_delete)
  ultimately show ?thesis
    using assms by (auto simp: budget_wf_def settled_def simp del: set_map)
qed

lemma reconcile_keeps:
  assumes "budget_wf g"
  shows "budget_wf (fst (reconcile g t i out d)) \<and>
    (within_caps g \<and> op_within g (Reconcile t i out d) \<longrightarrow> within_caps (fst (reconcile g t i out d)))"
proof (cases "0 \<le> i \<and> 0 \<le> out \<and> 0 \<le> d")
  case False
  then have "fst (reconcile g t i out d) = g" by (auto simp: reconcile_def)
  with assms show ?thesis by simp
next
  case n: True
  show ?thesis
  proof (cases "dict_get (bg_outstanding g) (bt_id t)")
    case None
    then have "bt_id t \<notin> set (dict_keys (bg_outstanding g))" by (simp add: map_of_eq_None_iff)
    with assms show ?thesis by (auto simp: reconcile_def Let_def)
  next
    case (Some tok)
    from reconcile_settles [OF Some, of i out d] n obtain e where
      e: "reconcile g t i out d = (emit_event e (settled g (bt_id t) (i + out) d), Ok ())" by blast
    have "budget_wf (settled g (bt_id t) (i + out) d)" using settled_wf [OF assms] n by simp
    moreover have "within_caps g \<Longrightarrow> op_within g (Reconcile t i out d) \<Longrightarrow>
        within_caps (settled g (bt_id t) (i + out) d)"
      using settled_sums [OF assms Some, of "i + out" d]
      by (simp add: within_caps_def Some) (simp add: settled_def)
    ultimately show ?thesis by (simp add: e)
  qed
qed

lemma budget_step_keeps:
  "budget_wf g \<Longrightarrow> op_fresh g op \<Longrightarrow> budget_wf (budget_step g op) \<and>
     (within_caps g \<and> op_within g op \<longrightarrow> within_caps (budget_step g op))"
  using precharge_keeps reconcile_keeps by (cases op) simp_all

lemma budget_run_Cons [simp]: "budget_run g (op # ops) = budget_run (budget_step g op) ops"
  by (simp add: budget_run_def)

lemma budget_run_Nil [simp]: "budget_run g [] = g"
  by (simp add: budget_run_def)

lemma budget_run_keeps:
  "budget_wf g \<Longrightarrow> run_all op_fresh g ops \<Longrightarrow> budget_wf (budget_run g ops) \<and>
     (within_caps g \<and> run_all op_within g ops \<longrightarrow> within_caps (budget_run g ops))"
proof (induction ops arbitrary: g)
  case (Cons op ops)
  then show ?case using budget_step_keeps [of g op] Cons.IH [of "budget_step g op"] by auto
qed simp

text \<open>A settled id stays settled while the random ids are fresh.\<close>

definition is_settled :: "string \<Rightarrow> budget_guard \<Rightarrow> bool" where
  "is_settled tid g \<longleftrightarrow> tid \<in> set (bg_reconciled_ids g) \<and> tid \<notin> set (dict_keys (bg_outstanding g))"

lemma step_is_settled:
  assumes "is_settled tid g" "op_fresh g op"
  shows "is_settled tid (budget_step g op)"
proof (cases op)
  case (Precharge token_id now n)
  with assms show ?thesis
    by (auto simp: is_settled_def precharge_def Let_def dict_set_fresh)
next
  case (Reconcile t i out d)
  with assms show ?thesis
    by (auto simp: is_settled_def reconcile_def Let_def delete_keys simp del: set_map)
qed

lemma run_is_settled: "is_settled tid g \<Longrightarrow> run_all op_fresh g ops \<Longrightarrow> is_settled tid (budget_run g ops)"
  by (induction ops arbitrary: g) (auto simp: step_is_settled)

text \<open>The snapshot exists exactly within the caps.\<close>

lemma running_total_iff:
  assumes "budget_wf g"
  shows "(\<exists>s. running_total g = Ok s) \<longleftrightarrow> within_caps g"
proof -
  have "sum_list (dict_values (map (\<lambda>(tid, tok). (tid, bt_precharged_tokens tok)) (bg_outstanding g))) = outstanding_tokens_sum g"
    by (simp add: outstanding_tokens_sum_def comp_def case_prod_unfold)
  with assms outstanding_nonneg [OF assms] show ?thesis
    by (auto simp: running_total_def validate_snapshot_def within_caps_def budget_wf_def)
qed

lemma running_total_Ok:
  "running_total g = Ok s \<Longrightarrow>
     remaining_tokens s = bg_max_tokens g - bg_consumed_tokens g - outstanding_tokens_sum g \<and>
     remaining_dollars s = bg_max_dollars g - bg_consumed_dollars g - outstanding_dollars_sum g \<and>
     0 \<le> remaining_tokens s \<and> 0 \<le> remaining_dollars s"
  by (auto simp: running_total_def validate_snapshot_def remaining_tokens_def remaining_dollars_def
      outstanding_tokens_sum_def comp_def case_prod_unfold split: if_splits)

section \<open>Properties\<close>

text \<open>C14. Whatever is precharged and settled, in any order and by any caller, as long as every settlement
  stays within its reservation the consumed and reserved amounts never exceed the caps, and the
  snapshot is available with its two conservation laws.\<close>

theorem budget_never_exceeded:
  assumes "budget_init max_tokens max_dollars per_call dpt txt = Ok g"
    and "run_all op_fresh g ops" and "run_all op_within g ops"
  shows "within_caps (budget_run g ops) \<and>
    (\<exists>s. running_total (budget_run g ops) = Ok s \<and>
       bs_consumed_tokens s + sum_list (dict_values (bs_outstanding_tokens s)) + remaining_tokens s = bs_max_tokens s \<and>
       bs_consumed_dollars s + bs_outstanding_dollars s + remaining_dollars s = bs_max_dollars s \<and>
       0 \<le> remaining_tokens s \<and> 0 \<le> remaining_dollars s)"
proof -
  from budget_init_wf [OF assms(1)] budget_run_keeps [of g ops] assms(2,3)
  have wf: "budget_wf (budget_run g ops)" and caps: "within_caps (budget_run g ops)" by simp_all
  from running_total_iff [OF wf] caps obtain s where s: "running_total (budget_run g ops) = Ok s" by blast
  from running_total_Ok [OF this] s caps show ?thesis
    by (auto simp: remaining_tokens_def remaining_dollars_def)
qed

text \<open>A token settles once: after a settlement, whatever happens next, settling the same token
  again (with any actuals) succeeds and changes nothing but the event log.\<close>

theorem reconcile_idempotent:
  assumes "budget_wf g" "dict_get (bg_outstanding g) (bt_id t) = Some tok"
    and "0 \<le> i" "0 \<le> out" "0 \<le> d" "0 \<le> i'" "0 \<le> out'" "0 \<le> d'"
    and "g1 = fst (reconcile g t i out d)" and "run_all op_fresh g1 ops" and "g2 = budget_run g1 ops"
  shows "bg_consumed_tokens g1 = bg_consumed_tokens g + i + out \<and>
    bg_consumed_dollars g1 = bg_consumed_dollars g + d \<and>
    reconcile g2 t i' out' d' = (g2\<lparr>bg_events := bg_events g2 @ [BudgetReconciledDuplicate (bt_id t)]\<rparr>, Ok ())"
proof -
  from reconcile_settles [OF assms(2-5)] assms(9) obtain e where
    g1: "g1 = emit_event e (settled g (bt_id t) (i + out) d)" by auto
  then have "is_settled (bt_id t) g1" by (simp add: is_settled_def settled_def delete_keys del: set_map)
  then have "is_settled (bt_id t) g2" unfolding assms(11) by (rule run_is_settled [OF _ assms(10)])
  then have "reconcile g2 t i' out' d' = (emit_event (BudgetReconciledDuplicate (bt_id t)) g2, Ok ())"
    using reconcile_duplicate assms(6-8) by (simp add: is_settled_def del: set_map)
  with g1 show ?thesis by (simp add: emit_event_def settled_def)
qed

text \<open>The snapshot is available exactly while the caps hold: once a settlement has pushed the
  consumption over a cap it raises.\<close>

theorem snapshot_available_iff_within_caps:
  assumes "budget_init max_tokens max_dollars per_call dpt txt = Ok g" and "run_all op_fresh g ops"
  shows "(\<exists>s. running_total (budget_run g ops) = Ok s) \<longleftrightarrow> within_caps (budget_run g ops)"
  using running_total_iff budget_run_keeps [of g ops] budget_init_wf [OF assms(1)] assms(2) by blast

section \<open>Witnesses\<close>

definition demo_guard :: budget_guard where
  "demo_guard = \<lparr>bg_max_tokens = 100, bg_max_dollars = 1, bg_per_call_max_tokens = 60,
     bg_dollars_per_token = 0, bg_decimal_text = (\<lambda>_. []), bg_consumed_tokens = 0,
     bg_consumed_dollars = 0, bg_outstanding = [], bg_reconciled_ids = [], bg_events = []\<rparr>"

definition demo_token :: "string \<Rightarrow> int \<Rightarrow> budget_token" where
  "demo_token i n = \<lparr>bt_id = i, bt_precharged_tokens = n, bt_precharged_dollars = 0, bt_issued_at = 0\<rparr>"

definition demo_ops :: "budget_op list" where
  "demo_ops = [Precharge ''a'' 0 50, Precharge ''b'' 0 60, Reconcile (demo_token ''a'' 50) 30 10 0]"

definition overspend_ops :: "budget_op list" where
  "overspend_ops = [Precharge ''a'' 0 50, Reconcile (demo_token ''a'' 50) 50 80 0]"

lemma demo_init: "budget_init 100 1 60 0 (\<lambda>_. []) = Ok demo_guard"
  by (simp add: budget_init_def demo_guard_def)

lemmas budget_eval = precharge_def reconcile_def emit_event_def Let_def outstanding_tokens_sum_def
  outstanding_dollars_sum_def demo_guard_def demo_token_def

lemma demo_fresh: "run_all op_fresh demo_guard demo_ops" "run_all op_within demo_guard demo_ops"
  "run_all op_fresh demo_guard overspend_ops"
  by (simp_all add: demo_ops_def overspend_ops_def budget_eval)

lemma budget_never_exceeded_witness:
  "within_caps (budget_run demo_guard demo_ops) \<and>
   (\<exists>s. running_total (budget_run demo_guard demo_ops) = Ok s \<and> 0 \<le> remaining_tokens s)"
  using budget_never_exceeded [OF demo_init demo_fresh(1,2)] by blast

text \<open>A call that returns more tokens than were reserved leaves the guard without a snapshot.\<close>

lemma snapshot_available_iff_within_caps_witness:
  "\<not> (\<exists>s. running_total (budget_run demo_guard overspend_ops) = Ok s)"
proof -
  have "\<not> within_caps (budget_run demo_guard overspend_ops)"
    by (simp add: overspend_ops_def budget_eval within_caps_def)
  with snapshot_available_iff_within_caps [OF demo_init demo_fresh(3)] show ?thesis by simp
qed

lemma reconcile_idempotent_witness:
  "\<exists>g2. reconcile (fst (reconcile g2 (demo_token ''a'' 50) 1 2 0)) (demo_token ''a'' 50) 5 5 0 =
     ((fst (reconcile g2 (demo_token ''a'' 50) 1 2 0))\<lparr>bg_events :=
        bg_events (fst (reconcile g2 (demo_token ''a'' 50) 1 2 0)) @ [BudgetReconciledDuplicate ''a'']\<rparr>, Ok ())"
proof -
  let ?g = "fst (precharge demo_guard ''a'' 0 50)"
  have "budget_wf demo_guard" using budget_init_wf [OF demo_init] by simp
  then have wf: "budget_wf ?g" by (rule conjunct1 [OF precharge_keeps]) (simp add: demo_guard_def)
  have get: "dict_get (bg_outstanding ?g) (bt_id (demo_token ''a'' 50)) = Some (demo_token ''a'' 50)"
    by (simp add: budget_eval)
  show ?thesis
    using reconcile_idempotent [OF wf get, of 1 2 0 5 5 0, OF _ _ _ _ _ _ refl, of "[]", OF _ _ _ _ _ _ _ refl]
    by (intro exI [of _ ?g]) (simp add: demo_token_def)
qed

end
