(* ===== verification/Validator.thy ===== *)
theory Validator
  imports Prelude
begin

text \<open>
  \<open>src/src/codegenie/coordinator/validator.py\<close> and the unwrapping of its errors in
  \<open>coordinator.py\<close>: the trust boundary every probe output passes. Keys are strings (a non-string
  key is rejected later by pydantic and not modelled); characters are below 256, so the
  case-insensitive match folds ASCII letters only.
\<close>

section \<open>Values\<close>

text \<open>What a probe can put into its slice; \<open>POther\<close> is any value that is not JSON, with the name of
  its type.\<close>

datatype pv = PNone | PBool bool | PInt int | PFloat string | PStr string
  | PList "pv list" | PDict "(string \<times> pv) list" | POther string

datatype path_elem = PKey string | PIdx nat

datatype walk_error =
    SecretLikelyFieldNameError string "path_elem list"
  | NonJsonLeaf string "path_elem list"

section \<open>Secret-shaped keys\<close>

fun occurs :: "string \<Rightarrow> string \<Rightarrow> bool" where
  "occurs p [] \<longleftrightarrow> p = []"
| "occurs p (c # s) \<longleftrightarrow> prefix p (c # s) \<or> occurs p s"

definition ascii_lower :: "char \<Rightarrow> char" where
  "ascii_lower c = (let n = of_char c :: nat in if 65 \<le> n \<and> n \<le> 90 then char_of (n + 32) else c)"

text \<open>The alternatives of the pattern with their optional separator written out.\<close>

definition secret_words :: "string list" where
  "secret_words = [''secret'', ''token'', ''password'', ''credential'',
     ''apikey'', ''api_key'', ''api-key'', ''authtoken'', ''auth_token'', ''auth-token'', ''bearer'',
     ''accesskey'', ''access_key'', ''access-key'', ''privatekey'', ''private_key'', ''private-key'']"

text \<open>\<open>^.*(...).*$\<close> without flags for newlines: \<open>.\<close> stops at a newline and \<open>$\<close> is the end or the place
  before one final newline.\<close>

definition secret_field_pattern :: "string \<Rightarrow> bool" where
  "secret_field_pattern k =
     (let line = (if k \<noteq> [] \<and> last k = CHR 0x0A then butlast k else k) in
      CHR 0x0A \<notin> set line \<and> (\<exists>w \<in> set secret_words. occurs w (map ascii_lower line)))"

definition secret_field_allowlist :: "string list" where
  "secret_field_allowlist = [''references_secrets'']"

definition secret_key :: "string \<Rightarrow> bool" where
  "secret_key k \<longleftrightarrow> k \<notin> set secret_field_allowlist \<and> secret_field_pattern k"

section \<open>The walk\<close>

type_synonym walk_stack = "(pv \<times> path_elem list) list"

fun walk_items :: "path_elem list \<Rightarrow> (string \<times> pv) list \<Rightarrow> walk_stack \<Rightarrow> walk_error + walk_stack" where
  "walk_items path [] stack = Ok stack"
| "walk_items path ((k, v) # items) stack =
     (if secret_key k then Err (SecretLikelyFieldNameError k (path @ [PKey k]))
      else
        let child_path = path @ [PKey k] in
        case v of
          PDict _ \<Rightarrow> walk_items path items ((v, child_path) # stack)
        | PList _ \<Rightarrow> walk_items path items ((v, child_path) # stack)
        | POther type_name \<Rightarrow> Err (NonJsonLeaf type_name child_path)
        | _ \<Rightarrow> walk_items path items stack)"

fun walk_elems :: "path_elem list \<Rightarrow> nat \<Rightarrow> pv list \<Rightarrow> walk_stack \<Rightarrow> walk_error + walk_stack" where
  "walk_elems path idx [] stack = Ok stack"
| "walk_elems path idx (item # items) stack =
     (let child_path = path @ [PIdx idx] in
      case item of
        PDict _ \<Rightarrow> walk_elems path (idx + 1) items ((item, child_path) # stack)
      | PList _ \<Rightarrow> walk_elems path (idx + 1) items ((item, child_path) # stack)
      | POther type_name \<Rightarrow> Err (NonJsonLeaf type_name child_path)
      | _ \<Rightarrow> walk_elems path (idx + 1) items stack)"

text \<open>Every container is pushed once; the measure counts the containers still to be visited.\<close>

fun weight :: "pv \<Rightarrow> nat" where
  "weight (PList vs) = Suc (sum_list (map weight vs))"
| "weight (PDict kvs) = Suc (sum_list (map (\<lambda>(k, v). weight v) kvs))"
| "weight _ = 0"

definition visit_weight :: "walk_stack \<Rightarrow> nat" where
  "visit_weight st = sum_list (map (\<lambda>(v, p). weight v) st)"

lemma visit_weight_simps [simp]:
  "visit_weight [] = 0" "visit_weight ((v, p) # st) = weight v + visit_weight st"
  by (simp_all add: visit_weight_def)

lemma walk_items_weight:
  "walk_items path items stack = Ok stack' \<Longrightarrow>
   visit_weight stack' \<le> visit_weight stack + sum_list (map (\<lambda>(k, v). weight v) items)"
proof (induction path items stack rule: walk_items.induct)
  case (2 path k v items stack)
  then show ?case by (cases v) (fastforce split: if_splits simp: Let_def)+
qed simp

lemma walk_elems_weight:
  "walk_elems path idx items stack = Ok stack' \<Longrightarrow>
   visit_weight stack' \<le> visit_weight stack + sum_list (map weight items)"
proof (induction path idx items stack rule: walk_elems.induct)
  case (2 path idx v items stack)
  then show ?case by (cases v) (fastforce simp: Let_def)+
qed simp

text \<open>Only containers are pushed: the dictionary and list cases below are the only ones that occur.\<close>

function walk_loop :: "walk_stack \<Rightarrow> walk_error + unit" where
  "walk_loop [] = Ok ()"
| "walk_loop ((PDict items, path) # stack) =
     (case walk_items path items stack of Err e \<Rightarrow> Err e | Ok stack' \<Rightarrow> walk_loop stack')"
| "walk_loop ((PList items, path) # stack) =
     (case walk_elems path 0 items stack of Err e \<Rightarrow> Err e | Ok stack' \<Rightarrow> walk_loop stack')"
| "walk_loop ((PNone, path) # stack) = walk_loop stack"
| "walk_loop ((PBool b, path) # stack) = walk_loop stack"
| "walk_loop ((PInt i, path) # stack) = walk_loop stack"
| "walk_loop ((PFloat f, path) # stack) = walk_loop stack"
| "walk_loop ((PStr s, path) # stack) = walk_loop stack"
| "walk_loop ((POther t, path) # stack) = walk_loop stack"
  by pat_completeness auto
termination
  by (relation "measures [visit_weight, length]")
    (auto dest!: walk_items_weight walk_elems_weight simp: le_Suc_eq less_Suc_eq_le)

definition walk_and_enforce :: "(string \<times> pv) list \<Rightarrow> walk_error + unit" where
  "walk_and_enforce root = walk_loop [(PDict root, [])]"

section \<open>Validation and its error string\<close>

datatype validation = Valid | InvalidSlice walk_error | InvalidConfidence

definition validate_output :: "(string \<times> pv) list \<Rightarrow> string \<Rightarrow> validation" where
  "validate_output schema_slice confidence =
     (case walk_and_enforce schema_slice of
        Err e \<Rightarrow> InvalidSlice e
      | Ok _ \<Rightarrow> if confidence \<in> {''high'', ''medium'', ''low''} then Valid else InvalidConfidence)"

fun path_elem_repr :: "path_elem \<Rightarrow> string" where
  "path_elem_repr (PKey k) = py_repr k"
| "path_elem_repr (PIdx n) = nat_str n"

fun repr_tuple :: "string list \<Rightarrow> string" where
  "repr_tuple [x] = ''('' @ x @ '',)''"
| "repr_tuple xs = ''('' @ py_join '', '' xs @ '')''"

definition leaf_message :: "string \<Rightarrow> path_elem list \<Rightarrow> string" where
  "leaf_message type_name path =
     ''non-JSON-representable leaf '' @ py_repr type_name @ '' at '' @ repr_tuple (map path_elem_repr path)"

text \<open>\<open>errors()[0]["ctx"]["error"]\<close> is the exception the walk raised: the secret-key error with its
  key and path, or a \<open>ValueError\<close> whose only argument is its message. A bad confidence has no
  \<open>error\<close> in its context.\<close>

fun format_secret_error :: "validation \<Rightarrow> string" where
  "format_secret_error (InvalidSlice (SecretLikelyFieldNameError key path)) =
     ''SecretLikelyFieldNameError: '' @ key @ '' at '' @ repr_tuple (map path_elem_repr path)"
| "format_secret_error (InvalidSlice (NonJsonLeaf type_name path)) =
     ''SecretLikelyFieldNameError: '' @ leaf_message type_name path @ '' at ''
     @ repr_tuple [py_repr (leaf_message type_name path)]"
| "format_secret_error _ = ''SecretLikelyFieldNameError: <unwrap-failed> at (ValidationError,)''"

section \<open>Specification\<close>

fun clean :: "pv \<Rightarrow> bool" where
  "clean (PDict kvs) \<longleftrightarrow> (\<forall>(k, v) \<in> set kvs. \<not> secret_key k \<and> clean v)"
| "clean (PList vs) \<longleftrightarrow> (\<forall>v \<in> set vs. clean v)"
| "clean (POther _) \<longleftrightarrow> False"
| "clean _ \<longleftrightarrow> True"

text \<open>The value at a path.\<close>

inductive at_path :: "pv \<Rightarrow> path_elem list \<Rightarrow> pv \<Rightarrow> bool" where
  here: "at_path v [] v"
| key: "(k, v) \<in> set kvs \<Longrightarrow> at_path v p u \<Longrightarrow> at_path (PDict kvs) (PKey k # p) u"
| idx: "i < length vs \<Longrightarrow> at_path (vs ! i) p u \<Longrightarrow> at_path (PList vs) (PIdx i # p) u"

section \<open>Lemmas\<close>

fun container_value :: "pv \<Rightarrow> bool" where
  "container_value (PDict _) = True"
| "container_value (PList _) = True"
| "container_value _ = False"

definition clean_stack :: "walk_stack \<Rightarrow> bool" where
  "clean_stack st \<longleftrightarrow> (\<forall>(v, p) \<in> set st. clean v)"

definition container_stack :: "walk_stack \<Rightarrow> bool" where
  "container_stack st \<longleftrightarrow> (\<forall>(v, p) \<in> set st. container_value v)"

lemma stack_simps [simp]:
  "clean_stack []" "clean_stack ((v, p) # st) \<longleftrightarrow> clean v \<and> clean_stack st"
  "container_stack []" "container_stack ((v, p) # st) \<longleftrightarrow> container_value v \<and> container_stack st"
  by (simp_all add: clean_stack_def container_stack_def)

abbreviation items_ok :: "(string \<times> pv) list \<Rightarrow> bool" where
  "items_ok items \<equiv> list_all (\<lambda>(k, v). \<not> secret_key k \<and> clean v) items"

lemma clean_containers: "clean (PDict kvs) \<longleftrightarrow> items_ok kvs" "clean (PList vs) \<longleftrightarrow> list_all clean vs"
  by (simp_all add: list_all_iff)

declare clean.simps(1,2) [simp del]

lemma walk_items_Ok:
  "walk_items path items st = Ok st' \<Longrightarrow> container_stack st \<Longrightarrow>
   container_stack st' \<and> (clean_stack st' \<longleftrightarrow> clean_stack st \<and> items_ok items)"
proof (induction path items st rule: walk_items.induct)
  case (2 path k v items st)
  then show ?case by (cases v) (auto simp: Let_def split: if_splits)
qed simp

lemma walk_items_Err: "walk_items path items st = Err e \<Longrightarrow> \<not> items_ok items"
proof (induction path items st rule: walk_items.induct)
  case (2 path k v items st)
  then show ?case by (cases v) (auto simp: Let_def split: if_splits)
qed simp

lemma walk_elems_Ok:
  "walk_elems path n items st = Ok st' \<Longrightarrow> container_stack st \<Longrightarrow>
   container_stack st' \<and> (clean_stack st' \<longleftrightarrow> clean_stack st \<and> list_all clean items)"
proof (induction path n items st rule: walk_elems.induct)
  case (2 path n v items st)
  then show ?case by (cases v) (auto simp: Let_def)
qed simp

lemma walk_elems_Err: "walk_elems path n items st = Err e \<Longrightarrow> \<not> list_all clean items"
proof (induction path n items st rule: walk_elems.induct)
  case (2 path n v items st)
  then show ?case by (cases v) (auto simp: Let_def)
qed simp

lemma walk_loop_clean: "container_stack st \<Longrightarrow> walk_loop st = Ok () \<longleftrightarrow> clean_stack st"
proof (induction st rule: walk_loop.induct)
  case (2 items path st)
  then show ?case
    using walk_items_Ok [of path items st] walk_items_Err [of path items st]
    by (cases "walk_items path items st") (auto simp: clean_containers)
next
  case (3 items path st)
  then show ?case
    using walk_elems_Ok [of path 0 items st] walk_elems_Err [of path 0 items st]
    by (cases "walk_elems path 0 items st") (auto simp: clean_containers)
qed simp_all

lemma at_path_trans: "at_path v p u \<Longrightarrow> at_path u q w \<Longrightarrow> at_path v (p @ q) w"
  by (induction rule: at_path.induct) (auto intro: at_path.intros)

text \<open>What a refusal names.\<close>

fun error_at :: "pv \<Rightarrow> walk_error \<Rightarrow> bool" where
  "error_at root (SecretLikelyFieldNameError k path) \<longleftrightarrow>
     secret_key k \<and> (\<exists>p u. path = p @ [PKey k] \<and> at_path root path u)"
| "error_at root (NonJsonLeaf t path) \<longleftrightarrow> at_path root path (POther t)"

definition rooted :: "pv \<Rightarrow> walk_stack \<Rightarrow> bool" where
  "rooted root st \<longleftrightarrow> (\<forall>(v, p) \<in> set st. at_path root p v)"

lemma rooted_simps [simp]:
  "rooted root []" "rooted root ((v, p) # st) \<longleftrightarrow> at_path root p v \<and> rooted root st"
  by (simp_all add: rooted_def)

lemma walk_items_rooted:
  "rooted root st \<Longrightarrow> at_path root path (PDict kvs) \<Longrightarrow> set items \<subseteq> set kvs \<Longrightarrow>
   (\<forall>e. walk_items path items st = Err e \<longrightarrow> error_at root e) \<and>
   (\<forall>st'. walk_items path items st = Ok st' \<longrightarrow> rooted root st')"
proof (induction items arbitrary: st)
  case (Cons kv items)
  obtain k v where kv: "kv = (k, v)" by (cases kv)
  have here: "at_path root (path @ [PKey k]) v"
    by (rule at_path_trans [OF Cons.prems(2)]) (use Cons.prems(3) in \<open>auto simp: kv intro: at_path.intros\<close>)
  show ?case
  proof (cases "secret_key k")
    case True
    with here show ?thesis by (auto simp: kv)
  next
    case False
    have sub: "set items \<subseteq> set kvs" using Cons.prems(3) by simp
    show ?thesis
      using here False Cons.IH [OF _ Cons.prems(2) sub, of st] Cons.prems(1)
        Cons.IH [OF _ Cons.prems(2) sub, of "(v, path @ [PKey k]) # st"]
      by (cases v) (simp_all add: kv Let_def)
  qed
qed simp

lemma walk_elems_rooted:
  "rooted root st \<Longrightarrow> at_path root path (PList vs) \<Longrightarrow> items = drop n vs \<Longrightarrow>
   (\<forall>e. walk_elems path n items st = Err e \<longrightarrow> error_at root e) \<and>
   (\<forall>st'. walk_elems path n items st = Ok st' \<longrightarrow> rooted root st')"
proof (induction items arbitrary: st n)
  case (Cons v items)
  from Cons.prems(3) have n: "n < length vs" by (metis drop_all linorder_not_less list.distinct(1))
  with Cons.prems(3) have v: "vs ! n = v" and rest: "items = drop (n + 1) vs"
    by (metis Cons_nth_drop_Suc list.inject, metis Cons_nth_drop_Suc list.inject Suc_eq_plus1)
  have here: "at_path root (path @ [PIdx n]) v"
    by (rule at_path_trans [OF Cons.prems(2)]) (use n v in \<open>auto intro: at_path.intros\<close>)
  show ?case
    using here Cons.IH [OF _ Cons.prems(2) rest, of st] Cons.prems(1)
      Cons.IH [OF _ Cons.prems(2) rest, of "(v, path @ [PIdx n]) # st"]
    by (cases v) (simp_all add: Let_def)
qed simp

lemma walk_loop_error: "rooted root st \<Longrightarrow> walk_loop st = Err e \<Longrightarrow> error_at root e"
proof (induction st rule: walk_loop.induct)
  case (2 items path st)
  then show ?case
    using walk_items_rooted [of root st path items items] by (cases "walk_items path items st") simp_all
next
  case (3 items path st)
  then show ?case
    using walk_elems_rooted [of root st path items items 0] by (cases "walk_elems path 0 items st") simp_all
qed simp_all

section \<open>Properties\<close>

text \<open>The boundary is exact: a slice is accepted if and only if no key at any depth is secret-shaped and
  every leaf is a JSON scalar; and a refusal names a key or leaf that is there, by its path.\<close>

theorem walk_and_enforce_exact:
  "(walk_and_enforce root = Ok () \<longleftrightarrow> clean (PDict root)) \<and>
   (\<forall>e. walk_and_enforce root = Err e \<longrightarrow> error_at (PDict root) e)"
  using walk_loop_clean [of "[(PDict root, [])]"] walk_loop_error [of "PDict root" "[(PDict root, [])]"]
  by (auto simp: walk_and_enforce_def at_path.here)

lemma walk_and_enforce_exact_witness:
  "walk_and_enforce [(''a'', PList [PDict [(''API-Key'', PNone)]])] =
     Err (SecretLikelyFieldNameError ''API-Key'' [PKey ''a'', PIdx 0, PKey ''API-Key'']) \<and>
   error_at (PDict [(''a'', PList [PDict [(''API-Key'', PNone)]])])
     (SecretLikelyFieldNameError ''API-Key'' [PKey ''a'', PIdx 0, PKey ''API-Key''])"
proof -
  have "walk_and_enforce [(''a'', PList [PDict [(''API-Key'', PNone)]])] =
     Err (SecretLikelyFieldNameError ''API-Key'' [PKey ''a'', PIdx 0, PKey ''API-Key''])"
    by code_simp
  with walk_and_enforce_exact show ?thesis by blast
qed

text \<open>A newline inside a key hides the word before it from the pattern.\<close>

lemma newline_hides_secret: "\<not> secret_key (''password'' @ [CHR 0x0A] @ ''x'')"
  by code_simp

text \<open>A failure that has nothing to do with secrets is reported under the secret-key error's name.\<close>

lemma confidence_reported_as_secret:
  "format_secret_error (validate_output [] ''certain'') =
     ''SecretLikelyFieldNameError: <unwrap-failed> at (ValidationError,)''"
  by code_simp

end
