(* ===== verification/Probe_Base.thy ===== *)
theory Probe_Base
  imports Validator
begin

text \<open>
  The data of the probe contract, \<open>src/src/codegenie/probes/base.py\<close>: snapshot, task and output of a
  probe. Paths are strings; \<open>SanitizedProbeOutput\<close> of \<open>output/sanitizer.py\<close> has the same fields as
  \<open>ProbeOutput\<close> and is the same record here.
\<close>

record repo_snapshot =
  rs_root :: string
  rs_git_commit :: "string option"
  rs_detected_languages :: "(string, int) dict"
  rs_config :: "(string, pv) dict"

record task =
  tk_type :: string
  tk_options :: "(string, pv) dict"

record probe_output =
  po_schema_slice :: "(string \<times> pv) list"
  po_raw_artifacts :: "string list"
  po_confidence :: string
  po_duration_ms :: int
  po_warnings :: "string list"
  po_errors :: "string list"

section \<open>Rewriting the strings of a value in place\<close>

text \<open>Not code of its own: the shape the scrubbing and the redaction of a slice have in common.\<close>

fun map_str :: "(string \<Rightarrow> string) \<Rightarrow> pv \<Rightarrow> pv" where
  "map_str f (PStr s) = PStr (f s)"
| "map_str f (PDict items) = PDict (map (\<lambda>(k, v). (k, map_str f v)) items)"
| "map_str f (PList items) = PList (map (map_str f) items)"
| "map_str f v = v"

lemma clean_map_str [simp]: "clean (map_str f v) \<longleftrightarrow> clean v"
  by (induction v rule: clean.induct) (auto simp: clean.simps)

lemma at_path_map_str: "at_path v p u \<Longrightarrow> at_path (map_str f v) p (map_str f u)"
proof (induction rule: at_path.induct)
  case (key k v kvs p u)
  then show ?case by (auto intro!: at_path.key)
next
  case (idx i vs p u)
  then show ?case by (auto intro!: at_path.idx)
qed (rule at_path.here)

lemma at_path_map_str_inv:
  "at_path w p u \<Longrightarrow> w = map_str f v \<Longrightarrow> \<exists>x. at_path v p x \<and> u = map_str f x"
proof (induction arbitrary: v rule: at_path.induct)
  case (here w)
  then show ?case by (auto intro: at_path.here)
next
  case (key k w kvs p u)
  then obtain items where v: "v = PDict items" and kvs: "kvs = map (\<lambda>(k, v). (k, map_str f v)) items"
    by (cases v) auto
  with key.hyps obtain x where x: "(k, x) \<in> set items" "w = map_str f x" by auto
  with key.IH obtain y where "at_path x p y" "u = map_str f y" by blast
  with x v show ?case by (auto intro: at_path.key)
next
  case (idx i vs p u)
  then obtain items where v: "v = PList items" and vs: "vs = map (map_str f) items"
    by (cases v) auto
  with idx obtain y where "at_path (items ! i) p y" "u = map_str f y" by fastforce
  with idx.hyps v vs show ?case by (auto intro: at_path.idx)
qed

lemma at_path_map_str_iff: "at_path (map_str f v) p u \<longleftrightarrow> (\<exists>x. at_path v p x \<and> u = map_str f x)"
  using at_path_map_str at_path_map_str_inv by blast

end
