(* ===== verification/Sanitizer.thy ===== *)
theory Sanitizer
  imports Probe_Base
begin

text \<open>
  \<open>OutputSanitizer.scrub\<close> of \<open>src/src/codegenie/output/sanitizer.py\<close>: the second look for
  secret-shaped keys, and the rewriting of absolute paths in every string of an output.
  \<open>Path.resolve\<close> reads the file system and is an argument. Keys are strings, and a list of a slice is
  a Python \<open>list\<close>. The redaction of secrets in the same file is in \<open>Redactor\<close>.
\<close>

section \<open>Definitions\<close>

datatype scrub_error =
    RootNotAbsolute string
  | RootNotResolved string string
  | RootIsFilesystemRoot
  | SecretKeyRejected string

definition validate_repo_root :: "(string \<Rightarrow> string) \<Rightarrow> string \<Rightarrow> scrub_error + string" where
  "validate_repo_root resolve repo_root =
     (if \<not> prefix ''/'' repo_root then Err (RootNotAbsolute repo_root)
      else if resolve repo_root \<noteq> repo_root then Err (RootNotResolved repo_root (resolve repo_root))
      else if repo_root = ''/'' then Err RootIsFilesystemRoot
      else Ok repo_root)"

text \<open>The first pass. \<open>on_match\<close> raises, so the walk stops at the first key found; every value is
  pushed, containers or not.\<close>

fun pass1_items :: "(string \<times> pv) list \<Rightarrow> pv list \<Rightarrow> scrub_error + pv list" where
  "pass1_items [] stack = Ok stack"
| "pass1_items ((k, v) # items) stack =
     (if k \<notin> set secret_field_allowlist \<and> secret_field_pattern k then Err (SecretKeyRejected k)
      else pass1_items items (v # stack))"

fun pv_nodes :: "pv \<Rightarrow> nat" where
  "pv_nodes (PList vs) = Suc (sum_list (map pv_nodes vs))"
| "pv_nodes (PDict kvs) = Suc (sum_list (map (\<lambda>(k, v). pv_nodes v) kvs))"
| "pv_nodes _ = 1"

lemma pass1_items_nodes:
  "pass1_items items stack = Ok stack' \<Longrightarrow>
   sum_list (map pv_nodes stack') = sum_list (map pv_nodes stack) + sum_list (map (\<lambda>(k, v). pv_nodes v) items)"
  by (induction items stack rule: pass1_items.induct) (auto split: if_splits)

function walk_pass1_keys :: "pv list \<Rightarrow> scrub_error + unit" where
  "walk_pass1_keys [] = Ok ()"
| "walk_pass1_keys (cur # stack) =
     (case cur of
        PDict items \<Rightarrow> (case pass1_items items stack of Err e \<Rightarrow> Err e | Ok stack' \<Rightarrow> walk_pass1_keys stack')
      | PList items \<Rightarrow> walk_pass1_keys (rev items @ stack)
      | _ \<Rightarrow> walk_pass1_keys stack)"
  by pat_completeness auto
termination
  by (relation "measure (\<lambda>st. sum_list (map pv_nodes st))")
     (auto dest!: pass1_items_nodes simp: rev_map [symmetric] less_Suc_eq_le)

text \<open>The path pattern: the length of the match at the head of a string. The alternatives are tried
  in the order of the pattern, the repository root first.\<close>

definition user_segment :: "string \<Rightarrow> string \<Rightarrow> nat option" where
  "user_segment base s =
     (if prefix base s then
        let rest = drop (length base) s; user = takeWhile (\<lambda>c. c \<noteq> CHR ''/'') rest in
        if user \<noteq> [] \<and> length user < length rest then Some (length base + length user + 1) else None
      else None)"

definition path_regex :: "string \<Rightarrow> string \<Rightarrow> nat option" where
  "path_regex repo s =
     (if prefix repo s then
        Some (if prefix ''/'' (drop (length repo) s) then Suc (length repo) else length repo)
      else case user_segment ''/Users/'' s of
        Some n \<Rightarrow> Some n
      | None \<Rightarrow>
          (case user_segment ''/home/'' s of
             Some n \<Rightarrow> Some n
           | None \<Rightarrow> if prefix ''/root/'' s then Some 6 else None))"

text \<open>\<open>regex.sub(repl, value)\<close> with every match replaced by the empty string, and the number of
  matches. An empty match (only for an empty root) leaves the character.\<close>

function scrub_string :: "(string \<Rightarrow> nat option) \<Rightarrow> string \<Rightarrow> string \<times> nat" where
  "scrub_string regex s =
     (if s = [] then ([], 0)
      else case regex s of
        Some n \<Rightarrow>
          if n = 0 then (let (t, m) = scrub_string regex (tl s) in (hd s # t, m + 1))
          else (let (t, m) = scrub_string regex (drop n s) in (t, m + 1))
      | None \<Rightarrow> (let (t, m) = scrub_string regex (tl s) in (hd s # t, m)))"
  by pat_completeness auto
termination
  by (relation "measure (\<lambda>(regex, s). length s)") auto

declare scrub_string.simps [simp del]

fun scrub_container :: "(string \<Rightarrow> nat option) \<Rightarrow> pv \<Rightarrow> pv" where
  "scrub_container regex (PStr s) = PStr (fst (scrub_string regex s))"
| "scrub_container regex (PDict items) = PDict (map (\<lambda>(k, v). (k, scrub_container regex v)) items)"
| "scrub_container regex (PList items) = PList (map (scrub_container regex) items)"
| "scrub_container regex v = v"

definition scrub_items :: "(string \<Rightarrow> nat option) \<Rightarrow> (string \<times> pv) list \<Rightarrow> (string \<times> pv) list" where
  "scrub_items regex items = map (\<lambda>(k, v). (k, scrub_container regex v)) items"

definition scrub :: "(string \<Rightarrow> string) \<Rightarrow> probe_output \<Rightarrow> string \<Rightarrow> scrub_error + probe_output" where
  "scrub resolve output repo_root =
     rbind (validate_repo_root resolve repo_root) (\<lambda>root.
     rbind (walk_pass1_keys [PDict (po_schema_slice output)]) (\<lambda>_.
       let regex = path_regex root in
       Ok \<lparr>po_schema_slice = scrub_items regex (po_schema_slice output),
           po_raw_artifacts = po_raw_artifacts output,
           po_confidence = po_confidence output,
           po_duration_ms = po_duration_ms output,
           po_warnings = map (\<lambda>s. fst (scrub_string regex s)) (po_warnings output),
           po_errors = map (\<lambda>s. fst (scrub_string regex s)) (po_errors output)\<rparr>))"

section \<open>The first pass\<close>

text \<open>No key at any depth is secret-shaped.\<close>

fun keys_ok :: "pv \<Rightarrow> bool" where
  "keys_ok (PDict kvs) \<longleftrightarrow> list_all (\<lambda>(k, v). \<not> secret_key k \<and> keys_ok v) kvs"
| "keys_ok (PList vs) \<longleftrightarrow> list_all keys_ok vs"
| "keys_ok _ \<longleftrightarrow> True"

lemma pass1_items_Ok:
  "pass1_items items stack = Ok stack' \<longleftrightarrow>
     list_all (\<lambda>(k, v). \<not> secret_key k) items \<and> stack' = rev (map snd items) @ stack"
  by (induction items stack rule: pass1_items.induct) (auto simp: secret_key_def)

lemma pass1_items_Err:
  "pass1_items items stack = Err e \<Longrightarrow>
   \<exists>k. e = SecretKeyRejected k \<and> secret_key k \<and> \<not> list_all (\<lambda>(k, v). \<not> secret_key k) items"
  by (induction items stack rule: pass1_items.induct) (auto simp: secret_key_def split: if_splits)

lemma items_keys_ok:
  "list_all (\<lambda>(k, v). \<not> secret_key k \<and> keys_ok v) items \<longleftrightarrow>
   list_all (\<lambda>(k, v). \<not> secret_key k) items \<and> list_all keys_ok (map snd items)"
  by (induction items) auto

lemma walk_pass1_Ok: "walk_pass1_keys st = Ok () \<longleftrightarrow> list_all keys_ok st"
proof (induction st rule: walk_pass1_keys.induct)
  case (2 cur stack)
  show ?case
  proof (cases cur)
    case (PDict items)
    show ?thesis
    proof (cases "pass1_items items stack")
      case (Inl e)
      with PDict pass1_items_Err [OF Inl] show ?thesis by (auto simp: items_keys_ok)
    next
      case (Inr stack')
      then have "list_all (\<lambda>(k, v). \<not> secret_key k) items \<and> stack' = rev (map snd items) @ stack"
        by (simp add: pass1_items_Ok)
      with PDict Inr "2.IH"(7) [OF PDict Inr] show ?thesis by (auto simp: items_keys_ok)
    qed
  next
    case (PList items)
    with "2.IH"(6) [OF PList] show ?thesis by simp
  qed (use 2 in simp_all)
qed simp

lemma walk_pass1_Err: "walk_pass1_keys st = Err e \<Longrightarrow> \<exists>k. e = SecretKeyRejected k \<and> secret_key k"
proof (induction st rule: walk_pass1_keys.induct)
  case (2 cur stack)
  then show ?case
    using pass1_items_Err by (cases cur) (fastforce split: sum.splits)+
qed simp

text \<open>What the validator accepts, the first pass accepts.\<close>

lemma clean_keys_ok: "clean v \<Longrightarrow> keys_ok v"
  by (induction v rule: keys_ok.induct) (auto simp: clean_containers list_all_iff)

lemma scrub_raises_iff:
  "(\<exists>k. scrub resolve output repo_root = Err (SecretKeyRejected k)) \<longleftrightarrow>
   validate_repo_root resolve repo_root = Ok repo_root \<and> \<not> keys_ok (PDict (po_schema_slice output))"
proof (cases "validate_repo_root resolve repo_root")
  case (Inl e)
  then show ?thesis by (auto simp: scrub_def validate_repo_root_def split: if_splits)
next
  case (Inr root)
  then have "root = repo_root" by (simp add: validate_repo_root_def split: if_splits)
  with Inr show ?thesis
    using walk_pass1_Ok [of "[PDict (po_schema_slice output)]"]
      walk_pass1_Err [of "[PDict (po_schema_slice output)]"]
    by (cases "walk_pass1_keys [PDict (po_schema_slice output)]") (auto simp: scrub_def Let_def)
qed

section \<open>The second pass\<close>

definition quiet :: "(string \<Rightarrow> nat option) \<Rightarrow> string \<Rightarrow> bool" where
  "quiet regex s \<longleftrightarrow> (\<forall>k < length s. regex (drop k s) = None)"

lemma quiet_Cons: "quiet regex (c # s) \<longleftrightarrow> regex (c # s) = None \<and> quiet regex s"
  by (simp add: quiet_def All_less_Suc2)

lemma quiet_Nil [simp]: "quiet regex []"
  by (simp add: quiet_def)

lemma scrub_Nil [simp]: "scrub_string regex [] = ([], 0)"
  by (simp add: scrub_string.simps)

lemma scrub_keep:
  "regex (c # s) = None \<Longrightarrow>
   scrub_string regex (c # s) = (c # fst (scrub_string regex s), snd (scrub_string regex s))"
  by (subst scrub_string.simps) (simp add: split_beta)

lemma scrub_cut:
  "regex s = Some n \<Longrightarrow> 0 < n \<Longrightarrow> s \<noteq> [] \<Longrightarrow>
   scrub_string regex s = (fst (scrub_string regex (drop n s)), Suc (snd (scrub_string regex (drop n s))))"
  by (subst scrub_string.simps) (simp add: split_beta)

lemma scrub_prefix:
  "(\<And>k. k < length u \<Longrightarrow> regex (drop k (u @ s)) = None) \<Longrightarrow>
   scrub_string regex (u @ s) = (u @ fst (scrub_string regex s), snd (scrub_string regex s))"
proof (induction u)
  case (Cons c u)
  from Cons.prems [of 0] have "regex (c # u @ s) = None" by simp
  moreover have "scrub_string regex (u @ s) = (u @ fst (scrub_string regex s), snd (scrub_string regex s))"
    by (rule Cons.IH) (use Cons.prems [of "Suc k" for k] in simp)
  ultimately show ?case by (simp add: scrub_keep)
qed simp

lemma scrub_count: "snd (scrub_string regex s) = 0 \<longleftrightarrow> quiet regex s"
proof (induction regex s rule: scrub_string.induct)
  case (1 regex s)
  show ?case
  proof (cases s)
    case (Cons c t)
    show ?thesis
    proof (cases "regex s")
      case None
      with 1 Cons show ?thesis by (simp add: scrub_keep quiet_Cons)
    next
      case (Some n)
      with Cons show ?thesis by (subst scrub_string.simps) (simp add: split_beta quiet_Cons)
    qed
  qed simp
qed

lemma scrub_quiet: "quiet regex s \<Longrightarrow> scrub_string regex s = (s, 0)"
  using scrub_prefix [of s regex "[]"] by (simp add: quiet_def)

lemma scrub_subseq: "subseq (fst (scrub_string regex s)) s"
proof (induction regex s rule: scrub_string.induct)
  case (1 regex s)
  show ?case
  proof (cases s)
    case (Cons c t)
    show ?thesis
    proof (cases "regex s")
      case None
      with 1 Cons show ?thesis by (simp add: scrub_keep)
    next
      case (Some n)
      show ?thesis
      proof (cases "n = 0")
        case True
        with 1 Cons Some show ?thesis by (subst scrub_string.simps) (simp add: split_beta)
      next
        case False
        with 1 Cons Some have "subseq (fst (scrub_string regex (drop n s))) (drop n s)" by simp
        then have "subseq (fst (scrub_string regex (drop n s))) s"
          by (meson subseq_drop_many subseq_order.order_trans suffix_drop suffix_imp_subseq)
        with False Some Cons show ?thesis by (simp add: scrub_cut)
      qed
    qed
  qed simp
qed

text \<open>The pattern only matches at a slash.\<close>

lemma path_regex_slash:
  "prefix ''/'' repo \<Longrightarrow> c \<noteq> CHR ''/'' \<Longrightarrow> path_regex repo (c # s) = None"
  by (cases repo) (auto simp: path_regex_def user_segment_def)

lemma path_regex_before:
  "prefix ''/'' repo \<Longrightarrow> CHR ''/'' \<notin> set u \<Longrightarrow> k < length u \<Longrightarrow> path_regex repo (drop k (u @ s)) = None"
  using path_regex_slash [of repo "u ! k" "drop (Suc k) (u @ s)"]
  by (metis Cons_nth_drop_Suc length_append nth_append nth_mem trans_less_add1)

lemma user_segment_at:
  "CHR ''/'' \<notin> set user \<Longrightarrow> user \<noteq> [] \<Longrightarrow>
   user_segment base (base @ user @ CHR ''/'' # rest) = Some (length base + length user + 1)"
proof -
  assume u: "CHR ''/'' \<notin> set user" "user \<noteq> []"
  have "takeWhile (\<lambda>c. c \<noteq> CHR ''/'') (user @ CHR ''/'' # rest) = user"
    using u(1) by (induction user) auto
  with u show ?thesis by (simp add: user_segment_def Let_def)
qed

lemma scrub_at:
  assumes "prefix ''/'' repo" and "CHR ''/'' \<notin> set u"
    and "path_regex repo s = Some n" and "0 < n" and "s \<noteq> []"
  shows "scrub_string (path_regex repo) (u @ s) =
    (u @ fst (scrub_string (path_regex repo) (drop n s)),
     Suc (snd (scrub_string (path_regex repo) (drop n s))))"
  using scrub_prefix [of u "path_regex repo" s] path_regex_before [OF assms(1,2)] scrub_cut [of "path_regex repo" s n, OF assms(3-5)]
  by simp

section \<open>Structure\<close>

lemma scrub_container_dict: "scrub_container regex (PDict kvs) = PDict (scrub_items regex kvs)"
  by (simp add: scrub_items_def)

lemma scrub_container_map: "scrub_container regex v = map_str (\<lambda>s. fst (scrub_string regex s)) v"
  by (induction regex v rule: scrub_container.induct) (auto simp: split_beta)

lemma clean_scrub [simp]: "clean (scrub_container regex v) \<longleftrightarrow> clean v"
  by (simp add: scrub_container_map)

lemma at_path_scrub:
  "at_path (PDict (scrub_items regex items)) p u \<longleftrightarrow>
   (\<exists>x. at_path (PDict items) p x \<and> u = scrub_container regex x)"
  unfolding scrub_container_map at_path_map_str_iff [symmetric]
  by (simp only: scrub_container_dict [symmetric] scrub_container_map)

lemma scrub_path_parts:
  assumes "prefix ''/'' root" and "CHR ''/'' \<notin> set u"
  shows "fst (scrub_string (path_regex root) (u @ root @ ''/'' @ rest)) =
      u @ fst (scrub_string (path_regex root) rest)"
    and "user \<noteq> [] \<and> CHR ''/'' \<notin> set user \<and> base \<in> {''/Users/'', ''/home/''} \<and>
      \<not> prefix root (base @ user @ ''/'' @ rest) \<longrightarrow>
      fst (scrub_string (path_regex root) (u @ base @ user @ ''/'' @ rest)) =
        u @ fst (scrub_string (path_regex root) rest)"
    and "\<not> prefix root (''/root/'' @ rest) \<longrightarrow>
      fst (scrub_string (path_regex root) (u @ ''/root/'' @ rest)) = u @ fst (scrub_string (path_regex root) rest)"
    and "(snd (scrub_string (path_regex root) s) = 0 \<longleftrightarrow> quiet (path_regex root) s) \<and>
      (quiet (path_regex root) s \<longrightarrow> fst (scrub_string (path_regex root) s) = s) \<and>
      subseq (fst (scrub_string (path_regex root) s)) s"
proof -
  from assms(1) have r: "root \<noteq> []" by auto
  have "path_regex root (root @ ''/'' @ rest) = Some (Suc (length root))" by (simp add: path_regex_def)
  from scrub_at [OF assms this] r
  show "fst (scrub_string (path_regex root) (u @ root @ ''/'' @ rest)) =
      u @ fst (scrub_string (path_regex root) rest)" by simp
  show "user \<noteq> [] \<and> CHR ''/'' \<notin> set user \<and> base \<in> {''/Users/'', ''/home/''} \<and>
      \<not> prefix root (base @ user @ ''/'' @ rest) \<longrightarrow>
      fst (scrub_string (path_regex root) (u @ base @ user @ ''/'' @ rest)) =
        u @ fst (scrub_string (path_regex root) rest)"
  proof
    assume a: "user \<noteq> [] \<and> CHR ''/'' \<notin> set user \<and> base \<in> {''/Users/'', ''/home/''} \<and>
      \<not> prefix root (base @ user @ ''/'' @ rest)"
    then have "user_segment base (base @ user @ ''/'' @ rest) = Some (length base + length user + 1)"
      by (simp add: user_segment_at)
    moreover from a have "user_segment ''/Users/'' (''/home/'' @ user @ ''/'' @ rest) = None"
      by (simp add: user_segment_def)
    ultimately have "path_regex root (base @ user @ ''/'' @ rest) = Some (length base + length user + 1)"
      using a by (auto simp: path_regex_def)
    from scrub_at [OF assms this] a
    show "fst (scrub_string (path_regex root) (u @ base @ user @ ''/'' @ rest)) =
        u @ fst (scrub_string (path_regex root) rest)" by auto
  qed
  show "\<not> prefix root (''/root/'' @ rest) \<longrightarrow>
      fst (scrub_string (path_regex root) (u @ ''/root/'' @ rest)) = u @ fst (scrub_string (path_regex root) rest)"
  proof
    assume "\<not> prefix root (''/root/'' @ rest)"
    then have "path_regex root (''/root/'' @ rest) = Some 6" by (simp add: path_regex_def user_segment_def)
    from scrub_at [OF assms this]
    show "fst (scrub_string (path_regex root) (u @ ''/root/'' @ rest)) =
      u @ fst (scrub_string (path_regex root) rest)" by simp
  qed
  show "(snd (scrub_string (path_regex root) s) = 0 \<longleftrightarrow> quiet (path_regex root) s) \<and>
      (quiet (path_regex root) s \<longrightarrow> fst (scrub_string (path_regex root) s) = s) \<and>
      subseq (fst (scrub_string (path_regex root) s)) s"
    by (simp add: scrub_count scrub_quiet scrub_subseq)
qed

section \<open>Properties\<close>

text \<open>C17. The second look never fails where the first passed: on an output the coordinator's validator
  accepts, with a legal root, \<open>scrub\<close> returns, its slice is accepted again, confidence, duration and
  artifacts are kept, there is an error exactly when there was one, and the slice has the same
  paths with each value rewritten in place (keys are never touched). In general it refuses
  exactly the outputs that hold a secret-shaped key at some depth.\<close>

theorem scrub_total_on_validated:
  assumes "validate_output (po_schema_slice output) (po_confidence output) = Valid"
    and "validate_repo_root resolve repo_root = Ok repo_root"
  shows "(\<exists>out. scrub resolve output repo_root = Ok out \<and>
      validate_output (po_schema_slice out) (po_confidence out) = Valid \<and>
      po_confidence out = po_confidence output \<and> po_duration_ms out = po_duration_ms output \<and>
      po_raw_artifacts out = po_raw_artifacts output \<and> (po_errors out = [] \<longleftrightarrow> po_errors output = []) \<and>
      (\<forall>p u. at_path (PDict (po_schema_slice out)) p u \<longleftrightarrow>
        (\<exists>v. at_path (PDict (po_schema_slice output)) p v \<and> u = scrub_container (path_regex repo_root) v)))
   \<and> (\<forall>output'. (\<exists>k. scrub resolve output' repo_root = Err (SecretKeyRejected k)) \<longleftrightarrow>
        \<not> keys_ok (PDict (po_schema_slice output')))"
proof -
  let ?re = "path_regex repo_root"
  let ?items = "scrub_items ?re (po_schema_slice output)"
  let ?out = "\<lparr>po_schema_slice = ?items, po_raw_artifacts = po_raw_artifacts output,
    po_confidence = po_confidence output, po_duration_ms = po_duration_ms output,
    po_warnings = map (\<lambda>s. fst (scrub_string ?re s)) (po_warnings output),
    po_errors = map (\<lambda>s. fst (scrub_string ?re s)) (po_errors output)\<rparr>"
  have c: "clean (PDict (po_schema_slice output))"
    and conf: "po_confidence output \<in> {''high'', ''medium'', ''low''}"
    using assms(1) walk_loop_clean [of "[(PDict (po_schema_slice output), [])]"]
    by (auto simp: validate_output_def walk_and_enforce_def split: sum.splits if_splits)
  from c have "walk_pass1_keys [PDict (po_schema_slice output)] = Ok ()"
    using clean_keys_ok [OF c] by (simp only: walk_pass1_Ok list.pred_inject simp_thms)
  then have ok: "scrub resolve output repo_root = Ok ?out"
    using assms(2) by (simp add: scrub_def Let_def)
  have "clean (PDict ?items)"
    using c clean_scrub [of "path_regex repo_root" "PDict (po_schema_slice output)"]
    by (simp only: scrub_container_dict)
  then have "walk_and_enforce ?items = Ok ()"
    using walk_loop_clean [of "[(PDict ?items, [])]"] by (simp add: walk_and_enforce_def)
  then have valid: "validate_output ?items (po_confidence output) = Valid"
    using conf by (auto simp: validate_output_def)
  have paths: "at_path (PDict ?items) p u \<longleftrightarrow>
      (\<exists>v. at_path (PDict (po_schema_slice output)) p v \<and> u = scrub_container (path_regex repo_root) v)" for p u
    by (rule at_path_scrub)
  show ?thesis
    using assms(2) scrub_raises_iff [of resolve _ repo_root] ok valid paths
    by (intro conjI exI [of _ ?out]) simp_all
qed

lemma scrub_total_on_validated_witness:
  "scrub id \<lparr>po_schema_slice = [(''references_secrets'', PList [PStr ''/r/x''])], po_raw_artifacts = [],
      po_confidence = ''high'', po_duration_ms = 0, po_warnings = [], po_errors = []\<rparr> ''/r'' \<noteq>
     Err (SecretKeyRejected ''references_secrets'')"
proof -
  have "validate_output [(''references_secrets'', PList [PStr ''/r/x''])] ''high'' = Valid" by code_simp
  moreover have "validate_repo_root id ''/r'' = Ok ''/r''" by code_simp
  ultimately show ?thesis
    using scrub_total_on_validated [of "\<lparr>po_schema_slice = [(''references_secrets'', PList [PStr ''/r/x''])],
      po_raw_artifacts = [], po_confidence = ''high'', po_duration_ms = 0, po_warnings = [], po_errors = []\<rparr>" id "''/r''"]
    by auto
qed

text \<open>What the path rewriting does to a text, for a root that starts with a slash. After a text without
  slashes, a path under the root becomes relative to it; a path under \<open>/Users\<close> or \<open>/home\<close> that
  is not under the root loses its user segment, and one under \<open>/root\<close> that prefix; the rest is
  rewritten in turn. The count is zero exactly when nothing matches anywhere, and then the text is
  unchanged; the result is always a subsequence of the text, so nothing is ever added to it.\<close>

theorem scrub_paths:
  assumes "prefix ''/'' root" and "CHR ''/'' \<notin> set u"
  shows "fst (scrub_string (path_regex root) (u @ root @ ''/'' @ rest)) =
      u @ fst (scrub_string (path_regex root) rest) \<and>
    (user \<noteq> [] \<and> CHR ''/'' \<notin> set user \<and> base \<in> {''/Users/'', ''/home/''} \<and>
      \<not> prefix root (base @ user @ ''/'' @ rest) \<longrightarrow>
      fst (scrub_string (path_regex root) (u @ base @ user @ ''/'' @ rest)) =
        u @ fst (scrub_string (path_regex root) rest)) \<and>
    (\<not> prefix root (''/root/'' @ rest) \<longrightarrow>
      fst (scrub_string (path_regex root) (u @ ''/root/'' @ rest)) = u @ fst (scrub_string (path_regex root) rest)) \<and>
    (snd (scrub_string (path_regex root) s) = 0 \<longleftrightarrow> quiet (path_regex root) s) \<and>
    (quiet (path_regex root) s \<longrightarrow> fst (scrub_string (path_regex root) s) = s) \<and>
    subseq (fst (scrub_string (path_regex root) s)) s"
  using scrub_path_parts(4) [OF assms, of s]
  by (intro conjI scrub_path_parts(1-3) [OF assms]) simp_all

lemma scrub_paths_witness:
  "fst (scrub_string (path_regex ''/home/a/repo'') (''at '' @ ''/home/a/repo'' @ ''/'' @ ''x.py'')) =
     ''at '' @ fst (scrub_string (path_regex ''/home/a/repo'') ''x.py'')"
  using scrub_paths [of "''/home/a/repo''" "''at ''"] by simp

text \<open>The pattern has no boundary after the root: a sibling directory whose name starts with the
  root's is cut too, and what is left is not a path relative to anything.\<close>

lemma sibling_prefix_mangled:
  "fst (scrub_string (path_regex ''/w/app'') ''/w/app-old/x'') = ''-old/x''"
  by code_simp

text \<open>One pass can leave a path of the kind it removes, put together from the pieces.\<close>

lemma scrub_not_idempotent:
  "fst (scrub_string (path_regex ''/w'') ''/ho/root/me/u/x'') \<noteq>
   fst (scrub_string (path_regex ''/w'') (fst (scrub_string (path_regex ''/w'') ''/ho/root/me/u/x'')))"
  by code_simp

end
