(* ===== verification/Hashing.thy ===== *)
theory Hashing
  imports Prelude "HOL-Library.Multiset"
begin

text \<open>
  \<open>src/src/codegenie/hashing.py\<close>: what each helper feeds to BLAKE3 or SHA-256, the two digests
  being arguments (\<open>blake3\<close>, \<open>sha256\<close>: bytes to hex). A string stands for its UTF-8 bytes. The
  lemmas show when two inputs are fed as the same bytes, and that the streaming readers hash
  exactly the span they are asked for.
\<close>

section \<open>Definitions\<close>

definition unit_sep :: char where "unit_sep = CHR 0x1F"
definition record_sep :: char where "record_sep = CHR 0x1E"
definition hash_chunk_bytes :: nat where "hash_chunk_bytes = 65536"

definition identity_payload :: "string list \<Rightarrow> string" where
  "identity_payload parts = char_of (min (length parts) 255) # py_join [unit_sep] parts"

definition identity_hash :: "(string \<Rightarrow> string) \<Rightarrow> string list \<Rightarrow> string" where
  "identity_hash sha256 parts = ''sha256:'' @ sha256 (identity_payload parts)"

definition identity_hash_bytes :: "(string \<Rightarrow> string) \<Rightarrow> string \<Rightarrow> string" where
  "identity_hash_bytes sha256 b = ''sha256:'' @ sha256 b"

definition blake3_tagged :: "(string \<Rightarrow> string) \<Rightarrow> string \<Rightarrow> string" where
  "blake3_tagged blake3 b = ''blake3:'' @ blake3 b"

text \<open>\<open>hasher.update\<close> appends to what has been fed; \<open>first\<close> is the loop's flag.\<close>

fun tree_feed :: "bool \<Rightarrow> string \<Rightarrow> (string \<times> string) list \<Rightarrow> string" where
  "tree_feed first fed [] = fed"
| "tree_feed first fed ((relpath, body) # pairs) =
     (let fed1 = (if first then fed else fed @ [record_sep]);
          fed2 = fed1 @ relpath @ [unit_sep] @ nat_str (length body) @ [unit_sep]
      in tree_feed False (fed2 @ body) pairs)"

definition tree_digest_of_files :: "(string \<Rightarrow> string) \<Rightarrow> (string \<times> string) list \<Rightarrow> string" where
  "tree_digest_of_files sha256 pairs = sha256 (tree_feed True [] pairs)"

datatype hash_error = FileNotFound string | ShortRead nat nat nat

text \<open>\<open>stat\<close> gives the size of a file that exists.\<close>

fun stat_all :: "(string \<Rightarrow> nat option) \<Rightarrow> string list \<Rightarrow> hash_error + (string \<times> nat) list" where
  "stat_all stat [] = Ok []"
| "stat_all stat (p # ps) =
     (case stat p of
        None \<Rightarrow> Err (FileNotFound p)
      | Some n \<Rightarrow> rbind (stat_all stat ps) (\<lambda>rest. Ok ((p, n) # rest)))"

definition manifest_payload :: "(string \<times> nat) list \<Rightarrow> string" where
  "manifest_payload manifest = py_join [record_sep] (map (\<lambda>(p, n). p @ [unit_sep] @ nat_str n) manifest)"

definition content_hash_of_inputs ::
  "(string \<Rightarrow> string) \<Rightarrow> (string \<Rightarrow> nat option) \<Rightarrow> string list \<Rightarrow> hash_error + string" where
  "content_hash_of_inputs blake3 stat paths =
     rbind (stat_all stat paths) (\<lambda>pairs. Ok (''blake3:'' @ blake3 (manifest_payload (sort pairs))))"

text \<open>The readers of a file: \<open>read(n)\<close> returns at most \<open>n\<close> bytes of what is left, and the empty
  bytes at the end. \<open>fed\<close> is what the hasher has been given.\<close>

function feed_to_eof :: "string \<Rightarrow> string \<Rightarrow> string" where
  "feed_to_eof fed rest =
     (let chunk = take hash_chunk_bytes rest in
      if chunk = [] then fed else feed_to_eof (fed @ chunk) (drop hash_chunk_bytes rest))"
  by pat_completeness auto
termination
  by (relation "measure (\<lambda>(fed, rest). length rest)") (auto simp: hash_chunk_bytes_def)

declare feed_to_eof.simps [simp del]

function feed_exactly :: "string \<Rightarrow> string \<Rightarrow> nat \<Rightarrow> nat + string" where
  "feed_exactly fed rest remaining =
     (if remaining = 0 then Inr fed
      else
        let chunk = take (min hash_chunk_bytes remaining) rest in
        if chunk = [] then Inl remaining
        else feed_exactly (fed @ chunk) (drop (min hash_chunk_bytes remaining) rest)
               (remaining - length chunk))"
  by pat_completeness auto
termination
  by (relation "measure (\<lambda>(fed, rest, remaining). remaining)")
     (auto simp: hash_chunk_bytes_def min_def split: if_splits)

declare feed_exactly.simps [simp del]

definition content_hash :: "(string \<Rightarrow> string) \<Rightarrow> string \<Rightarrow> string" where
  "content_hash blake3 file = ''blake3:'' @ blake3 (feed_to_eof [] file)"

definition content_hash_fd ::
  "(string \<Rightarrow> string) \<Rightarrow> string \<Rightarrow> nat \<Rightarrow> nat option \<Rightarrow> hash_error + string" where
  "content_hash_fd blake3 file offset nbytes =
     (let rest = drop offset file in
      case nbytes of
        None \<Rightarrow> Ok (''blake3:'' @ blake3 (feed_to_eof [] rest))
      | Some n \<Rightarrow>
          (case feed_exactly [] rest n of
             Inl remaining \<Rightarrow> Err (ShortRead n offset (n - remaining))
           | Inr fed \<Rightarrow> Ok (''blake3:'' @ blake3 fed)))"

section \<open>Decimal numbers are delimited by the separators\<close>

definition digit_value :: "char \<Rightarrow> nat" where
  "digit_value c = of_char c - 48"

lemma digit_value_char [simp]: "d < 10 \<Longrightarrow> digit_value (digit_char d) = d"
  by (simp add: digit_value_def digit_char_def)

lemma nat_str_value: "foldl (\<lambda>a c. 10 * a + digit_value c) 0 (nat_str n) = n"
proof (induction n rule: nat_str.induct)
  case (1 n)
  show ?case
  proof (cases "n < 10")
    case True
    then show ?thesis by (subst nat_str.simps) simp
  next
    case False
    with 1 show ?thesis by (subst nat_str.simps) simp
  qed
qed

lemma nat_str_inject [simp]: "nat_str m = nat_str n \<longleftrightarrow> m = n"
  by (metis nat_str_value)

lemma nat_str_digits: "c \<in> set (nat_str n) \<Longrightarrow> \<exists>d < 10. c = digit_char d"
proof (induction n rule: nat_str.induct)
  case (1 n)
  show ?case
  proof (cases "n < 10")
    case True
    then have "set (nat_str n) = {digit_char n}" by (subst nat_str.simps) simp
    with "1.prems" True show ?thesis by blast
  next
    case False
    then have "set (nat_str n) = insert (digit_char (n mod 10)) (set (nat_str (n div 10)))"
      by (subst nat_str.simps) simp
    with "1.prems" have "c \<in> set (nat_str (n div 10)) \<or> c = digit_char (n mod 10)" by blast
    then show ?thesis
    proof
      assume "c \<in> set (nat_str (n div 10))"
      with "1.IH" False show ?thesis by simp
    next
      assume "c = digit_char (n mod 10)"
      then show ?thesis by (intro exI [of _ "n mod 10"]) simp
    qed
  qed
qed

lemma digit_char_not_sep:
  "d < 10 \<Longrightarrow> digit_char d \<noteq> unit_sep" "d < 10 \<Longrightarrow> digit_char d \<noteq> record_sep"
proof -
  have c: "of_char (digit_char d) = 48 + d" if "d < 10" for d
    using that by (simp add: digit_char_def)
  have u: "of_char unit_sep = (31 :: nat)" "of_char record_sep = (30 :: nat)"
    by (simp_all add: unit_sep_def record_sep_def)
  show "d < 10 \<Longrightarrow> digit_char d \<noteq> unit_sep" "d < 10 \<Longrightarrow> digit_char d \<noteq> record_sep"
    using c [of d] u by auto
qed

lemma nat_str_no_sep: "unit_sep \<notin> set (nat_str n)" "record_sep \<notin> set (nat_str n)"
proof -
  have "c \<noteq> unit_sep \<and> c \<noteq> record_sep" if "c \<in> set (nat_str n)" for c
    using nat_str_digits [OF that] digit_char_not_sep by metis
  then show "unit_sep \<notin> set (nat_str n)" and "record_sep \<notin> set (nat_str n)" by blast+
qed

lemma seps_differ [simp]: "unit_sep \<noteq> record_sep" "record_sep \<noteq> unit_sep"
  by (simp_all add: unit_sep_def record_sep_def)

text \<open>The text before the first separator is determined.\<close>

lemma split_first_sep:
  "a @ x # r = b @ x # t \<Longrightarrow> x \<notin> set a \<Longrightarrow> x \<notin> set b \<Longrightarrow> a = b \<and> r = t"
proof (induction a arbitrary: b)
  case Nil
  then show ?case by (cases b) auto
next
  case (Cons y a)
  then show ?case by (cases b) auto
qed

section \<open>What a record list determines\<close>

definition tree_record :: "string \<times> string \<Rightarrow> string" where
  "tree_record r = fst r @ [unit_sep] @ nat_str (length (snd r)) @ [unit_sep] @ snd r"

definition sep_free :: "string \<Rightarrow> bool" where
  "sep_free s \<longleftrightarrow> unit_sep \<notin> set s"

lemma tree_feed_False:
  "tree_feed False fed pairs = fed @ concat (map (\<lambda>r. record_sep # tree_record r) pairs)"
  by (induction pairs arbitrary: fed) (auto simp: tree_record_def Let_def)

lemma tree_feed_True:
  "tree_feed True [] pairs =
     (case pairs of [] \<Rightarrow> [] | r # rs \<Rightarrow> tree_record r @ concat (map (\<lambda>r. record_sep # tree_record r) rs))"
  by (cases pairs) (auto simp: tree_feed_False tree_record_def Let_def)

lemma tree_record_cancel:
  assumes "tree_record r @ u = tree_record r' @ v" and "sep_free (fst r)" and "sep_free (fst r')"
  shows "r = r' \<and> u = v"
proof -
  have "fst r @ unit_sep # nat_str (length (snd r)) @ unit_sep # snd r @ u =
        fst r' @ unit_sep # nat_str (length (snd r')) @ unit_sep # snd r' @ v"
    using assms(1) by (simp add: tree_record_def)
  from split_first_sep [OF this] have p: "fst r = fst r'"
    and q: "nat_str (length (snd r)) @ unit_sep # snd r @ u = nat_str (length (snd r')) @ unit_sep # snd r' @ v"
    using assms(2,3) by (simp_all add: sep_free_def)
  then have n: "length (snd r) = length (snd r')" and b: "snd r @ u = snd r' @ v"
    using split_first_sep [OF q nat_str_no_sep(1) nat_str_no_sep(1)] by simp_all
  from n b have "snd r = snd r'" "u = v" by simp_all
  with p show ?thesis by (simp add: prod_eq_iff)
qed

lemma records_cancel:
  "concat (map (\<lambda>r. record_sep # tree_record r) rs) = concat (map (\<lambda>r. record_sep # tree_record r) rs')
   \<Longrightarrow> list_all (\<lambda>r. sep_free (fst r)) rs \<Longrightarrow> list_all (\<lambda>r. sep_free (fst r)) rs' \<Longrightarrow> rs = rs'"
proof (induction rs arbitrary: rs')
  case Nil
  then show ?case by (cases rs') auto
next
  case (Cons r rs)
  then obtain r' rt where rs': "rs' = r' # rt" by (cases rs') auto
  with Cons.prems have "r = r' \<and> concat (map (\<lambda>r. record_sep # tree_record r) rs) =
      concat (map (\<lambda>r. record_sep # tree_record r) rt)"
    by (intro tree_record_cancel) simp_all
  with Cons rs' show ?case by simp
qed

lemma tree_record_not_Nil [simp]: "tree_record r \<noteq> []"
  by (simp add: tree_record_def)

lemma tree_feed_inject:
  assumes "tree_feed True [] ps = tree_feed True [] qs"
    and "list_all (\<lambda>r. sep_free (fst r)) ps" and "list_all (\<lambda>r. sep_free (fst r)) qs"
  shows "ps = qs"
proof (cases ps)
  case Nil
  with assms(1) show ?thesis by (cases qs) (simp_all add: tree_feed_True)
next
  case (Cons p ps')
  with assms(1) obtain q qs' where qs: "qs = q # qs'" by (cases qs) (simp_all add: tree_feed_True)
  with Cons assms have "p = q \<and> concat (map (\<lambda>r. record_sep # tree_record r) ps') =
      concat (map (\<lambda>r. record_sep # tree_record r) qs')"
    by (intro tree_record_cancel) (simp_all add: tree_feed_True)
  with records_cancel [of ps' qs'] Cons qs assms(2,3) show ?thesis by simp
qed

section \<open>Joined parts\<close>

lemma join_inject:
  "py_join [x] ps = py_join [x] qs \<Longrightarrow> length ps = length qs \<Longrightarrow>
   list_all (\<lambda>p. x \<notin> set p) ps \<Longrightarrow> list_all (\<lambda>p. x \<notin> set p) qs \<Longrightarrow> ps = qs"
proof (induction "[x]" ps arbitrary: qs rule: py_join.induct)
  case 1
  then show ?case by simp
next
  case (2 p)
  then obtain q where "qs = [q]" by (cases qs) auto
  with 2 show ?case by simp
next
  case (3 p p' ps)
  then obtain q q' qs' where qs: "qs = q # q' # qs'"
    by (metis length_Suc_conv)
  with "3.prems" have "p @ x # py_join [x] (p' # ps) = q @ x # py_join [x] (q' # qs')" by simp
  from split_first_sep [OF this] have "p = q \<and> py_join [x] (p' # ps) = py_join [x] (q' # qs')"
    using "3.prems" qs by simp
  with "3.hyps" [of "q' # qs'"] "3.prems" qs show ?case by simp
qed

lemma identity_payload_inject:
  assumes "identity_payload ps = identity_payload qs"
    and "list_all sep_free ps" and "list_all sep_free qs" and "length ps < 255" and "length qs < 255"
  shows "ps = qs"
proof -
  from assms(1) have c: "(char_of (min (length ps) 255) :: char) = char_of (min (length qs) 255)"
    and j: "py_join [unit_sep] ps = py_join [unit_sep] qs"
    by (simp_all add: identity_payload_def)
  from c have "of_char (char_of (length ps) :: char) = (of_char (char_of (length qs) :: char) :: nat)"
    using assms(4,5) by (simp add: min_def)
  with assms(4,5) have "length ps = length qs" by (simp add: of_char_of)
  with j assms(2,3) show ?thesis by (intro join_inject) (simp_all add: sep_free_def [abs_def])
qed

text \<open>The separator inside a part breaks the uniqueness the docstring claims.\<close>

lemma identity_hash_boundary_shift:
  "identity_hash sha256 [''a'' @ [unit_sep] @ ''b'', ''c''] = identity_hash sha256 [''a'', ''b'' @ [unit_sep] @ ''c'']"
  by (simp add: identity_hash_def identity_payload_def)

section \<open>The readers hash the span\<close>

lemma feed_to_eof_all: "feed_to_eof fed rest = fed @ rest"
proof (induction fed rest rule: feed_to_eof.induct)
  case (1 fed rest)
  show ?case
  proof (cases "rest = []")
    case False
    then have n: "take hash_chunk_bytes rest \<noteq> []" by (simp add: hash_chunk_bytes_def)
    have "feed_to_eof fed rest = feed_to_eof (fed @ take hash_chunk_bytes rest) (drop hash_chunk_bytes rest)"
      by (subst feed_to_eof.simps) (simp only: Let_def n if_False)
    also have "\<dots> = (fed @ take hash_chunk_bytes rest) @ drop hash_chunk_bytes rest"
      by (rule 1 [OF refl n])
    finally show ?thesis by simp
  next
    case True
    then show ?thesis by (subst feed_to_eof.simps) simp
  qed
qed

lemma feed_exactly_span:
  "feed_exactly fed rest n =
     (if n \<le> length rest then Inr (fed @ take n rest) else Inl (n - length rest))"
proof (induction fed rest n rule: feed_exactly.induct)
  case (1 fed rest n)
  let ?m = "min hash_chunk_bytes n"
  show ?case
  proof (cases "n = 0 \<or> rest = []")
    case True
    then show ?thesis by (subst feed_exactly.simps) (auto simp: Let_def)
  next
    case False
    then have n: "take ?m rest \<noteq> []" and n0: "n \<noteq> 0" by (auto simp: hash_chunk_bytes_def)
    have "feed_exactly fed rest n =
        feed_exactly (fed @ take ?m rest) (drop ?m rest) (n - length (take ?m rest))"
      by (subst feed_exactly.simps) (simp only: Let_def n n0 if_False)
    also have "\<dots> = (if n - length (take ?m rest) \<le> length (drop ?m rest)
        then Inr ((fed @ take ?m rest) @ take (n - length (take ?m rest)) (drop ?m rest))
        else Inl (n - length (take ?m rest) - length (drop ?m rest)))"
      by (rule 1 [OF n0 refl n])
    also have "\<dots> = (if n \<le> length rest then Inr (fed @ take n rest) else Inl (n - length rest))"
      using take_add [of ?m "n - ?m" rest] by (cases "hash_chunk_bytes \<le> n"; cases "?m \<le> length rest") (auto simp: min_def)
    finally show ?thesis .
  qed
qed

section \<open>Manifests\<close>

lemma manifest_record_clean:
  "record_sep \<notin> set p \<Longrightarrow> record_sep \<notin> set (p @ [unit_sep] @ nat_str n)"
  by (simp add: nat_str_no_sep)

lemma record_inject:
  "p @ [unit_sep] @ nat_str m = q @ [unit_sep] @ nat_str n \<Longrightarrow> sep_free p \<Longrightarrow> sep_free q \<Longrightarrow> p = q \<and> m = n"
  using split_first_sep [of p unit_sep "nat_str m" q "nat_str n"] by (simp add: sep_free_def)

lemma join_count: "length (filter (\<lambda>c. c = x) (py_join [x] ps)) =
    (\<Sum>p\<leftarrow>ps. length (filter (\<lambda>c. c = x) p)) + (length ps - 1)"
  by (induction "[x]" ps rule: py_join.induct) auto

lemma manifest_inject:
  assumes eq: "manifest_payload ps = manifest_payload qs"
    and ps: "list_all (\<lambda>p. sep_free (fst p) \<and> record_sep \<notin> set (fst p)) ps"
    and qs: "list_all (\<lambda>p. sep_free (fst p) \<and> record_sep \<notin> set (fst p)) qs"
  shows "ps = qs"
proof -
  let ?f = "\<lambda>(p, n). p @ [unit_sep] @ nat_str n"
  have sep_free: "list_all (\<lambda>p. record_sep \<notin> set p) (map ?f xs)"
    if "list_all (\<lambda>p. sep_free (fst p) \<and> record_sep \<notin> set (fst p)) xs" for xs
    using that by (induction xs) (auto simp: nat_str_no_sep)
  have one: "length (filter (\<lambda>c. c = unit_sep) (py_join [record_sep] (map ?f xs))) = length xs"
    if "list_all (\<lambda>p. sep_free (fst p) \<and> record_sep \<notin> set (fst p)) xs" for xs
  proof -
    have z: "filter (\<lambda>c. c = unit_sep) s = []" if "unit_sep \<notin> set s" for s
      using that by (induction s) auto
    have "list_all (\<lambda>s. length (filter (\<lambda>c. c = unit_sep) s) = 1) (map ?f xs)"
      using that by (induction xs) (auto simp: z nat_str_no_sep sep_free_def)
    moreover have "length (filter (\<lambda>c. c = unit_sep) (py_join [record_sep] ss)) = length ss"
      if "list_all (\<lambda>s. length (filter (\<lambda>c. c = unit_sep) s) = 1) ss" for ss
      using that by (induction "[record_sep]" ss rule: py_join.induct) auto
    ultimately have "length (filter (\<lambda>c. c = unit_sep) (py_join [record_sep] (map ?f xs))) =
      length (map ?f xs)" by blast
    then show ?thesis by simp
  qed
  have n: "length ps = length qs" using one [OF ps] one [OF qs] eq by (simp add: manifest_payload_def)
  have "map ?f ps = map ?f qs"
    using eq n sep_free [OF ps] sep_free [OF qs] by (intro join_inject) (simp_all add: manifest_payload_def)
  from n this ps qs show ?thesis
  proof (induction ps qs rule: list_induct2)
    case (Cons p ps q qs)
    then show ?case using record_inject [of "fst p" "snd p" "fst q" "snd q"]
      by (simp add: split_beta prod_eq_iff)
  qed simp
qed

lemma stat_all_Ok:
  "stat_all stat ps = Ok pairs \<longleftrightarrow> pairs = map (\<lambda>p. (p, the (stat p))) ps \<and> list_all (\<lambda>p. stat p \<noteq> None) ps"
  by (induction ps arbitrary: pairs) (auto simp: rbind_Ok_iff split: option.splits)

lemma mset_sort_eq: "mset ms = mset ns \<Longrightarrow> sort ms = sort ns"
  by (metis properties_for_sort mset_sort sorted_sort)

lemma list_all_sort: "list_all P xs \<Longrightarrow> list_all P (sort xs)"
  by (simp add: list_all_iff)

section \<open>Properties\<close>

text \<open>The plugin-tree digest: two trees with the same digest are the same tree (same paths, same
  bytes, same order), or the two byte strings fed to SHA-256 are a collision of it; so the
  serialisation itself never confuses two trees, whatever the file contents, as long as the
  separator is not in a path.\<close>

theorem tree_digest_separates:
  assumes "tree_digest_of_files sha256 ps = tree_digest_of_files sha256 qs"
    and "list_all (\<lambda>r. sep_free (fst r)) ps" and "list_all (\<lambda>r. sep_free (fst r)) qs"
  shows "ps = qs \<or> (tree_feed True [] ps \<noteq> tree_feed True [] qs \<and>
    sha256 (tree_feed True [] ps) = sha256 (tree_feed True [] qs))"
  using assms tree_feed_inject by (auto simp: tree_digest_of_files_def)

lemma tree_digest_separates_witness:
  "[(''a'', ''x'')] = [(''a'', ''x'')] \<or>
    (tree_feed True [] [(''a'', ''x'')] \<noteq> tree_feed True [] [(''a'', ''x'')] \<and>
     id (tree_feed True [] [(''a'', ''x'')]) = id (tree_feed True [] [(''a'', ''x'')]))"
  by (rule tree_digest_separates [of id "[(''a'', ''x'')]" "[(''a'', ''x'')]"])
     (simp_all add: sep_free_def unit_sep_def)

text \<open>The cache-key identity: for fewer than 255 parts without the separator character, equal
  identity hashes mean equal parts or a SHA-256 collision; moving a boundary between parts, or
  adding an empty part, changes what is hashed.\<close>

theorem identity_hash_separates:
  assumes "identity_hash sha256 ps = identity_hash sha256 qs"
    and "list_all sep_free ps" and "list_all sep_free qs" and "length ps < 255" and "length qs < 255"
  shows "ps = qs \<or> (identity_payload ps \<noteq> identity_payload qs \<and>
    sha256 (identity_payload ps) = sha256 (identity_payload qs))"
  using assms identity_payload_inject by (auto simp: identity_hash_def)

lemma identity_hash_separates_witness:
  "[''ab'', ''c''] = [''a'', ''bc''] \<or>
    (identity_payload [''ab'', ''c''] \<noteq> identity_payload [''a'', ''bc''] \<and>
     (\<lambda>_. ''0'') (identity_payload [''ab'', ''c'']) = (\<lambda>_. ''0'') (identity_payload [''a'', ''bc'']))"
  by (rule identity_hash_separates [of "\<lambda>_. ''0''" "[''ab'', ''c'']" "[''a'', ''bc'']"])
     (simp_all add: identity_hash_def sep_free_def unit_sep_def)

text \<open>The streaming readers: \<open>content_hash\<close> is the hash of the whole file, \<open>content_hash_fd\<close> the
  hash of exactly the bytes of the span (to the end of the file without a size), and the error is
  raised exactly when the file ends before the span does, with the number of bytes that were
  there; a span past the end with size 0 is not an error.\<close>

theorem content_hash_fd_exact:
  "content_hash blake3 file = blake3_tagged blake3 file \<and>
   content_hash_fd blake3 file offset nbytes =
     (case nbytes of
        None \<Rightarrow> Ok (blake3_tagged blake3 (drop offset file))
      | Some n \<Rightarrow>
          if n \<le> length file - offset then Ok (blake3_tagged blake3 (take n (drop offset file)))
          else Err (ShortRead n offset (length file - offset)))"
  by (cases nbytes) (simp_all add: content_hash_def content_hash_fd_def blake3_tagged_def
        feed_to_eof_all feed_exactly_span)

text \<open>The fingerprint of a probe's inputs is a function of the multiset of (path, size) pairs and of
  nothing else: the order in which the paths come does not matter, a file changed without
  changing its size does not show, and different multisets give different fingerprints up to a
  BLAKE3 collision, when no path has a separator character.\<close>

theorem inputs_hash_is_manifest:
  assumes "stat_all stat ps = Ok ms" and "stat_all stat' qs = Ok ns"
    and "list_all (\<lambda>p. sep_free (fst p) \<and> record_sep \<notin> set (fst p)) ms"
    and "list_all (\<lambda>p. sep_free (fst p) \<and> record_sep \<notin> set (fst p)) ns"
  shows "(mset ms = mset ns \<longrightarrow> content_hash_of_inputs blake3 stat ps = content_hash_of_inputs blake3 stat' qs) \<and>
    (content_hash_of_inputs blake3 stat ps = content_hash_of_inputs blake3 stat' qs \<longrightarrow>
      mset ms = mset ns \<or>
      (manifest_payload (sort ms) \<noteq> manifest_payload (sort ns) \<and>
       blake3 (manifest_payload (sort ms)) = blake3 (manifest_payload (sort ns))))"
proof -
  have h: "content_hash_of_inputs blake3 stat ps = content_hash_of_inputs blake3 stat' qs \<longleftrightarrow>
      blake3 (manifest_payload (sort ms)) = blake3 (manifest_payload (sort ns))"
    using assms(1,2) by (simp add: content_hash_of_inputs_def)
  have "mset ms = mset ns" if "manifest_payload (sort ms) = manifest_payload (sort ns)"
    using manifest_inject [OF that list_all_sort [OF assms(3)] list_all_sort [OF assms(4)]]
    by (metis mset_sort)
  with h mset_sort_eq [of ms ns] show ?thesis by auto
qed

lemma inputs_hash_is_manifest_witness:
  "content_hash_of_inputs id (\<lambda>_. Some 3) [''b'', ''a''] = content_hash_of_inputs id (\<lambda>_. Some 3) [''a'', ''b'']"
  using inputs_hash_is_manifest [of "\<lambda>_. Some 3" "[''b'', ''a'']" "[(''b'', 3), (''a'', 3)]"
      "\<lambda>_. Some 3" "[''a'', ''b'']" "[(''a'', 3), (''b'', 3)]" id]
  by (simp add: sep_free_def unit_sep_def record_sep_def add_mset_commute)

end
