(* ===== verification/Cache_Keys.thy ===== *)
theory Cache_Keys
  imports Probe_Base Json Hashing
begin

text \<open>
  The derivation of cache keys, \<open>src/src/codegenie/cache/keys.py\<close>. The file system (the schema files,
  \<open>rglob\<close>, \<open>exists\<close>, \<open>stat\<close>), \<open>json.loads\<close>, \<open>str\<close> of a JSON value and the two digests are arguments.
\<close>

section \<open>Arguments\<close>

record probe_like =
  pl_name :: string
  pl_version :: string
  pl_declared_inputs :: "string list"

record key_env =
  ke_schema_file :: "string \<Rightarrow> string option"
  ke_loads :: "string \<Rightarrow> json option"
  ke_str :: "json \<Rightarrow> string"
  ke_rglob :: "string \<Rightarrow> string \<Rightarrow> string list"
  ke_exists :: "string \<Rightarrow> bool"
  ke_size :: "string \<Rightarrow> nat option"
  ke_blake3 :: "string \<Rightarrow> string"
  ke_sha256 :: "string \<Rightarrow> string"

text \<open>The part of a probe context the key looks at: the image digest resolver, if bound. Its answer is
  \<open>Err\<close> where it raises.\<close>

type_synonym digest_resolver = "string \<Rightarrow> unit + string option"

datatype key_error = UnknownSpecialToken string | SchemaMissing string | SchemaNotJson
  | SchemaKeyError | SchemaTypeError | InputVanished string

section \<open>Schema versions\<close>

definition envelope_schema_path :: string where
  "envelope_schema_path = ''repo_context.schema.json''"

definition probe_schema_path :: "string \<Rightarrow> string" where
  "probe_schema_path probe_name = ''probes/'' @ probe_name @ ''.schema.json''"

definition schema_id :: "key_env \<Rightarrow> string \<Rightarrow> key_error + string" where
  "schema_id env text =
     (case ke_loads env text of
        None \<Rightarrow> Err SchemaNotJson
      | Some (JObj data) \<Rightarrow>
          (case map_of data ''$id'' of
             None \<Rightarrow> Err SchemaKeyError
           | Some (JStr s) \<Rightarrow> Ok s
           | Some j \<Rightarrow> Ok (ke_str env j))
      | Some _ \<Rightarrow> Err SchemaTypeError)"

definition envelope_schema_version :: "key_env \<Rightarrow> key_error + string" where
  "envelope_schema_version env =
     (case ke_schema_file env envelope_schema_path of
        None \<Rightarrow> Err (SchemaMissing envelope_schema_path)
      | Some text \<Rightarrow> schema_id env text)"

definition per_probe_schema_version :: "key_env \<Rightarrow> 'a probe_like_scheme \<Rightarrow> key_error + string" where
  "per_probe_schema_version env probe =
     (case ke_schema_file env (probe_schema_path (pl_name probe)) of
        None \<Rightarrow> envelope_schema_version env
      | Some text \<Rightarrow> schema_id env text)"

section \<open>Special tokens\<close>

definition output_namespace :: string where "output_namespace = ''.codegenie''"
definition unresolved_sentinel :: string where "unresolved_sentinel = []"
definition token_suffix :: string where "token_suffix = '':<resolved>''"

definition token_char :: "char \<Rightarrow> bool" where
  "token_char c = (let n = of_char c :: nat in 97 \<le> n \<and> n \<le> 122 \<or> 48 \<le> n \<and> n \<le> 57 \<or> c = CHR ''_'' \<or> c = CHR ''-'')"

text \<open>The token's name, when the whole pattern is \<open><name>:<resolved>\<close>.\<close>

definition special_token :: "string \<Rightarrow> string option" where
  "special_token pattern =
     (let name = take (length pattern - length token_suffix) pattern in
      if suffix token_suffix pattern \<and> name \<noteq> [] \<and> list_all token_char name then Some name else None)"

definition is_special_token :: "string \<Rightarrow> bool" where
  "is_special_token pattern \<longleftrightarrow> special_token pattern \<noteq> None"

definition resolve_special_token ::
  "string \<Rightarrow> repo_snapshot \<Rightarrow> digest_resolver option option \<Rightarrow> key_error + string" where
  "resolve_special_token token snapshot ctx =
     (if special_token token = Some ''image-digest''
      then (case ctx of
              None \<Rightarrow> Ok unresolved_sentinel
            | Some None \<Rightarrow> Ok unresolved_sentinel
            | Some (Some resolver) \<Rightarrow>
                (case resolver (rs_root snapshot) of
                   Inl _ \<Rightarrow> Ok unresolved_sentinel
                 | Inr None \<Rightarrow> Ok unresolved_sentinel
                 | Inr (Some resolved) \<Rightarrow> Ok resolved))
      else Err (UnknownSpecialToken token))"

section \<open>Inputs\<close>

text \<open>\<open>match.relative_to(root).parts\<close>, or nothing where it raises.\<close>

definition relative_parts :: "string \<Rightarrow> string \<Rightarrow> string list option" where
  "relative_parts root p =
     (if p = root then Some []
      else if prefix (root @ ''/'') p then Some (py_split ''/'' (drop (length root + 1) p))
      else None)"

fun keep_matches :: "key_env \<Rightarrow> string \<Rightarrow> string list \<Rightarrow> string list \<Rightarrow> string list" where
  "keep_matches env root [] seen = seen"
| "keep_matches env root (m # ms) seen =
     (if \<not> ke_exists env m then keep_matches env root ms seen
      else case relative_parts root m of
        None \<Rightarrow> keep_matches env root ms seen
      | Some parts \<Rightarrow>
          if parts \<noteq> [] \<and> parts ! 0 = output_namespace then keep_matches env root ms seen
          else keep_matches env root ms (if m \<in> set seen then seen else seen @ [m]))"

fun collect_inputs :: "key_env \<Rightarrow> string \<Rightarrow> string list \<Rightarrow> string list \<Rightarrow> string list" where
  "collect_inputs env root [] seen = seen"
| "collect_inputs env root (pattern # ps) seen =
     (if is_special_token pattern then collect_inputs env root ps seen
      else collect_inputs env root ps (keep_matches env root (ke_rglob env root pattern) seen))"

definition declared_inputs_for :: "key_env \<Rightarrow> 'a probe_like_scheme \<Rightarrow> repo_snapshot \<Rightarrow> string list" where
  "declared_inputs_for env probe snapshot =
     sort (collect_inputs env (rs_root snapshot) (pl_declared_inputs probe) [])"

fun special_token_values ::
  "string list \<Rightarrow> repo_snapshot \<Rightarrow> digest_resolver option option \<Rightarrow> key_error + string list" where
  "special_token_values [] snapshot ctx = Ok []"
| "special_token_values (pattern # ps) snapshot ctx =
     (if is_special_token pattern
      then rbind (resolve_special_token pattern snapshot ctx) (\<lambda>v.
             rbind (special_token_values ps snapshot ctx) (\<lambda>vs. Ok (v # vs)))
      else special_token_values ps snapshot ctx)"

section \<open>The key\<close>

definition key_for ::
  "key_env \<Rightarrow> 'a probe_like_scheme \<Rightarrow> repo_snapshot \<Rightarrow> task \<Rightarrow> digest_resolver option option \<Rightarrow> key_error + string" where
  "key_for env probe snapshot task ctx =
     rbind (per_probe_schema_version env probe) (\<lambda>schema.
     rbind (case content_hash_of_inputs (ke_blake3 env) (ke_size env) (declared_inputs_for env probe snapshot) of
              Err (FileNotFound p) \<Rightarrow> Err (InputVanished p)
            | Err _ \<Rightarrow> Err (InputVanished [])
            | Ok h \<Rightarrow> Ok h) (\<lambda>inputs.
     rbind (special_token_values (pl_declared_inputs probe) snapshot ctx) (\<lambda>tokens.
       Ok (identity_hash (ke_sha256 env) ([pl_name probe, pl_version probe, schema, inputs] @ tokens)))))"

text \<open>\<open>CacheStore.key_for\<close> passes no context.\<close>

definition store_key_for :: "key_env \<Rightarrow> 'a probe_like_scheme \<Rightarrow> repo_snapshot \<Rightarrow> task \<Rightarrow> key_error + string" where
  "store_key_for env probe snapshot task = key_for env probe snapshot task None"

section \<open>Lemmas\<close>

lemma keep_matches_set:
  "set (keep_matches env root ms seen) = set seen \<union> {m \<in> set ms. ke_exists env m \<and>
     (\<exists>parts. relative_parts root m = Some parts \<and> \<not> (parts \<noteq> [] \<and> parts ! 0 = output_namespace))}"
  by (induction env root ms seen rule: keep_matches.induct) (auto split: option.splits)

lemma keep_matches_distinct: "distinct seen \<Longrightarrow> distinct (keep_matches env root ms seen)"
  by (induction env root ms seen rule: keep_matches.induct) (auto split: option.splits)

lemma collect_inputs_set:
  "set (collect_inputs env root ps seen) = set seen \<union>
     {m. \<exists>p \<in> set ps. \<not> is_special_token p \<and> m \<in> set (ke_rglob env root p) \<and> ke_exists env m \<and>
       (\<exists>parts. relative_parts root m = Some parts \<and> \<not> (parts \<noteq> [] \<and> parts ! 0 = output_namespace))}"
  by (induction env root ps seen rule: collect_inputs.induct) (auto simp: keep_matches_set)

lemma collect_inputs_distinct: "distinct seen \<Longrightarrow> distinct (collect_inputs env root ps seen)"
  by (induction env root ps seen rule: collect_inputs.induct) (simp_all add: keep_matches_distinct)

lemma special_token_values_Ok:
  "special_token_values ps snapshot ctx = Ok vs \<Longrightarrow>
   list_all (\<lambda>p. is_special_token p \<longrightarrow> special_token p = Some ''image-digest'') ps \<and>
   length vs = length (filter is_special_token ps)"
  by (induction ps arbitrary: vs) (auto simp: rbind_Ok_iff resolve_special_token_def split: if_splits)

lemma special_token_values_unresolved:
  "list_all (\<lambda>p. is_special_token p \<longrightarrow> special_token p = Some ''image-digest'') ps \<Longrightarrow>
   special_token_values ps snapshot None = Ok (replicate (length (filter is_special_token ps)) [])"
  by (induction ps) (auto simp: resolve_special_token_def unresolved_sentinel_def)

lemma special_token_values_err:
  "special_token_values ps snapshot ctx = Err e \<Longrightarrow>
   \<exists>p \<in> set ps. is_special_token p \<and> special_token p \<noteq> Some ''image-digest'' \<and> e = UnknownSpecialToken p"
  by (induction ps) (auto simp: rbind_Err_iff resolve_special_token_def split: if_splits option.splits sum.splits)

section \<open>Properties\<close>

text \<open>The inputs of a probe: sorted, each once, and exactly the existing paths under the root that some
  pattern other than a special token matches and that are not inside the tool's own output
  directory; the order of the patterns, and how often they match a path, does not matter.\<close>

theorem declared_inputs_exact:
  "sorted (declared_inputs_for env probe snapshot) \<and> distinct (declared_inputs_for env probe snapshot) \<and>
   (\<forall>m. m \<in> set (declared_inputs_for env probe snapshot) \<longleftrightarrow>
     (\<exists>p \<in> set (pl_declared_inputs probe). special_token p = None \<and> m \<in> set (ke_rglob env (rs_root snapshot) p)) \<and>
     ke_exists env m \<and>
     (\<exists>parts. relative_parts (rs_root snapshot) m = Some parts \<and> take 1 parts \<noteq> [output_namespace]))"
proof -
  have n: "take 1 parts \<noteq> [output_namespace] \<longleftrightarrow> \<not> (parts \<noteq> [] \<and> parts ! 0 = output_namespace)" for parts
    by (cases parts) auto
  show ?thesis
    unfolding n declared_inputs_for_def
    by (auto simp: collect_inputs_set collect_inputs_distinct is_special_token_def)
qed

text \<open>The key the cache uses: it exists exactly when the schema version and the input manifest can be
  read and every special token is \<open>image-digest\<close>, and it is the identity hash of name, version,
  schema version, manifest and one empty string per special token. So it does not depend on the
  task, the commit, the detected languages or the configuration, and no image digest ever
  enters it.\<close>

theorem store_key_exact:
  "store_key_for env probe snapshot task = Ok k \<longleftrightarrow>
     (\<exists>schema inputs. per_probe_schema_version env probe = Ok schema \<and>
        content_hash_of_inputs (ke_blake3 env) (ke_size env) (declared_inputs_for env probe snapshot) = Ok inputs \<and>
        list_all (\<lambda>p. special_token p \<in> {None, Some ''image-digest''}) (pl_declared_inputs probe) \<and>
        k = identity_hash (ke_sha256 env) ([pl_name probe, pl_version probe, schema, inputs] @
              replicate (length (filter is_special_token (pl_declared_inputs probe))) []))"
proof -
  let ?ps = "pl_declared_inputs probe"
  let ?known = "list_all (\<lambda>p. special_token p \<in> {None, Some ''image-digest''}) ?ps"
  have known: "?known \<longleftrightarrow> list_all (\<lambda>p. is_special_token p \<longrightarrow> special_token p = Some ''image-digest'') ?ps"
    by (auto simp: list_all_iff is_special_token_def)
  have t: "special_token_values ?ps snapshot None = Ok vs \<longleftrightarrow>
      ?known \<and> vs = replicate (length (filter is_special_token ?ps)) []" for vs
    using special_token_values_Ok [of ?ps snapshot None vs] special_token_values_unresolved [of ?ps snapshot]
    unfolding known by auto
  show ?thesis
    unfolding store_key_for_def key_for_def rbind_Ok_iff t
    by (cases "content_hash_of_inputs (ke_blake3 env) (ke_size env) (declared_inputs_for env probe snapshot)")
       (auto split: hash_error.splits)
qed

text \<open>The wave in which a probe runs changes the detected languages it sees, not its key.\<close>

lemma tokens_without_context: "special_token_values ps snapshot None = special_token_values ps snapshot' None"
  by (induction ps) (simp_all add: resolve_special_token_def)

lemma key_ignores_languages:
  "store_key_for env probe (snapshot\<lparr>rs_detected_languages := langs\<rparr>) task' = store_key_for env probe snapshot task"
  using tokens_without_context [of "pl_declared_inputs probe" "snapshot\<lparr>rs_detected_languages := langs\<rparr>" snapshot]
  by (simp add: store_key_for_def key_for_def declared_inputs_for_def)

end
