(* ===== verification/Cache_Store.thy ===== *)
theory Cache_Store
  imports Probe_Base Json Hashing
begin

text \<open>
  The probe-result cache, \<open>src/src/codegenie/cache/store.py\<close>: an append-only index of JSON lines, a
  content-addressed directory of blobs, and the in-memory copy of the index that is reloaded when
  the size of the file changes. BLAKE3, SHA-256, \<open>json.loads\<close> and the clock are arguments; a time is
  in microseconds. File modes and log events are not modelled, and an append or a replacement of a
  file is atomic, as the code arranges it.
\<close>

section \<open>State\<close>

record cache_lib =
  cl_blake3 :: "string \<Rightarrow> string"
  cl_sha256 :: "string \<Rightarrow> string"
  cl_loads :: "string \<Rightarrow> json option"
  cl_float_us :: "string \<Rightarrow> int"

text \<open>\<open>CacheError\<close> is the code's own; the others are the exceptions a hand-edited index or blob can
  raise. \<open>ForeignBlob\<close> stands for a blob whose fields have types \<open>put\<close> never writes.\<close>

datatype cache_error = CacheRecordTooLong nat | CacheKeyMissing string | CacheTypeError
  | CacheAttributeError | NotSerializable | ForeignBlob

type_synonym index_record = "(string \<times> json) list"

record cache_store =
  cs_ttl_hours :: int
  cs_index_file :: "string list option"
  cs_blobs :: "(string, string) dict"
  cs_index_cache :: "(string, index_record) dict option"
  cs_index_size :: int

definition max_record_bytes :: nat where "max_record_bytes = 4096"

definition cache_init :: "int \<Rightarrow> string list option \<Rightarrow> (string, string) dict \<Rightarrow> cache_store" where
  "cache_init ttl_hours index_file blobs =
     \<lparr>cs_ttl_hours = ttl_hours, cs_index_file = index_file, cs_blobs = blobs, cs_index_cache = None,
      cs_index_size = -1\<rparr>"

text \<open>\<open>stat().st_size\<close> of the index.\<close>

definition index_bytes :: "string list \<Rightarrow> int" where
  "index_bytes ls = (\<Sum>l\<leftarrow>ls. int (length l) + 1)"

section \<open>Serialisation\<close>

fun pv_json :: "pv \<Rightarrow> json option" where
  "pv_json PNone = Some JNull"
| "pv_json (PBool b) = Some (JBool b)"
| "pv_json (PInt i) = Some (JInt i)"
| "pv_json (PFloat r) = Some (JFloat r)"
| "pv_json (PStr s) = Some (JStr s)"
| "pv_json (PList vs) = map_option JArr (those (map pv_json vs))"
| "pv_json (PDict kvs) =
     map_option JObj (those (map (\<lambda>(k, v). map_option (Pair k) (pv_json v)) kvs))"
| "pv_json (POther t) = None"

fun json_pv :: "json \<Rightarrow> pv" where
  "json_pv JNull = PNone"
| "json_pv (JBool b) = PBool b"
| "json_pv (JInt i) = PInt i"
| "json_pv (JFloat r) = PFloat r"
| "json_pv (JStr s) = PStr s"
| "json_pv (JArr js) = PList (map json_pv js)"
| "json_pv (JObj kvs) = PDict (map (\<lambda>(k, j). (k, json_pv j)) kvs)"

definition output_payload :: "json \<Rightarrow> probe_output \<Rightarrow> json" where
  "output_payload slice_json out = JObj
     [(''schema_slice'', slice_json), (''raw_artifacts'', JArr (map JStr (po_raw_artifacts out))),
      (''confidence'', JStr (po_confidence out)), (''duration_ms'', JInt (po_duration_ms out)),
      (''warnings'', JArr (map JStr (po_warnings out))), (''errors'', JArr (map JStr (po_errors out)))]"

definition serialize_output :: "probe_output \<Rightarrow> cache_error + string" where
  "serialize_output out =
     (case pv_json (PDict (po_schema_slice out)) of
        None \<Rightarrow> Err NotSerializable
      | Some j \<Rightarrow> Ok (json_dumps (output_payload j out)))"

fun str_items :: "json list \<Rightarrow> string list option" where
  "str_items [] = Some []"
| "str_items (JStr s # js) = map_option ((#) s) (str_items js)"
| "str_items (_ # js) = None"

text \<open>\<open>obj[k]\<close>: a missing field is a \<open>KeyError\<close>, which the caller turns into a miss (\<open>Ok None\<close>).\<close>

definition blob_field ::
  "index_record \<Rightarrow> string \<Rightarrow> (json \<Rightarrow> cache_error + 'a option) \<Rightarrow> cache_error + 'a option" where
  "blob_field obj k f = (case map_of obj k of None \<Rightarrow> Ok None | Some j \<Rightarrow> f j)"

definition str_array :: "json \<Rightarrow> string list option" where
  "str_array j = (case j of JArr js \<Rightarrow> str_items js | _ \<Rightarrow> None)"

definition deserialize_output :: "cache_lib \<Rightarrow> string \<Rightarrow> cache_error + probe_output option" where
  "deserialize_output lib blob_bytes =
     (case cl_loads lib blob_bytes of
        None \<Rightarrow> Ok None
      | Some (JObj obj) \<Rightarrow>
          blob_field obj ''schema_slice'' (\<lambda>slice.
          blob_field obj ''raw_artifacts'' (\<lambda>artifacts.
          case str_array artifacts of None \<Rightarrow> Err ForeignBlob | Some a \<Rightarrow>
          blob_field obj ''confidence'' (\<lambda>conf.
          blob_field obj ''duration_ms'' (\<lambda>ms.
          blob_field obj ''warnings'' (\<lambda>warnings.
          case str_array warnings of None \<Rightarrow> Err ForeignBlob | Some w \<Rightarrow>
          blob_field obj ''errors'' (\<lambda>errs.
          case str_array errs of None \<Rightarrow> Err ForeignBlob | Some e \<Rightarrow>
            (case (slice, conf, ms) of
               (JObj kvs, JStr c, JInt n) \<Rightarrow>
                 Ok (Some \<lparr>po_schema_slice = map (\<lambda>(k, j). (k, json_pv j)) kvs, po_raw_artifacts = a,
                   po_confidence = c, po_duration_ms = n, po_warnings = w, po_errors = e\<rparr>)
             | _ \<Rightarrow> Err ForeignBlob)))))))
      | Some _ \<Rightarrow> Err CacheTypeError)"

section \<open>The index\<close>

definition blank_line :: "string \<Rightarrow> bool" where
  "blank_line l = list_all (\<lambda>c. let n = of_char c :: nat in
     n = 32 \<or> 9 \<le> n \<and> n \<le> 13 \<or> 28 \<le> n \<and> n \<le> 31 \<or> n = 133 \<or> n = 160) l"

fun load_lines :: "cache_lib \<Rightarrow> string list \<Rightarrow> (string, index_record) dict
    \<Rightarrow> cache_error + (string, index_record) dict" where
  "load_lines lib [] out = Ok out"
| "load_lines lib (line # ls) out =
     (if blank_line line then load_lines lib ls out
      else case cl_loads lib line of
        None \<Rightarrow> load_lines lib ls out
      | Some (JObj rec) \<Rightarrow>
          (case map_of rec ''key'' of
             Some (JStr k) \<Rightarrow> load_lines lib ls (dict_set k rec out)
           | _ \<Rightarrow> load_lines lib ls out)
      | Some _ \<Rightarrow> Err CacheAttributeError)"

definition load_index :: "cache_lib \<Rightarrow> string list \<Rightarrow> cache_error + (string, index_record) dict" where
  "load_index lib ls = load_lines lib ls []"

definition get_index_record ::
  "cache_lib \<Rightarrow> cache_store \<Rightarrow> string \<Rightarrow> cache_error + (index_record option \<times> cache_store)" where
  "get_index_record lib st key =
     (case cs_index_file st of
        None \<Rightarrow> Ok (None, st)
      | Some ls \<Rightarrow>
          (case cs_index_cache st of
             Some index \<Rightarrow>
               if index_bytes ls = cs_index_size st then Ok (dict_get index key, st)
               else rbind (load_index lib ls) (\<lambda>idx.
                 Ok (dict_get idx key, st\<lparr>cs_index_cache := Some idx, cs_index_size := index_bytes ls\<rparr>))
           | None \<Rightarrow> rbind (load_index lib ls) (\<lambda>idx.
                 Ok (dict_get idx key, st\<lparr>cs_index_cache := Some idx, cs_index_size := index_bytes ls\<rparr>))))"

section \<open>Get and put\<close>

definition rec_time :: "cache_lib \<Rightarrow> index_record \<Rightarrow> cache_error + int" where
  "rec_time lib rec =
     (case map_of rec ''created_at_unix_s'' of
        None \<Rightarrow> Err (CacheKeyMissing ''created_at_unix_s'')
      | Some (JInt i) \<Rightarrow> Ok (i * 1000000)
      | Some (JBool b) \<Rightarrow> Ok (if b then 1000000 else 0)
      | Some (JFloat r) \<Rightarrow> Ok (cl_float_us lib r)
      | Some _ \<Rightarrow> Err CacheTypeError)"

text \<open>From the index record to the answer.\<close>

definition read_record ::
  "cache_lib \<Rightarrow> int \<Rightarrow> int \<Rightarrow> (string, string) dict \<Rightarrow> index_record \<Rightarrow> cache_error + probe_output option" where
  "read_record lib now ttl_hours blobs rec =
     rbind (rec_time lib rec) (\<lambda>created.
       if now - created > ttl_hours * 3600 * 1000000 then Ok None
       else case map_of rec ''blob_blake3'' of
         None \<Rightarrow> Err (CacheKeyMissing ''blob_blake3'')
       | Some (JStr b) \<Rightarrow>
           (case dict_get blobs (remove_prefix ''blake3:'' b) of
              None \<Rightarrow> Ok None
            | Some blob_bytes \<Rightarrow>
                (case map_of rec ''blob_sha256'' of
                   None \<Rightarrow> Err (CacheKeyMissing ''blob_sha256'')
                 | Some sha \<Rightarrow>
                     if JStr (identity_hash_bytes (cl_sha256 lib) blob_bytes) \<noteq> sha then Ok None
                     else deserialize_output lib blob_bytes))
       | Some _ \<Rightarrow> Err CacheAttributeError)"

definition cache_get ::
  "cache_lib \<Rightarrow> int \<Rightarrow> cache_store \<Rightarrow> string \<Rightarrow> cache_error + (probe_output option \<times> cache_store)" where
  "cache_get lib now st key =
     (if cs_index_file st = None then Ok (None, st)
      else rbind (get_index_record lib st key) (\<lambda>(record, st').
        case record of
          None \<Rightarrow> Ok (None, st')
        | Some rec \<Rightarrow> rbind (read_record lib now (cs_ttl_hours st') (cs_blobs st') rec) (\<lambda>out. Ok (out, st'))))"

definition put_record :: "cache_lib \<Rightarrow> int \<Rightarrow> string \<Rightarrow> string \<Rightarrow> string \<Rightarrow> string \<Rightarrow> index_record" where
  "put_record lib now key blob_bytes probe_name probe_version =
     [(''key'', JStr key), (''blob_blake3'', JStr (blake3_tagged (cl_blake3 lib) blob_bytes)),
      (''blob_sha256'', JStr (identity_hash_bytes (cl_sha256 lib) blob_bytes)),
      (''created_at_unix_s'', JInt (now div 1000000)),
      (''probe_name'', JStr probe_name), (''probe_version'', JStr probe_version)]"

definition cache_put ::
  "cache_lib \<Rightarrow> int \<Rightarrow> cache_store \<Rightarrow> string \<Rightarrow> probe_output \<Rightarrow> string \<Rightarrow> string \<Rightarrow> cache_error + cache_store" where
  "cache_put lib now st key output probe_name probe_version =
     rbind (serialize_output output) (\<lambda>blob_bytes.
       let rec = put_record lib now key blob_bytes probe_name probe_version;
           line = json_dumps (JObj rec) in
       if length (line @ [CHR 0x0A]) > max_record_bytes
       then Err (CacheRecordTooLong (length (line @ [CHR 0x0A])))
       else
         let blob_hex = remove_prefix ''blake3:'' (blake3_tagged (cl_blake3 lib) blob_bytes);
             lines = (case cs_index_file st of None \<Rightarrow> [] | Some ls \<Rightarrow> ls) @ [line];
             st' = st\<lparr>cs_blobs := dict_set blob_hex blob_bytes (cs_blobs st), cs_index_file := Some lines\<rparr> in
         Ok (case cs_index_cache st of
               None \<Rightarrow> st'
             | Some index \<Rightarrow> st'\<lparr>cs_index_cache := Some (dict_set key rec index),
                               cs_index_size := index_bytes lines\<rparr>))"

section \<open>What a round trip through JSON does to an output\<close>

text \<open>Dictionaries come back with their keys sorted, at every level; nothing else changes.\<close>

fun sort_pv :: "pv \<Rightarrow> pv" where
  "sort_pv (PList vs) = PList (map sort_pv vs)"
| "sort_pv (PDict kvs) = PDict (sort_key fst (map (\<lambda>(k, v). (k, sort_pv v)) kvs))"
| "sort_pv v = v"

definition norm_output :: "probe_output \<Rightarrow> probe_output" where
  "norm_output out = out\<lparr>po_schema_slice := sort_key fst (map (\<lambda>(k, v). (k, sort_pv v)) (po_schema_slice out))\<rparr>"

lemma those_map_Some: "those (map f xs) = Some ys \<Longrightarrow> list_all2 (\<lambda>x y. f x = Some y) xs ys"
  by (induction xs arbitrary: ys) (auto split: option.splits)

lemma pv_json_inverse: "pv_json v = Some j \<Longrightarrow> json_pv j = v"
proof (induction v arbitrary: j rule: pv_json.induct)
  case (6 vs)
  then obtain js where js: "those (map pv_json vs) = Some js" "j = JArr js" by auto
  have "list_all2 (\<lambda>v j. json_pv j = v) vs js"
    using those_map_Some [OF js(1)] "6.IH" by (auto elim!: list.rel_mono_strong)
  then have "map json_pv js = vs" by (induction rule: list_all2_induct) auto
  with js show ?case by simp
next
  case (7 kvs)
  then obtain js where js: "those (map (\<lambda>(k, v). map_option (Pair k) (pv_json v)) kvs) = Some js" "j = JObj js" by auto
  have "list_all2 (\<lambda>kv kj. (fst kj, json_pv (snd kj)) = kv) kvs js"
    by (rule list.rel_mono_strong [OF those_map_Some [OF js(1)]]) (use "7.IH" in auto)
  then have "map (\<lambda>kj. (fst kj, json_pv (snd kj))) js = kvs" by (induction rule: list_all2_induct) auto
  with js show ?case by (simp add: case_prod_unfold)
qed auto

lemma json_pv_sort: "json_pv (sort_keys j) = sort_pv (json_pv j)"
proof (induction j rule: sort_keys.induct)
  case (2 kvs)
  let ?h = "\<lambda>(k, v). (k, json_pv v)" and ?s = "\<lambda>(k, v). (k, sort_keys v)" and ?p = "\<lambda>(k, v). (k, sort_pv v)"
  have "map ?h (map ?s kvs) = map ?p (map ?h kvs)" using 2 by auto
  then show ?case by (simp only: sort_keys.simps json_pv.simps sort_pv.simps map_sort_fst)
qed simp_all

lemma str_items_strs [simp]: "str_items (map JStr ss) = Some ss"
  by (induction ss) simp_all

lemma sort_strs [simp]: "map (sort_keys \<circ> JStr) ss = map JStr ss"
  by simp

text \<open>The library reads one document back.\<close>

definition reads_doc :: "cache_lib \<Rightarrow> json \<Rightarrow> bool" where
  "reads_doc lib j \<longleftrightarrow> cl_loads lib (json_dumps j) = Some (sort_keys j)"

lemma blob_field_Some: "map_of obj k = Some j \<Longrightarrow> blob_field obj k f = f j"
  by (simp add: blob_field_def)

lemma deserialize_serialize:
  assumes "pv_json (PDict (po_schema_slice out)) = Some j" and "reads_doc lib (output_payload j out)"
  shows "deserialize_output lib (json_dumps (output_payload j out)) = Ok (Some (norm_output out))"
proof -
  obtain kvs where kvs: "sort_keys (output_payload j out) = JObj kvs" by (simp add: output_payload_def)
  have "map_of kvs k = map_option sort_keys (map_of
     [(''schema_slice'', j), (''raw_artifacts'', JArr (map JStr (po_raw_artifacts out))),
      (''confidence'', JStr (po_confidence out)), (''duration_ms'', JInt (po_duration_ms out)),
      (''warnings'', JArr (map JStr (po_warnings out))), (''errors'', JArr (map JStr (po_errors out)))] k)" for k
    using kvs by (intro map_of_sort_keys) (simp_all add: output_payload_def dict_wf_def)
  note m = this
  from assms(1) obtain js where j: "j = JObj js" by auto
  have "json_pv (sort_keys j) = sort_pv (PDict (po_schema_slice out))"
    using pv_json_inverse [OF assms(1)] by (simp only: json_pv_sort)
  then have s: "map (\<lambda>(k, j). (k, json_pv j)) (sort_key fst (map (\<lambda>(k, v). (k, sort_keys v)) js)) =
      po_schema_slice (norm_output out)"
    by (simp add: j norm_output_def)
  have f: "map_of kvs ''schema_slice'' = Some (sort_keys j)"
    "map_of kvs ''raw_artifacts'' = Some (JArr (map JStr (po_raw_artifacts out)))"
    "map_of kvs ''confidence'' = Some (JStr (po_confidence out))"
    "map_of kvs ''duration_ms'' = Some (JInt (po_duration_ms out))"
    "map_of kvs ''warnings'' = Some (JArr (map JStr (po_warnings out)))"
    "map_of kvs ''errors'' = Some (JArr (map JStr (po_errors out)))"
    by (simp_all add: m)
  have l: "cl_loads lib (json_dumps (output_payload j out)) = Some (JObj kvs)"
    using assms(2) by (simp only: reads_doc_def kvs)
  have sj: "sort_keys j = JObj (sort_key fst (map (\<lambda>(k, v). (k, sort_keys v)) js))" by (simp add: j)
  have n: "norm_output out = \<lparr>po_schema_slice = po_schema_slice (norm_output out),
      po_raw_artifacts = po_raw_artifacts out, po_confidence = po_confidence out,
      po_duration_ms = po_duration_ms out, po_warnings = po_warnings out, po_errors = po_errors out\<rparr>"
    by (simp add: norm_output_def)
  show ?thesis
    unfolding deserialize_output_def l
    by (subst n) (simp add: f [THEN blob_field_Some] str_array_def sj s)
qed

section \<open>The in-memory index is transparent\<close>

text \<open>Specification: the answer read off the files alone.\<close>

definition lookup :: "cache_lib \<Rightarrow> int \<Rightarrow> cache_store \<Rightarrow> string \<Rightarrow> cache_error + probe_output option" where
  "lookup lib now st key =
     (case cs_index_file st of
        None \<Rightarrow> Ok None
      | Some ls \<Rightarrow> rbind (load_index lib ls) (\<lambda>idx.
          case dict_get idx key of
            None \<Rightarrow> Ok None
          | Some rec \<Rightarrow> read_record lib now (cs_ttl_hours st) (cs_blobs st) rec))"

text \<open>Two indices with the same keys and the same fields under each.\<close>

definition agree :: "(string, index_record) dict \<Rightarrow> (string, index_record) dict \<Rightarrow> bool" where
  "agree c idx \<longleftrightarrow> (\<forall>k. map_option map_of (dict_get c k) = map_option map_of (dict_get idx k))"

definition coherent :: "cache_lib \<Rightarrow> cache_store \<Rightarrow> bool" where
  "coherent lib st \<longleftrightarrow>
     (case cs_index_cache st of
        None \<Rightarrow> True
      | Some c \<Rightarrow>
          (case cs_index_file st of
             None \<Rightarrow> False
           | Some ls \<Rightarrow> index_bytes ls = cs_index_size st \<longrightarrow> (\<exists>idx. load_index lib ls = Ok idx \<and> agree c idx)))"

text \<open>The in-memory index is up to date: nobody else has appended since it was filled.\<close>

definition fresh :: "cache_store \<Rightarrow> bool" where
  "fresh st \<longleftrightarrow> (cs_index_cache st = None \<or>
     (\<exists>ls. cs_index_file st = Some ls \<and> index_bytes ls = cs_index_size st))"

lemma agree_refl [simp]: "agree c c"
  by (simp add: agree_def)

lemma agree_set: "agree c idx \<Longrightarrow> map_of rec = map_of rec' \<Longrightarrow> agree (dict_set k rec c) (dict_set k rec' idx)"
  by (simp add: agree_def dict_simps)

lemma read_record_cong: "map_of rec = map_of rec' \<Longrightarrow> read_record lib now ttl blobs rec = read_record lib now ttl blobs rec'"
  unfolding read_record_def rec_time_def by (erule ssubst) (rule refl)

lemma agree_lookup:
  assumes "agree c idx"
  shows "(case dict_get c k of None \<Rightarrow> Ok None | Some rec \<Rightarrow> read_record lib now ttl blobs rec) =
    (case dict_get idx k of None \<Rightarrow> Ok None | Some rec \<Rightarrow> read_record lib now ttl blobs rec)"
proof -
  from assms have "map_option map_of (dict_get c k) = map_option map_of (dict_get idx k)" by (simp add: agree_def)
  then show ?thesis by (cases "dict_get c k"; cases "dict_get idx k") (auto intro: read_record_cong)
qed

lemma coherent_init [simp]: "coherent lib (cache_init ttl f blobs)"
  by (simp add: coherent_def cache_init_def)

text \<open>Only the in-memory fields of the state change in a lookup, and they stay coherent.\<close>

lemma get_index_record_cases:
  assumes "coherent lib st" and "cs_index_file st = Some ls"
  shows "(\<exists>e. load_index lib ls = Err e \<and> get_index_record lib st key = Err e) \<or>
    (\<exists>idx c n. load_index lib ls = Ok idx \<and> agree c idx \<and>
      get_index_record lib st key = Ok (dict_get c key, st\<lparr>cs_index_cache := Some c, cs_index_size := n\<rparr>) \<and>
      index_bytes ls = n)"
proof (cases "\<exists>c. cs_index_cache st = Some c \<and> index_bytes ls = cs_index_size st")
  case True
  then obtain c where c: "cs_index_cache st = Some c" and n: "index_bytes ls = cs_index_size st" by blast
  with assms obtain idx where "load_index lib ls = Ok idx" "agree c idx" by (auto simp: coherent_def)
  moreover have "st = st\<lparr>cs_index_cache := Some c, cs_index_size := cs_index_size st\<rparr>" using c by simp
  ultimately show ?thesis using assms(2) c n by (auto simp: get_index_record_def)
next
  case False
  then have "get_index_record lib st key = rbind (load_index lib ls) (\<lambda>idx.
      Ok (dict_get idx key, st\<lparr>cs_index_cache := Some idx, cs_index_size := index_bytes ls\<rparr>))"
    using assms(2) by (cases "cs_index_cache st") (auto simp: get_index_record_def)
  then show ?thesis
  proof (cases "load_index lib ls")
    case (Inr idx)
    with \<open>get_index_record lib st key = _\<close> show ?thesis
      by (intro disjI2 exI [of _ idx] exI [of _ "index_bytes ls"]) simp
  qed simp
qed

lemma get_matches_lookup:
  assumes "coherent lib st"
  shows "case cache_get lib now st key of
      Err e \<Rightarrow> lookup lib now st key = Err e
    | Ok (out, st') \<Rightarrow> lookup lib now st key = Ok out \<and> coherent lib st' \<and> (fresh st \<longrightarrow> fresh st') \<and>
        (\<exists>c n. st' = st\<lparr>cs_index_cache := c, cs_index_size := n\<rparr>)"
proof (cases "cs_index_file st")
  case None
  have "\<exists>c n. st = st\<lparr>cs_index_cache := c, cs_index_size := n\<rparr>"
    by (intro exI [of _ "cs_index_cache st"] exI [of _ "cs_index_size st"]) simp
  with None assms show ?thesis by (auto simp: cache_get_def lookup_def)
next
  case (Some ls)
  from get_index_record_cases [OF assms Some, of key] show ?thesis
  proof
    assume "\<exists>e. load_index lib ls = Err e \<and> get_index_record lib st key = Err e"
    with Some show ?thesis by (auto simp: cache_get_def lookup_def)
  next
    assume "\<exists>idx c n. load_index lib ls = Ok idx \<and> agree c idx \<and>
      get_index_record lib st key = Ok (dict_get c key, st\<lparr>cs_index_cache := Some c, cs_index_size := n\<rparr>) \<and>
      index_bytes ls = n"
    then obtain idx c n where l: "load_index lib ls = Ok idx" and a: "agree c idx" and n: "index_bytes ls = n"
      and g: "get_index_record lib st key = Ok (dict_get c key, st\<lparr>cs_index_cache := Some c, cs_index_size := n\<rparr>)"
      by blast
    let ?st = "st\<lparr>cs_index_cache := Some c, cs_index_size := n\<rparr>"
    have co: "coherent lib ?st" "fresh ?st" using l a n Some by (simp_all add: coherent_def fresh_def)
    have "lookup lib now st key = (case dict_get c key of None \<Rightarrow> Ok None
        | Some rec \<Rightarrow> read_record lib now (cs_ttl_hours st) (cs_blobs st) rec)"
      unfolding agree_lookup [OF a] using Some l by (simp add: lookup_def)
    moreover have "cache_get lib now st key = (case dict_get c key of None \<Rightarrow> Ok (None, ?st)
        | Some rec \<Rightarrow> rbind (read_record lib now (cs_ttl_hours st) (cs_blobs st) rec) (\<lambda>out. Ok (out, ?st)))"
      using Some g by (simp add: cache_get_def cong: option.case_cong)
    ultimately show ?thesis using co
      by (cases "dict_get c key"; cases "read_record lib now (cs_ttl_hours st) (cs_blobs st) (the (dict_get c key))") auto
  qed
qed

lemma lookup_files:
  "lookup lib now (st\<lparr>cs_index_cache := c, cs_index_size := n\<rparr>) = lookup lib now st"
  by (rule ext) (simp add: lookup_def cong: option.case_cong)

section \<open>Writing\<close>

lemma load_lines_append:
  "load_lines lib (ls @ ms) out = rbind (load_lines lib ls out) (load_lines lib ms)"
  by (induction lib ls out rule: load_lines.induct) (auto split: option.splits json.splits)

lemma json_obj_not_blank: "\<not> blank_line (json_dumps (JObj kvs))"
  by (simp add: json_dumps_def blank_line_def)

lemma put_record_fields:
  assumes "sort_keys (JObj (put_record lib now key b n v)) = JObj kvs"
  shows "map_of kvs = map_of (put_record lib now key b n v)"
proof
  fix k
  have "map_of kvs k = map_option sort_keys (map_of (put_record lib now key b n v) k)"
    by (rule map_of_sort_keys [OF assms]) (simp add: put_record_def dict_wf_def)
  also have "\<dots> = map_of (put_record lib now key b n v) k" by (simp add: put_record_def)
  finally show "map_of kvs k = map_of (put_record lib now key b n v) k" .
qed

lemma load_put_line:
  assumes "reads_doc lib (JObj (put_record lib now key b n v))"
  shows "\<exists>rec. map_of rec = map_of (put_record lib now key b n v) \<and>
    load_index lib (ls @ [json_dumps (JObj (put_record lib now key b n v))]) =
      rbind (load_index lib ls) (\<lambda>idx. Ok (dict_set key rec idx))"
proof -
  obtain kvs where s: "sort_keys (JObj (put_record lib now key b n v)) = JObj kvs" by simp
  note m = put_record_fields [OF s]
  have "map_of kvs ''key'' = Some (JStr key)" by (simp add: m put_record_def)
  then have "load_lines lib [json_dumps (JObj (put_record lib now key b n v))] out = Ok (dict_set key kvs out)" for out
    using assms s by (simp add: reads_doc_def json_obj_not_blank del: sort_keys.simps)
  then have "load_lines lib [json_dumps (JObj (put_record lib now key b n v))] = (\<lambda>out. Ok (dict_set key kvs out))"
    by (rule ext)
  then have "load_index lib (ls @ [json_dumps (JObj (put_record lib now key b n v))]) =
      rbind (load_index lib ls) (\<lambda>idx. Ok (dict_set key kvs idx))"
    by (simp only: load_index_def load_lines_append)
  with m show ?thesis by blast
qed

section \<open>The state invariant\<close>

definition record_ok :: "cache_lib \<Rightarrow> index_record \<Rightarrow> bool" where
  "record_ok lib rec \<longleftrightarrow> (\<exists>t. rec_time lib rec = Ok t) \<and>
     (\<exists>b. map_of rec ''blob_blake3'' = Some (JStr b)) \<and> (\<exists>sha. map_of rec ''blob_sha256'' = Some sha)"

text \<open>The files hold what \<open>put\<close> writes (or lines that are skipped).\<close>

definition files_ok :: "cache_lib \<Rightarrow> cache_store \<Rightarrow> bool" where
  "files_ok lib st \<longleftrightarrow>
     (case cs_index_file st of
        None \<Rightarrow> True
      | Some ls \<Rightarrow> (\<exists>idx. load_index lib ls = Ok idx \<and> (\<forall>k rec. dict_get idx k = Some rec \<longrightarrow> record_ok lib rec))) \<and>
     (\<forall>h b. dict_get (cs_blobs st) h = Some b \<longrightarrow> (\<exists>out. deserialize_output lib b = Ok out))"

definition cache_inv :: "cache_lib \<Rightarrow> cache_store \<Rightarrow> bool" where
  "cache_inv lib st \<longleftrightarrow> coherent lib st \<and> fresh st \<and> files_ok lib st"

lemma record_ok_cong: "map_of rec = map_of rec' \<Longrightarrow> record_ok lib rec = record_ok lib rec'"
  unfolding record_ok_def rec_time_def by (erule ssubst) (rule refl)

lemma put_record_ok: "record_ok lib (put_record lib now key b n v)"
  by (simp add: record_ok_def put_record_def rec_time_def)

lemma hex_of_tag [simp]: "remove_prefix ''blake3:'' (blake3_tagged h b) = h b"
  by (simp add: blake3_tagged_def remove_prefix_def)

lemma read_record_Ok:
  "record_ok lib rec \<Longrightarrow> \<forall>h b. dict_get blobs h = Some b \<longrightarrow> (\<exists>out. deserialize_output lib b = Ok out) \<Longrightarrow>
   \<exists>out. read_record lib now ttl blobs rec = Ok out"
  by (auto simp: record_ok_def read_record_def split: option.splits)

lemma lookup_Ok: "files_ok lib st \<Longrightarrow> \<exists>out. lookup lib now st key = Ok out"
proof (cases "cs_index_file st")
  case (Some ls)
  assume "files_ok lib st"
  with Some obtain idx where l: "load_index lib ls = Ok idx"
    and ok: "\<forall>k rec. dict_get idx k = Some rec \<longrightarrow> record_ok lib rec"
    and b: "\<forall>h b. dict_get (cs_blobs st) h = Some b \<longrightarrow> (\<exists>out. deserialize_output lib b = Ok out)"
    by (auto simp: files_ok_def)
  show ?thesis
  proof (cases "dict_get idx key")
    case (Some rec)
    with ok have "record_ok lib rec" by blast
    from read_record_Ok [OF this b] l \<open>cs_index_file st = Some ls\<close> Some show ?thesis by (simp add: lookup_def)
  qed (use l \<open>cs_index_file st = Some ls\<close> in \<open>simp add: lookup_def\<close>)
qed (simp add: lookup_def)

text \<open>Adding a blob under a name that is free, or that already holds it.\<close>

lemma read_record_blobs:
  "dict_get blobs h \<in> {None, Some b} \<Longrightarrow>
   read_record lib now ttl (dict_set h b blobs) rec = read_record lib now ttl blobs rec \<or>
   read_record lib now ttl blobs rec = Ok None"
proof (cases "rec_time lib rec")
  case (Inr t)
  assume h: "dict_get blobs h \<in> {None, Some b}"
  show ?thesis
  proof (cases "map_of rec ''blob_blake3''")
    case (Some j)
    with Inr h show ?thesis by (cases j) (auto simp: read_record_def dict_simps)
  qed (use Inr in \<open>simp add: read_record_def\<close>)
qed (simp add: read_record_def)

lemma read_record_put:
  assumes "deserialize_output lib b = Ok out"
  shows "read_record lib now' ttl (dict_set (cl_blake3 lib b) b blobs) (put_record lib now key b n v) =
    (if now' - now div 1000000 * 1000000 > ttl * 3600 * 1000000 then Ok None else Ok out)"
  using assms by (simp add: read_record_def put_record_def rec_time_def dict_simps)

section \<open>Put, then look up\<close>

text \<open>What \<open>put\<close> needs: JSON values, a record line within the bound, a library that reads the two
  documents back, and no other blob under the BLAKE3 name.\<close>

definition storable :: "cache_lib \<Rightarrow> int \<Rightarrow> cache_store \<Rightarrow> string \<Rightarrow> probe_output \<Rightarrow> string \<Rightarrow> string \<Rightarrow> bool" where
  "storable lib now st key out n v \<longleftrightarrow>
     (case pv_json (PDict (po_schema_slice out)) of
        None \<Rightarrow> False
      | Some j \<Rightarrow>
          let b = json_dumps (output_payload j out); rec = JObj (put_record lib now key b n v) in
          reads_doc lib (output_payload j out) \<and> reads_doc lib rec \<and>
          length (json_dumps rec) < max_record_bytes \<and>
          dict_get (cs_blobs st) (cl_blake3 lib b) \<in> {None, Some b})"

lemma storable_files:
  "storable lib now (st\<lparr>cs_index_cache := c, cs_index_size := m\<rparr>) key out n v = storable lib now st key out n v"
  by (simp add: storable_def Let_def cong: option.case_cong)

lemma put_lookup:
  assumes inv: "cache_inv lib st" and sto: "storable lib now st key out n v"
  shows "\<exists>st'. cache_put lib now st key out n v = Ok st' \<and> cache_inv lib st' \<and>
    cs_ttl_hours st' = cs_ttl_hours st \<and>
    (\<forall>now'. lookup lib now' st' key =
      (if now' - now div 1000000 * 1000000 > cs_ttl_hours st * 3600 * 1000000 then Ok None
       else Ok (Some (norm_output out)))) \<and>
    (\<forall>now' k. k \<noteq> key \<longrightarrow> lookup lib now' st' k = lookup lib now' st k \<or> lookup lib now' st k = Ok None)"
proof -
  from sto obtain j where j: "pv_json (PDict (po_schema_slice out)) = Some j"
    by (cases "pv_json (PDict (po_schema_slice out))") (simp_all add: storable_def)
  define b where "b = json_dumps (output_payload j out)"
  define rec where "rec = put_record lib now key b n v"
  from sto [unfolded storable_def j option.case Let_def] have doc: "reads_doc lib (output_payload j out)" and rdoc: "reads_doc lib (JObj rec)"
    and len: "length (json_dumps (JObj rec)) < max_record_bytes"
    and free: "dict_get (cs_blobs st) (cl_blake3 lib b) \<in> {None, Some b}"
    unfolding b_def rec_def by blast+
  define ls where "ls = (case cs_index_file st of None \<Rightarrow> [] | Some ls \<Rightarrow> ls)"
  define line where "line = json_dumps (JObj rec)"
  define blobs where "blobs = dict_set (cl_blake3 lib b) b (cs_blobs st)"
  define st1 where "st1 = st\<lparr>cs_blobs := blobs, cs_index_file := Some (ls @ [line])\<rparr>"
  define st' where "st' = (case cs_index_cache st of None \<Rightarrow> st1
    | Some index \<Rightarrow> st1\<lparr>cs_index_cache := Some (dict_set key rec index), cs_index_size := index_bytes (ls @ [line])\<rparr>)"
  have ser: "serialize_output out = Ok b" unfolding serialize_output_def j option.case b_def ..
  have short: "\<not> length (line @ [CHR 0x0A]) > max_record_bytes" using len by (simp add: line_def)
  have put: "cache_put lib now st key out n v = Ok st'"
    unfolding cache_put_def ser rbind.simps Let_def rec_def [symmetric] line_def [symmetric] hex_of_tag
      blobs_def [symmetric] ls_def [symmetric] st'_def st1_def
    using short by (simp cong: option.case_cong)
  have fields [simp]: "cs_index_file st' = Some (ls @ [line])" "cs_blobs st' = blobs"
    "cs_ttl_hours st' = cs_ttl_hours st"
    by (simp_all add: st'_def st1_def split: option.split)
  obtain idx where idx: "load_index lib ls = Ok idx" and ok: "\<And>k r. dict_get idx k = Some r \<Longrightarrow> record_ok lib r"
    using inv by (cases "cs_index_file st") (auto simp: cache_inv_def files_ok_def ls_def load_index_def)
  from load_put_line [OF rdoc [unfolded rec_def], of ls] idx obtain r where r: "map_of r = map_of rec"
    and l: "load_index lib (ls @ [line]) = Ok (dict_set key r idx)"
    by (auto simp: rec_def line_def)
  have de: "deserialize_output lib b = Ok (Some (norm_output out))"
    unfolding b_def by (rule deserialize_serialize [OF j doc])
  have rr: "read_record lib now' ttl blobs r = read_record lib now' ttl blobs rec" for now' ttl
    by (rule read_record_cong [OF r])
  have look: "lookup lib now' st k = (case dict_get idx k of None \<Rightarrow> Ok None
      | Some rec \<Rightarrow> read_record lib now' (cs_ttl_hours st) (cs_blobs st) rec)" for now' k
    using idx by (cases "cs_index_file st") (simp_all add: lookup_def ls_def load_index_def)
  have look': "lookup lib now' st' k = (case dict_get (dict_set key r idx) k of None \<Rightarrow> Ok None
      | Some rec \<Rightarrow> read_record lib now' (cs_ttl_hours st) blobs rec)" for now' k
    using l by (simp add: lookup_def cong: option.case_cong)
  have "record_ok lib r" using record_ok_cong [OF r] put_record_ok by (simp add: rec_def)
  then have "files_ok lib st'"
    using inv l ok de by (auto simp: files_ok_def cache_inv_def dict_simps blobs_def split: if_splits)
  moreover have "coherent lib st'"
  proof (cases "cs_index_cache st")
    case None
    then show ?thesis by (simp add: coherent_def st'_def st1_def)
  next
    case (Some c)
    with inv have f: "cs_index_file st = Some ls" "index_bytes ls = cs_index_size st"
      by (auto simp: cache_inv_def fresh_def ls_def)
    with inv Some idx have "agree c idx" by (auto simp: cache_inv_def coherent_def)
    then have "agree (dict_set key rec c) (dict_set key r idx)" using r by (simp add: agree_set)
    with l Some show ?thesis by (simp add: coherent_def st'_def st1_def)
  qed
  moreover have "fresh st'"
    by (simp add: fresh_def st'_def st1_def split: option.split)
  moreover have "lookup lib now' st' key =
      (if now' - now div 1000000 * 1000000 > cs_ttl_hours st * 3600 * 1000000 then Ok None
       else Ok (Some (norm_output out)))" for now'
    using read_record_put [OF de] by (simp add: look' dict_simps rr) (simp add: rec_def blobs_def)
  moreover have "lookup lib now' st' k = lookup lib now' st k \<or> lookup lib now' st k = Ok None" if "k \<noteq> key" for now' k
    using read_record_blobs [OF free] that
    by (cases "dict_get idx k") (simp_all add: look look' dict_simps blobs_def)
  ultimately show ?thesis using put by (intro exI [of _ st']) (simp add: cache_inv_def)
qed

lemma get_inv:
  assumes inv: "cache_inv lib st"
  shows "\<exists>out st'. cache_get lib now st key = Ok (out, st') \<and> lookup lib now st key = Ok out \<and>
    cache_inv lib st' \<and> (\<exists>c n. st' = st\<lparr>cs_index_cache := c, cs_index_size := n\<rparr>)"
proof (cases "cs_index_file st")
  case None
  have "\<exists>c n. st = st\<lparr>cs_index_cache := c, cs_index_size := n\<rparr>"
    by (intro exI [of _ "cs_index_cache st"] exI [of _ "cs_index_size st"]) simp
  with None inv show ?thesis by (simp add: cache_get_def lookup_def)
next
  case (Some ls)
  from inv have co: "coherent lib st" by (simp add: cache_inv_def)
  from inv obtain o1 where o1: "lookup lib now st key = Ok o1" using lookup_Ok by (metis cache_inv_def)
  have m: "case cache_get lib now st key of
      Err e \<Rightarrow> lookup lib now st key = Err e
    | Ok (out, st') \<Rightarrow> lookup lib now st key = Ok out \<and> coherent lib st' \<and> (fresh st \<longrightarrow> fresh st') \<and>
        (\<exists>c n. st' = st\<lparr>cs_index_cache := c, cs_index_size := n\<rparr>)" by (rule get_matches_lookup [OF co])
  with o1 obtain st' where g: "cache_get lib now st key = Ok (o1, st')" and co': "coherent lib st'" "fresh st \<longrightarrow> fresh st'"
    and st': "\<exists>c n. st' = st\<lparr>cs_index_cache := c, cs_index_size := n\<rparr>"
    by (cases "cache_get lib now st key") auto
  from st' inv have "files_ok lib st'" by (auto simp: files_ok_def cache_inv_def)
  with co' inv have "cache_inv lib st'" by (simp add: cache_inv_def)
  with g o1 st' show ?thesis by blast
qed

section \<open>The interface the coordinator relies on\<close>

text \<open>A cache answers from an observable map; a lookup does not change it, a \<open>put\<close> sets one key (to the
  output as it comes back from the store) and can only add an answer elsewhere.\<close>

locale result_cache =
  fixes get :: "'s \<Rightarrow> string \<Rightarrow> cache_error + (probe_output option \<times> 's)"
    and put :: "'s \<Rightarrow> string \<Rightarrow> probe_output \<Rightarrow> string \<Rightarrow> string \<Rightarrow> cache_error + 's"
    and cinv :: "'s \<Rightarrow> bool"
    and obs :: "'s \<Rightarrow> string \<Rightarrow> probe_output option"
    and can_store :: "'s \<Rightarrow> string \<Rightarrow> probe_output \<Rightarrow> string \<Rightarrow> string \<Rightarrow> bool"
    and restored :: "probe_output \<Rightarrow> probe_output"
  assumes get_law: "cinv s \<Longrightarrow> \<exists>s'. get s k = Ok (obs s k, s') \<and> cinv s' \<and> obs s' = obs s \<and>
        can_store s' = can_store s"
    and put_law: "cinv s \<Longrightarrow> can_store s k out n v \<Longrightarrow> \<exists>s'. put s k out n v = Ok s' \<and> cinv s' \<and>
        obs s' k = Some (restored out) \<and> (\<forall>k'. k' \<noteq> k \<longrightarrow> obs s' k' = obs s k' \<or> obs s k' = None)"
    and restored_errors: "po_errors (restored out) = po_errors out"

definition cache_obs :: "cache_lib \<Rightarrow> int \<Rightarrow> cache_store \<Rightarrow> string \<Rightarrow> probe_output option" where
  "cache_obs lib now st key = (case lookup lib now st key of Ok out \<Rightarrow> out | Err e \<Rightarrow> None)"

lemma not_expired: "1 \<le> ttl \<Longrightarrow> \<not> now - now div 1000000 * 1000000 > ttl * 3600 * (1000000 :: int)"
proof -
  assume "1 \<le> ttl"
  then have "1000000 \<le> ttl * 3600 * 1000000" by simp
  moreover have "now - now div 1000000 * 1000000 < 1000000" using pos_mod_bound [of 1000000 now] by (simp add: minus_div_mult_eq_mod)
  ultimately show ?thesis by linarith
qed

interpretation store: result_cache "cache_get lib now" "cache_put lib now"
  "\<lambda>st. cache_inv lib st \<and> 1 \<le> cs_ttl_hours st" "cache_obs lib now" "storable lib now" norm_output
  for lib now
proof (unfold_locales, goal_cases)
  case (1 s k)
  then obtain out c n where "cache_get lib now s k = Ok (out, s\<lparr>cs_index_cache := c, cs_index_size := n\<rparr>)"
    "lookup lib now s k = Ok out" "cache_inv lib (s\<lparr>cs_index_cache := c, cs_index_size := n\<rparr>)"
    using get_inv [of lib s now k] by blast
  with 1 show ?case
    by (intro exI [of _ "s\<lparr>cs_index_cache := c, cs_index_size := n\<rparr>"])
      (simp add: cache_obs_def lookup_files storable_files fun_eq_iff)
next
  case (2 s k out n v)
  then obtain s' where "cache_put lib now s k out n v = Ok s'" "cache_inv lib s'" "cs_ttl_hours s' = cs_ttl_hours s"
    "lookup lib now s' k = Ok (Some (norm_output out))"
    "\<forall>k'. k' \<noteq> k \<longrightarrow> lookup lib now s' k' = lookup lib now s k' \<or> lookup lib now s k' = Ok None"
    using put_lookup [of lib s now k out n v] not_expired [of "cs_ttl_hours s" now] by auto
  with 2 show ?case
    by (intro exI [of _ s']) (auto simp: cache_obs_def)
qed (simp add: norm_output_def)

text \<open>When another process has appended since the in-memory index was filled, \<open>put\<close> takes over the new
  size without the new lines: a key the other process wrote is then a miss, whatever the index
  file says.\<close>

lemma put_hides_foreign_append:
  assumes "cs_index_cache st = Some c" and "dict_get c f = None" and "f \<noteq> k"
    and "cache_put lib now st k out n v = Ok st'"
  shows "cache_get lib now' st' f = Ok (None, st')"
proof -
  from assms(4) obtain lines idx where "cs_index_file st' = Some lines" "cs_index_size st' = index_bytes lines"
    "cs_index_cache st' = Some idx" "dict_get idx f = dict_get c f"
    using assms(1,3) by (auto simp: cache_put_def rbind_Ok_iff Let_def dict_simps split: if_splits)
  with assms(2) show ?thesis by (simp add: cache_get_def get_index_record_def)
qed

section \<open>Properties\<close>

text \<open>Example values: a library that knows the two documents of one \<open>put\<close>.\<close>

definition sample_output :: probe_output where
  "sample_output = \<lparr>po_schema_slice = [(''b'', PInt 1), (''a'', PNone)], po_raw_artifacts = [], po_confidence = ''high'',
     po_duration_ms = 3, po_warnings = [], po_errors = []\<rparr>"

definition sample_payload :: json where
  "sample_payload = output_payload (JObj [(''b'', JInt 1), (''a'', JNull)]) sample_output"

definition sample_lib :: cache_lib where
  "sample_lib = \<lparr>cl_blake3 = (\<lambda>_. ''b3''), cl_sha256 = (\<lambda>_. ''5a''),
     cl_loads = (\<lambda>t. if t = json_dumps sample_payload then Some (sort_keys sample_payload)
       else Some (sort_keys (JObj
         [(''key'', JStr ''sha256:k''), (''blob_blake3'', JStr ''blake3:b3''), (''blob_sha256'', JStr ''sha256:5a''),
          (''created_at_unix_s'', JInt 7), (''probe_name'', JStr ''p''), (''probe_version'', JStr ''1'')]))),
     cl_float_us = (\<lambda>_. 0)\<rparr>"

lemma sample_storable: "storable sample_lib 7000000 (cache_init 1 None []) ''sha256:k'' sample_output ''p'' ''1''"
proof -
  have j: "pv_json (PDict (po_schema_slice sample_output)) = Some (JObj [(''b'', JInt 1), (''a'', JNull)])"
    by (simp add: sample_output_def)
  have rec: "put_record sample_lib 7000000 ''sha256:k'' b ''p'' ''1'' =
      [(''key'', JStr ''sha256:k''), (''blob_blake3'', JStr ''blake3:b3''), (''blob_sha256'', JStr ''sha256:5a''),
       (''created_at_unix_s'', JInt 7), (''probe_name'', JStr ''p''), (''probe_version'', JStr ''1'')]" for b
    by (simp add: put_record_def sample_lib_def blake3_tagged_def identity_hash_bytes_def)
  let ?rec = "[(''key'', JStr ''sha256:k''), (''blob_blake3'', JStr ''blake3:b3''), (''blob_sha256'', JStr ''sha256:5a''),
       (''created_at_unix_s'', JInt 7), (''probe_name'', JStr ''p''), (''probe_version'', JStr ''1'')]"
  have "json_dumps (JObj ?rec) \<noteq> json_dumps sample_payload" "length (json_dumps (JObj ?rec)) < 4096"
    by code_simp+
  then show ?thesis
    unfolding storable_def j option.case Let_def rec sample_payload_def [symmetric]
    by (simp add: reads_doc_def sample_lib_def cache_init_def max_record_bytes_def del: sort_keys.simps)
qed

lemma sample_inv: "cache_inv lib (cache_init t None [])"
  by (simp add: cache_inv_def fresh_def files_ok_def) (simp add: cache_init_def)

text \<open>C12. The cache never serves bytes it cannot vouch for: whatever is on disk, if \<open>get\<close> returns an output
  then the index file has a record under that key (the last one), not older than the TTL, naming a
  blob that is there, whose SHA-256 is the recorded one, and the output is what that blob decodes
  to.\<close>

theorem get_safe:
  assumes "coherent lib st" and "cache_get lib now st key = Ok (Some out, st')"
  shows "\<exists>ls idx rec created b blob. cs_index_file st = Some ls \<and> load_index lib ls = Ok idx \<and>
    dict_get idx key = Some rec \<and> rec_time lib rec = Ok created \<and>
    now - created \<le> cs_ttl_hours st * 3600 * 1000000 \<and>
    map_of rec ''blob_blake3'' = Some (JStr b) \<and> dict_get (cs_blobs st) (remove_prefix ''blake3:'' b) = Some blob \<and>
    map_of rec ''blob_sha256'' = Some (JStr (identity_hash_bytes (cl_sha256 lib) blob)) \<and>
    deserialize_output lib blob = Ok (Some out)"
proof -
  have "lookup lib now st key = Ok (Some out)" using get_matches_lookup [OF assms(1), of now key] assms(2) by simp
  then obtain ls idx rec where "cs_index_file st = Some ls" "load_index lib ls = Ok idx" "dict_get idx key = Some rec"
    and r: "read_record lib now (cs_ttl_hours st) (cs_blobs st) rec = Ok (Some out)"
    by (auto simp: lookup_def rbind_Ok_iff split: option.splits)
  moreover from r have "\<exists>created b blob. rec_time lib rec = Ok created \<and>
    now - created \<le> cs_ttl_hours st * 3600 * 1000000 \<and>
    map_of rec ''blob_blake3'' = Some (JStr b) \<and> dict_get (cs_blobs st) (remove_prefix ''blake3:'' b) = Some blob \<and>
    map_of rec ''blob_sha256'' = Some (JStr (identity_hash_bytes (cl_sha256 lib) blob)) \<and>
    deserialize_output lib blob = Ok (Some out)"
    by (auto simp: read_record_def rbind_Ok_iff split: option.splits json.splits if_splits)
  ultimately show ?thesis by blast
qed



lemma get_safe_witness:
  "\<exists>st' ls. cache_put sample_lib 7000000 (cache_init 1 None []) ''sha256:k'' sample_output ''p'' ''1'' = Ok st' \<and>
     cs_index_file st' = Some ls"
proof -
  from put_lookup [OF sample_inv sample_storable] obtain st' where
    p: "cache_put sample_lib 7000000 (cache_init 1 None []) ''sha256:k'' sample_output ''p'' ''1'' = Ok st'"
    and i: "cache_inv sample_lib st'"
    and l: "\<And>now'. lookup sample_lib now' st' ''sha256:k'' =
      (if now' - 7000000 div 1000000 * 1000000 > cs_ttl_hours (cache_init 1 None []) * 3600 * 1000000 then Ok None
       else Ok (Some (norm_output sample_output)))" by blast
  have "lookup sample_lib 8000000 st' ''sha256:k'' = Ok (Some (norm_output sample_output))"
    using l [of 8000000] by (simp add: cache_init_def)
  with get_inv [OF i, of 8000000 "''sha256:k''"] obtain st'' where
    "cache_get sample_lib 8000000 st' ''sha256:k'' = Ok (Some (norm_output sample_output), st'')" by auto
  moreover have "coherent sample_lib st'" using i by (simp add: cache_inv_def)
  ultimately show ?thesis using get_safe p by blast
qed

text \<open>C35. Refinement: the in-memory index is invisible. From a coherent state (in particular the initial
  one), \<open>get\<close> gives what reading the whole index file afresh would give, error or answer, leaves the
  files as they are, and the state coherent; from a state the store itself produced it never
  raises.\<close>

theorem index_cache_transparent:
  "(coherent lib st \<longrightarrow>
     (case cache_get lib now st key of
        Err e \<Rightarrow> lookup lib now st key = Err e
      | Ok (out, st') \<Rightarrow> lookup lib now st key = Ok out \<and> coherent lib st' \<and>
          cs_index_file st' = cs_index_file st \<and> cs_blobs st' = cs_blobs st)) \<and>
   (cache_inv lib st \<longrightarrow> (\<exists>out st'. cache_get lib now st key = Ok (out, st') \<and> cache_inv lib st')) \<and>
   coherent lib (cache_init ttl file blobs)"
proof (intro conjI impI)
  assume "coherent lib st"
  from get_matches_lookup [OF this, of now key]
  show "case cache_get lib now st key of
        Err e \<Rightarrow> lookup lib now st key = Err e
      | Ok (out, st') \<Rightarrow> lookup lib now st key = Ok out \<and> coherent lib st' \<and>
          cs_index_file st' = cs_index_file st \<and> cs_blobs st' = cs_blobs st"
    by (auto split: sum.splits)
next
  assume "cache_inv lib st"
  from get_inv [OF this, of now key]
  show "\<exists>out st'. cache_get lib now st key = Ok (out, st') \<and> cache_inv lib st'" by blast
qed simp

lemma index_cache_transparent_witness:
  "\<exists>out st'. cache_get sample_lib 8000000 (cache_init 1 None []) ''sha256:k'' = Ok (out, st')"
  using index_cache_transparent [of sample_lib "cache_init 1 None []" 8000000 "''sha256:k''"] sample_inv by blast

end
