(* ===== verification/Coordinator.thy ===== *)
theory Coordinator
  imports Sanitizer Cache_Keys Cache_Store
begin

text \<open>
  \<open>src/src/codegenie/coordinator/coordinator.py\<close> (with \<open>coordinator/budget.py\<close> and the data of
  \<open>probes/base.py\<close>): dispatch of one probe, and \<open>gather\<close> with its prelude, rest and tail waves.

  A probe is given by its metadata and by what \<open>applies\<close> and \<open>run\<close> do on a snapshot. \<open>asyncio.gather\<close>
  returns the results in the order of its arguments; the model dispatches in that order, which
  gives the same results because probes of one call have different names and so different cache
  keys. The clock is an argument, and the cache is given by its two operations; \<open>Cache_Store\<close>
  provides them. Log events and the memory warning are not modelled.
\<close>

section \<open>Data\<close>

record resource_budget =
  rb_rss_mb :: int
  rb_raw_artifact_mb :: int
  rb_wall_clock_s :: int
  rb_raw_artifact_truncate_mb :: int

definition default_resource_budget :: resource_budget where
  "default_resource_budget = \<lparr>rb_rss_mb = 200, rb_raw_artifact_mb = 10, rb_wall_clock_s = 30,
     rb_raw_artifact_truncate_mb = 5\<rparr>"

text \<open>How \<open>probe.run\<close> under \<open>wait_for\<close> can end; the last is \<open>KeyboardInterrupt\<close>, \<open>SystemExit\<close> or
  \<open>CancelledError\<close>, which propagate.\<close>

datatype run_result =
    RunReturned probe_output
  | RunTimeout
  | RunBudgetExceeded string
  | RunRaised string string
  | RunInterrupted

record probe = probe_like +
  pb_tier :: "string option"
  pb_timeout_seconds :: int
  pb_budget :: "resource_budget option"
  pb_applies :: "repo_snapshot \<Rightarrow> task \<Rightarrow> bool"
  pb_run :: "repo_snapshot \<Rightarrow> int \<Rightarrow> int \<Rightarrow> run_result"

datatype probe_execution =
    Ran probe_output string
  | CacheHit probe_output string
  | Skipped string

record gather_result =
  gr_outputs :: "(string, probe_output) dict"
  gr_executions :: "(string, probe_execution) dict"

datatype gather_error = Interrupted | IntConversionError | KeyFailed key_error | CacheFailed cache_error
  | ScrubFailed scrub_error

fun lift_err :: "('e \<Rightarrow> gather_error) \<Rightarrow> 'e + 'a \<Rightarrow> gather_error + 'a" where
  "lift_err f (Inl e) = Inl (f e)"
| "lift_err f (Inr a) = Inr a"

text \<open>The probe's context enforces the raw-artifact budget.\<close>

record budgeting_context =
  bc_raw_artifact_mb :: int
  bc_bytes_written :: int

definition report_bytes :: "budgeting_context \<Rightarrow> int \<Rightarrow> budgeting_context \<times> bool" where
  "report_bytes ctx n =
     (let ctx' = ctx\<lparr>bc_bytes_written := bc_bytes_written ctx + n\<rparr> in
      (ctx', bc_bytes_written ctx' > bc_raw_artifact_mb ctx * (1024 * 1024)))"

section \<open>One probe\<close>

record 'c cache_ops =
  co_get :: "'c \<Rightarrow> string \<Rightarrow> cache_error + (probe_output option \<times> 'c)"
  co_put :: "'c \<Rightarrow> string \<Rightarrow> probe_output \<Rightarrow> string \<Rightarrow> string \<Rightarrow> cache_error + 'c"

record coordinator_env =
  ce_keys :: key_env
  ce_resolve :: "string \<Rightarrow> string"
  ce_duration_ms :: "string \<Rightarrow> int"
  ce_int_of_text :: "string \<Rightarrow> int option"

definition build_failure_output :: "string \<Rightarrow> int \<Rightarrow> probe_output" where
  "build_failure_output error_str duration_ms =
     \<lparr>po_schema_slice = [], po_raw_artifacts = [], po_confidence = ''low'',
      po_duration_ms = duration_ms, po_warnings = [], po_errors = [error_str]\<rparr>"

text \<open>\<open>Err\<close> is what propagates; otherwise the output, or the error string of a handled failure.\<close>

definition run_probe_with_isolation ::
  "probe \<Rightarrow> repo_snapshot \<Rightarrow> int \<Rightarrow> int \<Rightarrow> gather_error + (string + probe_output)" where
  "run_probe_with_isolation p snapshot raw_mb timeout =
     (case pb_run p snapshot raw_mb timeout of
        RunReturned po \<Rightarrow> Ok (Inr po)
      | RunTimeout \<Rightarrow> Ok (Inl (''timeout: '' @ int_str timeout @ ''s''))
      | RunBudgetExceeded msg \<Rightarrow> Ok (Inl (''raw_artifact_mb exceeded: '' @ msg))
      | RunInterrupted \<Rightarrow> Err Interrupted
      | RunRaised type_name msg \<Rightarrow> Ok (Inl (type_name @ '': '' @ msg)))"

text \<open>The snapshot each probe gets is an owned copy, so nothing a probe does to it is seen by another.\<close>

text \<open>The output that is kept of a run: the failure output, or what the probe returned, if it passes the
  validator.\<close>

definition checked_output :: "string + probe_output \<Rightarrow> int \<Rightarrow> probe_output" where
  "checked_output r duration_ms =
     (case r of
        Inl error_str \<Rightarrow> build_failure_output error_str duration_ms
      | Inr po0 \<Rightarrow>
          (let po1 = po0\<lparr>po_duration_ms := duration_ms\<rparr>;
               v = validate_output (po_schema_slice po1) (po_confidence po1) in
           if v = Valid then po1
           else build_failure_output (format_secret_error v) duration_ms))"

definition dispatch_one ::
  "'c cache_ops \<Rightarrow> coordinator_env \<Rightarrow> task \<Rightarrow> repo_snapshot \<Rightarrow> 'c \<Rightarrow> probe
     \<Rightarrow> gather_error + ('c \<times> string \<times> probe_output option \<times> probe_execution)" where
  "dispatch_one co env task snapshot cache p =
     (if \<not> pb_applies p snapshot task
      then Ok (cache, pl_name p, None, Skipped ''applies() returned False'')
      else
        rbind (lift_err KeyFailed (store_key_for (ce_keys env) p snapshot task)) (\<lambda>key.
        rbind (lift_err CacheFailed (co_get co cache key)) (\<lambda>(found, cache1).
        case found of
          Some cached \<Rightarrow> Ok (cache1, pl_name p, Some cached, CacheHit cached key)
        | None \<Rightarrow>
            let budget = (case pb_budget p of Some b \<Rightarrow> b | None \<Rightarrow> default_resource_budget);
                timeout = min (pb_timeout_seconds p) (rb_wall_clock_s budget) in
            rbind (run_probe_with_isolation p snapshot (rb_raw_artifact_mb budget) timeout) (\<lambda>r.
            rbind (lift_err ScrubFailed
                    (scrub (ce_resolve env) (checked_output r (ce_duration_ms env (pl_name p))) (rs_root snapshot)))
              (\<lambda>sanitized.
              if po_errors sanitized = []
              then rbind (lift_err CacheFailed (co_put co cache1 key sanitized (pl_name p) (pl_version p)))
                     (\<lambda>cache2. Ok (cache2, pl_name p, Some sanitized, Ran sanitized key))
              else Ok (cache1, pl_name p, Some sanitized, Ran sanitized key))))))"

section \<open>Gather\<close>

fun dispatch_all ::
  "'c cache_ops \<Rightarrow> coordinator_env \<Rightarrow> task \<Rightarrow> repo_snapshot \<Rightarrow> 'c \<Rightarrow> probe list
     \<Rightarrow> gather_error + ('c \<times> (string \<times> probe_output option \<times> probe_execution) list)" where
  "dispatch_all co env task snapshot cache [] = Ok (cache, [])"
| "dispatch_all co env task snapshot cache (p # ps) =
     rbind (dispatch_one co env task snapshot cache p) (\<lambda>(cache1, r).
       rbind (dispatch_all co env task snapshot cache1 ps) (\<lambda>(cache2, rs). Ok (cache2, r # rs)))"

definition tier_of :: "probe \<Rightarrow> string" where
  "tier_of p = (case pb_tier p of Some t \<Rightarrow> t | None \<Rightarrow> ''task_specific'')"

text \<open>\<open>int(v)\<close> on a value of the counts.\<close>

fun py_int :: "coordinator_env \<Rightarrow> pv \<Rightarrow> int option" where
  "py_int env (PInt i) = Some i"
| "py_int env (PBool b) = Some (if b then 1 else 0)"
| "py_int env (PStr s) = ce_int_of_text env s"
| "py_int env (PFloat s) = ce_int_of_text env s"
| "py_int env _ = None"

fun int_items :: "coordinator_env \<Rightarrow> (string \<times> pv) list \<Rightarrow> gather_error + (string, int) dict" where
  "int_items env [] = Ok []"
| "int_items env ((k, v) # kvs) =
     (case py_int env v of
        None \<Rightarrow> Err IntConversionError
      | Some i \<Rightarrow> rbind (int_items env kvs) (\<lambda>rest. Ok ((k, i) # rest)))"

definition extract_language_counts ::
  "coordinator_env \<Rightarrow> (string \<times> pv) list \<Rightarrow> gather_error + (string, int) dict option" where
  "extract_language_counts env schema_slice =
     (case (case map_of schema_slice ''language_stack'' of Some v \<Rightarrow> v | None \<Rightarrow> PDict []) of
        PDict lang_stack \<Rightarrow>
          (case map_of lang_stack ''counts'' of
             Some (PDict counts) \<Rightarrow>
               if counts = [] then Ok None else rbind (int_items env counts) (\<lambda>c. Ok (Some c))
           | _ \<Rightarrow> Ok None)
      | _ \<Rightarrow> Ok None)"

text \<open>The counts the prelude contributes: of probes that ran, without errors.\<close>

fun merge_counts ::
  "coordinator_env \<Rightarrow> (string \<times> probe_output option \<times> probe_execution) list \<Rightarrow> (string, int) dict
     \<Rightarrow> gather_error + (string, int) dict" where
  "merge_counts env [] merged = Ok merged"
| "merge_counts env ((name, out, exe) # rs) merged =
     (case (exe, out) of
        (Ran _ _, Some o') \<Rightarrow>
          if po_errors o' \<noteq> [] then merge_counts env rs merged
          else rbind (extract_language_counts env (po_schema_slice o')) (\<lambda>counts.
            merge_counts env rs (case counts of Some c \<Rightarrow> dict_merge merged c | None \<Rightarrow> merged))
      | _ \<Rightarrow> merge_counts env rs merged)"

fun record_results ::
  "(string \<times> probe_output option \<times> probe_execution) list \<Rightarrow> gather_result \<Rightarrow> gather_result" where
  "record_results [] g = g"
| "record_results ((name, out, exe) # rs) g =
     record_results rs
       (g\<lparr>gr_executions := dict_set name exe (gr_executions g),
          gr_outputs := (case out of Some o' \<Rightarrow> dict_set name o' (gr_outputs g) | None \<Rightarrow> gr_outputs g)\<rparr>)"

definition prelude_probes :: "string list \<Rightarrow> probe list \<Rightarrow> probe list" where
  "prelude_probes runs_last probes = filter (\<lambda>p. tier_of p = ''base'' \<and> pl_name p \<notin> set runs_last) probes"

definition rest_probes :: "string list \<Rightarrow> probe list \<Rightarrow> probe list" where
  "rest_probes runs_last probes = filter (\<lambda>p. tier_of p \<noteq> ''base'' \<and> pl_name p \<notin> set runs_last) probes"

definition tail_probes :: "string list \<Rightarrow> probe list \<Rightarrow> probe list" where
  "tail_probes runs_last probes = filter (\<lambda>p. pl_name p \<in> set runs_last) probes"

definition gather ::
  "'c cache_ops \<Rightarrow> coordinator_env \<Rightarrow> repo_snapshot \<Rightarrow> task \<Rightarrow> probe list \<Rightarrow> 'c \<Rightarrow> string list
     \<Rightarrow> gather_error + ('c \<times> gather_result)" where
  "gather co env snapshot task probes cache runs_last_names =
     (if probes = [] then Ok (cache, \<lparr>gr_outputs = [], gr_executions = []\<rparr>)
      else
        rbind (dispatch_all co env task snapshot cache (prelude_probes runs_last_names probes))
          (\<lambda>(cache1, prelude_results).
        rbind (merge_counts env prelude_results []) (\<lambda>merged_counts.
          let g1 = record_results prelude_results \<lparr>gr_outputs = [], gr_executions = []\<rparr>;
              enriched_snapshot = snapshot\<lparr>rs_detected_languages := merged_counts\<rparr> in
          rbind (dispatch_all co env task enriched_snapshot cache1 (rest_probes runs_last_names probes))
            (\<lambda>(cache2, rest_results).
          rbind (dispatch_all co env task enriched_snapshot cache2 (tail_probes runs_last_names probes))
            (\<lambda>(cache3, last_results).
              Ok (cache3, record_results last_results (record_results rest_results g1)))))))"

section \<open>Every probe is accounted for\<close>

fun exe_output :: "probe_execution \<Rightarrow> probe_output option" where
  "exe_output (Ran out key) = Some out"
| "exe_output (CacheHit out key) = Some out"
| "exe_output (Skipped reason) = None"

definition consistent :: "string \<times> probe_output option \<times> probe_execution \<Rightarrow> bool" where
  "consistent r \<longleftrightarrow> fst (snd r) = exe_output (snd (snd r))"

lemma consistent_iff [simp]: "consistent (n, out, exe) \<longleftrightarrow> out = exe_output exe"
  by (simp add: consistent_def)

lemma lift_err_Ok [simp]: "lift_err f r = Ok a \<longleftrightarrow> r = Ok a"
  by (cases r) simp_all

lemma lift_err_Err [simp]: "lift_err f r = Err e \<longleftrightarrow> (\<exists>e0. r = Err e0 \<and> e = f e0)"
  by (cases r) auto

text \<open>The four ways a dispatch returns; \<open>ran\<close> covers the run that is cached and the one that is not.\<close>

abbreviation probe_budget :: "probe \<Rightarrow> resource_budget" where
  "probe_budget p \<equiv> (case pb_budget p of Some b \<Rightarrow> b | None \<Rightarrow> default_resource_budget)"

abbreviation probe_timeout :: "probe \<Rightarrow> int" where
  "probe_timeout p \<equiv> min (pb_timeout_seconds p) (rb_wall_clock_s (probe_budget p))"

lemma dispatch_one_cases:
  assumes "dispatch_one co env task s c p = Ok (c', r)"
  obtains (skip) "\<not> pb_applies p s task" "c' = c" "r = (pl_name p, None, Skipped ''applies() returned False'')"
  | (hit) key cached where "pb_applies p s task" "store_key_for (ce_keys env) p s task = Ok key"
      "co_get co c key = Ok (Some cached, c')" "r = (pl_name p, Some cached, CacheHit cached key)"
  | (ran) key c1 run out where "pb_applies p s task" "store_key_for (ce_keys env) p s task = Ok key"
      "co_get co c key = Ok (None, c1)"
      "run_probe_with_isolation p s (rb_raw_artifact_mb (probe_budget p)) (probe_timeout p) = Ok run"
      "scrub (ce_resolve env) (checked_output run (ce_duration_ms env (pl_name p))) (rs_root s) = Ok out"
      "r = (pl_name p, Some out, Ran out key)"
      "if po_errors out = [] then co_put co c1 key out (pl_name p) (pl_version p) = Ok c' else c' = c1"
proof (cases "pb_applies p s task")
  case False
  with assms that(1) show thesis by (simp add: dispatch_one_def)
next
  case True
  from assms True obtain key found c1 where k: "store_key_for (ce_keys env) p s task = Ok key"
    "co_get co c key = Ok (found, c1)"
    by (auto simp: dispatch_one_def rbind_Ok_iff)
  show thesis
  proof (cases found)
    case (Some cached)
    with assms True k that(2) show thesis by (simp add: dispatch_one_def)
  next
    case None
    with assms True k obtain run out where
      a: "run_probe_with_isolation p s (rb_raw_artifact_mb (probe_budget p)) (probe_timeout p) = Ok run"
      and b: "scrub (ce_resolve env) (checked_output run (ce_duration_ms env (pl_name p))) (rs_root s) = Ok out"
      by (simp add: dispatch_one_def Let_def rbind_Ok_iff) blast
    have "(if po_errors out = []
        then rbind (lift_err CacheFailed (co_put co c1 key out (pl_name p) (pl_version p)))
               (\<lambda>cache2. Ok (cache2, pl_name p, Some out, Ran out key))
        else Ok (c1, pl_name p, Some out, Ran out key)) = Ok (c', r)"
      using assms True k None a b by (simp add: dispatch_one_def Let_def)
    then have "r = (pl_name p, Some out, Ran out key) \<and>
        (if po_errors out = [] then co_put co c1 key out (pl_name p) (pl_version p) = Ok c' else c' = c1)"
      by (simp add: rbind_Ok_iff split: if_splits)
    with True k None a b that(3) show thesis by simp
  qed
qed

lemma dispatch_one_result:
  "dispatch_one co env task s c p = Ok (c', r) \<Longrightarrow> fst r = pl_name p \<and> consistent r"
  by (erule dispatch_one_cases) simp_all

lemma dispatch_all_results:
  "dispatch_all co env task s c ps = Ok (c', rs) \<Longrightarrow> map fst rs = map pl_name ps \<and> list_all consistent rs"
proof (induction ps arbitrary: c c' rs)
  case (Cons p ps)
  then obtain c1 r rs' where "dispatch_one co env task s c p = Ok (c1, r)"
    "dispatch_all co env task s c1 ps = Ok (c', rs')" "rs = r # rs'"
    by (auto simp: rbind_Ok_iff)
  with Cons.IH dispatch_one_result show ?case by fastforce
qed simp

definition accounts :: "gather_result \<Rightarrow> string set \<Rightarrow> bool" where
  "accounts g ns \<longleftrightarrow> set (dict_keys (gr_executions g)) = ns \<and>
     dict_wf (gr_executions g) \<and> dict_wf (gr_outputs g) \<and>
     (\<forall>n. dict_get (gr_outputs g) n = Option.bind (dict_get (gr_executions g) n) exe_output)"

lemma accounts_empty [simp]: "accounts \<lparr>gr_outputs = [], gr_executions = []\<rparr> {}"
  by (simp add: accounts_def dict_wf_def)

lemma record_results_accounts:
  "accounts g ns \<Longrightarrow> list_all consistent rs \<Longrightarrow> distinct (map fst rs) \<Longrightarrow> ns \<inter> set (map fst rs) = {} \<Longrightarrow>
   accounts (record_results rs g) (ns \<union> set (map fst rs))"
proof (induction rs g arbitrary: ns rule: record_results.induct)
  case (2 name out exe rs g)
  let ?g = "g\<lparr>gr_executions := dict_set name exe (gr_executions g),
          gr_outputs := (case out of Some o' \<Rightarrow> dict_set name o' (gr_outputs g) | None \<Rightarrow> gr_outputs g)\<rparr>"
  have "name \<notin> set (dict_keys (gr_executions g))" using "2.prems" by (auto simp: accounts_def)
  then have "dict_get (gr_executions g) name = None" by (simp add: map_of_eq_None_iff)
  then have "dict_get (gr_outputs g) name = None" using "2.prems"(1) by (simp add: accounts_def)
  then have "accounts ?g (insert name ns)"
    using "2.prems" by (cases exe) (auto simp: accounts_def dict_get_set dict_wf_set dict_keys_set simp del: set_map)
  from "2.IH" [OF this] "2.prems" show ?case by simp
qed simp

lemma wave_partition:
  "set (map pl_name (prelude_probes runs_last ps)) \<union> set (map pl_name (rest_probes runs_last ps)) \<union>
   set (map pl_name (tail_probes runs_last ps)) = set (map pl_name ps)"
  by (auto simp: prelude_probes_def rest_probes_def tail_probes_def)

lemma wave_distinct:
  assumes "distinct (map pl_name ps)"
  shows "distinct (map pl_name (prelude_probes runs_last ps))" "distinct (map pl_name (rest_probes runs_last ps))"
    "distinct (map pl_name (tail_probes runs_last ps))"
    "set (map pl_name (prelude_probes runs_last ps)) \<inter> set (map pl_name (rest_probes runs_last ps)) = {}"
    "(set (map pl_name (prelude_probes runs_last ps)) \<union> set (map pl_name (rest_probes runs_last ps))) \<inter>
      set (map pl_name (tail_probes runs_last ps)) = {}"
  using assms
  by (auto simp: prelude_probes_def rest_probes_def tail_probes_def distinct_map inj_on_def)

lemma gather_split:
  assumes "gather co env snapshot task probes cache runs_last = Ok (cache', g)" and "probes \<noteq> []"
  shows "\<exists>c1 c2 r1 r2 r3 m.
    dispatch_all co env task snapshot cache (prelude_probes runs_last probes) = Ok (c1, r1) \<and>
    merge_counts env r1 [] = Ok m \<and>
    dispatch_all co env task (snapshot\<lparr>rs_detected_languages := m\<rparr>) c1 (rest_probes runs_last probes) = Ok (c2, r2) \<and>
    dispatch_all co env task (snapshot\<lparr>rs_detected_languages := m\<rparr>) c2 (tail_probes runs_last probes) = Ok (cache', r3) \<and>
    g = record_results r3 (record_results r2 (record_results r1 \<lparr>gr_outputs = [], gr_executions = []\<rparr>))"
  using assms by (auto simp: gather_def rbind_Ok_iff Let_def)

section \<open>What can make a gather raise\<close>

lemma build_failure_valid: "validate_output (po_schema_slice (build_failure_output e d)) (po_confidence (build_failure_output e d)) = Valid"
  by (simp add: build_failure_output_def validate_output_def walk_and_enforce_def)

lemma checked_valid:
  "validate_output (po_schema_slice (checked_output r d)) (po_confidence (checked_output r d)) = Valid"
  using build_failure_valid by (auto simp: checked_output_def Let_def split: sum.split)

text \<open>The sanitizer cannot refuse what passed the validator; only an illegal root makes it raise.\<close>

lemma scrub_checked_Err:
  "scrub resolve (checked_output r d) root = Err e \<Longrightarrow> validate_repo_root resolve root = Err e"
proof (cases "validate_repo_root resolve root")
  case (Inr root')
  then have v: "validate_repo_root resolve root = Ok root" by (simp add: validate_repo_root_def split: if_splits)
  assume "scrub resolve (checked_output r d) root = Err e"
  moreover from scrub_total_on_validated [OF checked_valid v] obtain out where "scrub resolve (checked_output r d) root = Ok out"
    by blast
  ultimately show ?thesis by simp
qed (simp add: scrub_def)

text \<open>Where an error of a dispatch comes from.\<close>

fun error_origin :: "'c cache_ops \<Rightarrow> coordinator_env \<Rightarrow> task \<Rightarrow> string \<Rightarrow> probe set \<Rightarrow> gather_error \<Rightarrow> bool" where
  "error_origin co env task root ps Interrupted \<longleftrightarrow>
     (\<exists>p \<in> ps. \<exists>s mb t. pb_run p s mb t = RunInterrupted)"
| "error_origin co env task root ps (KeyFailed e) \<longleftrightarrow>
     (\<exists>p \<in> ps. \<exists>s. store_key_for (ce_keys env) p s task = Err e)"
| "error_origin co env task root ps (CacheFailed e) \<longleftrightarrow>
     (\<exists>c k. co_get co c k = Err e \<or> (\<exists>out n v. po_errors out = [] \<and> co_put co c k out n v = Err e))"
| "error_origin co env task root ps (ScrubFailed e) \<longleftrightarrow> validate_repo_root (ce_resolve env) root = Err e"
| "error_origin co env task root ps IntConversionError \<longleftrightarrow> False"

lemma run_isolation_Err: "run_probe_with_isolation p s mb t = Err e \<Longrightarrow> e = Interrupted \<and> pb_run p s mb t = RunInterrupted"
  by (simp add: run_probe_with_isolation_def split: run_result.splits)

lemma dispatch_one_origin:
  assumes "dispatch_one co env task s c p = Err e" and "p \<in> ps"
  shows "error_origin co env task (rs_root s) ps e"
proof -
  from assms(1) have a: "pb_applies p s task" by (simp add: dispatch_one_def split: if_splits)
  show ?thesis
  proof (cases "store_key_for (ce_keys env) p s task")
    case (Inl ke)
    with assms a have "e = KeyFailed ke" by (simp add: dispatch_one_def)
    with Inl assms(2) show ?thesis by (simp only: error_origin.simps) blast
  next
    case (Inr key)
    note key = Inr
    show ?thesis
    proof (cases "co_get co c key")
      case (Inl ce)
      with assms a key have "e = CacheFailed ce" by (simp add: dispatch_one_def)
      with Inl show ?thesis by (simp only: error_origin.simps) blast
    next
      case (Inr fc)
      then obtain found c1 where g: "co_get co c key = Ok (found, c1)" by (cases fc) auto
      with assms(1) a key have found: "found = None" by (cases found) (simp_all add: dispatch_one_def)
      let ?run = "run_probe_with_isolation p s (rb_raw_artifact_mb (probe_budget p)) (probe_timeout p)"
      show ?thesis
      proof (cases ?run)
        case (Inl re)
        with assms(1) a key g found have "e = re" by (simp add: dispatch_one_def Let_def)
        with run_isolation_Err [OF Inl] assms(2) show ?thesis by auto
      next
        case (Inr run)
        let ?scrub = "scrub (ce_resolve env) (checked_output run (ce_duration_ms env (pl_name p))) (rs_root s)"
        show ?thesis
        proof (cases ?scrub)
          case (Inl se)
          with assms(1) a key g found \<open>?run = Inr run\<close> have "e = ScrubFailed se"
            by (simp add: dispatch_one_def Let_def)
          with scrub_checked_Err [OF Inl] show ?thesis by simp
        next
          case (Inr out)
          with assms(1) a key g found \<open>?run = Inr run\<close> have "po_errors out = [] \<and>
              (\<exists>ce. co_put co c1 key out (pl_name p) (pl_version p) = Err ce \<and> e = CacheFailed ce)"
            by (auto simp: dispatch_one_def Let_def rbind_Err_iff split: if_splits)
          then show ?thesis by (elim conjE exE) (simp only: error_origin.simps, blast)
        qed
      qed
    qed
  qed
qed

lemma dispatch_all_origin:
  "dispatch_all co env task s c ps = Err e \<Longrightarrow> set ps \<subseteq> P \<Longrightarrow> error_origin co env task (rs_root s) P e"
proof (induction ps arbitrary: c)
  case (Cons p ps)
  show ?case
  proof (cases "dispatch_one co env task s c p")
    case (Inl e')
    with Cons.prems dispatch_one_origin [OF Inl] show ?thesis by simp
  next
    case (Inr cr)
    with Cons.prems have "\<exists>c1. dispatch_all co env task s c1 ps = Err e"
      by (auto simp: rbind_Err_iff split: prod.splits)
    with Cons.IH Cons.prems(2) show ?thesis by auto
  qed
qed simp

text \<open>The counts of one result, and the merge as a fold over them.\<close>

definition run_counts ::
  "coordinator_env \<Rightarrow> string \<times> probe_output option \<times> probe_execution \<Rightarrow> gather_error + (string, int) dict" where
  "run_counts env r =
     (case (snd (snd r), fst (snd r)) of
        (Ran _ _, Some out) \<Rightarrow>
          (if po_errors out \<noteq> [] then Ok []
           else rbind (extract_language_counts env (po_schema_slice out)) (\<lambda>c. Ok (case c of Some c \<Rightarrow> c | None \<Rightarrow> [])))
      | _ \<Rightarrow> Ok [])"

lemma dict_merge_Nil [simp]: "dict_merge d [] = d"
  by (simp add: dict_merge_def)

lemma merge_counts_Cons:
  "merge_counts env (r # rs) merged = rbind (run_counts env r) (\<lambda>c. merge_counts env rs (dict_merge merged c))"
proof -
  obtain name out exe where r: "r = (name, out, exe)" by (cases r) auto
  show ?thesis
  proof (cases "\<exists>o2 k o'. exe = Ran o2 k \<and> out = Some o'")
    case True
    then obtain o2 k o' where e: "exe = Ran o2 k" "out = Some o'" by blast
    show ?thesis
    proof (cases "extract_language_counts env (po_schema_slice o')")
      case (Inr c)
      with e show ?thesis by (cases c) (simp_all add: r run_counts_def)
    qed (use e in \<open>simp add: r run_counts_def\<close>)
  next
    case False
    then show ?thesis by (cases exe; cases out) (simp_all add: r run_counts_def)
  qed
qed

lemma run_counts_Err: "run_counts env r = Err e \<Longrightarrow> e = IntConversionError"
proof -
  have i: "int_items env kvs = Err e' \<Longrightarrow> e' = IntConversionError" for kvs e'
    by (induction kvs) (auto simp: rbind_Err_iff split: option.splits)
  have "extract_language_counts env sl = Err e' \<Longrightarrow> e' = IntConversionError" for sl e'
    by (auto simp: extract_language_counts_def rbind_Err_iff dest: i split: pv.splits option.splits if_splits)
  then show "run_counts env r = Err e \<Longrightarrow> e = IntConversionError"
    by (auto simp: run_counts_def rbind_Err_iff split: probe_execution.splits option.splits if_splits)
qed

lemma merge_counts_Err: "merge_counts env rs m = Err e \<Longrightarrow> e = IntConversionError"
proof (induction rs arbitrary: m)
  case (Cons r rs)
  then show ?case
    using run_counts_Err [of env r e] by (auto simp: merge_counts_Cons rbind_Err_iff simp del: merge_counts.simps(2))
qed simp

lemma gather_Err:
  assumes "gather co env snapshot task probes cache runs_last = Err e"
  shows "e = IntConversionError \<or> error_origin co env task (rs_root snapshot) (set probes) e"
proof -
  have sub: "set (prelude_probes runs_last probes) \<subseteq> set probes" "set (rest_probes runs_last probes) \<subseteq> set probes"
    "set (tail_probes runs_last probes) \<subseteq> set probes"
    by (auto simp: prelude_probes_def rest_probes_def tail_probes_def)
  have o': "error_origin co env task (rs_root snapshot) (set probes) e"
    if "dispatch_all co env task (snapshot\<lparr>rs_detected_languages := m\<rparr>) c ps = Err e" "set ps \<subseteq> set probes" for m c ps
    using dispatch_all_origin [OF that] by simp
  from assms have "dispatch_all co env task snapshot cache (prelude_probes runs_last probes) = Err e \<or>
      (\<exists>rs. merge_counts env rs [] = Err e) \<or>
      (\<exists>m c. dispatch_all co env task (snapshot\<lparr>rs_detected_languages := m\<rparr>) c (rest_probes runs_last probes) = Err e) \<or>
      (\<exists>m c. dispatch_all co env task (snapshot\<lparr>rs_detected_languages := m\<rparr>) c (tail_probes runs_last probes) = Err e)"
    by (auto simp: gather_def rbind_Err_iff Let_def split: if_splits)
  then show ?thesis
    using dispatch_all_origin [OF _ sub(1), of co env task snapshot cache e] merge_counts_Err
      o' [OF _ sub(2)] o' [OF _ sub(3)] by blast
qed

section \<open>What the first wave contributes\<close>

text \<open>The last error-free run of the wave that reports a language decides its count.\<close>

lemma merge_counts_fold:
  "merge_counts env rs merged = Ok m \<Longrightarrow>
   \<exists>cs. map (run_counts env) rs = map Ok cs \<and> m = fold (\<lambda>c d. dict_merge d c) cs merged"
proof (induction rs arbitrary: merged)
  case (Cons r rs)
  then obtain c where c: "run_counts env r = Ok c" and m: "merge_counts env rs (dict_merge merged c) = Ok m"
    by (auto simp: merge_counts_Cons rbind_Ok_iff simp del: merge_counts.simps(2))
  from Cons.IH [OF m] obtain cs where "map (run_counts env) rs = map Ok cs"
    "m = fold (\<lambda>c d. dict_merge d c) cs (dict_merge merged c)" by blast
  with c show ?case by (intro exI [of _ "c # cs"]) simp
qed simp

lemma not_run_no_counts: "\<nexists>out key. snd (snd r) = Ran out key \<Longrightarrow> run_counts env r = Ok []"
  by (cases "snd (snd r)") (auto simp: run_counts_def)

lemma no_runs_no_counts:
  "list_all (\<lambda>r. \<nexists>out key. snd (snd r) = Ran out key) rs \<Longrightarrow> merge_counts env rs merged = Ok merged"
  by (induction rs) (simp_all add: merge_counts_Cons not_run_no_counts del: merge_counts.simps(2))

section \<open>Over any cache that keeps the contract\<close>

definition make_ops ::
  "('c \<Rightarrow> string \<Rightarrow> cache_error + (probe_output option \<times> 'c)) \<Rightarrow>
   ('c \<Rightarrow> string \<Rightarrow> probe_output \<Rightarrow> string \<Rightarrow> string \<Rightarrow> cache_error + 'c) \<Rightarrow> 'c cache_ops" where
  "make_ops g p = \<lparr>co_get = g, co_put = p\<rparr>"

lemma make_ops_simps [simp]: "co_get (make_ops g p) = g" "co_put (make_ops g p) = p"
  by (simp_all add: make_ops_def)

context result_cache
begin

lemma get_obs: "cinv c \<Longrightarrow> get c k = Ok (found, c1) \<Longrightarrow>
  found = obs c k \<and> cinv c1 \<and> obs c1 = obs c \<and> can_store c1 = can_store c"
  using get_law [of c k] by auto

text \<open>A run without errors is found by the next dispatch of the probe on the same snapshot.\<close>

lemma run_is_hit:
  assumes c: "cinv c" and d: "dispatch_one (make_ops get put) env task s c p = Ok (c', n, out, Ran po key)"
    and e: "po_errors po = []" and sto: "can_store c key po (pl_name p) (pl_version p)"
  shows "cinv c' \<and> (\<exists>c''. dispatch_one (make_ops get put) env task s c' p =
    Ok (c'', n, Some (restored po), CacheHit (restored po) key))"
  using d
proof (cases rule: dispatch_one_cases)
  case (ran key' c1 run out')
  then have eq: "key' = key" "out' = po" "n = pl_name p" by simp_all
  from get_obs [OF c] ran(3) have c1: "cinv c1" "can_store c1 = can_store c" by auto
  from ran(7) e eq have p: "put c1 key po (pl_name p) (pl_version p) = Ok c'" by simp
  have "can_store c1 key po (pl_name p) (pl_version p)" using sto c1(2) by simp
  from put_law [OF c1(1) this] p have c': "cinv c'" "obs c' key = Some (restored po)" by auto
  from get_law [OF c'(1), of key] obtain c'' where "get c' key = Ok (obs c' key, c'')" by blast
  with c' ran(1,2) eq show ?thesis by (simp add: dispatch_one_def)
qed simp_all

text \<open>A dispatch that does not run without errors leaves every answer of the cache as it was.\<close>

lemma no_caching_of_failures:
  assumes c: "cinv c" and d: "dispatch_one (make_ops get put) env task s c p = Ok (c', n, out, exe)"
    and e: "\<And>po key. exe = Ran po key \<Longrightarrow> po_errors po \<noteq> []"
  shows "cinv c' \<and> obs c' = obs c"
  using d
proof (cases rule: dispatch_one_cases)
  case skip
  with c show ?thesis by simp
next
  case (hit key cached)
  with get_obs [OF c] show ?thesis by auto
next
  case (ran key c1 run out')
  then have "po_errors out' \<noteq> []" using e by simp
  with ran(7) have "c' = c1" by simp
  with get_obs [OF c] ran(3) show ?thesis by auto
qed

end

section \<open>Properties\<close>

text \<open>Example values.\<close>

definition sample_keys :: key_env where
  "sample_keys = \<lparr>ke_schema_file = (\<lambda>_. Some ''{}''), ke_loads = (\<lambda>_. Some (JObj [(''$id'', JStr ''v1'')])),
     ke_str = (\<lambda>_. []), ke_rglob = (\<lambda>_ _. []), ke_exists = (\<lambda>_. True), ke_size = (\<lambda>_. Some 0),
     ke_blake3 = (\<lambda>_. ''0''), ke_sha256 = (\<lambda>_. ''k'')\<rparr>"

definition sample_env :: coordinator_env where
  "sample_env = \<lparr>ce_keys = sample_keys, ce_resolve = id, ce_duration_ms = (\<lambda>_. 3), ce_int_of_text = (\<lambda>_. None)\<rparr>"

definition sample_probe :: "run_result \<Rightarrow> probe" where
  "sample_probe res = \<lparr>pl_name = ''p'', pl_version = ''1'', pl_declared_inputs = [], pb_tier = Some ''base'',
     pb_timeout_seconds = 30, pb_budget = None, pb_applies = (\<lambda>_ _. True), pb_run = (\<lambda>_ _ _. res)\<rparr>"

definition sample_snapshot :: repo_snapshot where
  "sample_snapshot = \<lparr>rs_root = ''/r'', rs_git_commit = None, rs_detected_languages = [(''python'', 3)], rs_config = []\<rparr>"

definition sample_task :: task where
  "sample_task = \<lparr>tk_type = ''t'', tk_options = []\<rparr>"

text \<open>C4. Nothing is lost: when \<open>gather\<close> returns, there is exactly one execution for every probe that was
  passed, whatever its wave and however it ended, and the outputs are exactly those of the
  executions that ran or were answered from the cache.\<close>

theorem gather_accounts_for_all:
  assumes "gather co env snapshot task probes cache runs_last = Ok (cache', g)"
    and "distinct (map pl_name probes)"
  shows "set (dict_keys (gr_executions g)) = set (map pl_name probes) \<and> dict_wf (gr_executions g) \<and>
    dict_wf (gr_outputs g) \<and>
    (\<forall>n. dict_get (gr_outputs g) n = Option.bind (dict_get (gr_executions g) n) exe_output)"
proof (cases "probes = []")
  case True
  with assms(1) show ?thesis by (auto simp: gather_def dict_wf_def)
next
  case False
  from gather_split [OF assms(1) False] obtain c1 c2 r1 r2 r3 m where
    d: "dispatch_all co env task snapshot cache (prelude_probes runs_last probes) = Ok (c1, r1)"
    "dispatch_all co env task (snapshot\<lparr>rs_detected_languages := m\<rparr>) c1 (rest_probes runs_last probes) = Ok (c2, r2)"
    "dispatch_all co env task (snapshot\<lparr>rs_detected_languages := m\<rparr>) c2 (tail_probes runs_last probes) = Ok (cache', r3)"
    and g: "g = record_results r3 (record_results r2 (record_results r1 \<lparr>gr_outputs = [], gr_executions = []\<rparr>))"
    by blast
  note r = d [THEN dispatch_all_results]
  note w = wave_distinct [OF assms(2), of runs_last]
  have "accounts (record_results r1 \<lparr>gr_outputs = [], gr_executions = []\<rparr>) ({} \<union> set (map fst r1))"
    using r(1) w(1) by (intro record_results_accounts) (simp_all del: set_map)
  then have "accounts (record_results r2 (record_results r1 \<lparr>gr_outputs = [], gr_executions = []\<rparr>))
      (({} \<union> set (map fst r1)) \<union> set (map fst r2))"
    using r w by (intro record_results_accounts) (simp_all del: set_map)
  then have "accounts g (({} \<union> set (map fst r1)) \<union> set (map fst r2) \<union> set (map fst r3))"
    unfolding g using r w by (intro record_results_accounts) (simp_all del: set_map)
  then show ?thesis using r wave_partition [of runs_last probes] by (simp add: accounts_def del: set_map)
qed

lemma sample_timeout_gather:
  "gather (make_ops (cache_get sample_lib 0) (cache_put sample_lib 0)) sample_env sample_snapshot sample_task
     [sample_probe RunTimeout] (cache_init 1 None []) [] =
     Ok (cache_init 1 None [], \<lparr>gr_outputs = [(''p'', build_failure_output ''timeout: 30s'' 3)],
       gr_executions = [(''p'', Ran (build_failure_output ''timeout: 30s'' 3) ''sha256:k'')]\<rparr>)"
  by code_simp

lemma gather_accounts_for_all_witness:
  "dict_get [(''p'', build_failure_output ''timeout: 30s'' 3)] ''p'' =
   Option.bind (dict_get [(''p'', Ran (build_failure_output ''timeout: 30s'' 3) ''sha256:k'')] ''p'') exe_output"
  using gather_accounts_for_all [OF sample_timeout_gather] by (simp add: sample_probe_def)

text \<open>What can make \<open>gather\<close> raise: an interrupt of a probe's run, a key that cannot be computed, an
  error of the cache itself, an illegal root, or counts that are not integers. A probe that times
  out, exceeds its budget, raises, or returns an output the validator refuses never does, and
  neither does the sanitizer on the result.\<close>

theorem gather_raises_only:
  assumes "gather co env snapshot task probes cache runs_last = Err e"
  shows "e = IntConversionError \<or> error_origin co env task (rs_root snapshot) (set probes) e"
  by (rule gather_Err [OF assms])

lemma gather_raises_only_witness:
  "error_origin (make_ops (cache_get sample_lib 0) (cache_put sample_lib 0)) sample_env sample_task ''/r''
     {sample_probe RunInterrupted} Interrupted"
proof -
  have "gather (make_ops (cache_get sample_lib 0) (cache_put sample_lib 0)) sample_env sample_snapshot sample_task
     [sample_probe RunInterrupted] (cache_init 1 None []) [] = Err Interrupted"
    by code_simp
  from gather_raises_only [OF this] show ?thesis by (simp add: sample_snapshot_def)
qed

text \<open>C28. Failures are isolated and never cached: with the real store, a dispatch whose result is not an
  error-free run leaves every answer of the cache as it was, and when a run is handled as a failure
  (timeout, budget, exception, rejected output) the probe's output is the failure output with that one error,
  after path scrubbing.\<close>

theorem failures_not_cached:
  assumes "cache_inv lib st \<and> 1 \<le> cs_ttl_hours st"
    and "dispatch_one (make_ops (cache_get lib now) (cache_put lib now)) env task s st p = Ok (st', n, out, exe)"
    and "\<forall>po key. exe = Ran po key \<longrightarrow> po_errors po \<noteq> []"
  shows "cache_inv lib st' \<and> cache_obs lib now st' = cache_obs lib now st \<and>
    (\<forall>po key msg. exe = Ran po key \<and>
       run_probe_with_isolation p s (rb_raw_artifact_mb (probe_budget p)) (probe_timeout p) = Ok (Inl msg) \<longrightarrow>
       po_schema_slice po = [] \<and> po_confidence po = ''low'' \<and> po_raw_artifacts po = [] \<and>
       po_errors po = [fst (scrub_string (path_regex (rs_root s)) msg)])"
proof -
  have a: "cache_inv lib st' \<and> cache_obs lib now st' = cache_obs lib now st"
    using store.no_caching_of_failures [OF assms(1,2)] assms(3) by blast
  have "po_schema_slice po = [] \<and> po_confidence po = ''low'' \<and> po_raw_artifacts po = [] \<and>
       po_errors po = [fst (scrub_string (path_regex (rs_root s)) msg)]"
    if e: "exe = Ran po key" and m: "run_probe_with_isolation p s (rb_raw_artifact_mb (probe_budget p)) (probe_timeout p) = Ok (Inl msg)"
    for po key msg
    using assms(2)
  proof (cases rule: dispatch_one_cases)
    case (ran key' c1 run out')
    with e m have "scrub (ce_resolve env) (build_failure_output msg (ce_duration_ms env (pl_name p))) (rs_root s) = Ok po"
      by (simp add: checked_output_def)
    then show ?thesis
      by (auto simp: scrub_def build_failure_output_def rbind_Ok_iff validate_repo_root_def scrub_items_def Let_def
          split: if_splits)
  qed (use e in simp_all)
  with a show ?thesis by blast
qed

lemma failures_not_cached_witness:
  "cache_obs sample_lib 0 (cache_init 1 None []) = cache_obs sample_lib 0 (cache_init 1 None []) \<and>
   po_errors (build_failure_output ''timeout: 30s'' 3) = [fst (scrub_string (path_regex ''/r'') ''timeout: 30s'')]"
proof -
  have i: "cache_inv sample_lib (cache_init 1 None []) \<and> 1 \<le> cs_ttl_hours (cache_init 1 None [])"
    by (simp add: sample_inv) (simp add: cache_init_def)
  have d: "dispatch_one (make_ops (cache_get sample_lib 0) (cache_put sample_lib 0)) sample_env sample_task sample_snapshot
     (cache_init 1 None []) (sample_probe RunTimeout) = Ok (cache_init 1 None [], ''p'',
       Some (build_failure_output ''timeout: 30s'' 3), Ran (build_failure_output ''timeout: 30s'' 3) ''sha256:k'')"
    by code_simp
  have r: "run_probe_with_isolation (sample_probe RunTimeout) sample_snapshot
      (rb_raw_artifact_mb (probe_budget (sample_probe RunTimeout))) (probe_timeout (sample_probe RunTimeout)) =
      Ok (Inl ''timeout: 30s'')"
    by code_simp
  from failures_not_cached [OF i d] r show ?thesis
    by (simp add: build_failure_output_def sample_snapshot_def)
qed

text \<open>A warm cache answers: with the real store, after an error-free run whose output can be stored,
  the next dispatch of the same probe on the same snapshot does not run it but answers with the
  stored output (its dictionaries' keys sorted) under the same key.\<close>

theorem warm_dispatch_hits:
  assumes "cache_inv lib st \<and> 1 \<le> cs_ttl_hours st"
    and "dispatch_one (make_ops (cache_get lib now) (cache_put lib now)) env task s st p = Ok (st', n, out, Ran po key)"
    and "po_errors po = []" and "storable lib now st key po (pl_name p) (pl_version p)"
  shows "\<exists>st''. dispatch_one (make_ops (cache_get lib now) (cache_put lib now)) env task s st' p =
    Ok (st'', n, Some (norm_output po), CacheHit (norm_output po) key)"
  using store.run_is_hit [OF assms] by blast

lemma warm_dispatch_hits_witness:
  "\<exists>st' st''. dispatch_one (make_ops (cache_get sample_lib 7000000) (cache_put sample_lib 7000000)) sample_env
      sample_task sample_snapshot st' (sample_probe (RunReturned sample_output)) =
    Ok (st'', ''p'', Some (norm_output sample_output), CacheHit (norm_output sample_output) ''sha256:k'')"
proof -
  have i: "cache_inv sample_lib (cache_init 1 None []) \<and> 1 \<le> cs_ttl_hours (cache_init 1 None [])"
    by (simp add: sample_inv) (simp add: cache_init_def)
  obtain st' where p: "cache_put sample_lib 7000000 (cache_init 1 None []) ''sha256:k'' sample_output ''p'' ''1'' = Ok st'"
    using put_lookup [OF sample_inv sample_storable] by blast
  have key: "store_key_for (ce_keys sample_env) (sample_probe (RunReturned sample_output)) sample_snapshot sample_task =
      Ok ''sha256:k''"
    by code_simp
  have scr: "scrub (ce_resolve sample_env) (checked_output (Inr sample_output) (ce_duration_ms sample_env ''p''))
      (rs_root sample_snapshot) = Ok sample_output"
    by code_simp
  have "dispatch_one (make_ops (cache_get sample_lib 7000000) (cache_put sample_lib 7000000)) sample_env sample_task
     sample_snapshot (cache_init 1 None []) (sample_probe (RunReturned sample_output)) =
     Ok (st', ''p'', Some sample_output, Ran sample_output ''sha256:k'')"
    unfolding dispatch_one_def key using p scr
    by (simp add: sample_probe_def cache_get_def cache_init_def run_probe_with_isolation_def Let_def)
      (simp add: sample_output_def)
  from warm_dispatch_hits [OF i this] sample_storable show ?thesis
    by (auto simp: sample_output_def sample_probe_def)
qed

text \<open>The languages the later waves see: the union, the last writer winning, of the counts of the
  prelude probes that ran without errors, and of nothing else. So when every prelude probe was answered from
  the cache (or skipped) the later waves see no languages at all, although the outputs are there
  and although the snapshot passed in may have had some.\<close>

theorem later_waves_languages:
  assumes "gather co env snapshot task probes cache runs_last = Ok (cache', g)" and "probes \<noteq> []"
  shows "\<exists>c1 c2 r1 r2 r3 langs cs.
    dispatch_all co env task snapshot cache (prelude_probes runs_last probes) = Ok (c1, r1) \<and>
    map (run_counts env) r1 = map Ok cs \<and> langs = fold (\<lambda>c d. dict_merge d c) cs [] \<and>
    (list_all (\<lambda>r. \<nexists>out key. snd (snd r) = Ran out key) r1 \<longrightarrow> langs = []) \<and>
    dispatch_all co env task (snapshot\<lparr>rs_detected_languages := langs\<rparr>) c1 (rest_probes runs_last probes) = Ok (c2, r2) \<and>
    dispatch_all co env task (snapshot\<lparr>rs_detected_languages := langs\<rparr>) c2 (tail_probes runs_last probes) = Ok (cache', r3)"
proof -
  from gather_split [OF assms] obtain c1 c2 r1 r2 r3 m where
    d: "dispatch_all co env task snapshot cache (prelude_probes runs_last probes) = Ok (c1, r1)"
    "dispatch_all co env task (snapshot\<lparr>rs_detected_languages := m\<rparr>) c1 (rest_probes runs_last probes) = Ok (c2, r2)"
    "dispatch_all co env task (snapshot\<lparr>rs_detected_languages := m\<rparr>) c2 (tail_probes runs_last probes) = Ok (cache', r3)"
    and m: "merge_counts env r1 [] = Ok m" by blast
  from merge_counts_fold [OF m] obtain cs where "map (run_counts env) r1 = map Ok cs" "m = fold (\<lambda>c d. dict_merge d c) cs []"
    by blast
  moreover have "list_all (\<lambda>r. \<nexists>out key. snd (snd r) = Ran out key) r1 \<longrightarrow> m = []"
    using no_runs_no_counts [of r1 env "[]"] m by auto
  ultimately show ?thesis using d by blast
qed

lemma later_waves_languages_witness:
  "\<exists>c1 r1 cs. dispatch_all (make_ops (cache_get sample_lib 0) (cache_put sample_lib 0)) sample_env sample_task
      sample_snapshot (cache_init 1 None []) (prelude_probes [] [sample_probe RunTimeout]) = Ok (c1, r1) \<and>
    map (run_counts sample_env) r1 = map Ok cs \<and> length r1 = length cs"
proof -
  from later_waves_languages [OF sample_timeout_gather] obtain c1 r1 cs where
    "dispatch_all (make_ops (cache_get sample_lib 0) (cache_put sample_lib 0)) sample_env sample_task
      sample_snapshot (cache_init 1 None []) (prelude_probes [] [sample_probe RunTimeout]) = Ok (c1, r1)"
    "map (run_counts sample_env) r1 = map Ok cs" by blast
  moreover from this(2) have "length r1 = length cs" by (metis length_map)
  ultimately show ?thesis by blast
qed

end
