(* ===== verification/Emission.thy ===== *)
theory Emission
  imports Event_Replay
begin

text \<open>
  How the components emit: an event built with the log's workflow id, a fresh event id and the current
  time, handed to \<open>EventLog.emit_internal\<close>. The ids and times are draws from outside. Emitting an
  internal event never fails, and a list of emissions is a history of the log (\<open>all_logged_emits\<close>).
\<close>

record event_draw =
  ed_event_id :: string
  ed_timestamp :: int
  ed_now :: int

definition drawn_event :: "string \<Rightarrow> event_draw \<times> internal_payload \<Rightarrow> int \<times> workflow_event" where
  "drawn_event workflow_id = (\<lambda>(d, payload).
     (ed_now d, InternalEvent \<lparr>ie_header = \<lparr>eh_event_id = ed_event_id d, eh_workflow_id = workflow_id,
        eh_timestamp = ed_timestamp d\<rparr>, ie_payload = payload\<rparr>))"

definition emit_drawn ::
  "event_lib \<Rightarrow> 'i sink_ops \<Rightarrow> event_draw \<times> internal_payload \<Rightarrow> ('i, 's) event_log \<Rightarrow> (log_error + unit) \<times> ('i, 's) event_log" where
  "emit_drawn lib io x lg =
     (let (now, e) = drawn_event (lg_workflow_id lg) x in
      case emit_internal lib io now lg e of
        Inl er \<Rightarrow> (Err er, lg)
      | Inr (lg', _) \<Rightarrow> (Ok (), lg'))"

definition all_logged ::
  "event_lib \<Rightarrow> 'i sink_ops \<Rightarrow> ('i, 's) event_log \<Rightarrow> (event_draw \<times> internal_payload) list \<Rightarrow> ('i, 's) event_log" where
  "all_logged lib io lg xs = foldl (\<lambda>l x. snd (emit_drawn lib io x l)) lg xs"

lemma emit_drawn_ok: "emit_drawn lib io x lg = (Ok (), all_logged lib io lg [x])"
  by (cases x) (simp add: all_logged_def emit_drawn_def drawn_event_def emit_internal_def Let_def)

lemma all_logged_simps [simp]:
  "all_logged lib io lg [] = lg"
  "all_logged lib io lg (xs @ ys) = all_logged lib io (all_logged lib io lg xs) ys"
  by (simp_all add: all_logged_def)

lemma all_logged_Cons: "all_logged lib io lg (x # xs) = all_logged lib io (all_logged lib io lg [x]) xs"
  by (simp add: all_logged_def)

lemma all_logged_workflow [simp]: "lg_workflow_id (all_logged lib io lg xs) = lg_workflow_id lg"
proof (induction xs arbitrary: lg)
  case (Cons x xs)
  have "lg_workflow_id (all_logged lib io lg [x]) = lg_workflow_id lg"
    by (cases x) (simp add: all_logged_def emit_drawn_def drawn_event_def emit_internal_def Let_def)
  with Cons show ?case by (simp add: all_logged_Cons [of lib io lg x xs])
qed simp

lemma all_logged_emits:
  "emit_all lib io so lg (map (drawn_event (lg_workflow_id lg)) xs) = Ok (all_logged lib io lg xs)"
proof (induction xs arbitrary: lg)
  case (Cons x xs)
  obtain d p where x: "x = (d, p)" by (cases x)
  have "emit_internal lib io (ed_now d) lg (snd (drawn_event (lg_workflow_id lg) x))
      = Ok (all_logged lib io lg [x], ed_event_id d)"
    by (simp add: x all_logged_def emit_drawn_def drawn_event_def emit_internal_def Let_def
        stamp_internal_def stamp_header_def)
  with Cons.IH [of "all_logged lib io lg [x]"] show ?case
    by (simp add: x drawn_event_def all_logged_Cons [of lib io lg "(d, p)" xs])
qed simp

section \<open>Steps over the log\<close>

text \<open>A computation over the log and the number of draws made: a result or an error, and the state it
  leaves. \<open>andThen\<close> runs a second one on the result of the first.\<close>

type_synonym ('e, 'a, 'l) act = "'l \<times> nat \<Rightarrow> ('e + 'a) \<times> ('l \<times> nat)"

definition andThen :: "('e, 'a, 'l) act \<Rightarrow> ('a \<Rightarrow> ('e, 'b, 'l) act) \<Rightarrow> ('e, 'b, 'l) act" where
  "andThen m f st = (case m st of (Inl e, st') \<Rightarrow> (Err e, st') | (Inr a, st') \<Rightarrow> f a st')"

definition return_act :: "'a \<Rightarrow> ('e, 'a, 'l) act" where
  "return_act a st = (Ok a, st)"

text \<open>Emit one payload, with the next draw.\<close>

definition say ::
  "event_lib \<Rightarrow> 'i sink_ops \<Rightarrow> (nat \<Rightarrow> event_draw) \<Rightarrow> (log_error \<Rightarrow> 'e) \<Rightarrow> internal_payload
     \<Rightarrow> ('e, unit, ('i, 's) event_log) act" where
  "say lib io ds er p st =
     (case emit_drawn lib io (ds (snd st), p) (fst st) of
        (Inl e, lg') \<Rightarrow> (Err (er e), (lg', Suc (snd st)))
      | (Inr _, lg') \<Rightarrow> (Ok (), (lg', Suc (snd st))))"

text \<open>\<open>does m a ps\<close>: the computation succeeds with \<open>a\<close> from any state and logs exactly \<open>ps\<close>.\<close>

definition drawn_from :: "(nat \<Rightarrow> event_draw) \<Rightarrow> nat \<Rightarrow> internal_payload list \<Rightarrow> (event_draw \<times> internal_payload) list" where
  "drawn_from ds n ps = zip (map ds [n..<n + length ps]) ps"

definition does ::
  "event_lib \<Rightarrow> 'i sink_ops \<Rightarrow> (nat \<Rightarrow> event_draw) \<Rightarrow> ('e, 'a, ('i, 's) event_log) act \<Rightarrow> 'a
     \<Rightarrow> internal_payload list \<Rightarrow> bool" where
  "does lib io ds m a ps \<longleftrightarrow>
     (\<forall>lg n. m (lg, n) = (Ok a, (all_logged lib io lg (drawn_from ds n ps), n + length ps)))"

named_theorems steps "what the composed computations log"

lemma drawn_from_append: "drawn_from ds n (ps @ qs) = drawn_from ds n ps @ drawn_from ds (n + length ps) qs"
proof -
  have "[n..<n + length (ps @ qs)] = [n..<n + length ps] @ [n + length ps..<n + length ps + length qs]"
    using upt_add_eq_append [of n "n + length ps" "length qs"] by (simp add: add.assoc)
  then show ?thesis by (simp add: drawn_from_def)
qed

lemma does_return [steps]: "does lib io ds (return_act a) a []"
  by (simp add: does_def return_act_def drawn_from_def)

lemma does_say [steps]: "does lib io ds (say lib io ds er p) () [p]"
  by (simp add: does_def say_def emit_drawn_ok drawn_from_def)

lemma does_andThen [steps]:
  "does lib io ds m a ps \<Longrightarrow> does lib io ds (f a) b qs \<Longrightarrow> does lib io ds (andThen m f) b (ps @ qs)"
  by (simp add: does_def andThen_def drawn_from_append)

lemma doesD:
  "does lib io ds m a ps \<Longrightarrow> m (lg, n) = (Ok a, (all_logged lib io lg (drawn_from ds n ps), n + length ps))"
  by (simp add: does_def)

lemma does_emits:
  assumes "does lib io ds m a ps"
  shows "\<exists>lg'. m (lg, 0) = (Ok a, (lg', length ps)) \<and>
    emit_all lib io so lg (map (drawn_event (lg_workflow_id lg)) (drawn_from ds 0 ps)) = Ok lg'"
  using doesD [OF assms, of lg 0] all_logged_emits [of lib io so lg "drawn_from ds 0 ps"] by simp

end
