(* ===== verification/Utf8.thy ===== *)
theory Utf8
  imports Prelude
begin

text \<open>
  UTF-8 as \<open>str.encode\<close> and \<open>bytes.decode(errors="ignore")\<close> of the standard library have it: text is a
  list of code points, bytes a list of numbers below 256. Encoding fails on a surrogate; decoding skips
  every byte that starts no well-formed sequence.
\<close>

type_synonym utext = "nat list"
type_synonym bytes = "nat list"

definition scalar :: "nat \<Rightarrow> bool" where
  "scalar c \<longleftrightarrow> c < 0xD800 \<or> 0xDFFF < c \<and> c < 0x110000"

definition utf8_char :: "nat \<Rightarrow> bytes" where
  "utf8_char c =
     (if c < 0x80 then [c]
      else if c < 0x800 then [0xC0 + c div 64, 0x80 + c mod 64]
      else if c < 0x10000 then [0xE0 + c div 4096, 0x80 + c div 64 mod 64, 0x80 + c mod 64]
      else [0xF0 + c div 262144, 0x80 + c div 4096 mod 64, 0x80 + c div 64 mod 64, 0x80 + c mod 64])"

definition utf8 :: "utext \<Rightarrow> bytes" where
  "utf8 s = concat (map utf8_char s)"

definition utf8_encode :: "utext \<Rightarrow> bytes option" where
  "utf8_encode s = (if list_all scalar s then Some (utf8 s) else None)"

definition cont :: "nat \<Rightarrow> bool" where
  "cont b \<longleftrightarrow> 0x80 \<le> b \<and> b < 0xC0"

text \<open>The well-formed sequence at the front, its code point and the bytes after it.\<close>

definition utf8_lead :: "nat \<Rightarrow> (nat \<times> nat \<times> nat) option" where
  "utf8_lead b =
     (if b < 0x80 then Some (0, b, 0)
      else if 0xC2 \<le> b \<and> b < 0xE0 then Some (1, b - 0xC0, 0x80)
      else if 0xE0 \<le> b \<and> b < 0xF0 then Some (2, b - 0xE0, 0x800)
      else if 0xF0 \<le> b \<and> b < 0xF5 then Some (3, b - 0xF0, 0x10000)
      else None)"

fun utf8_next :: "bytes \<Rightarrow> (nat \<times> bytes) option" where
  "utf8_next [] = None"
| "utf8_next (b # bs) =
     (case utf8_lead b of
        None \<Rightarrow> None
      | Some (n, high, least) \<Rightarrow>
          let v = foldl (\<lambda>a c. a * 64 + (c - 0x80)) high (take n bs) in
          if n \<le> length bs \<and> list_all cont (take n bs) \<and> least \<le> v \<and> scalar v
          then Some (v, drop n bs) else None)"

lemma utf8_next_shorter: "utf8_next s = Some (c, r) \<Longrightarrow> length r < length s"
  by (cases s) (simp_all add: Let_def split: if_splits option.splits prod.splits, fastforce)

function utf8_decode_ignore :: "bytes \<Rightarrow> utext" where
  "utf8_decode_ignore [] = []"
| "utf8_decode_ignore (b # bs) =
     (case utf8_next (b # bs) of
        Some (c, r) \<Rightarrow> c # utf8_decode_ignore r
      | None \<Rightarrow> utf8_decode_ignore bs)"
  by pat_completeness auto
termination
  by (relation "measure length") (auto dest: utf8_next_shorter simp del: utf8_next.simps)

section \<open>Encoding\<close>

lemma utf8_simps [simp]: "utf8 [] = []" "utf8 (c # s) = utf8_char c @ utf8 s" "utf8 (s @ t) = utf8 s @ utf8 t"
  by (simp_all add: utf8_def)

lemma utf8_ascii: "list_all (\<lambda>c. c < 0x80) s \<Longrightarrow> utf8 s = s"
  by (induction s) (simp_all add: utf8_char_def)

lemma scalar_ascii: "list_all (\<lambda>c. c < 0x80) s \<Longrightarrow> list_all scalar s"
  by (induction s) (simp_all add: scalar_def)

lemma utf8_char_not_Nil [simp]: "utf8_char c \<noteq> []"
  by (simp add: utf8_char_def)

lemma utf8_in: "list_all (\<lambda>c. c < 0x80) sub \<Longrightarrow> py_in sub s \<Longrightarrow> py_in sub (utf8 s)"
  by (auto simp: py_in_iff utf8_ascii) blast

section \<open>Decoding what was encoded\<close>

lemma utf8_char_parts:
  assumes "scalar c"
  obtains b t n high least where "utf8_char c = b # t" "utf8_lead b = Some (n, high, least)" "length t = n"
    "list_all cont t" "least \<le> c" "foldl (\<lambda>a d. a * 64 + (d - 0x80)) high t = c"
proof -
  note parts = that
  have m: "cont (0x80 + x mod 64)" for x :: nat
    using mod_less_divisor [of 64 x] by (simp add: cont_def del: mod_less_divisor)
  have d: "c div 4096 = c div 64 div 64" "c div 262144 = c div 64 div 64 div 64"
    by (simp_all add: div_mult2_eq [symmetric])
  consider "c < 0x80" | "0x80 \<le> c" "c < 0x800" | "0x800 \<le> c" "c < 0x10000" | "0x10000 \<le> c" "c < 0x110000"
    using assms unfolding scalar_def by linarith
  then show thesis
  proof cases
    case 1
    then show ?thesis by (intro parts [of c "[]" 0 c 0]) (simp_all add: utf8_char_def utf8_lead_def)
  next
    case 2
    then have h: "2 \<le> c div 64" "c div 64 < 32" by auto
    show ?thesis
    proof (rule parts)
      show "utf8_char c = (0xC0 + c div 64) # [0x80 + c mod 64]" using 2 by (simp add: utf8_char_def)
      show "utf8_lead (0xC0 + c div 64) = Some (1, c div 64, 0x80)" using h by (simp add: utf8_lead_def)
    qed (use 2 m in simp_all)
  next
    case 3
    then have h: "c div 4096 < 16" by auto
    have v: "(c div 4096 * 64 + c div 64 mod 64) * 64 + c mod 64 = c"
      using d by (simp only: div_mult_mod_eq)
    show ?thesis
    proof (rule parts)
      show "utf8_char c = (0xE0 + c div 4096) # [0x80 + c div 64 mod 64, 0x80 + c mod 64]"
        using 3 by (simp add: utf8_char_def)
      show "utf8_lead (0xE0 + c div 4096) = Some (2, c div 4096, 0x800)" using h by (simp add: utf8_lead_def)
      show "foldl (\<lambda>a d. a * 64 + (d - 0x80)) (c div 4096) [0x80 + c div 64 mod 64, 0x80 + c mod 64] = c"
        using v by (simp only: foldl.simps diff_add_inverse)
    qed (use 3 m in simp_all)
  next
    case 4
    then have h: "c div 262144 < 5" by auto
    have v: "((c div 262144 * 64 + c div 4096 mod 64) * 64 + c div 64 mod 64) * 64 + c mod 64 = c"
      using d by (simp only: div_mult_mod_eq)
    show ?thesis
    proof (rule parts)
      show "utf8_char c =
          (0xF0 + c div 262144) # [0x80 + c div 4096 mod 64, 0x80 + c div 64 mod 64, 0x80 + c mod 64]"
        using 4 by (simp add: utf8_char_def)
      show "utf8_lead (0xF0 + c div 262144) = Some (3, c div 262144, 0x10000)"
        using h by (simp add: utf8_lead_def)
      show "foldl (\<lambda>a d. a * 64 + (d - 0x80)) (c div 262144)
          [0x80 + c div 4096 mod 64, 0x80 + c div 64 mod 64, 0x80 + c mod 64] = c"
        using v by (simp only: foldl.simps diff_add_inverse)
    qed (use 4 m in simp_all)
  qed
qed

lemma utf8_next_char: "scalar c \<Longrightarrow> utf8_next (utf8_char c @ bs) = Some (c, bs)"
  by (rule utf8_char_parts) auto

lemma utf8_next_cont: "cont b \<Longrightarrow> utf8_next (b # bs) = None"
  by (simp add: cont_def utf8_lead_def)

lemma decode_conts: "list_all cont bs \<Longrightarrow> utf8_decode_ignore bs = []"
  by (induction bs) (simp_all add: utf8_next_cont del: utf8_next.simps)

text \<open>A character cut short decodes to nothing.\<close>

lemma decode_cut_char:
  assumes "scalar c" "strict_prefix bs (utf8_char c)" shows "utf8_decode_ignore bs = []"
proof (cases bs)
  case (Cons b t)
  from assms(1) obtain b' t' n high least where p: "utf8_char c = b' # t'"
    "utf8_lead b' = Some (n, high, least)" "length t' = n" "list_all cont t'" by (rule utf8_char_parts)
  with assms(2) Cons obtain u where u: "b' = b" "t' = t @ u" "u \<noteq> []"
    by (auto simp: strict_prefix_def prefix_def)
  then have "utf8_next bs = None" "list_all cont t" using p Cons by (auto split: option.splits)
  then show ?thesis using Cons by (simp add: decode_conts del: utf8_next.simps)
qed simp

lemma decode_char: "scalar c \<Longrightarrow> utf8_decode_ignore (utf8_char c @ bs) = c # utf8_decode_ignore bs"
proof -
  assume c: "scalar c"
  obtain b t where bt: "utf8_char c @ bs = b # t" by (cases "utf8_char c @ bs") auto
  then show ?thesis using utf8_next_char [OF c, of bs] by (simp del: utf8_next.simps)
qed

lemma decode_encoded: "list_all scalar s \<Longrightarrow> utf8_decode_ignore (utf8 s @ bs) = s @ utf8_decode_ignore bs"
  by (induction s) (simp_all add: decode_char)

text \<open>The first \<open>n\<close> bytes of an encoding decode to the longest prefix that fits in \<open>n\<close> bytes.\<close>

lemma decode_cut:
  assumes "list_all scalar s"
  shows "\<exists>k \<le> length s. utf8_decode_ignore (take n (utf8 s)) = take k s \<and> length (utf8 (take k s)) \<le> n
    \<and> (k < length s \<longrightarrow> n < length (utf8 (take (Suc k) s)))"
  using assms
proof (induction s arbitrary: n)
  case (Cons c s)
  let ?u = "utf8_char c"
  show ?case
  proof (cases "length ?u \<le> n")
    case True
    from Cons.IH [of "n - length ?u"] Cons.prems obtain k where k: "k \<le> length s"
      "utf8_decode_ignore (take (n - length ?u) (utf8 s)) = take k s"
      "length (utf8 (take k s)) \<le> n - length ?u"
      "k < length s \<longrightarrow> n - length ?u < length (utf8 (take (Suc k) s))" by auto
    with True Cons.prems show ?thesis by (intro exI [of _ "Suc k"]) (auto simp: decode_char)
  next
    case False
    then have "strict_prefix (take n ?u) ?u" by (metis nle_le strict_prefix_def take_all_iff take_is_prefix)
    then have "utf8_decode_ignore (take n ?u) = []" using decode_cut_char Cons.prems by auto
    with False show ?thesis by (intro exI [of _ 0]) auto
  qed
qed simp

end
