(* ===== verification/Regex.thy ===== *)
theory Regex
  imports Prelude
begin

text \<open>
  Regular expressions as the code writes them, with the meaning of \<open>re.fullmatch\<close>: a language, and a
  matcher by derivatives that computes it. The model of the standard library's \<open>re\<close> that the
  component theories share; characters are code points below 256.
\<close>

section \<open>Expressions\<close>

datatype rx = RNone | REps | RCls "char \<Rightarrow> bool" | RSeq rx rx | RAlt rx rx | RStar rx

inductive rlang :: "rx \<Rightarrow> string \<Rightarrow> bool" where
  eps: "rlang REps []"
| cls: "p c \<Longrightarrow> rlang (RCls p) [c]"
| seq: "rlang r s \<Longrightarrow> rlang q t \<Longrightarrow> rlang (RSeq r q) (s @ t)"
| altl: "rlang r s \<Longrightarrow> rlang (RAlt r q) s"
| altr: "rlang q s \<Longrightarrow> rlang (RAlt r q) s"
| star_nil: "rlang (RStar r) []"
| star_cons: "rlang r s \<Longrightarrow> rlang (RStar r) t \<Longrightarrow> rlang (RStar r) (s @ t)"

inductive_cases rlang_RNone: "rlang RNone s"
inductive_cases rlang_REps: "rlang REps s"
inductive_cases rlang_RCls: "rlang (RCls p) s"
inductive_cases rlang_RSeq: "rlang (RSeq r q) s"
inductive_cases rlang_RAlt: "rlang (RAlt r q) s"

text \<open>The derived forms: \<open>r?\<close>, \<open>r+\<close>, \<open>r{n}\<close>, \<open>r{m,n}\<close>, a literal, a choice.\<close>

definition ropt :: "rx \<Rightarrow> rx" where "ropt r = RAlt r REps"
definition rplus :: "rx \<Rightarrow> rx" where "rplus r = RSeq r (RStar r)"

fun rrep :: "nat \<Rightarrow> rx \<Rightarrow> rx" where
  "rrep 0 r = REps"
| "rrep (Suc n) r = RSeq r (rrep n r)"

fun rupto :: "nat \<Rightarrow> rx \<Rightarrow> rx" where
  "rupto 0 r = REps"
| "rupto (Suc n) r = ropt (RSeq r (rupto n r))"

definition rrange :: "nat \<Rightarrow> nat \<Rightarrow> rx \<Rightarrow> rx" where
  "rrange m n r = RSeq (rrep m r) (rupto (n - m) r)"

fun rlit :: "string \<Rightarrow> rx" where
  "rlit [] = REps"
| "rlit (c # s) = RSeq (RCls ((=) c)) (rlit s)"

fun rseq :: "rx list \<Rightarrow> rx" where
  "rseq [] = REps"
| "rseq [r] = r"
| "rseq (r # q # rs) = RSeq r (rseq (q # rs))"

fun ralt :: "rx list \<Rightarrow> rx" where
  "ralt [] = RNone"
| "ralt [r] = r"
| "ralt (r # q # rs) = RAlt r (ralt (q # rs))"

text \<open>Character classes: a range, a choice of characters; a compiled pattern keeps its text, in which
  \<open>~\<close> stands for the backslash.\<close>

definition between :: "char \<Rightarrow> char \<Rightarrow> char \<Rightarrow> bool" where
  "between a b c \<longleftrightarrow> a \<le> c \<and> c \<le> b"

definition one_of :: "string \<Rightarrow> char \<Rightarrow> bool" where
  "one_of s c \<longleftrightarrow> c \<in> set s"

definition digit :: "char \<Rightarrow> bool" where "digit = between (CHR ''0'') (CHR ''9'')"
definition lower :: "char \<Rightarrow> bool" where "lower = between (CHR ''a'') (CHR ''z'')"
definition upper :: "char \<Rightarrow> bool" where "upper = between (CHR ''A'') (CHR ''Z'')"

record pattern =
  pat_text :: string
  pat_rx :: rx

definition compiled :: "string \<Rightarrow> rx list \<Rightarrow> pattern" where
  "compiled t rs = \<lparr>pat_text = map (\<lambda>c. if c = CHR ''~'' then CHR 0x5C else c) t, pat_rx = rseq rs\<rparr>"

section \<open>The matcher\<close>

fun nullable :: "rx \<Rightarrow> bool" where
  "nullable RNone = False"
| "nullable REps = True"
| "nullable (RCls p) = False"
| "nullable (RSeq r q) = (nullable r \<and> nullable q)"
| "nullable (RAlt r q) = (nullable r \<or> nullable q)"
| "nullable (RStar r) = True"

text \<open>Sequence and choice that drop what cannot match, to keep the derivatives small.\<close>

fun mk_seq :: "rx \<Rightarrow> rx \<Rightarrow> rx" where
  "mk_seq RNone q = RNone"
| "mk_seq REps q = q"
| "mk_seq r q = RSeq r q"

fun mk_alt :: "rx \<Rightarrow> rx \<Rightarrow> rx" where
  "mk_alt RNone q = q"
| "mk_alt r RNone = r"
| "mk_alt r q = RAlt r q"

fun deriv :: "char \<Rightarrow> rx \<Rightarrow> rx" where
  "deriv c RNone = RNone"
| "deriv c REps = RNone"
| "deriv c (RCls p) = (if p c then REps else RNone)"
| "deriv c (RSeq r q) =
     (if nullable r then mk_alt (mk_seq (deriv c r) q) (deriv c q) else mk_seq (deriv c r) q)"
| "deriv c (RAlt r q) = mk_alt (deriv c r) (deriv c q)"
| "deriv c (RStar r) = mk_seq (deriv c r) (RStar r)"

fun fullmatch :: "rx \<Rightarrow> string \<Rightarrow> bool" where
  "fullmatch r [] = nullable r"
| "fullmatch r (c # s) = fullmatch (deriv c r) s"

section \<open>The matcher decides the language\<close>

lemma rlang_RSeq_iff: "rlang (RSeq r q) s \<longleftrightarrow> (\<exists>u v. s = u @ v \<and> rlang r u \<and> rlang q v)"
proof
  show "rlang (RSeq r q) s \<Longrightarrow> \<exists>u v. s = u @ v \<and> rlang r u \<and> rlang q v"
    by (erule rlang_RSeq) blast
qed (auto intro: rlang.seq)

lemma rlang_RSeqI: "rlang r u \<Longrightarrow> rlang q v \<Longrightarrow> s = u @ v \<Longrightarrow> rlang (RSeq r q) s"
  by (simp add: rlang.seq)

lemma rlang_RAlt_iff [simp]: "rlang (RAlt r q) s \<longleftrightarrow> rlang r s \<or> rlang q s"
  by (auto elim: rlang_RAlt intro: rlang.altl rlang.altr)

lemma rlang_simps [simp]:
  "\<not> rlang RNone s" "rlang REps s \<longleftrightarrow> s = []" "rlang (RCls p) s \<longleftrightarrow> (\<exists>c. s = [c] \<and> p c)"
  by (auto elim: rlang_RNone rlang_REps rlang_RCls intro: rlang.eps rlang.cls)

lemma nullable_iff: "nullable r \<longleftrightarrow> rlang r []"
proof (induction r)
  case (RSeq r q)
  then show ?case by (auto simp: rlang_RSeq_iff)
qed (auto intro: rlang.star_nil)

lemma mk_seq_lang [simp]: "rlang (mk_seq r q) s \<longleftrightarrow> rlang (RSeq r q) s"
  by (cases r) (auto simp: rlang_RSeq_iff)

lemma mk_alt_lang [simp]: "rlang (mk_alt r q) s \<longleftrightarrow> rlang r s \<or> rlang q s"
  by (cases r; cases q) auto

lemma star_Cons_split:
  "rlang (RStar r) s \<Longrightarrow> s = c # t \<Longrightarrow> \<exists>u v. t = u @ v \<and> rlang r (c # u) \<and> rlang (RStar r) v"
proof (induction "RStar r" s arbitrary: t rule: rlang.induct)
  case (star_cons s t')
  then show ?case by (cases s) (auto intro: rlang.intros)
qed simp

lemma RSeq_Cons:
  "rlang (RSeq r q) (c # s) \<longleftrightarrow>
     (\<exists>u v. s = u @ v \<and> rlang r (c # u) \<and> rlang q v) \<or> (rlang r [] \<and> rlang q (c # s))"
  (is "?L \<longleftrightarrow> ?A \<or> ?B")
proof
  assume ?L
  then obtain u v where w: "c # s = u @ v" "rlang r u" "rlang q v" by (auto simp: rlang_RSeq_iff)
  then show "?A \<or> ?B" by (cases u) auto
next
  assume "?A \<or> ?B"
  then show ?L by (auto intro: rlang_RSeqI [of r "c # _"] rlang_RSeqI [of r "[]"])
qed

lemma RStar_Cons:
  "rlang (RStar r) (c # s) \<longleftrightarrow> (\<exists>u v. s = u @ v \<and> rlang r (c # u) \<and> rlang (RStar r) v)"
proof
  show "rlang (RStar r) (c # s) \<Longrightarrow> \<exists>u v. s = u @ v \<and> rlang r (c # u) \<and> rlang (RStar r) v"
    by (rule star_Cons_split) auto
next
  assume "\<exists>u v. s = u @ v \<and> rlang r (c # u) \<and> rlang (RStar r) v"
  then obtain u v where "s = u @ v" "rlang r (c # u)" "rlang (RStar r) v" by blast
  then show "rlang (RStar r) (c # s)" using rlang.star_cons [of r "c # u" v] by simp
qed

lemma deriv_lang: "rlang (deriv c r) s \<longleftrightarrow> rlang r (c # s)"
proof (induction r arbitrary: s)
  case (RSeq r q)
  have "rlang (RSeq (deriv c r) q) s \<longleftrightarrow> (\<exists>u v. s = u @ v \<and> rlang r (c # u) \<and> rlang q v)"
    by (simp add: rlang_RSeq_iff RSeq.IH(1))
  then show ?case by (simp add: RSeq_Cons RSeq.IH(2) nullable_iff)
next
  case (RStar r)
  then show ?case by (simp add: RStar_Cons rlang_RSeq_iff)
qed auto

lemma fullmatch_iff: "fullmatch r s \<longleftrightarrow> rlang r s"
  by (induction s arbitrary: r) (simp_all add: nullable_iff deriv_lang)

section \<open>Languages of the derived forms\<close>

lemma rlang_ropt [simp]: "rlang (ropt r) s \<longleftrightarrow> rlang r s \<or> s = []"
  by (simp add: ropt_def)

lemma rlang_rlit [simp]: "rlang (rlit l) s \<longleftrightarrow> s = l"
  by (induction l arbitrary: s) (auto simp: rlang_RSeq_iff)

lemma rlang_star_cls [simp]: "rlang (RStar (RCls p)) s \<longleftrightarrow> list_all p s"
proof
  show "rlang (RStar (RCls p)) s \<Longrightarrow> list_all p s"
    by (induction "RStar (RCls p)" s rule: rlang.induct) auto
  show "list_all p s \<Longrightarrow> rlang (RStar (RCls p)) s"
  proof (induction s)
    case (Cons c s)
    then show ?case using rlang.star_cons [of "RCls p" "[c]" s] by simp
  qed (simp add: rlang.star_nil)
qed

lemma rlang_Cls_seq [simp]: "rlang (RSeq (RCls p) q) s \<longleftrightarrow> (\<exists>c t. s = c # t \<and> p c \<and> rlang q t)"
proof
  assume "\<exists>c t. s = c # t \<and> p c \<and> rlang q t"
  then obtain c t where "s = c # t" "p c" "rlang q t" by blast
  then show "rlang (RSeq (RCls p) q) s" by (intro rlang_RSeqI [of _ "[c]" _ t]) auto
qed (auto simp: rlang_RSeq_iff)

lemma rlang_plus_cls [simp]: "rlang (rplus (RCls p)) s \<longleftrightarrow> s \<noteq> [] \<and> list_all p s"
  by (cases s) (simp_all add: rplus_def)

lemma rlang_rrep_cls [simp]: "rlang (rrep n (RCls p)) s \<longleftrightarrow> length s = n \<and> list_all p s"
proof (induction n arbitrary: s)
  case (Suc n)
  then show ?case by (cases s) (simp_all, blast)
qed auto

lemma rlang_rupto_cls [simp]: "rlang (rupto n (RCls p)) s \<longleftrightarrow> length s \<le> n \<and> list_all p s"
proof (induction n arbitrary: s)
  case (Suc n)
  then show ?case by (cases s) (simp_all, blast)
qed auto

lemma rlang_rrange_cls [simp]:
  "m \<le> n \<Longrightarrow> rlang (rrange m n (RCls p)) s \<longleftrightarrow> m \<le> length s \<and> length s \<le> n \<and> list_all p s"
proof -
  assume mn: "m \<le> n"
  show ?thesis
  proof
    assume "rlang (rrange m n (RCls p)) s"
    with mn show "m \<le> length s \<and> length s \<le> n \<and> list_all p s" by (auto simp: rrange_def rlang_RSeq_iff)
  next
    assume s: "m \<le> length s \<and> length s \<le> n \<and> list_all p s"
    then have "list_all p (take m s) \<and> list_all p (drop m s)" by (metis append_take_drop_id list_all_append)
    with s mn have "rlang (rrep m (RCls p)) (take m s)" "rlang (rupto (n - m) (RCls p)) (drop m s)" by auto
    then show "rlang (rrange m n (RCls p)) s"
      unfolding rrange_def rlang_RSeq_iff by (metis append_take_drop_id)
  qed
qed

text \<open>Every character of a matched string is in one of the classes.\<close>

fun rchars :: "rx \<Rightarrow> char \<Rightarrow> bool" where
  "rchars RNone c = False"
| "rchars REps c = False"
| "rchars (RCls p) c = p c"
| "rchars (RSeq r q) c = (rchars r c \<or> rchars q c)"
| "rchars (RAlt r q) c = (rchars r c \<or> rchars q c)"
| "rchars (RStar r) c = rchars r c"

lemma rlang_chars: "rlang r s \<Longrightarrow> list_all (rchars r) s"
  by (induction rule: rlang.induct) (auto simp: list_all_iff)

lemma fullmatch_chars: "fullmatch r s \<Longrightarrow> list_all (rchars r) s"
  by (simp add: fullmatch_iff rlang_chars)

end
