(* ===== verification/Prompt.thy ===== *)
theory Prompt
  imports Fence
begin

text \<open>
  What \<open>PromptBuilder.build\<close> (\<open>fallback/fence/prompt_builder.py\<close>) returns and what it leaves in the event
  log: the model is in \<open>Fence\<close>; here its emissions are related to the log's history function.
\<close>

section \<open>Emissions\<close>

lemma emit_fence_ok: "emit_fence lib io d ev lg = (Ok (), all_logged lib io lg [(d, FenceEv ev)])"
  by (simp add: emit_fence_def emit_drawn_ok)

definition segment_events :: "fence_draw \<Rightarrow> fenced_segment \<Rightarrow> (event_draw \<times> internal_payload) list" where
  "segment_events d seg =
     (case fs_canary seg of
        CanaryCollision pid \<Rightarrow>
          [(fd_collision d, FenceEv (CanaryCollisionEvent (fs_source_kind seg) (fs_nonce seg) pid))]
      | CanaryClean \<Rightarrow> []) @
     [(fd_applied d, FenceEv (FenceApplied (fs_source_kind seg) (fs_nonce seg) (fs_truncated seg)
        (int (fs_original_byte_length seg))))]"

lemma fence_pure_labels:
  "fence_pure scan payload nonce kind = Ok seg \<Longrightarrow> fs_source_kind seg = kind \<and> fs_nonce seg = nonce"
  by (auto simp: fence_pure_def Let_def rbind_iffs split: option.splits)

lemma fence_ok:
  assumes "fence_pure scan payload (fd_nonce d) kind = Ok seg"
  shows "fence lib io scan d payload kind lg = (Ok seg, all_logged lib io lg (segment_events d seg))"
  using assms fence_pure_labels [OF assms]
  by (simp add: fence_def emit_fence_ok segment_events_def all_logged_Cons [of lib io lg _ "[_]"]
      split: canary_result.split)

text \<open>The segments, each fenced under the nonce drawn for it.\<close>

fun fenced_as :: "scanner_fun \<Rightarrow> (nat \<Rightarrow> fence_draw) \<Rightarrow> nat \<Rightarrow> (fence_source_kind \<times> utext) list \<Rightarrow> fenced_segment list \<Rightarrow> bool" where
  "fenced_as scan ds n [] segs = (segs = [])"
| "fenced_as scan ds n ((k, p) # xs) segs =
     (case segs of
        [] \<Rightarrow> False
      | seg # rest \<Rightarrow> fence_pure scan p (fd_nonce (ds n)) k = Ok seg \<and> fenced_as scan ds (Suc n) xs rest)"

fun events_from :: "(nat \<Rightarrow> fence_draw) \<Rightarrow> nat \<Rightarrow> fenced_segment list \<Rightarrow> (event_draw \<times> internal_payload) list" where
  "events_from ds n [] = []"
| "events_from ds n (seg # segs) = segment_events (ds n) seg @ events_from ds (Suc n) segs"

lemma fence_all_ok:
  "fenced_as scan ds n xs segs \<Longrightarrow>
     fence_all lib io scan ds n xs lg = (Ok segs, all_logged lib io lg (events_from ds n segs))"
proof (induction scan ds n xs segs arbitrary: lg rule: fenced_as.induct)
  case (2 scan ds n k p xs segs)
  then obtain seg rest where s: "segs = seg # rest" and f: "fence_pure scan p (fd_nonce (ds n)) k = Ok seg"
    and r: "fenced_as scan ds (Suc n) xs rest" by (cases segs) auto
  from "2.IH" [OF s r] show ?case by (simp add: s fence_ok [OF f])
qed simp

lemma fenced_as_labels: "fenced_as scan ds n xs segs \<Longrightarrow> length segs = length xs \<and> map fs_source_kind segs = map fst xs"
proof (induction scan ds n xs segs rule: fenced_as.induct)
  case (2 scan ds n k p xs segs)
  then show ?case by (cases segs) (auto dest: fence_pure_labels)
qed simp

definition ascii_nonce :: "string \<Rightarrow> bool" where
  "ascii_nonce nonce \<longleftrightarrow> list_all (\<lambda>c. (of_char c :: nat) < 128) nonce"

lemma canary_fences_all:
  "\<forall>i. ascii_nonce (fd_nonce (ds i)) \<Longrightarrow> list_all (\<lambda>x. list_all scalar (snd x)) xs \<Longrightarrow>
     \<exists>segs. fenced_as canary_scan ds n xs segs"
proof (induction xs arbitrary: n)
  case (Cons x xs)
  obtain k p where x: "x = (k, p)" by (cases x)
  from Cons obtain rest where r: "fenced_as canary_scan ds (Suc n) xs rest" by auto
  obtain seg where "fence_pure canary_scan p (fd_nonce (ds n)) k = Ok seg"
    using fence_total [of p "fd_nonce (ds n)" k] Cons.prems by (auto simp: x ascii_nonce_def)
  with r have "fenced_as canary_scan ds n (x # xs) (seg # rest)" by (simp add: x)
  then show ?case by blast
qed (auto intro: exI [of _ "[]"])

section \<open>The assembled prompt\<close>

lemma points_scalar: "ascii_nonce s \<Longrightarrow> list_all scalar (points s)"
  by (auto simp: ascii_nonce_def points_def list_all_iff scalar_def)

lemma segment_scalar:
  assumes "fence_pure canary_scan p nonce k = Ok seg" "list_all scalar p" "ascii_nonce nonce"
  shows "list_all scalar (fs_content seg)"
proof -
  obtain body where c: "fs_content seg = delim_open nonce @ body @ delim_close nonce"
    and b: "if canary_fired seg then body = points redaction
     else prefix body p \<and> length (utf8 body) \<le> truncation_caps k
       \<and> fs_truncated seg = (body \<noteq> p) \<and> canary_scan body nonce = Ok CanaryClean
       \<and> \<not> py_in (delim_open nonce) body \<and> \<not> py_in (delim_close nonce) body"
    by (rule guard.segment_body [OF assms(1)])
  have "list_all scalar body"
    using b assms(2) by (auto simp: redaction_points scalar_def prefix_def split: if_splits)
  moreover have "list_all scalar (delim_open nonce)" "list_all scalar (delim_close nonce)"
    using assms(3) unfolding delim_open_def delim_close_def
    by (auto intro!: points_scalar simp: ascii_nonce_def)
  ultimately show ?thesis by (simp add: c)
qed

lemma segments_scalar:
  "fenced_as canary_scan ds n xs segs \<Longrightarrow> \<forall>i. ascii_nonce (fd_nonce (ds i)) \<Longrightarrow>
     list_all (\<lambda>x. list_all scalar (snd x)) xs \<Longrightarrow> list_all scalar (concat (map fs_content segs))"
proof (induction xs arbitrary: n segs)
  case (Cons x xs)
  then show ?case by (cases x; cases segs) (auto dest: segment_scalar)
qed simp

definition prompt_texts :: "prompt_input \<Rightarrow> utext list" where
  "prompt_texts inp = [pi_skill inp, pi_instruction_template inp, pi_cve_description inp, pi_repo_readme inp] @
     pi_transitive_dep_meta inp @ pi_source_snippets inp @ pi_rag_few_shots inp @
     (case pi_prior_attempt_summary inp of Some s \<Rightarrow> [s] | None \<Rightarrow> []) @
     (case pi_sandbox_stderr inp of Some s \<Rightarrow> [s] | None \<Rightarrow> [])"

definition ordered_of :: "prompt_input \<Rightarrow> (fence_source_kind \<times> utext) list" where
  "ordered_of inp = ordered_untrusted_segments (take transitive_dep_meta_cap (pi_transitive_dep_meta inp)) inp"

lemma ordered_scalar:
  assumes "list_all (list_all scalar) (prompt_texts inp)"
  shows "list_all (\<lambda>x. list_all scalar (snd x)) (ordered_of inp)"
proof -
  have "list_all P xs \<Longrightarrow> list_all P (take n xs)" for P :: "utext \<Rightarrow> bool" and xs n
    by (auto simp: list_all_iff dest: in_set_takeD)
  moreover have "list_all (\<lambda>x. list_all scalar (snd x)) (map (Pair k) xs) = list_all (list_all scalar) xs"
    for k :: fence_source_kind and xs by (simp add: list.pred_map comp_def)
  ultimately show ?thesis using assms
    by (simp add: ordered_of_def ordered_untrusted_segments_def prompt_texts_def split: option.splits)
qed

text \<open>The events of a prompt: the notice of dropped dependencies, the events of every segment in order,
  and the closing one with the kinds and the encoded lengths.\<close>

definition prompt_events ::
  "prompt_draws \<Rightarrow> prompt_input \<Rightarrow> fenced_segment list \<Rightarrow> (event_draw \<times> internal_payload) list" where
  "prompt_events ds inp segs =
     (if length (pi_transitive_dep_meta inp) > 16
      then [(pd_truncated ds, FenceEv (SegmentCountTruncated fsk_transitive_dep_meta
              (int (length (pi_transitive_dep_meta inp))) 16))] else []) @
     events_from (pd_segments ds) 0 segs @
     [(pd_assembled ds, FenceEv (PromptAssembled (int (length segs)) (map fs_source_kind segs)
        (int (length (utf8 (pi_skill inp @ [10, 10] @ pi_instruction_template inp))))
        (int (length (utf8 (concat (map fs_content segs)))))))]"

text \<open>C24. With at most three examples and encodable text the builder returns the trusted prompt and the
  concatenation of the fenced segments, at most sixteen of them for dependencies, and the log it leaves
  is the old one followed by exactly the events of the prompt. With more examples it refuses and logs
  nothing.\<close>

theorem prompt_assembly:
  assumes "list_all (list_all scalar) (prompt_texts inp)" "\<forall>i. ascii_nonce (fd_nonce (pd_segments ds i))"
  shows "if length (pi_rag_few_shots inp) \<le> 3
    then \<exists>segs lg'. build_prompt lib io canary_scan ds inp lg =
        (Ok (pi_skill inp @ [10, 10] @ pi_instruction_template inp, concat (map fs_content segs)), lg')
      \<and> fenced_as canary_scan (pd_segments ds) 0 (ordered_of inp) segs
      \<and> emit_all lib io so lg (map (drawn_event (lg_workflow_id lg)) (prompt_events ds inp segs)) = Ok lg'
    else \<exists>m. build_prompt lib io canary_scan ds inp lg = (Err (Count_error m), lg)"
proof (cases "length (pi_rag_few_shots inp) \<le> 3")
  case True
  obtain segs where f: "fenced_as canary_scan (pd_segments ds) 0 (ordered_of inp) segs"
    using canary_fences_all [OF assms(2) ordered_scalar [OF assms(1)]] by blast
  note all = fence_all_ok [OF f]
  have enc: "utf8_encode (pi_skill inp @ 10 # 10 # pi_instruction_template inp)
        = Some (utf8 (pi_skill inp @ 10 # 10 # pi_instruction_template inp))"
      "utf8_encode (concat (map fs_content segs)) = Some (utf8 (concat (map fs_content segs)))"
    using segments_scalar [OF f assms(2) ordered_scalar [OF assms(1)]] assms(1)
    by (simp_all add: utf8_encode_def prompt_texts_def scalar_def)
  have ord: "ordered_untrusted_segments (take 16 (pi_transitive_dep_meta inp)) inp = ordered_of inp"
    by (simp add: ordered_of_def transitive_dep_meta_cap_def)
  have ord_few: "ordered_untrusted_segments (pi_transitive_dep_meta inp) inp = ordered_of inp"
    if "\<not> 16 < length (pi_transitive_dep_meta inp)"
    using that by (simp add: ordered_of_def transitive_dep_meta_cap_def)
  let ?lg = "all_logged lib io lg (prompt_events ds inp segs)"
  have "build_prompt lib io canary_scan ds inp lg =
      (Ok (pi_skill inp @ [10, 10] @ pi_instruction_template inp, concat (map fs_content segs)), ?lg)"
    using True fenced_as_labels [OF f]
    by (cases "16 < length (pi_transitive_dep_meta inp)")
      (simp_all add: all_logged_Cons [where xs = "events_from p 0 segs @ ys" for p ys] build_prompt_def prompt_events_def Let_def emit_fence_ok all enc ord ord_few rag_few_shots_cap_def
        transitive_dep_meta_cap_def del: utf8_simps)
  with f True show ?thesis using all_logged_emits [of lib io so lg "prompt_events ds inp segs"] by auto
next
  case False
  then show ?thesis by (simp add: build_prompt_def rag_few_shots_cap_def)
qed

definition sample_draws :: prompt_draws where
  "sample_draws =
     \<lparr>pd_truncated = \<lparr>ed_event_id = ''t'', ed_timestamp = 0, ed_now = 1\<rparr>,
      pd_segments = (\<lambda>i. \<lparr>fd_nonce = ''0a'', fd_collision = \<lparr>ed_event_id = ''c'', ed_timestamp = 0, ed_now = 2\<rparr>,
        fd_applied = \<lparr>ed_event_id = ''a'', ed_timestamp = 0, ed_now = 3\<rparr>\<rparr>),
      pd_assembled = \<lparr>ed_event_id = ''p'', ed_timestamp = 0, ed_now = 4\<rparr>\<rparr>"

definition sample_input :: prompt_input where
  "sample_input = \<lparr>pi_skill = [97], pi_instruction_template = [98], pi_cve_description = [99], pi_repo_readme = [],
     pi_transitive_dep_meta = [[100]], pi_source_snippets = [], pi_prior_attempt_summary = Some [0x20AC],
     pi_rag_few_shots = [], pi_sandbox_stderr = None\<rparr>"

theorem prompt_assembly_witness:
  "\<exists>segs lg'. build_prompt toy_lib memory_ops canary_scan sample_draws sample_input memory_log =
      (Ok ([97, 10, 10, 98], concat (map fs_content segs)), lg')
    \<and> emit_all toy_lib memory_ops memory_ops memory_log (map (drawn_event ''w'')
        (prompt_events sample_draws sample_input segs)) = Ok lg'"
proof -
  have "list_all (list_all scalar) (prompt_texts sample_input)"
    "\<forall>i. ascii_nonce (fd_nonce (pd_segments sample_draws i))"
    by (simp_all add: prompt_texts_def sample_input_def sample_draws_def scalar_def ascii_nonce_def)
  from prompt_assembly [OF this, of toy_lib memory_ops memory_log memory_ops] show ?thesis
    by (auto simp: sample_input_def)
qed

end
