(* ===== verification/Scope.thy ===== *)
theory Scope
  imports Prelude
begin

text \<open>
  \<open>src/src/codegenie/plugins/scope.py\<close>: the scope algebra of the plugin kernel. A scope is
  a triple of dimensions, each a concrete string or the wildcard; the smart constructor
  \<open>PluginScope.parse\<close> reads the canonical \<open>task--language--build\<close> form, \<open>matches\<close> and
  \<open>specificity\<close> are what the resolver filters and sorts by, \<open>__str__\<close> prints the canonical
  form. \<open>ParseError\<close> is the shared boundary error of \<open>types/errors.py\<close>. Strings are lists
  of 8-bit characters; a Python code point above 255 fails the dimension pattern as every
  character outside \<open>[a-z0-9_-]\<close> does.
\<close>

section \<open>Data\<close>

record parse_error =
  pe_message :: string
  pe_value :: string

datatype scope_dim = Concrete string | Wildcard

record plugin_scope =
  task_class :: scope_dim
  language :: scope_dim
  build_system :: scope_dim

section \<open>Parsing\<close>

definition dim_max_len :: nat where "dim_max_len = 64"
definition wildcard_token :: string where "wildcard_token = ''*''"
definition dim_separator :: string where "dim_separator = ''--''"

definition dim_char :: "char \<Rightarrow> bool" where
  "dim_char c \<longleftrightarrow>
     (CHR ''a'' \<le> c \<and> c \<le> CHR ''z'') \<or> (CHR ''0'' \<le> c \<and> c \<le> CHR ''9'')
      \<or> c = CHR ''_'' \<or> c = CHR ''-''"

text \<open>\<open>_DIM_PATTERN.fullmatch\<close> for \<open>^[a-z0-9_-]+$\<close>.\<close>

definition dim_pattern :: "string \<Rightarrow> bool" where
  "dim_pattern s \<longleftrightarrow> s \<noteq> [] \<and> list_all dim_char s"

definition parse_dim :: "string \<Rightarrow> string \<Rightarrow> parse_error + scope_dim" where
  "parse_dim part original =
     (if part = wildcard_token then Ok Wildcard
      else if part = [] then Err \<lparr>pe_message = ''empty dim'', pe_value = original\<rparr>
      else if length part > dim_max_len
        then Err \<lparr>pe_message = ''dim exceeds 64 chars'', pe_value = original\<rparr>
      else if \<not> dim_pattern part
        then Err \<lparr>pe_message = ''dim must match ^[a-z0-9_-]+$'', pe_value = original\<rparr>
      else Ok (Concrete part))"

text \<open>The loop over the parts, which returns at the first bad one.\<close>

fun parse_dims :: "string list \<Rightarrow> string \<Rightarrow> parse_error + scope_dim list" where
  "parse_dims [] original = Ok []"
| "parse_dims (part # parts) original =
     rbind (parse_dim part original)
       (\<lambda>d. rbind (parse_dims parts original) (\<lambda>ds. Ok (d # ds)))"

definition scope_parse :: "string \<Rightarrow> parse_error + plugin_scope" where
  "scope_parse s =
     (let parts = py_split dim_separator s in
      if length parts \<noteq> 3
      then Err \<lparr>pe_message = ''expected exactly 3 '' @ [CHR 0x27] @ ''--'' @ [CHR 0x27] @
                  ''-separated dims'', pe_value = s\<rparr>
      else rbind (parse_dims parts s)
        (\<lambda>dims. Ok \<lparr>task_class = dims ! 0, language = dims ! 1, build_system = dims ! 2\<rparr>))"

section \<open>The algebra\<close>

fun dim_admits :: "scope_dim \<Rightarrow> string \<Rightarrow> bool" where
  "dim_admits Wildcard candidate = True"
| "dim_admits (Concrete v) candidate = (v = candidate)"

fun is_concrete :: "scope_dim \<Rightarrow> int" where
  "is_concrete Wildcard = 0"
| "is_concrete (Concrete v) = 1"

fun dim_to_str :: "scope_dim \<Rightarrow> string" where
  "dim_to_str Wildcard = wildcard_token"
| "dim_to_str (Concrete v) = v"

definition matches :: "plugin_scope \<Rightarrow> string \<Rightarrow> string \<Rightarrow> string \<Rightarrow> bool" where
  "matches p task lang build \<longleftrightarrow>
     dim_admits (task_class p) task \<and> dim_admits (language p) lang
      \<and> dim_admits (build_system p) build"

definition specificity :: "plugin_scope \<Rightarrow> int" where
  "specificity p = is_concrete (task_class p) + is_concrete (language p)
     + is_concrete (build_system p)"

definition scope_str :: "plugin_scope \<Rightarrow> string" where
  "scope_str p = py_join dim_separator
     (map dim_to_str [task_class p, language p, build_system p])"

section \<open>Parsed scopes\<close>

text \<open>
  What the smart constructor guarantees of a dimension, and what makes a scope canonical:
  no separator inside a dimension, none straddling the end of one of the first two.
\<close>

definition dim_ok :: "scope_dim \<Rightarrow> bool" where
  "dim_ok d \<longleftrightarrow> (case d of Wildcard \<Rightarrow> True
     | Concrete v \<Rightarrow> dim_pattern v \<and> length v \<le> dim_max_len)"

definition scope_canonical :: "plugin_scope \<Rightarrow> bool" where
  "scope_canonical p \<longleftrightarrow>
     (\<forall>d \<in> {task_class p, language p, build_system p}. dim_ok d)
      \<and> split_safe dim_separator (dim_to_str (task_class p))
      \<and> split_safe dim_separator (dim_to_str (language p))
      \<and> split_last dim_separator (dim_to_str (build_system p))"

lemma parse_dim_Ok:
  "parse_dim part original = Ok d \<longleftrightarrow> dim_ok d \<and> dim_to_str d = part"
proof (cases d)
  case (Concrete v)
  moreover have "v = wildcard_token \<Longrightarrow> \<not> dim_pattern v"
    by (simp add: wildcard_token_def dim_pattern_def dim_char_def)
  ultimately show ?thesis
    by (auto simp: parse_dim_def dim_ok_def dim_pattern_def)
next
  case Wildcard
  then show ?thesis by (auto simp: parse_dim_def dim_ok_def)
qed

lemma parse_dim_Err_value: "parse_dim part original = Err e \<Longrightarrow> pe_value e = original"
  by (auto simp: parse_dim_def split: if_splits)

lemma parse_dims_Ok:
  "parse_dims parts original = Ok ds \<longleftrightarrow> list_all dim_ok ds \<and> map dim_to_str ds = parts"
proof (induction parts arbitrary: ds)
  case Nil
  then show ?case by (cases ds) auto
next
  case (Cons part parts)
  then show ?case by (cases ds) (auto simp: rbind_iffs parse_dim_Ok)
qed

lemma parse_dims_Err_value: "parse_dims parts original = Err e \<Longrightarrow> pe_value e = original"
  by (induction parts) (auto simp: rbind_iffs dest: parse_dim_Err_value)

lemma scope_parse_Ok:
  "scope_parse s = Ok p \<longleftrightarrow>
     py_split dim_separator s = map dim_to_str [task_class p, language p, build_system p]
      \<and> list_all dim_ok [task_class p, language p, build_system p]"
proof -
  have three: "length ds = 3 \<longleftrightarrow> (\<exists>a b c. ds = [a, b, c])" for ds :: "scope_dim list"
    by (auto simp: eval_nat_numeral length_Suc_conv)
  show ?thesis
  proof
    assume "scope_parse s = Ok p"
    then obtain ds where ds: "parse_dims (py_split dim_separator s) s = Ok ds"
      and len: "length (py_split dim_separator s) = 3"
      and p: "p = \<lparr>task_class = ds ! 0, language = ds ! 1, build_system = ds ! 2\<rparr>"
      by (auto simp: scope_parse_def Let_def rbind_iffs split: if_splits)
    from ds have "map dim_to_str ds = py_split dim_separator s" and "list_all dim_ok ds"
      by (auto simp: parse_dims_Ok)
    moreover from this len have "length ds = 3" by (metis length_map)
    ultimately show "py_split dim_separator s =
        map dim_to_str [task_class p, language p, build_system p]
      \<and> list_all dim_ok [task_class p, language p, build_system p]"
      using p three [of ds] by auto
  next
    assume rhs: "py_split dim_separator s =
        map dim_to_str [task_class p, language p, build_system p]
      \<and> list_all dim_ok [task_class p, language p, build_system p]"
    then have "parse_dims (py_split dim_separator s) s =
        Ok [task_class p, language p, build_system p]"
      by (simp add: rbind_iffs parse_dim_Ok)
    with rhs show "scope_parse s = Ok p"
      by (simp add: scope_parse_def)
  qed
qed

lemma scope_canonical_split:
  assumes "scope_canonical p"
  shows "py_split dim_separator (scope_str p) =
    map dim_to_str [task_class p, language p, build_system p]"
proof -
  have sep: "dim_separator \<noteq> []" by (simp add: dim_separator_def)
  note safe = split_go_safe [OF sep]
  from assms show ?thesis
    by (simp add: scope_str_def py_split_def scope_canonical_def safe split_go_last)
qed

lemma scope_parse_canonical:
  assumes "scope_parse s = Ok p"
  shows "scope_canonical p"
proof -
  have "dim_separator \<noteq> []" by (simp add: dim_separator_def)
  then show ?thesis
    using assms py_split_three [of dim_separator s]
    by (auto simp: scope_parse_Ok scope_canonical_def)
qed

section \<open>Properties\<close>

text \<open>Printing what \<open>PluginScope.parse\<close> accepted gives back exactly the parsed string:
  no accepted input is normalised, truncated or re-ordered.\<close>

theorem scope_parse_str:
  assumes "scope_parse s = Ok p"
  shows "scope_str p = s"
proof -
  from assms have "py_split dim_separator s =
      map dim_to_str [task_class p, language p, build_system p]"
    by (simp add: scope_parse_Ok)
  then show ?thesis
    by (metis scope_str_def py_join_split)
qed

theorem scope_parse_str_witness:
  "scope_parse ''vuln--node--*'' =
     Ok \<lparr>task_class = Concrete ''vuln'', language = Concrete ''node'', build_system = Wildcard\<rparr>
   \<and> scope_str \<lparr>task_class = Concrete ''vuln'', language = Concrete ''node'',
       build_system = Wildcard\<rparr> = ''vuln--node--*''"
proof -
  have h: "scope_parse ''vuln--node--*'' =
     Ok \<lparr>task_class = Concrete ''vuln'', language = Concrete ''node'', build_system = Wildcard\<rparr>"
    by code_simp
  show ?thesis using h scope_parse_str [OF h] by simp
qed

text \<open>The scopes \<open>PluginScope.parse\<close> can produce are exactly the canonical ones, and
  on these parsing the printed form is the identity.\<close>

theorem scope_str_parse:
  "scope_parse (scope_str p) = Ok p \<longleftrightarrow> scope_canonical p"
proof
  assume "scope_canonical p"
  then show "scope_parse (scope_str p) = Ok p"
    by (subst scope_parse_Ok) (simp add: scope_canonical_split, simp add: scope_canonical_def)
qed (rule scope_parse_canonical)

text \<open>
  The round trip is not available for every value of the class: a concrete dimension that
  ends in a dash prints to a string that reads back as another scope.
\<close>

lemma scope_str_not_injective:
  defines "p \<equiv> \<lparr>task_class = Concrete ''a-'', language = Concrete ''b'', build_system = Wildcard\<rparr>"
  shows "scope_str p = ''a---b--*'' \<and>
    scope_parse (scope_str p) =
      Ok \<lparr>task_class = Concrete ''a'', language = Concrete ''-b'', build_system = Wildcard\<rparr>"
  unfolding p_def by code_simp

text \<open>The specificity of a scope counts its concrete dimensions: it lies in 0..3, is 3
  exactly when the scope admits a single triple and 0 exactly when it admits every triple.\<close>

theorem specificity_bounds:
  "0 \<le> specificity p \<and> specificity p \<le> 3
   \<and> (specificity p = 0 \<longleftrightarrow> (\<forall>t l b. matches p t l b))
   \<and> (specificity p = 3 \<longleftrightarrow> (\<exists>t l b. \<forall>t' l' b'. matches p t' l' b' = (t' = t \<and> l' = l \<and> b' = b)))"
proof -
  have differ: "\<exists>w. w \<noteq> (v :: string)" for v
    by (metis not_Cons_self)
  show ?thesis
    using differ
    by (cases "task_class p"; cases "language p"; cases "build_system p")
       (simp_all add: specificity_def matches_def, metis+)
qed

end
