(* ===== verification/Identifiers.thy ===== *)
theory Identifiers
  imports Complex_Main Regex Scope
begin

text \<open>
  The identifier parsers of \<open>types/parsers.py\<close>: every external string becomes a typed identifier here
  or is refused with a \<open>ParseError\<close>. The parsers appear in the order of the file; a typed identifier
  is the string itself, as a \<open>NewType\<close> is at run time. \<open>nfkc\<close> stands for
  \<open>unicodedata.normalize("NFKC", .)\<close> and \<open>repr\<close> for the built-in of that name. The lemmas give for
  each parser the exact set of strings it accepts.
\<close>

section \<open>Errors and patterns\<close>

definition perr :: "string \<Rightarrow> string \<Rightarrow> parse_error + 'a" where
  "perr m v = Err \<lparr>pe_message = m, pe_value = v\<rparr>"

definition cve_rx :: pattern where
  "cve_rx = compiled ''^CVE-~d{4}-~d{4,7}$''
     [rlit ''CVE-'', rrep 4 (RCls digit), rlit ''-'', rrange 4 7 (RCls digit)]"

definition crockford :: "char \<Rightarrow> bool" where
  "crockford c \<longleftrightarrow> digit c \<or> between (CHR ''A'') (CHR ''H'') c \<or> one_of ''JKMN'' c
     \<or> between (CHR ''P'') (CHR ''T'') c \<or> between (CHR ''V'') (CHR ''Z'') c"

definition ulid_rx :: pattern where
  "ulid_rx = compiled ''^[0-7][0-9A-HJKMNP-TV-Z]{25}$''
     [RCls (between (CHR ''0'') (CHR ''7'')), rrep 25 (RCls crockford)]"

definition hex :: "char \<Rightarrow> bool" where
  "hex c \<longleftrightarrow> digit c \<or> between (CHR ''a'') (CHR ''f'') c"

definition hex64_rx :: pattern where
  "hex64_rx = compiled ''^[0-9a-f]{64}$'' [rrep 64 (RCls hex)]"
definition hex32_rx :: pattern where
  "hex32_rx = compiled ''^[0-9a-f]{32}$'' [rrep 32 (RCls hex)]"

definition uuid4_rx :: pattern where
  "uuid4_rx = compiled ''^[0-9a-f]{8}-[0-9a-f]{4}-4[0-9a-f]{3}-[89ab][0-9a-f]{3}-[0-9a-f]{12}$''
     [rrep 8 (RCls hex), rlit ''-'', rrep 4 (RCls hex), rlit ''-4'', rrep 3 (RCls hex), rlit ''-'',
      RCls (one_of ''89ab''), rrep 3 (RCls hex), rlit ''-'', rrep 12 (RCls hex)]"

definition word :: "char \<Rightarrow> bool" where "word c \<longleftrightarrow> lower c \<or> digit c"

text \<open>\<open>[a-z0-9](?:[a-z0-9-]*[a-z0-9])?\<close>, a dot-free label of a model or host name.\<close>

definition label_rx :: rx where
  "label_rx = rseq [RCls word, ropt (rseq [RStar (RCls (\<lambda>c. word c \<or> c = CHR ''-'')), RCls word])]"

definition model_id_rx :: pattern where
  "model_id_rx = compiled
     ''^[a-z0-9](?:[a-z0-9-]*[a-z0-9])?(?:~.[a-z0-9](?:[a-z0-9-]*[a-z0-9])?)*(?:-~d{8})?$''
     [label_rx, RStar (rseq [rlit ''.'', label_rx]), ropt (rseq [rlit ''-'', rrep 8 (RCls digit)])]"

definition snake_rx :: pattern where
  "snake_rx = compiled ''^[a-z][a-z0-9_]{0,30}$''
     [RCls lower, rrange 0 30 (RCls (\<lambda>c. word c \<or> c = CHR ''_''))]"
definition recipe_rx :: pattern where
  "recipe_rx = compiled ''^[a-z][a-z0-9_-]{0,63}$''
     [RCls lower, rrange 0 63 (RCls (\<lambda>c. word c \<or> one_of ''_-'' c))]"

definition kebab :: "char \<Rightarrow> bool" where "kebab c \<longleftrightarrow> word c \<or> c = CHR ''-''"

definition plugin_rx :: pattern where
  "plugin_rx = compiled ''^[a-z][a-z0-9-]{0,63}--[a-z][a-z0-9-]{0,31}--[a-z][a-z0-9-]{0,31}$''
     [RCls lower, rrange 0 63 (RCls kebab), rlit ''--'', RCls lower, rrange 0 31 (RCls kebab),
      rlit ''--'', RCls lower, rrange 0 31 (RCls kebab)]"
definition branch_rx :: pattern where
  "branch_rx = compiled ''^[a-z0-9/_.~-]{1,200}$'' [rrange 1 200 (RCls (\<lambda>c. word c \<or> one_of ''/_.-'' c))]"

definition npm_char :: "char \<Rightarrow> bool" where "npm_char c \<longleftrightarrow> word c \<or> one_of ''-_.'' c"

definition npm_name_rx :: pattern where
  "npm_name_rx = compiled ''^(?:@[a-z0-9~-_.]+/)?[a-z0-9~-_.]+$''
     [ropt (rseq [rlit ''@'', rplus (RCls npm_char), rlit ''/'']), rplus (RCls npm_char)]"
definition package_name_rx :: pattern where
  "package_name_rx = compiled ''^(?:@[a-z0-9][a-z0-9_.~-]*/)?[a-z0-9][a-z0-9_.~-]*$''
     [ropt (rseq [rlit ''@'', RCls word, RStar (RCls npm_char), rlit ''/'']), RCls word, RStar (RCls npm_char)]"

definition ecosystems :: "string list" where
  "ecosystems = [''npm'', ''pypi'', ''maven'', ''rubygems'', ''gomod'']"

definition pinned_semver_rx :: pattern where
  "pinned_semver_rx = compiled ''^~d+~.~d+~.~d+(?:-[0-9A-Za-z.+-]+)?$''
     [rplus (RCls digit), rlit ''.'', rplus (RCls digit), rlit ''.'', rplus (RCls digit),
      ropt (rseq [rlit ''-'', rplus (RCls (\<lambda>c. digit c \<or> upper c \<or> lower c \<or> one_of ''.+-'' c))])]"

definition ident :: "char \<Rightarrow> bool" where
  "ident c \<longleftrightarrow> digit c \<or> lower c \<or> upper c \<or> c = CHR ''-''"

text \<open>\<open>0|[1-9]\d*\<close>, and the pre-release identifier \<open>0|[1-9]\d*|\d*[a-zA-Z-][0-9a-zA-Z-]*\<close>.\<close>

definition number_rx :: rx where
  "number_rx = RAlt (rlit ''0'') (rseq [RCls (between (CHR ''1'') (CHR ''9'')), RStar (RCls digit)])"
definition prerelease_rx :: rx where
  "prerelease_rx = ralt [rlit ''0'', rseq [RCls (between (CHR ''1'') (CHR ''9'')), RStar (RCls digit)],
     rseq [RStar (RCls digit), RCls (\<lambda>c. lower c \<or> upper c \<or> c = CHR ''-''), RStar (RCls ident)]]"

definition semver_rx :: pattern where
  "semver_rx = compiled
     (''^(0|[1-9]~d*)~.(0|[1-9]~d*)~.(0|[1-9]~d*)'' @
      ''(?:-((?:0|[1-9]~d*|~d*[a-zA-Z-][0-9a-zA-Z-]*)'' @
      ''(?:~.(?:0|[1-9]~d*|~d*[a-zA-Z-][0-9a-zA-Z-]*))*))?'' @
      ''(?:~+([0-9a-zA-Z-]+(?:~.[0-9a-zA-Z-]+)*))?$'')
     [number_rx, rlit ''.'', number_rx, rlit ''.'', number_rx,
      ropt (rseq [rlit ''-'', prerelease_rx, RStar (rseq [rlit ''.'', prerelease_rx])]),
      ropt (rseq [rlit ''+'', rplus (RCls ident), RStar (rseq [rlit ''.'', rplus (RCls ident)])])]"

definition host_rx :: pattern where
  "host_rx = compiled ''^[a-z0-9](?:[a-z0-9-]*[a-z0-9])?(?:~.[a-z0-9](?:[a-z0-9-]*[a-z0-9])?)*$''
     [label_rx, RStar (rseq [rlit ''.'', label_rx])]"

definition registry_url_max_len :: nat where "registry_url_max_len = 2048"

definition sha256_digest_rx :: pattern where
  "sha256_digest_rx = compiled ''^sha256:[0-9a-f]{64}$'' [rlit ''sha256:'', rrep 64 (RCls hex)]"
definition sha256_digest_len :: nat where "sha256_digest_len = 7 + 64"
definition runtime_kebab_rx :: pattern where
  "runtime_kebab_rx = compiled ''^[a-z][a-z0-9_-]{0,63}$''
     [RCls lower, rrange 0 63 (RCls (\<lambda>c. word c \<or> one_of ''_-'' c))]"
definition repo_fixture_ref_rx :: pattern where
  "repo_fixture_ref_rx = compiled ''^[a-z][a-z0-9_-]*$''
     [RCls lower, RStar (RCls (\<lambda>c. word c \<or> one_of ''_-'' c))]"
definition sut_digest_rx :: pattern where
  "sut_digest_rx = compiled ''^blake3:[0-9a-f]{64}$'' [rlit ''blake3:'', rrep 64 (RCls hex)]"
definition sut_digest_len :: nat where "sut_digest_len = 7 + 64"

definition image_ref_max_len :: nat where "image_ref_max_len = 256"
definition image_ref_banned_chars :: "char list" where
  "image_ref_banned_chars = map char_of [0..<32 :: nat] @ [CHR 0x7F]"

section \<open>The parser of a pattern\<close>

definition regex_parser :: "pattern \<Rightarrow> nat \<Rightarrow> string \<Rightarrow> string \<Rightarrow> parse_error + string" where
  "regex_parser rx max_len name s =
     (if length s > max_len then perr (name @ '': exceeds max length '' @ nat_str max_len) s
      else if \<not> fullmatch (pat_rx rx) s then perr (name @ '': does not match '' @ pat_text rx) s
      else Ok s)"

definition cve_match where "cve_match = regex_parser cve_rx 21 ''CveId''"
definition ulid_match where "ulid_match = regex_parser ulid_rx 26 ''Ulid''"
definition hex64_match where "hex64_match = regex_parser hex64_rx 64 ''Hex64''"
definition hex32_match where "hex32_match = regex_parser hex32_rx 32 ''Hex32''"
definition uuid4_match where "uuid4_match = regex_parser uuid4_rx 36 ''BudgetTokenId''"
definition model_id_match where "model_id_match = regex_parser model_id_rx 128 ''ModelId''"
definition signal_match where "signal_match = regex_parser snake_rx 31 ''SignalKind''"
definition primitive_match where "primitive_match = regex_parser snake_rx 31 ''PrimitiveName''"
definition transform_kind_match where "transform_kind_match = regex_parser snake_rx 31 ''TransformKind''"
definition recipe_match where "recipe_match = regex_parser recipe_rx 64 ''RecipeId''"
definition plugin_match where "plugin_match = regex_parser plugin_rx 130 ''PluginId''"
definition branch_match where "branch_match = regex_parser branch_rx 200 ''BranchName''"
definition npm_name_match where "npm_name_match = regex_parser npm_name_rx 214 ''PackageId.name''"
definition package_name_match where "package_name_match = regex_parser package_name_rx 214 ''PackageName''"
definition pinned_semver_match where "pinned_semver_match = regex_parser pinned_semver_rx 128 ''PackageId.version''"
definition host_match where "host_match = regex_parser host_rx 253 ''RegistryUrl.host''"
definition semver_match where "semver_match = regex_parser semver_rx 256 ''SemverVersion''"
definition image_digest_match where
  "image_digest_match = regex_parser sha256_digest_rx sha256_digest_len ''ImageDigest''"
definition layer_digest_match where
  "layer_digest_match = regex_parser sha256_digest_rx sha256_digest_len ''LayerDigest''"
definition runtime_id_match where "runtime_id_match = regex_parser runtime_kebab_rx 64 ''RuntimeId''"
definition docker_stage_name_match where
  "docker_stage_name_match = regex_parser runtime_kebab_rx 64 ''DockerStageName''"
definition vuln_case_id_match where "vuln_case_id_match = regex_parser ulid_rx 26 ''VulnCaseId''"
definition repo_fixture_ref_match where
  "repo_fixture_ref_match = regex_parser repo_fixture_ref_rx 128 ''RepoFixtureRef''"
definition sut_digest_match where "sut_digest_match = regex_parser sut_digest_rx sut_digest_len ''SutDigest''"
definition transition_id_match where "transition_id_match = regex_parser ulid_rx 26 ''TransitionId''"

definition is_ascii :: "string \<Rightarrow> bool" where
  "is_ascii s = list_all (\<lambda>c. (of_char c :: nat) < 128) s"

section \<open>Identifiers that are one pattern\<close>

text \<open>The parsers that replace the pattern's message by their own.\<close>

definition with_message :: "string \<Rightarrow> string \<Rightarrow> parse_error + string \<Rightarrow> parse_error + string" where
  "with_message m s r = (case r of Inl _ \<Rightarrow> perr m s | Inr v \<Rightarrow> Ok v)"

definition parse_cve_id where "parse_cve_id = cve_match"
definition parse_signal_kind where "parse_signal_kind = signal_match"
definition parse_primitive_name where "parse_primitive_name = primitive_match"
definition parse_transform_kind where "parse_transform_kind = transform_kind_match"
definition parse_recipe_id where "parse_recipe_id = recipe_match"
definition parse_plugin_id where "parse_plugin_id = plugin_match"
definition parse_transform_id where
  "parse_transform_id s = with_message ''TransformId: must be 64 lowercase hex chars'' s (hex64_match s)"
definition parse_blob_digest where
  "parse_blob_digest s = with_message ''BlobDigest: must be 64 lowercase hex chars'' s (hex64_match s)"
definition parse_solved_example_id where
  "parse_solved_example_id s =
     with_message ''SolvedExampleId: must be 64 lowercase hex chars'' s (hex64_match s)"
definition parse_store_digest where
  "parse_store_digest s = with_message ''StoreDigest: must be 64 lowercase hex chars'' s (hex64_match s)"
definition parse_chain_head where
  "parse_chain_head s = with_message ''ChainHead: must be 64 lowercase hex chars'' s (hex64_match s)"
definition parse_hex_nonce where
  "parse_hex_nonce s = with_message ''HexNonce: must be 32 lowercase hex chars'' s (hex32_match s)"
definition parse_budget_token_id where "parse_budget_token_id = uuid4_match"

definition parse_model_id :: "(string \<Rightarrow> string) \<Rightarrow> string \<Rightarrow> parse_error + string" where
  "parse_model_id nfkc s =
     (let normalised = nfkc s in
      if \<not> is_ascii normalised then perr ''ModelId: non-ASCII after NFKC'' s
      else if normalised \<noteq> s then perr ''ModelId: NFKC-normalisation changed value'' s
      else model_id_match normalised)"

section \<open>Numbers\<close>

text \<open>
  An argument as the run time sees it, whatever its annotation says. A float is NaN, an infinity or a
  finite number; \<open>float_of_int\<close> is \<open>float(n)\<close>: \<open>n\<close> rounded to 53 bits, ties to even, with \<open>None\<close>
  where Python raises \<open>OverflowError\<close>.
\<close>

datatype pyfloat = NaN | Infinite bool | Finite rat

datatype pyarg = ABool bool | AInt int | AFloat pyfloat | AOther string

fun bit_len :: "nat \<Rightarrow> nat" where
  "bit_len n = (if n = 0 then 0 else Suc (bit_len (n div 2)))"

declare bit_len.simps [simp del]

definition round_to_53 :: "nat \<Rightarrow> nat" where
  "round_to_53 a =
     (if a < 2 ^ 53 then a
      else let k = bit_len a - 53; q = a div 2 ^ k; r = a mod 2 ^ k in
        (if 2 * r < 2 ^ k \<or> (2 * r = 2 ^ k \<and> even q) then q else q + 1) * 2 ^ k)"

definition float_of_int :: "int \<Rightarrow> pyfloat option" where
  "float_of_int n =
     (let m = round_to_53 (nat \<bar>n\<bar>) in
      if 2 ^ 1024 \<le> m then None else Some (Finite (of_int (sgn n * int m))))"

datatype similarity_answer = Overflow_error | Returned "parse_error + pyfloat"

definition parse_similarity :: "(pyarg \<Rightarrow> string) \<Rightarrow> pyarg \<Rightarrow> similarity_answer" where
  "parse_similarity repr x =
     (let check = (\<lambda>v. case v of
          Finite r \<Rightarrow>
            if r < - 1 \<or> r > 1 then perr ''Similarity: must be in [-1.0, 1.0]'' (repr x) else Ok v
        | _ \<Rightarrow> perr ''Similarity: must be finite'' (repr x))
      in case x of
           AFloat v \<Rightarrow> Returned (check v)
         | AInt n \<Rightarrow> (case float_of_int n of None \<Rightarrow> Overflow_error | Some v \<Rightarrow> Returned (check v))
         | _ \<Rightarrow> Returned (perr ''Similarity: must be float'' (repr x)))"

definition parse_token_count :: "(pyarg \<Rightarrow> string) \<Rightarrow> pyarg \<Rightarrow> parse_error + int" where
  "parse_token_count repr x =
     (case x of
        AInt n \<Rightarrow>
          if n < 0 \<or> n > 2 ^ 31 - 1 then perr ''TokenCount: must be in 0..2**31-1'' (repr x) else Ok n
      | _ \<Rightarrow> perr ''TokenCount: must be int'' (repr x))"

section \<open>Event, branch and package identifiers\<close>

definition parse_workflow_id where
  "parse_workflow_id s = with_message ''WorkflowId: must be 26-char Crockford base32 ULID'' s (ulid_match s)"
definition parse_event_id where
  "parse_event_id s = with_message ''EventId: must be 26-char Crockford base32 ULID'' s (ulid_match s)"

definition parse_branch_name :: "(string \<Rightarrow> string) \<Rightarrow> string \<Rightarrow> parse_error + string" where
  "parse_branch_name nfkc s =
     (let normalised = nfkc s in
      if \<not> is_ascii normalised then perr ''BranchName: non-ASCII after NFKC'' s
      else if CHR 0x00 \<in> set normalised then perr ''BranchName: contains NUL'' s
      else if prefix ''.'' normalised then perr (''BranchName: must not start with '' @ py_repr ''.'') s
      else if suffix ''/'' normalised then perr (''BranchName: must not end with '' @ py_repr ''/'') s
      else if py_in ''//'' normalised then perr (''BranchName: must not contain '' @ py_repr ''//'') s
      else if normalised \<noteq> s then perr ''BranchName: NFKC-normalisation changed value'' s
      else case branch_match normalised of
             Inl e \<Rightarrow> perr (''BranchName: '' @ pe_message e) s
           | Inr _ \<Rightarrow> Ok s)"

text \<open>\<open>s.partition(c)\<close> and \<open>s.rpartition(c)\<close> without the separator they report.\<close>

definition py_partition :: "char \<Rightarrow> string \<Rightarrow> string \<times> string" where
  "py_partition c s = (takeWhile (\<lambda>d. d \<noteq> c) s, drop 1 (dropWhile (\<lambda>d. d \<noteq> c) s))"

definition py_rpartition :: "char \<Rightarrow> string \<Rightarrow> string \<times> string" where
  "py_rpartition c s =
     (if c \<in> set s
      then (rev (drop 1 (dropWhile (\<lambda>d. d \<noteq> c) (rev s))), rev (takeWhile (\<lambda>d. d \<noteq> c) (rev s)))
      else ([], s))"

definition parse_package_id :: "(string \<Rightarrow> string) \<Rightarrow> string \<Rightarrow> parse_error + string" where
  "parse_package_id nfkc s =
     (let normalised = nfkc s; (name, version) = py_rpartition (CHR ''@'') normalised in
      if \<not> is_ascii normalised then perr ''PackageId: non-ASCII after NFKC'' s
      else if CHR 0x00 \<in> set normalised then perr ''PackageId: contains NUL'' s
      else if normalised \<noteq> s then perr ''PackageId: NFKC-normalisation changed value'' s
      else if CHR ''@'' \<notin> set (drop 1 normalised)
        then perr (''PackageId: missing '' @ py_repr ''@<version>'') s
      else if name = [] \<or> version = [] then perr ''PackageId: empty name or version'' s
      else if isl (npm_name_match name)
        then perr (''PackageId: name must match '' @ pat_text npm_name_rx) s
      else if isl (pinned_semver_match version)
        then perr (''PackageId: version must match '' @ pat_text pinned_semver_rx) s
      else Ok s)"

text \<open>\<open>str.isdigit\<close> on code points below 256, where the superscripts count as digits.\<close>

definition py_isdigit :: "string \<Rightarrow> bool" where
  "py_isdigit s \<longleftrightarrow>
     s \<noteq> [] \<and> list_all (\<lambda>c. digit c \<or> c = CHR 0xB2 \<or> c = CHR 0xB3 \<or> c = CHR 0xB9) s"

definition parse_registry_url :: "string \<Rightarrow> parse_error + string" where
  "parse_registry_url s =
     (let rest = drop (length ''https://'') s;
          host_port = fst (py_partition (CHR ''/'') rest);
          (host, port) = py_partition (CHR '':'') host_port
      in if length s > registry_url_max_len
           then perr (''RegistryUrl: exceeds '' @ nat_str registry_url_max_len @ '' chars'') s
         else if \<not> is_ascii s then perr ''RegistryUrl: non-ASCII'' s
         else if \<not> prefix ''https://'' s then perr (''RegistryUrl: must start with '' @ py_repr ''https://'') s
         else if rest = [] then perr ''RegistryUrl: empty host'' s
         else if CHR ''?'' \<in> set rest then perr ''RegistryUrl: query string not allowed'' s
         else if CHR ''#'' \<in> set rest then perr ''RegistryUrl: fragment not allowed'' s
         else if CHR ''@'' \<in> set host_port then perr ''RegistryUrl: userinfo not allowed'' s
         else if CHR '':'' \<in> set host_port \<and> \<not> py_isdigit port then perr ''RegistryUrl: port must be numeric'' s
         else if host = [] then perr ''RegistryUrl: empty host'' s
         else if isl (host_match host) then perr (''RegistryUrl: host must match '' @ pat_text host_rx) s
         else Ok s)"

definition parse_package_name where "parse_package_name = package_name_match"

definition parse_ecosystem :: "string \<Rightarrow> parse_error + string" where
  "parse_ecosystem s =
     (if s \<notin> set ecosystems
      then perr (''Ecosystem: must be one of ['' @ py_join '', '' (map py_repr (sort ecosystems)) @ '']'') s
      else Ok s)"

definition parse_attempt_number :: "(pyarg \<Rightarrow> string) \<Rightarrow> pyarg \<Rightarrow> parse_error + int" where
  "parse_attempt_number repr x =
     (case x of
        AInt n \<Rightarrow> if n < 1 \<or> n > 1024 then perr ''AttemptNumber: must be in 1..1024'' (repr x) else Ok n
      | _ \<Rightarrow> perr ''AttemptNumber: must be int'' (repr x))"

definition parse_semver where "parse_semver = semver_match"

section \<open>Image, fixture and transition identifiers\<close>

definition parse_image_digest where "parse_image_digest = image_digest_match"
definition parse_layer_digest where "parse_layer_digest = layer_digest_match"
definition parse_runtime_id where "parse_runtime_id = runtime_id_match"
definition parse_docker_stage_name where "parse_docker_stage_name = docker_stage_name_match"

text \<open>\<open>str.isspace\<close> on code points below 256.\<close>

definition py_isspace :: "char \<Rightarrow> bool" where
  "py_isspace c = (let n = of_char c :: nat in
     9 \<le> n \<and> n \<le> 13 \<or> 28 \<le> n \<and> n \<le> 32 \<or> n = 133 \<or> n = 160)"

text \<open>The loop over the characters: the message for the first one that is refused.\<close>

fun image_ref_scan :: "string \<Rightarrow> string option" where
  "image_ref_scan [] = None"
| "image_ref_scan (ch # s) =
     (if py_isspace ch then Some ''ImageRef: must not contain whitespace''
      else if ch \<in> set image_ref_banned_chars then Some ''ImageRef: must not contain C0 control chars or DEL''
      else image_ref_scan s)"

definition parse_image_ref :: "string \<Rightarrow> parse_error + string" where
  "parse_image_ref s =
     (if s = [] then perr ''ImageRef: must be non-empty'' s
      else if length s > image_ref_max_len
        then perr (''ImageRef: exceeds max length '' @ nat_str image_ref_max_len) s
      else case image_ref_scan s of
        Some m \<Rightarrow> perr m s
      | None \<Rightarrow>
          let colon_count = length (filter (\<lambda>c. c = CHR '':'') s);
              (name, tag) = py_rpartition (CHR '':'') s
          in if colon_count > 1 then perr (''ImageRef: must contain at most one '' @ py_repr '':'') s
             else if colon_count = 1 \<and> name = [] then perr (''ImageRef: empty name before '' @ py_repr '':'') s
             else if colon_count = 1 \<and> tag = []
               then perr (''ImageRef: empty tag after '' @ py_repr '':'' @ '' is not allowed'') s
             else Ok s)"

definition parse_vuln_case_id where
  "parse_vuln_case_id s =
     with_message ''VulnCaseId: must be 26-char Crockford base32 ULID'' s (vuln_case_id_match s)"
definition parse_repo_fixture_ref where "parse_repo_fixture_ref = repo_fixture_ref_match"
definition parse_sut_digest where "parse_sut_digest = sut_digest_match"
definition parse_transition_id where
  "parse_transition_id s =
     with_message ''TransitionId: must be 26-char Crockford base32 ULID'' s (transition_id_match s)"

section \<open>What a parser accepts\<close>

lemma perr_not_Ok [simp]: "perr m w \<noteq> Ok v"
  by (simp add: perr_def)

lemma guard_Ok: "(if b then perr m w else x) = Ok v \<longleftrightarrow> \<not> b \<and> x = Ok v"
  by simp

lemma isl_perr [simp]: "isl (perr m w)"
  by (simp add: perr_def)

lemma pat_rx_compiled [simp]: "pat_rx (compiled t rs) = rseq rs"
  by (simp add: compiled_def)

lemma regex_parser_Ok:
  "regex_parser rx n name s = Ok v \<longleftrightarrow> v = s \<and> length s \<le> n \<and> rlang (pat_rx rx) s"
  by (auto simp: regex_parser_def fullmatch_iff)

lemma regex_parser_isl: "isl (regex_parser rx n name s) \<longleftrightarrow> \<not> (length s \<le> n \<and> rlang (pat_rx rx) s)"
  by (auto simp: regex_parser_def fullmatch_iff)

lemma with_message_Ok [simp]: "with_message m s r = Ok v \<longleftrightarrow> r = Ok v"
  by (simp add: with_message_def split: sum.split)

lemma rlang_lit_seq [simp]: "rlang (RSeq (rlit l) q) s \<longleftrightarrow> (\<exists>t. s = l @ t \<and> rlang q t)"
  by (simp add: rlang_RSeq_iff)

lemmas pattern_defs = cve_rx_def ulid_rx_def hex64_rx_def hex32_rx_def snake_rx_def recipe_rx_def
  sha256_digest_rx_def runtime_kebab_rx_def repo_fixture_ref_rx_def sut_digest_rx_def

lemmas match_defs = cve_match_def ulid_match_def hex64_match_def hex32_match_def signal_match_def
  primitive_match_def transform_kind_match_def recipe_match_def image_digest_match_def
  layer_digest_match_def runtime_id_match_def docker_stage_name_match_def vuln_case_id_match_def
  repo_fixture_ref_match_def sut_digest_match_def transition_id_match_def

lemmas parser_defs = parse_cve_id_def parse_signal_kind_def parse_primitive_name_def
  parse_transform_kind_def parse_recipe_id_def parse_transform_id_def parse_blob_digest_def
  parse_solved_example_id_def parse_store_digest_def parse_chain_head_def parse_hex_nonce_def
  parse_workflow_id_def parse_event_id_def parse_image_digest_def parse_layer_digest_def
  parse_runtime_id_def parse_docker_stage_name_def parse_vuln_case_id_def
  parse_repo_fixture_ref_def parse_sut_digest_def parse_transition_id_def

text \<open>The shapes of the identifiers, without reference to a pattern.\<close>

definition hex_string :: "nat \<Rightarrow> string \<Rightarrow> bool" where
  "hex_string n s \<longleftrightarrow> length s = n \<and> list_all hex s"

definition ulid_string :: "string \<Rightarrow> bool" where
  "ulid_string s \<longleftrightarrow> (\<exists>c t. s = c # t \<and> between (CHR ''0'') (CHR ''7'') c \<and> length t = 25 \<and> list_all crockford t)"

definition name_string :: "string \<Rightarrow> nat \<Rightarrow> string \<Rightarrow> bool" where
  "name_string extra n s \<longleftrightarrow> (\<exists>c t. s = c # t \<and> lower c \<and> length t < n \<and> list_all (\<lambda>d. word d \<or> one_of extra d) t)"

lemma hex64_match_Ok: "hex64_match s = Ok v \<longleftrightarrow> v = s \<and> hex_string 64 s"
  by (auto simp: hex64_match_def hex64_rx_def regex_parser_Ok hex_string_def)

lemma hex32_match_Ok: "hex32_match s = Ok v \<longleftrightarrow> v = s \<and> hex_string 32 s"
  by (auto simp: hex32_match_def hex32_rx_def regex_parser_Ok hex_string_def)

lemma ulid_parser_Ok: "regex_parser ulid_rx 26 name s = Ok v \<longleftrightarrow> v = s \<and> ulid_string s"
  by (auto simp: ulid_rx_def regex_parser_Ok ulid_string_def)

lemma digest_parser_Ok:
  "regex_parser (compiled t [rlit l, rrep 64 (RCls hex)]) (length l + 64) name s = Ok v
     \<longleftrightarrow> v = s \<and> (\<exists>h. s = l @ h \<and> hex_string 64 h)"
  by (auto simp: regex_parser_Ok hex_string_def)

lemma snake_parser_Ok: "regex_parser snake_rx 31 name s = Ok v \<longleftrightarrow> v = s \<and> name_string ''_'' 31 s"
  by (auto simp: snake_rx_def regex_parser_Ok name_string_def one_of_def)

lemma kebab_parser_Ok:
  "regex_parser (compiled t [RCls lower, rrange 0 63 (RCls (\<lambda>c. word c \<or> one_of ''_-'' c))]) 64 name s = Ok v
     \<longleftrightarrow> v = s \<and> name_string ''_-'' 64 s"
  by (auto simp: regex_parser_Ok name_string_def)

lemma fixture_parser_Ok:
  "regex_parser repo_fixture_ref_rx 128 name s = Ok v \<longleftrightarrow> v = s \<and> name_string ''_-'' 128 s"
  by (auto simp: repo_fixture_ref_rx_def regex_parser_Ok name_string_def)

lemmas parser_languages = hex64_match_Ok hex32_match_Ok ulid_parser_Ok snake_parser_Ok kebab_parser_Ok
  fixture_parser_Ok digest_parser_Ok

text \<open>The identifiers that are one pattern are typed: such a parser returns its argument unchanged,
  exactly on the strings of its shape.\<close>

theorem identifier_shapes:
  "(parse_transform_id s = Ok v \<longleftrightarrow> v = s \<and> hex_string 64 s) \<and>
   (parse_blob_digest s = Ok v \<longleftrightarrow> v = s \<and> hex_string 64 s) \<and>
   (parse_solved_example_id s = Ok v \<longleftrightarrow> v = s \<and> hex_string 64 s) \<and>
   (parse_store_digest s = Ok v \<longleftrightarrow> v = s \<and> hex_string 64 s) \<and>
   (parse_chain_head s = Ok v \<longleftrightarrow> v = s \<and> hex_string 64 s) \<and>
   (parse_hex_nonce s = Ok v \<longleftrightarrow> v = s \<and> hex_string 32 s) \<and>
   (parse_workflow_id s = Ok v \<longleftrightarrow> v = s \<and> ulid_string s) \<and>
   (parse_event_id s = Ok v \<longleftrightarrow> v = s \<and> ulid_string s) \<and>
   (parse_vuln_case_id s = Ok v \<longleftrightarrow> v = s \<and> ulid_string s) \<and>
   (parse_transition_id s = Ok v \<longleftrightarrow> v = s \<and> ulid_string s) \<and>
   (parse_signal_kind s = Ok v \<longleftrightarrow> v = s \<and> name_string ''_'' 31 s) \<and>
   (parse_primitive_name s = Ok v \<longleftrightarrow> v = s \<and> name_string ''_'' 31 s) \<and>
   (parse_transform_kind s = Ok v \<longleftrightarrow> v = s \<and> name_string ''_'' 31 s) \<and>
   (parse_recipe_id s = Ok v \<longleftrightarrow> v = s \<and> name_string ''_-'' 64 s) \<and>
   (parse_runtime_id s = Ok v \<longleftrightarrow> v = s \<and> name_string ''_-'' 64 s) \<and>
   (parse_docker_stage_name s = Ok v \<longleftrightarrow> v = s \<and> name_string ''_-'' 64 s) \<and>
   (parse_repo_fixture_ref s = Ok v \<longleftrightarrow> v = s \<and> name_string ''_-'' 128 s) \<and>
   (parse_image_digest s = Ok v \<longleftrightarrow> v = s \<and> (\<exists>h. s = ''sha256:'' @ h \<and> hex_string 64 h)) \<and>
   (parse_layer_digest s = Ok v \<longleftrightarrow> v = s \<and> (\<exists>h. s = ''sha256:'' @ h \<and> hex_string 64 h)) \<and>
   (parse_sut_digest s = Ok v \<longleftrightarrow> v = s \<and> (\<exists>h. s = ''blake3:'' @ h \<and> hex_string 64 h))"
  using digest_parser_Ok [where l = "''sha256:''"] digest_parser_Ok [where l = "''blake3:''"]
  by (simp_all add: parser_defs match_defs parser_languages [unfolded hex64_match_def hex32_match_def]
      recipe_rx_def runtime_kebab_rx_def sha256_digest_rx_def sut_digest_rx_def sha256_digest_len_def
      sut_digest_len_def)

lemma identifier_shapes_blob: "parse_blob_digest s = Ok v \<Longrightarrow> v = s \<and> hex_string 64 s"
  by (simp add: parse_blob_digest_def hex64_match_Ok)

lemma cve_id_shape:
  "parse_cve_id s = Ok v \<longleftrightarrow>
     v = s \<and> (\<exists>y n. s = ''CVE-'' @ y @ ''-'' @ n \<and> length y = 4 \<and> list_all digit y
        \<and> 4 \<le> length n \<and> length n \<le> 7 \<and> list_all digit n)"
  by (auto simp: parse_cve_id_def cve_match_def cve_rx_def regex_parser_Ok rlang_RSeq_iff)

section \<open>Package identifiers\<close>

lemma list_all_weaken: "list_all p s \<Longrightarrow> (\<And>c. p c \<Longrightarrow> q c) \<Longrightarrow> list_all q s"
  by (simp add: list_all_iff)

lemma class_chars_between:
  "between a b c \<Longrightarrow> (of_char a :: nat) \<le> of_char c \<and> (of_char c :: nat) \<le> of_char b"
  by (simp add: between_def less_eq_char_def)

lemma class_chars:
  "digit c \<Longrightarrow> 48 \<le> (of_char c :: nat) \<and> (of_char c :: nat) \<le> 57"
  "lower c \<Longrightarrow> 97 \<le> (of_char c :: nat) \<and> (of_char c :: nat) \<le> 122"
  "upper c \<Longrightarrow> 65 \<le> (of_char c :: nat) \<and> (of_char c :: nat) \<le> 90"
  by (auto simp: digit_def lower_def upper_def dest: class_chars_between)

text \<open>Seven-bit characters other than NUL and the separators of identifiers and URLs.\<close>

definition plain :: "char \<Rightarrow> bool" where
  "plain c \<longleftrightarrow> 0 < (of_char c :: nat) \<and> (of_char c :: nat) < 128 \<and> c \<notin> set ''@/:?#''"

lemma plain_classes: "digit c \<Longrightarrow> plain c" "lower c \<Longrightarrow> plain c" "upper c \<Longrightarrow> plain c"
  by (auto simp: plain_def dest: class_chars)

lemma word_plain: "word c \<Longrightarrow> plain c"
  by (auto simp: word_def intro: plain_classes)

lemma npm_plain: "npm_char c \<Longrightarrow> plain c"
  by (auto simp: npm_char_def intro: word_plain) (auto simp: one_of_def plain_def)

lemma npm_name_chars:
  assumes "rlang (pat_rx npm_name_rx) s"
  shows "list_all (\<lambda>c. npm_char c \<or> one_of ''@/'' c) s" "s \<noteq> []"
proof -
  have "list_all (rchars (pat_rx npm_name_rx)) s" by (rule rlang_chars [OF assms])
  then show "list_all (\<lambda>c. npm_char c \<or> one_of ''@/'' c) s"
    by (rule list_all_weaken) (auto simp: npm_name_rx_def rplus_def ropt_def one_of_def)
  show "s \<noteq> []" using assms by (auto simp: npm_name_rx_def rlang_RSeq_iff)
qed

definition version_char :: "char \<Rightarrow> bool" where
  "version_char c \<longleftrightarrow> digit c \<or> upper c \<or> lower c \<or> one_of ''.+-'' c"

lemma version_plain: "version_char c \<Longrightarrow> plain c"
  by (auto simp: version_char_def intro: plain_classes) (auto simp: one_of_def plain_def)

lemma pinned_semver_chars:
  assumes "rlang (pat_rx pinned_semver_rx) s" shows "list_all version_char s" "s \<noteq> []"
proof -
  have "list_all (rchars (pat_rx pinned_semver_rx)) s" by (rule rlang_chars [OF assms])
  then show "list_all version_char s"
    by (rule list_all_weaken) (auto simp: pinned_semver_rx_def rplus_def ropt_def version_char_def one_of_def)
  show "s \<noteq> []" using assms by (auto simp: pinned_semver_rx_def rlang_RSeq_iff)
qed

lemma rpartition_at:
  "c \<notin> set v \<Longrightarrow> py_rpartition c (n @ c # v) = (n, v)"
  by (simp add: py_rpartition_def dropWhile_append takeWhile_append)

lemma rpartition_join:
  assumes "c \<in> set s" "py_rpartition c s = (n, v)" shows "s = n @ c # v"
proof -
  obtain n' v' where w: "s = n' @ c # v'" "c \<notin> set v'" using split_list_last [OF assms(1)] by blast
  then have "(n, v) = (n', v')" using assms(2) rpartition_at [of c v' n'] by simp
  with w show ?thesis by simp
qed

definition package_parts :: "string \<Rightarrow> string \<Rightarrow> string \<Rightarrow> bool" where
  "package_parts s name version \<longleftrightarrow>
     s = name @ ''@'' @ version \<and> length name \<le> 214 \<and> rlang (pat_rx npm_name_rx) name
     \<and> length version \<le> 128 \<and> rlang (pat_rx pinned_semver_rx) version"

lemma package_parts_chars:
  assumes "package_parts s n v" shows "CHR ''@'' \<notin> set v" "is_ascii s" "CHR 0x00 \<notin> set s"
proof -
  have n: "\<And>c. c \<in> set n \<Longrightarrow> npm_char c \<or> one_of ''@/'' c" and v: "\<And>c. c \<in> set v \<Longrightarrow> version_char c"
    using npm_name_chars(1) [of n] pinned_semver_chars(1) [of v] assms
    by (simp_all add: package_parts_def list_all_iff)
  show "CHR ''@'' \<notin> set v" using v version_plain by (auto simp: plain_def)
  have r: "c \<noteq> CHR 0x00 \<and> (of_char c :: nat) < 128" if "c \<in> set s" for c
  proof -
    have "plain c \<or> c = CHR ''@'' \<or> c = CHR ''/''"
      using that n [of c] v [of c] npm_plain [of c] version_plain [of c] assms
      by (auto simp: package_parts_def one_of_def)
    then show ?thesis by (auto simp: plain_def)
  qed
  then show "is_ascii s" by (simp add: is_ascii_def list_all_iff)
  show "CHR 0x00 \<notin> set s" using r by blast
qed

lemma package_parts_rpartition:
  "package_parts s n v \<Longrightarrow> py_rpartition (CHR ''@'') s = (n, v)"
  using package_parts_chars(1) [of s n v] rpartition_at [of "CHR ''@''" v n] by (simp add: package_parts_def)

lemma package_parts_unique: "package_parts s n v \<Longrightarrow> package_parts s n' v' \<Longrightarrow> n' = n \<and> v' = v"
  by (metis package_parts_rpartition prod.inject)

lemma parse_package_id_Ok:
  assumes "py_rpartition (CHR ''@'') (nfkc s) = (n, w)"
  shows "parse_package_id nfkc s = Ok v \<longleftrightarrow>
    is_ascii (nfkc s) \<and> CHR 0x00 \<notin> set (nfkc s) \<and> nfkc s = s \<and> CHR ''@'' \<in> set (drop 1 (nfkc s)) \<and>
    n \<noteq> [] \<and> w \<noteq> [] \<and> length n \<le> 214 \<and> rlang (pat_rx npm_name_rx) n \<and>
    length w \<le> 128 \<and> rlang (pat_rx pinned_semver_rx) w \<and> v = s"
  unfolding parse_package_id_def assms Let_def prod.case guard_Ok npm_name_match_def
    pinned_semver_match_def regex_parser_isl by (simp add: eq_commute)

lemma package_id_accepts:
  "parse_package_id nfkc s = Ok v \<longleftrightarrow> v = s \<and> nfkc s = s \<and> (\<exists>n w. package_parts s n w)"
proof
  obtain n w where p: "py_rpartition (CHR ''@'') (nfkc s) = (n, w)" by fastforce
  assume "parse_package_id nfkc s = Ok v"
  note ok = this [unfolded parse_package_id_Ok [where nfkc = nfkc and s = s, OF p]]
  then have "s = n @ CHR ''@'' # w" using rpartition_join [of _ s n w] p in_set_dropD by metis
  with ok show "v = s \<and> nfkc s = s \<and> (\<exists>n w. package_parts s n w)" by (auto simp: package_parts_def)
next
  assume "v = s \<and> nfkc s = s \<and> (\<exists>n w. package_parts s n w)"
  then obtain n w where v: "v = s" "nfkc s = s" and k: "package_parts s n w" by blast
  then have ne: "n \<noteq> []" "w \<noteq> []"
    using npm_name_chars(2) pinned_semver_chars(2) by (auto simp: package_parts_def)
  then have "CHR ''@'' \<in> set (drop 1 s)" using k by (cases n) (auto simp: package_parts_def)
  moreover have "py_rpartition (CHR ''@'') (nfkc s) = (n, w)" using package_parts_rpartition [OF k] v(2) by simp
  ultimately show "parse_package_id nfkc s = Ok v"
    unfolding parse_package_id_Ok [where nfkc = nfkc and s = s and n = n and w = w, OF \<open>py_rpartition _ _ = _\<close>] v(2)
    using k [unfolded package_parts_def] ne v(1) package_parts_chars(2,3) [OF k] by blast
qed

text \<open>The package identifiers accepted are exactly the NFKC-stable strings \<open>name@version\<close> with an npm
  name of at most 214 characters and a pinned version of at most 128, and such a string splits in one
  way only: its name and version can be read back.\<close>

theorem package_id_exact:
  "parse_package_id nfkc s = Ok v \<longleftrightarrow>
     v = s \<and> nfkc s = s \<and> (\<exists>!(name, version). package_parts s name version)"
  unfolding package_id_accepts Ex1_def case_prod_unfold split_paired_Ex fst_conv snd_conv
  using package_parts_unique by (metis prod.collapse)

section \<open>Registry URLs\<close>

lemma host_chars:
  assumes "rlang (pat_rx host_rx) h" shows "\<forall>c \<in> set h. plain c" "h \<noteq> []"
proof -
  have "list_all (rchars (pat_rx host_rx)) h" by (rule rlang_chars [OF assms])
  then have "list_all plain h"
    by (rule list_all_weaken)
      (auto simp: host_rx_def label_rx_def ropt_def dest: word_plain, auto simp: plain_def)
  then show "\<forall>c \<in> set h. plain c" by (simp add: list_all_iff)
  show "h \<noteq> []" using assms by (auto simp: host_rx_def label_rx_def rlang_RSeq_iff)
qed

text \<open>The shape of an accepted URL: scheme, host, optional numeric port, optional path.\<close>

definition url_parts :: "string \<Rightarrow> string \<Rightarrow> string \<Rightarrow> string \<Rightarrow> bool" where
  "url_parts s host port path \<longleftrightarrow>
     s = ''https://'' @ host @ port @ path
     \<and> length host \<le> 253 \<and> rlang (pat_rx host_rx) host
     \<and> (port = [] \<or> (\<exists>ds. port = CHR '':'' # ds \<and> ds \<noteq> [] \<and> list_all digit ds))
     \<and> (path = [] \<or> (\<exists>p. path = CHR ''/'' # p)) \<and> is_ascii path
     \<and> CHR ''?'' \<notin> set path \<and> CHR ''#'' \<notin> set path"

lemma partition_parts: "py_partition c s = (a, b) \<Longrightarrow> c \<notin> set a \<and> (s = a \<and> b = [] \<or> s = a @ c # b)"
proof -
  assume "py_partition c s = (a, b)"
  then have ab: "a = takeWhile (\<lambda>d. d \<noteq> c) s" "b = drop 1 (dropWhile (\<lambda>d. d \<noteq> c) s)"
    by (simp_all add: py_partition_def)
  have s: "s = a @ dropWhile (\<lambda>d. d \<noteq> c) s" by (simp add: ab)
  have "c \<notin> set a" unfolding ab using set_takeWhileD by fastforce
  moreover have "s = a \<and> b = [] \<or> s = a @ c # b"
  proof (cases "dropWhile (\<lambda>d. d \<noteq> c) s")
    case Nil
    have "b = []" unfolding ab(2) Nil by simp
    with Nil s show ?thesis by (simp only: append_Nil2) simp
  next
    case (Cons d t)
    then have "d = c" by (simp add: dropWhile_eq_Cons_conv)
    with Cons s show ?thesis by (simp add: ab(2))
  qed
  ultimately show ?thesis by blast
qed

lemma partition_at: "c \<notin> set a \<Longrightarrow> py_partition c (a @ c # b) = (a, b)" "c \<notin> set a \<Longrightarrow> py_partition c a = (a, [])"
proof -
  assume "c \<notin> set a"
  then have n: "\<And>d. d \<in> set a \<Longrightarrow> d \<noteq> c" by blast
  show "py_partition c (a @ c # b) = (a, b)"
    by (simp add: py_partition_def takeWhile_append2 [OF n] dropWhile_append2 [OF n])
  have "takeWhile (\<lambda>d. d \<noteq> c) a = a" "dropWhile (\<lambda>d. d \<noteq> c) a = []" using n by auto
  then show "py_partition c a = (a, [])" unfolding py_partition_def by (simp only: drop_Nil)
qed

lemma ascii_isdigit: "is_ascii s \<Longrightarrow> py_isdigit s \<longleftrightarrow> s \<noteq> [] \<and> list_all digit s"
  unfolding py_isdigit_def is_ascii_def list_all_iff by fastforce

lemma parse_registry_url_Ok:
  assumes "py_partition (CHR ''/'') (drop 8 s) = (hp, path)" "py_partition (CHR '':'') hp = (host, port)"
  shows "parse_registry_url s = Ok v \<longleftrightarrow>
    length s \<le> 2048 \<and> is_ascii s \<and> prefix ''https://'' s \<and> drop 8 s \<noteq> [] \<and>
    CHR ''?'' \<notin> set (drop 8 s) \<and> CHR ''#'' \<notin> set (drop 8 s) \<and> CHR ''@'' \<notin> set hp \<and>
    (CHR '':'' \<in> set hp \<longrightarrow> py_isdigit port) \<and> host \<noteq> [] \<and>
    length host \<le> 253 \<and> rlang (pat_rx host_rx) host \<and> v = s"
proof -
  have e: "length ''https://'' = 8" by simp
  show ?thesis
    unfolding parse_registry_url_def Let_def e assms fst_conv prod.case guard_Ok host_match_def
      regex_parser_isl registry_url_max_len_def by (simp add: eq_commute not_less)
qed

lemma url_parts_accepted:
  assumes p: "url_parts s h q p" and len: "length s \<le> 2048"
  shows "parse_registry_url s = Ok s"
proof -
  from p have s: "s = ''https://'' @ h @ q @ p" and h: "length h \<le> 253" "rlang (pat_rx host_rx) h"
    and q: "q = [] \<or> (\<exists>ds. q = CHR '':'' # ds \<and> ds \<noteq> [] \<and> list_all digit ds)"
    and pa: "p = [] \<or> (\<exists>p'. p = CHR ''/'' # p')" "is_ascii p" "CHR ''?'' \<notin> set p" "CHR ''#'' \<notin> set p"
    by (simp_all add: url_parts_def)
  have qc: "plain c \<or> c = CHR '':''" if "c \<in> set q" for c
    using q that plain_classes(1) by (auto simp: list_all_iff)
  have hq: "plain c \<or> c = CHR '':''" if "c \<in> set (h @ q)" for c
    using that qc host_chars(1) [OF h(2)] by auto
  then have no: "CHR ''/'' \<notin> set (h @ q)" "CHR ''@'' \<notin> set (h @ q)" "CHR ''?'' \<notin> set (h @ q)"
      "CHR ''#'' \<notin> set (h @ q)" "is_ascii (h @ q)"
    unfolding is_ascii_def list_all_iff plain_def by fastforce+
  obtain path where 1: "py_partition (CHR ''/'') (drop 8 s) = (h @ q, path)"
    using pa(1) partition_at [OF no(1)] s by fastforce
  have hc: "CHR '':'' \<notin> set h" using host_chars(1) [OF h(2)] by (auto simp: plain_def)
  obtain port where 2: "py_partition (CHR '':'') (h @ q) = (h, port)"
      and port: "CHR '':'' \<in> set (h @ q) \<longrightarrow> py_isdigit port"
    using q hc partition_at [OF hc] by (fastforce simp: py_isdigit_def list_all_iff)
  have "is_ascii s" using no(5) pa(2) by (simp add: s is_ascii_def)
  moreover have "drop 8 s = h @ q @ p" "prefix ''https://'' s" by (simp_all add: s)
  ultimately show ?thesis
    unfolding parse_registry_url_Ok [OF 1 2] using no pa(3,4) h host_chars(2) [OF h(2)] port len by simp
qed

lemma accepted_url_parts:
  assumes ok: "parse_registry_url s = Ok v" shows "v = s \<and> length s \<le> 2048 \<and> (\<exists>h q p. url_parts s h q p)"
proof -
  obtain hp path where 1: "py_partition (CHR ''/'') (drop 8 s) = (hp, path)" by fastforce
  obtain h port where 2: "py_partition (CHR '':'') hp = (h, port)" by fastforce
  note k = ok [unfolded parse_registry_url_Ok [OF 1 2]]
  have s: "s = ''https://'' @ drop 8 s" using k by (auto simp: prefix_def)
  obtain p where p: "drop 8 s = hp @ p" "p = [] \<or> (\<exists>p'. p = CHR ''/'' # p')"
    using partition_parts [OF 1] by auto
  obtain q where q: "hp = h @ q" "q = [] \<or> q = CHR '':'' # port" "CHR '':'' \<notin> set h"
    using partition_parts [OF 2] by auto
  have a: "is_ascii (h @ q @ p)" using k p(1) q(1) by (metis append.assoc is_ascii_def list_all_append s)
  have "q = [] \<or> (\<exists>ds. q = CHR '':'' # ds \<and> ds \<noteq> [] \<and> list_all digit ds)"
  proof (cases "q = []")
    case False
    then have "py_isdigit port" and "is_ascii port" using q k a by (auto simp: is_ascii_def)
    then show ?thesis using False q(2) ascii_isdigit by blast
  qed simp
  moreover have "s = ''https://'' @ h @ q @ p" using s p(1) q(1) by simp
  ultimately have "url_parts s h q p"
    using k a p by (auto simp: url_parts_def is_ascii_def)
  with k show ?thesis by blast
qed

text \<open>The registry URLs accepted are exactly the strings of at most 2048 characters of the form
  \<open>https://host[:digits][/path]\<close> with a host name in the pattern's language, no user information, no
  query and no fragment; the URL is returned unchanged.\<close>

theorem registry_url_exact:
  "parse_registry_url s = Ok v \<longleftrightarrow> v = s \<and> length s \<le> 2048 \<and> (\<exists>host port path. url_parts s host port path)"
  using accepted_url_parts url_parts_accepted by blast

section \<open>Numeric identifiers\<close>

lemma bit_len_bounds: "0 < a \<Longrightarrow> 2 ^ (bit_len a - 1) \<le> a \<and> a < 2 ^ bit_len a"
proof (induction a rule: bit_len.induct)
  case (1 a)
  show ?case
  proof (cases "a = 1")
    case True
    have "bit_len 1 = 1" by (simp add: bit_len.simps)
    with True show ?thesis by simp
  next
    case False
    with "1.prems" have p: "0 < a div 2" by linarith
    then have "bit_len (a div 2) \<noteq> 0" by (subst bit_len.simps) simp
    then have q: "bit_len (a div 2) = Suc (bit_len (a div 2) - 1)" by simp
    have e: "bit_len a = Suc (bit_len (a div 2))" using "1.prems" by (subst bit_len.simps) simp
    have ih: "2 ^ (bit_len (a div 2) - 1) \<le> a div 2" "a div 2 < 2 ^ bit_len (a div 2)"
      using "1.IH" p "1.prems" by auto
    have "2 * 2 ^ (bit_len (a div 2) - 1) \<le> a" "a < 2 * 2 ^ bit_len (a div 2)" using ih by linarith+
    then show ?thesis unfolding e diff_Suc_1 using q by (metis power_Suc)
  qed
qed

lemma round_to_53_large: "2 ^ 53 \<le> a \<Longrightarrow> 2 ^ (bit_len a - 1) \<le> round_to_53 a \<and> 54 \<le> bit_len a"
proof -
  assume a: "2 ^ 53 \<le> a"
  then have b: "2 ^ (bit_len a - 1) \<le> a" "a < 2 ^ bit_len a"
    using bit_len_bounds [of a] by (simp_all add: less_le_trans [of 0 "2 ^ 53"])
  have "(2::nat) ^ 53 < 2 ^ bit_len a" using a b(2) by (rule le_less_trans)
  then have l: "54 \<le> bit_len a" by (subst (asm) power_strict_increasing_iff) simp_all
  define k where "k = bit_len a - 53"
  have k: "bit_len a - 1 = 52 + k" using l by (simp add: k_def)
  have "2 ^ 52 * 2 ^ k \<le> a" using b(1) unfolding k power_add .
  then have q: "2 ^ 52 \<le> a div 2 ^ k" by (simp add: less_eq_div_iff_mult_less_eq)
  have "2 ^ 52 * 2 ^ k \<le> (if P then a div 2 ^ k else a div 2 ^ k + 1) * 2 ^ k" for P
    using q by (intro mult_le_mono1) auto
  then have "2 ^ (52 + k) \<le> round_to_53 a"
    using a by (simp add: round_to_53_def Let_def k_def [symmetric] power_add)
  then show ?thesis using k l by simp
qed

lemma float_of_small_int: "\<bar>n\<bar> \<le> 1 \<Longrightarrow> float_of_int n = Some (Finite (of_int n))"
proof -
  assume "\<bar>n\<bar> \<le> 1"
  then have "n = -1 \<or> n = 0 \<or> n = 1" by linarith
  then show ?thesis by (auto simp: float_of_int_def round_to_53_def)
qed

lemma float_of_large_int:
  assumes "1 < \<bar>n\<bar>" "float_of_int n = Some v" shows "\<exists>r. v = Finite r \<and> (r < -1 \<or> r > 1)"
proof -
  let ?m = "round_to_53 (nat \<bar>n\<bar>)"
  have "2 \<le> ?m"
  proof (cases "nat \<bar>n\<bar> < 2 ^ 53")
    case True
    then show ?thesis using assms(1) by (simp add: round_to_53_def)
  next
    case False
    then have "2 ^ 1 \<le> (2::nat) ^ (bit_len (nat \<bar>n\<bar>) - 1)"
      using round_to_53_large [of "nat \<bar>n\<bar>"] by (intro power_increasing) linarith+
    then show ?thesis using round_to_53_large [of "nat \<bar>n\<bar>"] False by simp
  qed
  moreover have v: "v = Finite (of_int (sgn n * int ?m))"
    using assms(2) by (simp add: float_of_int_def Let_def split: if_splits)
  moreover have "sgn n = 1 \<or> sgn n = -1" using assms(1) by (auto simp: sgn_if)
  ultimately show ?thesis by auto
qed

lemma float_of_int_overflows: "2 ^ 1024 \<le> \<bar>n\<bar> \<Longrightarrow> float_of_int n = None"
proof -
  assume n: "2 ^ 1024 \<le> \<bar>n\<bar>"
  define a where "a = nat \<bar>n\<bar>"
  have a: "2 ^ 1024 \<le> a" using n unfolding a_def by (subst le_nat_iff) simp_all
  have a53: "2 ^ 53 \<le> a" by (rule le_trans [OF power_increasing a]) simp_all
  have "a < 2 ^ bit_len a" using bit_len_bounds [of a] a53 by (simp add: less_le_trans [of 0 "2 ^ 53"])
  with a have "(2::nat) ^ 1024 < 2 ^ bit_len a" by (rule le_less_trans)
  then have "1024 < bit_len a" by (subst (asm) power_strict_increasing_iff) simp_all
  then have "(2::nat) ^ 1024 \<le> 2 ^ (bit_len a - 1)" by (intro power_increasing) simp_all
  then have "2 ^ 1024 \<le> round_to_53 a" using round_to_53_large [OF a53] by (meson le_trans)
  then show ?thesis by (simp add: float_of_int_def Let_def a_def)
qed

lemma similarity_of_float:
  "parse_similarity repr (AFloat w) = Returned (Ok v) \<longleftrightarrow> v = w \<and> (\<exists>r. w = Finite r \<and> - 1 \<le> r \<and> r \<le> 1)"
  by (cases w) (auto simp: parse_similarity_def not_less)

lemma similarity_of_int:
  "parse_similarity repr (AInt n) = Returned (Ok v) \<longleftrightarrow> \<bar>n\<bar> \<le> 1 \<and> v = Finite (of_int n)"
proof (cases "\<bar>n\<bar> \<le> 1")
  case True
  then have "(- 1 :: rat) \<le> of_int n" "(of_int n :: rat) \<le> 1" by (simp_all add: abs_le_iff)
  with True show ?thesis by (auto simp: parse_similarity_def float_of_small_int not_less)
next
  case False
  then show ?thesis
    using float_of_large_int [of n] by (auto simp: parse_similarity_def split: option.splits)
qed

text \<open>A numeric identifier is accepted exactly in its range and never from a boolean: a similarity is a
  finite float in \<open>[-1, 1]\<close>, or an integer of that range read as a float; a token count fits 31 bits; an
  attempt number is between 1 and 1024. The one exception that escapes is the overflow of an integer
  too large for a float, which every integer beyond \<open>2 ^ 1024\<close> causes.\<close>

theorem numeric_identifiers_exact:
  "(parse_similarity repr x = Returned (Ok v) \<longleftrightarrow>
      (\<exists>r. v = Finite r \<and> - 1 \<le> r \<and> r \<le> 1 \<and> (x = AFloat v \<or> (\<exists>n. x = AInt n \<and> r = of_int n)))) \<and>
   (parse_similarity repr x = Overflow_error \<longleftrightarrow> (\<exists>n. x = AInt n \<and> float_of_int n = None)) \<and>
   {n. 2 ^ 1024 \<le> \<bar>n\<bar>} \<subseteq> {n. float_of_int n = None} \<and>
   (parse_token_count repr x = Ok n \<longleftrightarrow> x = AInt n \<and> 0 \<le> n \<and> n < 2 ^ 31) \<and>
   (parse_attempt_number repr x = Ok n \<longleftrightarrow> x = AInt n \<and> 1 \<le> n \<and> n \<le> 1024)"
proof (intro conjI)
  show "parse_similarity repr x = Returned (Ok v) \<longleftrightarrow>
      (\<exists>r. v = Finite r \<and> - 1 \<le> r \<and> r \<le> 1 \<and> (x = AFloat v \<or> (\<exists>n. x = AInt n \<and> r = of_int n)))"
  proof (cases x)
    case (AInt n)
    have "\<bar>n\<bar> \<le> 1 \<longleftrightarrow> (- 1 :: rat) \<le> of_int n \<and> (of_int n :: rat) \<le> 1"
      by (metis abs_le_iff minus_le_iff of_int_1 of_int_le_iff of_int_minus)
    then show ?thesis by (auto simp: AInt similarity_of_int)
  next
    case (AFloat w)
    show ?thesis unfolding AFloat similarity_of_float by auto
  qed (simp_all add: parse_similarity_def)
  show "parse_similarity repr x = Overflow_error \<longleftrightarrow> (\<exists>n. x = AInt n \<and> float_of_int n = None)"
    by (auto simp: parse_similarity_def split: pyarg.splits option.splits)
  show "{n. 2 ^ 1024 \<le> \<bar>n\<bar>} \<subseteq> {n. float_of_int n = None}" using float_of_int_overflows by blast
  show "parse_token_count repr x = Ok n \<longleftrightarrow> x = AInt n \<and> 0 \<le> n \<and> n < 2 ^ 31"
    by (auto simp: parse_token_count_def split: pyarg.splits)
  show "parse_attempt_number repr x = Ok n \<longleftrightarrow> x = AInt n \<and> 1 \<le> n \<and> n \<le> 1024"
    by (auto simp: parse_attempt_number_def split: pyarg.splits)
qed

end
