(* ===== verification/Plugin_Registry.thy ===== *)
theory Plugin_Registry
  imports Scope
begin

text \<open>
  \<open>plugins/registry.py\<close>, \<open>plugins/errors.py\<close> and the data of \<open>plugins/manifest.py\<close> and
  \<open>plugins/protocols.py\<close> (all under \<open>src/src/codegenie\<close>): the registry of plugins the kernel
  resolves against. A plugin object is a record of what the kernel reads from it: its
  manifest, the adapters its \<open>adapters()\<close> method returns, the optional private attribute
  \<open>_composed_tccm\<close> and the \<open>module.qualname\<close> of its class. Adapters are opaque values of a
  type parameter. The locale \<open>plugin_source\<close> states what the resolver relies on.
\<close>

section \<open>Manifests and plugins\<close>

type_synonym plugin_id = string

datatype str_or_list = OneStr string | ManyStr "string list"

record manifest_scope =
  ms_task_class :: str_or_list
  ms_languages :: str_or_list
  ms_build_systems :: str_or_list

record manifest_contributes =
  mc_adapters :: "(string, string) dict"
  mc_tccm :: string
  mc_subgraph :: string
  mc_skills :: string
  mc_recipes :: string
  mc_probes :: "string list"

record manifest_requirements =
  mr_external_tools :: "string list"
  mr_optional :: "string list"

record plugin_manifest =
  mf_name :: plugin_id
  mf_version :: string
  mf_scope :: manifest_scope
  mf_extends :: "plugin_id list"
  mf_precedence :: int
  mf_contributes :: manifest_contributes
  mf_requirements :: manifest_requirements

record composed_tccm =
  ct_provides :: "(string, (string, string) dict) dict"
  ct_requires :: "(string, string list) dict"

record 'ad plugin =
  pl_manifest :: plugin_manifest
  pl_adapters :: "(string, 'ad) dict"
  pl_composed_tccm :: "composed_tccm option"
  pl_origin :: string

abbreviation pl_name :: "'ad plugin \<Rightarrow> plugin_id" where
  "pl_name p \<equiv> mf_name (pl_manifest p)"

section \<open>Errors\<close>

datatype corrupted_reason = missing_universal | empty_registry

text \<open>The exceptions of \<open>plugins/errors.py\<close>; the last two are the built-in exceptions that
  the dictionary and tuple accesses of the modelled code can raise.\<close>

datatype plugin_error =
    PluginAlreadyRegistered plugin_id string string
  | PluginNotRegistered plugin_id
  | PluginExtendsCycle "plugin_id list"
  | PluginExtendsDepthExceeded "plugin_id list"
  | PluginRegistryCorrupted corrupted_reason
  | KeyError plugin_id
  | IndexError

section \<open>The registry\<close>

record 'ad registry =
  rg_plugins :: "(plugin_id, 'ad plugin) dict"
  rg_origins :: "(plugin_id, string) dict"

definition registry_init :: "'ad registry" where
  "registry_init = \<lparr>rg_plugins = [], rg_origins = []\<rparr>"

definition registry_register :: "'ad registry \<Rightarrow> 'ad plugin \<Rightarrow> plugin_error + 'ad registry" where
  "registry_register r p =
     (let name = pl_name p; new_origin = pl_origin p in
      case dict_get (rg_plugins r) name of
        Some _ \<Rightarrow>
          (case dict_get (rg_origins r) name of
             Some existing_origin \<Rightarrow> Err (PluginAlreadyRegistered name existing_origin new_origin)
           | None \<Rightarrow> Err (KeyError name))
      | None \<Rightarrow> Ok (r\<lparr>rg_plugins := dict_set name p (rg_plugins r),
                    rg_origins := dict_set name new_origin (rg_origins r)\<rparr>))"

definition registry_get :: "'ad registry \<Rightarrow> plugin_id \<Rightarrow> plugin_error + 'ad plugin" where
  "registry_get r name =
     (case dict_get (rg_plugins r) name of
        Some p \<Rightarrow> Ok p
      | None \<Rightarrow> Err (PluginNotRegistered name))"

definition registry_all :: "'ad registry \<Rightarrow> 'ad plugin list" where
  "registry_all r = dict_values (rg_plugins r)"

text \<open>Registering in sequence, stopping at the first duplicate.\<close>

fun register_all :: "'ad registry \<Rightarrow> 'ad plugin list \<Rightarrow> plugin_error + 'ad registry" where
  "register_all r [] = Ok r"
| "register_all r (p # ps) = rbind (registry_register r p) (\<lambda>r'. register_all r' ps)"

definition registry_inv :: "'ad registry \<Rightarrow> bool" where
  "registry_inv r \<longleftrightarrow>
     dict_wf (rg_plugins r) \<and> dict_wf (rg_origins r)
      \<and> dict_keys (rg_origins r) = dict_keys (rg_plugins r)
      \<and> (\<forall>(n, p) \<in> set (rg_plugins r). pl_name p = n)"

section \<open>What a client may rely on\<close>

locale plugin_source =
  fixes source_empty :: "'r"
    and source_register :: "'r \<Rightarrow> 'ad plugin \<Rightarrow> plugin_error + 'r"
    and source_get :: "'r \<Rightarrow> plugin_id \<Rightarrow> plugin_error + 'ad plugin"
    and source_all :: "'r \<Rightarrow> 'ad plugin list"
    and source_inv :: "'r \<Rightarrow> bool"
  assumes inv_empty: "source_inv source_empty"
    and all_empty: "source_all source_empty = []"
    and inv_register: "source_inv r \<Longrightarrow> source_register r p = Ok r' \<Longrightarrow> source_inv r'"
    and all_register: "source_inv r \<Longrightarrow> source_register r p = Ok r' \<Longrightarrow>
          source_all r' = source_all r @ [p]"
    and register_fresh: "source_inv r \<Longrightarrow>
          (\<exists>r'. source_register r p = Ok r') \<longleftrightarrow> pl_name p \<notin> pl_name ` set (source_all r)"
    and get_all: "source_inv r \<Longrightarrow>
          source_get r n = Ok p \<longleftrightarrow> p \<in> set (source_all r) \<and> pl_name p = n"
    and get_missing: "source_inv r \<Longrightarrow> source_get r n = Err e \<longleftrightarrow>
          e = PluginNotRegistered n \<and> n \<notin> pl_name ` set (source_all r)"
    and names_distinct: "source_inv r \<Longrightarrow> distinct (map pl_name (source_all r))"
begin

lemma get_name: "source_inv r \<Longrightarrow> source_get r n = Ok p \<Longrightarrow> pl_name p = n"
  by (simp add: get_all)

lemma get_registered:
  "source_inv r \<Longrightarrow> p \<in> set (source_all r) \<Longrightarrow> source_get r (pl_name p) = Ok p"
  by (simp add: get_all)

lemma get_after_register:
  "source_inv r \<Longrightarrow> source_register r p = Ok r' \<Longrightarrow>
   source_get r' n = (if n = pl_name p then Ok p else source_get r n)"
proof -
  assume inv: "source_inv r" and reg: "source_register r p = Ok r'"
  from inv_register [OF inv reg] have inv': "source_inv r'" .
  from all_register [OF inv reg] have all: "source_all r' = source_all r @ [p]" .
  show ?thesis
  proof (cases "source_get r n")
    case (Inl e)
    with inv have "n \<notin> pl_name ` set (source_all r)" and "e = PluginNotRegistered n"
      by (simp_all add: get_missing)
    with Inl all inv' show ?thesis
      by (cases "source_get r' n") (auto simp: get_all get_missing)
  next
    case (Inr q)
    with inv have q: "q \<in> set (source_all r)" "pl_name q = n" by (simp_all add: get_all)
    from reg inv have "pl_name p \<notin> pl_name ` set (source_all r)"
      using register_fresh by blast
    with q have "n \<noteq> pl_name p" by (metis image_eqI)
    with q Inr all inv' show ?thesis by (simp add: get_all)
  qed
qed

end

section \<open>The registry provides it\<close>

lemma registry_inv_lookup:
  "registry_inv r \<Longrightarrow> dict_get (rg_plugins r) n = Some p \<longleftrightarrow>
     p \<in> set (registry_all r) \<and> pl_name p = n"
  by (force simp: registry_inv_def registry_all_def dict_wf_def dest: map_of_SomeD
      intro: map_of_is_SomeI)

lemma registry_inv_missing:
  "registry_inv r \<Longrightarrow> dict_get (rg_plugins r) n = None \<longleftrightarrow>
     n \<notin> pl_name ` set (registry_all r)"
  by (force simp: registry_inv_def registry_all_def map_of_eq_None_iff image_iff)

lemma registry_inv_names:
  "registry_inv r \<Longrightarrow> map pl_name (registry_all r) = dict_keys (rg_plugins r)"
  by (auto simp: registry_inv_def registry_all_def)

lemma registry_register_Ok:
  "registry_register r p = Ok r' \<longleftrightarrow>
     dict_get (rg_plugins r) (pl_name p) = None
      \<and> r' = r\<lparr>rg_plugins := dict_set (pl_name p) p (rg_plugins r),
               rg_origins := dict_set (pl_name p) (pl_origin p) (rg_origins r)\<rparr>"
  by (auto simp: registry_register_def Let_def split: option.splits)

lemma registry_inv_register:
  assumes "registry_inv r" and "registry_register r p = Ok r'"
  shows "registry_inv r' \<and> registry_all r' = registry_all r @ [p]"
proof -
  from assms have fresh: "pl_name p \<notin> set (dict_keys (rg_plugins r))"
      "pl_name p \<notin> set (dict_keys (rg_origins r))"
    by (auto simp: registry_register_Ok registry_inv_def map_of_eq_None_iff)
  with assms show ?thesis
    by (auto simp: registry_register_Ok registry_inv_def registry_all_def dict_simps dict_wf_def)
qed

interpretation reg: plugin_source registry_init registry_register registry_get registry_all
  registry_inv
proof (unfold_locales, goal_cases)
  case 1
  show ?case by (simp add: registry_inv_def registry_init_def dict_simps)
next
  case 2
  show ?case by (simp add: registry_all_def registry_init_def)
next
  case (3 r p r')
  then show ?case using registry_inv_register by blast
next
  case (4 r p r')
  then show ?case using registry_inv_register by blast
next
  case (5 r p)
  then show ?case by (simp add: registry_register_Ok registry_inv_missing)
next
  case (6 r n p)
  then show ?case
    by (auto simp: registry_get_def registry_inv_lookup [symmetric] split: option.splits)
next
  case (7 r n e)
  then show ?case
    by (auto simp: registry_get_def registry_inv_missing [symmetric] split: option.splits)
next
  case (8 r)
  then show ?case by (simp add: registry_inv_names, simp add: registry_inv_def dict_wf_def)
qed

text \<open>The origin table records the class of the plugin registered under each name.\<close>

definition origins_match :: "'ad registry \<Rightarrow> bool" where
  "origins_match r \<longleftrightarrow> (\<forall>n. dict_get (rg_origins r) n = map_option pl_origin (dict_get (rg_plugins r) n))"

lemma origins_match_init: "origins_match registry_init"
  by (simp add: origins_match_def registry_init_def)

lemma origins_match_register:
  "origins_match r \<Longrightarrow> registry_register r p = Ok r' \<Longrightarrow> origins_match r'"
  by (auto simp: registry_register_Ok origins_match_def dict_simps)

lemma register_all_Ok:
  "registry_inv r \<Longrightarrow> origins_match r \<Longrightarrow> register_all r ps = Ok r' \<Longrightarrow>
     registry_inv r' \<and> registry_all r' = registry_all r @ ps \<and> origins_match r'"
proof (induction ps arbitrary: r)
  case Nil
  then show ?case by simp
next
  case (Cons p ps)
  then obtain r1 where r1: "registry_register r p = Ok r1" "register_all r1 ps = Ok r'"
    by (auto simp: rbind_iffs)
  with Cons.prems Cons.IH [of r1] registry_inv_register [of r p r1]
    origins_match_register [of r p r1]
  show ?case by simp
qed

section \<open>Properties\<close>

text \<open>Registering a sequence of plugins into a fresh registry succeeds exactly when no
  two share a name; then the registry lists them in registration order and finds each under
  its name. A duplicate is refused with the error that names both origins, never dropped.\<close>

theorem register_all_correct:
  "(\<exists>r. register_all registry_init ps = Ok r) \<longleftrightarrow> distinct (map pl_name ps)"
proof -
  have gen: "registry_inv r \<Longrightarrow>
    (\<exists>r'. register_all r ps = Ok r') \<longleftrightarrow> distinct (map pl_name (registry_all r @ ps))" for r
  proof (induction ps arbitrary: r)
    case Nil
    then show ?case by (simp add: reg.names_distinct)
  next
    case (Cons p ps)
    show ?case
    proof (cases "registry_register r p")
      case (Inl e)
      with Cons.prems have "pl_name p \<in> pl_name ` set (registry_all r)"
        using reg.register_fresh [of r p] by fastforce
      with Inl show ?thesis by auto
    next
      case (Inr r1)
      with Cons.prems have "registry_inv r1" and "registry_all r1 = registry_all r @ [p]"
        using registry_inv_register by blast+
      with Cons.IH [of r1] Inr show ?thesis by auto
    qed
  qed
  show ?thesis
    using gen [OF reg.inv_empty] by (simp add: reg.all_empty)
qed

text \<open>After registering plugins from a fresh registry, lookup by name returns exactly the
  registered plugin of that name and \<open>PluginNotRegistered\<close> otherwise, and registering a
  taken name is an error that names the first origin and leaves the registry unchanged.\<close>

theorem registry_lookup_correct:
  assumes "register_all registry_init ps = Ok r"
  shows "registry_all r = ps
    \<and> (\<forall>n. registry_get r n =
          (case find (\<lambda>p. pl_name p = n) ps of
             Some p \<Rightarrow> Ok p | None \<Rightarrow> Err (PluginNotRegistered n)))
    \<and> (\<forall>p q. q \<in> set ps \<and> pl_name p = pl_name q \<longrightarrow>
          registry_register r p = Err (PluginAlreadyRegistered (pl_name p) (pl_origin q) (pl_origin p)))"
proof (intro conjI allI impI)
  from register_all_Ok [OF reg.inv_empty origins_match_init assms]
  have inv: "registry_inv r" and all: "registry_all r = ps" and orig: "origins_match r"
    by (simp_all add: reg.all_empty)
  from all show "registry_all r = ps" .
  show "registry_get r n =
      (case find (\<lambda>p. pl_name p = n) ps of Some p \<Rightarrow> Ok p | None \<Rightarrow> Err (PluginNotRegistered n))" for n
    using inv all
    by (auto split: option.splits simp: find_None_iff find_Some_iff reg.get_all reg.get_missing)
  show "registry_register r p = Err (PluginAlreadyRegistered (pl_name p) (pl_origin q) (pl_origin p))"
    if "q \<in> set ps \<and> pl_name p = pl_name q" for p q
  proof -
    from that inv all have q: "dict_get (rg_plugins r) (pl_name p) = Some q"
      by (simp add: registry_inv_lookup)
    with orig have "dict_get (rg_origins r) (pl_name p) = Some (pl_origin q)"
      by (simp add: origins_match_def)
    with q show ?thesis by (simp add: registry_register_def)
  qed
qed

text \<open>A plugin of the given name and origin with no contributions, for the examples.\<close>

definition bare_plugin :: "plugin_id \<Rightarrow> string \<Rightarrow> manifest_scope \<Rightarrow> plugin_id list \<Rightarrow> int \<Rightarrow> nat plugin" where
  "bare_plugin name org scope exts prec =
     \<lparr>pl_manifest = \<lparr>mf_name = name, mf_version = ''1'', mf_scope = scope, mf_extends = exts,
        mf_precedence = prec,
        mf_contributes = \<lparr>mc_adapters = [], mc_tccm = ''./tccm.yaml'', mc_subgraph = ''./subgraph/'',
          mc_skills = ''./skills/'', mc_recipes = ''./recipes/'', mc_probes = []\<rparr>,
        mf_requirements = \<lparr>mr_external_tools = [], mr_optional = []\<rparr>\<rparr>,
      pl_adapters = [], pl_composed_tccm = None, pl_origin = org\<rparr>"

definition any_scope :: manifest_scope where
  "any_scope = \<lparr>ms_task_class = OneStr ''*'', ms_languages = OneStr ''*'', ms_build_systems = OneStr ''*''\<rparr>"

lemma bare_plugin_simps [simp]:
  "pl_name (bare_plugin n org scope exts prec) = n"
  "pl_origin (bare_plugin n org scope exts prec) = org"
  "mf_scope (pl_manifest (bare_plugin n org scope exts prec)) = scope"
  "mf_extends (pl_manifest (bare_plugin n org scope exts prec)) = exts"
  "mf_precedence (pl_manifest (bare_plugin n org scope exts prec)) = prec"
  "pl_adapters (bare_plugin n org scope exts prec) = []"
  "pl_composed_tccm (bare_plugin n org scope exts prec) = None"
  by (simp_all add: bare_plugin_def)

theorem registry_lookup_correct_witness:
  "\<exists>r. register_all registry_init [bare_plugin ''a'' ''m.A'' any_scope [] 50] = Ok r
    \<and> registry_get r ''a'' = Ok (bare_plugin ''a'' ''m.A'' any_scope [] 50)
    \<and> registry_register r (bare_plugin ''a'' ''m.B'' any_scope [] 50)
        = Err (PluginAlreadyRegistered ''a'' ''m.A'' ''m.B'')"
proof -
  let ?p = "bare_plugin ''a'' ''m.A'' any_scope [] 50"
  obtain r where r: "register_all registry_init [?p] = Ok r"
    by (simp add: registry_register_def registry_init_def Let_def)
  from registry_lookup_correct [OF r] r show ?thesis by auto
qed

end
