(* ===== verification/Plugin_Loader.thy ===== *)
theory Plugin_Loader
  imports Identifiers Hashing Plugin_Registry Json Parsers
begin

text \<open>
  The plugin load gate: the lock file (\<open>plugins/lockfile.py\<close>), the tree digest and its verifier
  (\<open>plugins/verifiers.py\<close>, \<open>compute_plugin_tree_digest\<close> of \<open>plugins/loader.py\<close>) and \<open>load_plugins\<close>
  with its three passes. The file system is a record of what the code asks of it; \<open>PluginManifest.from_yaml\<close>
  and the import of \<open>api.py\<close> are answers of that record, and the list of imports made is part of the
  result, so that what runs before a refusal can be stated. Pydantic's rendering of an error is a
  parameter.
\<close>

section \<open>Rejections\<close>

datatype plugin_rejected =
    Integrity_mismatch plugin_id string string
  | Missing_manifest plugin_id
  | Schema_violation plugin_id string
  | Unlocked_plugin plugin_id
  | Missing_plugin_directory plugin_id
  | Plugin_import_error plugin_id string
  | Symlink_escape plugin_id string
  | Lock_file_malformed plugin_id string

definition exit_code_for_rejection :: "plugin_rejected \<Rightarrow> nat" where
  "exit_code_for_rejection r = 4"

text \<open>A rejection is returned; the other two leave the loader as exceptions.\<close>

datatype load_error = Rejected plugin_rejected | Read_error string | Runtime_error string

section \<open>The lock file\<close>

definition lockfile_max_bytes :: int where "lockfile_max_bytes = 2 ^ 16"
definition lockfile_max_depth :: int where "lockfile_max_depth = 2"
definition lockfile_sentinel :: plugin_id where "lockfile_sentinel = ''<lockfile>''"

type_synonym lock = "(plugin_id, string) dict"

fun json_type_name :: "json \<Rightarrow> string" where
  "json_type_name JNull = ''NoneType''"
| "json_type_name (JBool _) = ''bool''"
| "json_type_name (JInt _) = ''int''"
| "json_type_name (JFloat _) = ''float''"
| "json_type_name (JStr _) = ''str''"
| "json_type_name (JArr _) = ''list''"
| "json_type_name (JObj _) = ''dict''"

text \<open>The keys of a JSON object are strings, so the check of their type has no branch.\<close>

fun lift_items :: "(string \<times> json) list \<Rightarrow> lock \<Rightarrow> string + lock" where
  "lift_items [] lifted = Ok lifted"
| "lift_items ((raw_name, raw) # items) lifted =
     (case raw of
        JStr raw_digest \<Rightarrow>
          (case parse_plugin_id raw_name of
             Inl e \<Rightarrow> Err (''PLUGINS.lock key '' @ py_repr raw_name @ '': '' @ pe_message e)
           | Inr name \<Rightarrow>
               (case parse_blob_digest raw_digest of
                  Inl e \<Rightarrow> Err (''PLUGINS.lock value for '' @ py_repr raw_name @ '': '' @ pe_message e)
                | Inr digest \<Rightarrow> lift_items items (dict_set name digest lifted)))
      | _ \<Rightarrow> Err (''PLUGINS.lock value for '' @ py_repr raw_name @ '' must be string, got '' @ json_type_name raw))"

definition lift_keys_and_values :: "json \<Rightarrow> string + lock" where
  "lift_keys_and_values data =
     (case data of
        JObj items \<Rightarrow> lift_items items []
      | _ \<Rightarrow> Err ''PLUGINS.lock root must be a JSON object'')"

text \<open>\<open>raw\<close> is the outcome of \<open>safe_json.load\<close> under the two caps, all of whose errors are caught.\<close>

definition lock_from_path ::
  "(parser_error \<Rightarrow> string) \<Rightarrow> (string \<Rightarrow> string) \<Rightarrow> parser_error + json \<Rightarrow> plugin_rejected + lock" where
  "lock_from_path exc_str validation_str raw =
     (case raw of
        Inl e \<Rightarrow> Err (Lock_file_malformed lockfile_sentinel (exc_str e))
      | Inr data \<Rightarrow>
          (case lift_keys_and_values data of
             Inl m \<Rightarrow> Err (Lock_file_malformed lockfile_sentinel (validation_str m))
           | Inr lock \<Rightarrow> Ok lock))"

section \<open>The digest of a plugin tree\<close>

text \<open>An entry below a plugin directory: its relative path, its strict resolution (absent when that
  fails), whether it is a regular file, and its bytes (absent when it cannot be read).\<close>

record tree_entry =
  te_rel :: "string list"
  te_resolved :: "string list option"
  te_is_file :: bool
  te_bytes :: "string option"

record plugin_dir =
  dir_parts :: "string list"
  dir_resolved :: "string list option"
  dir_entries :: "tree_entry list"

definition as_posix :: "string list \<Rightarrow> string" where "as_posix = py_join ''/''"

definition pycache_dir :: string where "pycache_dir = ''__pycache__''"
definition pyc_suffix :: string where "pyc_suffix = ''.pyc''"
definition symlink_escape_sentinel :: string where "symlink_escape_sentinel = replicate 64 (CHR ''0'')"

definition iter_walk :: "plugin_dir \<Rightarrow> tree_entry list" where
  "iter_walk d = sort_key (\<lambda>e. as_posix (te_rel e)) (dir_entries d)"

text \<open>\<open>Path.suffix\<close> is \<open>.pyc\<close>: the file name ends in it and is longer.\<close>

definition has_pyc_suffix :: "string list \<Rightarrow> bool" where
  "has_pyc_suffix parts \<longleftrightarrow> parts \<noteq> [] \<and> suffix pyc_suffix (last parts) \<and> length (last parts) > length pyc_suffix"

fun collect_loop ::
  "plugin_id \<Rightarrow> plugin_dir \<Rightarrow> string list \<Rightarrow> tree_entry list \<Rightarrow> (string \<times> string) list
     \<Rightarrow> load_error + (string \<times> string) list" where
  "collect_loop pid d resolved_root [] pairs = Ok pairs"
| "collect_loop pid d resolved_root (child # rest) pairs =
     (if pycache_dir \<in> set (dir_parts d @ te_rel child) then collect_loop pid d resolved_root rest pairs
      else if has_pyc_suffix (te_rel child) then collect_loop pid d resolved_root rest pairs
      else case te_resolved child of
        None \<Rightarrow> Err (Rejected (Symlink_escape pid (as_posix (dir_parts d @ te_rel child))))
      | Some resolved_child \<Rightarrow>
          if \<not> prefix resolved_root resolved_child
          then Err (Rejected (Symlink_escape pid (as_posix (dir_parts d @ te_rel child))))
          else if \<not> te_is_file child then collect_loop pid d resolved_root rest pairs
          else case te_bytes child of
            None \<Rightarrow> Err (Read_error (as_posix (dir_parts d @ te_rel child)))
          | Some b \<Rightarrow> collect_loop pid d resolved_root rest (pairs @ [(as_posix (te_rel child), b)]))"

definition collect_plugin_files :: "plugin_dir \<Rightarrow> load_error + (string \<times> string) list" where
  "collect_plugin_files d =
     (let pid = (if dir_parts d = [] then [] else last (dir_parts d)) in
      case dir_resolved d of
        None \<Rightarrow> Err (Rejected (Symlink_escape pid (as_posix (dir_parts d))))
      | Some resolved_root \<Rightarrow> rbind (collect_loop pid d resolved_root (iter_walk d) []) (\<lambda>pairs. Ok (sort_key fst pairs)))"

definition compute_plugin_tree_digest :: "(string \<Rightarrow> string) \<Rightarrow> plugin_dir \<Rightarrow> load_error + string" where
  "compute_plugin_tree_digest sha256 d =
     rbind (collect_plugin_files d) (\<lambda>pairs.
       let raw_digest = tree_digest_of_files sha256 pairs in
       case parse_blob_digest raw_digest of
         Inl _ \<Rightarrow> Err (Runtime_error (''tree_digest_of_files returned non-conforming digest: '' @ py_repr raw_digest))
       | Inr v \<Rightarrow> Ok v)"

lemma digest_Ok:
  "compute_plugin_tree_digest sha256 d = Ok g \<longleftrightarrow>
     (\<exists>qs. collect_plugin_files d = Ok qs \<and> parse_blob_digest (tree_digest_of_files sha256 qs) = Ok g)"
proof (cases "collect_plugin_files d")
  case (Inr qs)
  then show ?thesis
    by (cases "parse_blob_digest (tree_digest_of_files sha256 qs)")
      (simp_all add: compute_plugin_tree_digest_def Let_def)
qed (simp add: compute_plugin_tree_digest_def)

section \<open>Verification\<close>

record verification_error =
  ve_expected :: string
  ve_actual :: string

type_synonym verify_fun = "plugin_dir \<Rightarrow> string \<Rightarrow> load_error + (verification_error + unit)"

text \<open>Any returned rejection of the digest becomes a verification error with the sentinel; an exception
  passes through.\<close>

definition sha256_verify :: "(string \<Rightarrow> string) \<Rightarrow> verify_fun" where
  "sha256_verify sha256 d expected =
     (case compute_plugin_tree_digest sha256 d of
        Inl (Rejected _) \<Rightarrow> Ok (Inl \<lparr>ve_expected = expected, ve_actual = symlink_escape_sentinel\<rparr>)
      | Inl e \<Rightarrow> Err e
      | Inr actual \<Rightarrow>
          if actual = expected then Ok (Inr ())
          else Ok (Inl \<lparr>ve_expected = expected, ve_actual = actual\<rparr>))"

section \<open>Loading\<close>

record plugin_root =
  pr_path :: string
  pr_slugs :: "string list"
  pr_dir :: "string \<Rightarrow> plugin_dir"
  pr_manifest :: "string \<Rightarrow> string + plugin_manifest"
  pr_is_dir :: "string \<Rightarrow> bool"
  pr_has_api :: "string \<Rightarrow> bool"
  pr_import_api :: "string \<Rightarrow> string option"

record load_report =
  lr_loaded :: "plugin_id list"
  lr_total_walked :: nat

text \<open>Pass one: every manifest found, in path order, must be valid, locked and verified.\<close>

fun verify_pass ::
  "verify_fun \<Rightarrow> plugin_root \<Rightarrow> lock \<Rightarrow> string list \<Rightarrow> (string \<times> plugin_id) list
     \<Rightarrow> load_error + (string \<times> plugin_id) list" where
  "verify_pass verify pr lock [] verified = Ok verified"
| "verify_pass verify pr lock (slug # slugs) verified =
     (case pr_manifest pr slug of
        Inl detail \<Rightarrow> Err (Rejected (Schema_violation slug detail))
      | Inr manifest \<Rightarrow>
          let pid = mf_name manifest in
          (case dict_get lock pid of
             None \<Rightarrow> Err (Rejected (Unlocked_plugin pid))
           | Some digest \<Rightarrow>
               (case verify (pr_dir pr slug) digest of
                  Inl e \<Rightarrow> Err e
                | Inr (Inl ve) \<Rightarrow>
                    if ve_actual ve = symlink_escape_sentinel
                    then Err (Rejected (Symlink_escape pid (pr_path pr @ ''/'' @ slug)))
                    else Err (Rejected (Integrity_mismatch pid (ve_expected ve) (ve_actual ve)))
                | Inr (Inr _) \<Rightarrow> verify_pass verify pr lock slugs (verified @ [(slug, pid)]))))"

text \<open>Pass two: every locked plugin must have been seen.\<close>

fun seen_pass :: "plugin_root \<Rightarrow> plugin_id list \<Rightarrow> plugin_id list \<Rightarrow> plugin_rejected option" where
  "seen_pass pr seen [] = None"
| "seen_pass pr seen (locked # rest) =
     (if locked \<in> set seen then seen_pass pr seen rest
      else if pr_is_dir pr locked then Some (Missing_manifest locked)
      else Some (Missing_plugin_directory locked))"

text \<open>Pass three: the imports, with the slugs whose code was started.\<close>

fun import_pass ::
  "plugin_root \<Rightarrow> (string \<times> plugin_id) list \<Rightarrow> string list \<Rightarrow> plugin_rejected option \<times> string list" where
  "import_pass pr [] started = (None, started)"
| "import_pass pr ((slug, pid) # rest) started =
     (if \<not> pr_has_api pr slug
      then (Some (Plugin_import_error pid (''missing api.py at '' @ pr_path pr @ ''/'' @ slug @ ''/api.py'')), started)
      else case pr_import_api pr slug of
        Some exc \<Rightarrow> (Some (Plugin_import_error pid exc), started @ [slug])
      | None \<Rightarrow> import_pass pr rest (started @ [slug]))"

definition load_plugins ::
  "verify_fun \<Rightarrow> plugin_root \<Rightarrow> plugin_rejected + lock \<Rightarrow> (load_error + load_report) \<times> string list" where
  "load_plugins verify pr lock_result =
     (let walked = sort (pr_slugs pr) in
      case lock_result of
        Inl e \<Rightarrow> (Err (Rejected e), [])
      | Inr lock \<Rightarrow>
      case verify_pass verify pr lock walked [] of
        Inl e \<Rightarrow> (Err e, [])
      | Inr verified \<Rightarrow>
      case seen_pass pr (map snd verified) (dict_keys lock) of
        Some e \<Rightarrow> (Err (Rejected e), [])
      | None \<Rightarrow>
      case import_pass pr verified [] of
        (Some e, started) \<Rightarrow> (Err (Rejected e), started)
      | (None, started) \<Rightarrow>
          (Ok \<lparr>lr_loaded = map snd verified, lr_total_walked = length walked\<rparr>, started))"

section \<open>The lock\<close>

definition lock_typed :: "lock \<Rightarrow> bool" where
  "lock_typed l \<longleftrightarrow> dict_wf l \<and> list_all (\<lambda>(k, v). parse_plugin_id k = Ok k \<and> hex_string 64 v) l"

lemma plugin_id_same: "parse_plugin_id k = Ok v \<Longrightarrow> v = k"
  by (simp add: parse_plugin_id_def plugin_match_def regex_parser_Ok)

lemma list_all_dict_set: "list_all P l \<Longrightarrow> P (k, v) \<Longrightarrow> list_all P (dict_set k v l)"
  by (induction l) auto

lemma lift_items_typed: "lift_items items l = Ok l' \<Longrightarrow> lock_typed l \<Longrightarrow> lock_typed l'"
proof (induction items l rule: lift_items.induct)
  case (2 raw_name raw items lifted)
  then obtain d name digest where r: "raw = JStr d" and n: "parse_plugin_id raw_name = Ok name"
    and g: "parse_blob_digest d = Ok digest" and rest: "lift_items items (dict_set name digest lifted) = Ok l'"
    by (auto split: json.splits sum.splits)
  have "name = raw_name" "hex_string 64 digest"
    using plugin_id_same [OF n] identifier_shapes_blob [OF g] by auto
  then have "lock_typed (dict_set name digest lifted)"
    using "2.prems"(2) n by (simp add: lock_typed_def dict_wf_set list_all_dict_set)
  with "2.IH" [OF r n g] rest show ?case by blast
qed simp

lemma lock_from_path_typed: "lock_from_path es vs raw = Ok l \<Longrightarrow> lock_typed l"
  by (auto simp: lock_from_path_def lift_keys_and_values_def lock_typed_def dict_wf_def
      split: sum.splits json.splits dest!: lift_items_typed)

section \<open>What the digest covers\<close>

definition skipped :: "plugin_dir \<Rightarrow> tree_entry \<Rightarrow> bool" where
  "skipped d e \<longleftrightarrow> pycache_dir \<in> set (dir_parts d @ te_rel e) \<or> has_pyc_suffix (te_rel e)"

lemma collect_loop_filter:
  "collect_loop pid d r es pairs = collect_loop pid d r (filter (\<lambda>e. \<not> skipped d e) es) pairs"
  by (induction pid d r es pairs rule: collect_loop.induct) (auto simp: skipped_def split: option.split)

text \<open>Compiled files are not covered: adding one leaves the digest as it is.\<close>

lemma bytecode_not_covered:
  assumes "\<forall>d'. dir_parts d' = dir_parts d \<longrightarrow> skipped d' e"
  shows "compute_plugin_tree_digest sha256 (d\<lparr>dir_entries := dir_entries d @ [e]\<rparr>) = compute_plugin_tree_digest sha256 d"
proof -
  let ?d = "d\<lparr>dir_entries := dir_entries d @ [e]\<rparr>"
  have sk: "skipped ?d = skipped d" by (rule ext) (simp add: skipped_def)
  have loop: "collect_loop pid ?d r es ps = collect_loop pid d r es ps" for pid r es ps
    by (induction pid d r es ps rule: collect_loop.induct) (auto split: option.split)
  have "filter (\<lambda>x. \<not> skipped d x) (iter_walk ?d) = filter (\<lambda>x. \<not> skipped d x) (iter_walk d)"
    using assms by (simp add: iter_walk_def filter_sort)
  then have "collect_loop pid ?d r (iter_walk ?d) ps = collect_loop pid d r (iter_walk d) ps" for pid r ps
    unfolding loop by (subst (1 2) collect_loop_filter) simp
  then have "collect_plugin_files ?d = collect_plugin_files d"
    by (cases "dir_resolved d") (simp_all add: collect_plugin_files_def Let_def)
  then show ?thesis by (simp add: compute_plugin_tree_digest_def)
qed

section \<open>The verifier interface\<close>

definition slug_id :: "plugin_root \<Rightarrow> string \<Rightarrow> plugin_id" where
  "slug_id pr slug = (case pr_manifest pr slug of Inr m \<Rightarrow> mf_name m | Inl _ \<Rightarrow> [])"

locale plugin_verifier =
  fixes verify :: verify_fun and digest_of :: "plugin_dir \<Rightarrow> load_error + string"
  assumes verified_iff: "verify d expected = Ok (Inr ()) \<longleftrightarrow> digest_of d = Ok expected"
begin

text \<open>A slug passes when its manifest is valid, its id is locked and its tree has the locked digest.\<close>

definition passes :: "plugin_root \<Rightarrow> lock \<Rightarrow> string \<Rightarrow> bool" where
  "passes pr l slug \<longleftrightarrow> (\<exists>m digest. pr_manifest pr slug = Ok m \<and> dict_get l (mf_name m) = Some digest
     \<and> digest_of (pr_dir pr slug) = Ok digest)"

lemma verify_pass_Ok:
  "verify_pass verify pr l slugs acc = Ok v \<longleftrightarrow>
     list_all (passes pr l) slugs \<and> v = acc @ map (\<lambda>s. (s, slug_id pr s)) slugs"
proof (induction slugs arbitrary: acc)
  case (Cons s slugs)
  show ?case
  proof (cases "passes pr l s")
    case True
    then obtain m digest where m: "pr_manifest pr s = Ok m" "dict_get l (mf_name m) = Some digest"
      "verify (pr_dir pr s) digest = Ok (Inr ())" by (auto simp: passes_def verified_iff)
    then show ?thesis using Cons.IH True by (auto simp: slug_id_def)
  next
    case False
    have "verify_pass verify pr l (s # slugs) acc \<noteq> Ok v"
    proof
      assume "verify_pass verify pr l (s # slugs) acc = Ok v"
      then have "passes pr l s"
        by (auto simp: passes_def verified_iff [symmetric] Let_def split: sum.splits option.splits if_splits)
      with False show False ..
    qed
    with False show ?thesis by simp
  qed
qed auto

lemma seen_pass_None: "seen_pass pr seen ks = None \<longleftrightarrow> set ks \<subseteq> set seen"
  by (induction ks) auto

lemma import_pass_prefix:
  "import_pass pr xs started = (r, started') \<Longrightarrow> \<exists>ys. started' = started @ ys \<and> prefix ys (map fst xs)"
proof (induction pr xs started rule: import_pass.induct)
  case (2 pr slug pid rest started)
  then show ?case by (auto split: if_splits option.splits)
qed simp

lemma import_pass_None:
  "import_pass pr xs started = (None, started') \<longleftrightarrow>
     list_all (\<lambda>x. pr_has_api pr (fst x) \<and> pr_import_api pr (fst x) = None) xs \<and> started' = started @ map fst xs"
  by (induction pr xs started rule: import_pass.induct) (auto split: option.splits)

text \<open>Whatever ran, everything had passed before.\<close>

lemma started_passes:
  assumes "load_plugins verify pr lock_result = (r, started)" "started \<noteq> []"
  shows "\<exists>l. lock_result = Ok l \<and> list_all (passes pr l) (pr_slugs pr)
    \<and> set (dict_keys l) \<subseteq> set (map (slug_id pr) (pr_slugs pr)) \<and> prefix started (sort (pr_slugs pr))"
proof -
  let ?w = "sort (pr_slugs pr)"
  from assms obtain l v where l: "lock_result = Ok l" and v: "verify_pass verify pr l ?w [] = Ok v"
    and s: "seen_pass pr (map snd v) (dict_keys l) = None" and i: "\<exists>r. import_pass pr v [] = (r, started)"
    by (auto simp: load_plugins_def Let_def split: sum.splits option.splits prod.splits)
  from v have p: "list_all (passes pr l) (pr_slugs pr)" and ids: "v = map (\<lambda>s. (s, slug_id pr s)) ?w"
    by (simp_all add: verify_pass_Ok list_all_iff)
  have "map fst v = ?w" "set (map snd v) = set (map (slug_id pr) (pr_slugs pr))" by (simp_all add: ids comp_def)
  moreover obtain ys where "started = ys" "prefix ys (map fst v)" using i import_pass_prefix by fastforce
  ultimately show ?thesis using l p s by (auto simp: seen_pass_None)
qed

lemma load_Ok:
  "load_plugins verify pr lock_result = (Ok report, started) \<longleftrightarrow>
     (\<exists>l. lock_result = Ok l \<and> list_all (passes pr l) (pr_slugs pr)
      \<and> set (dict_keys l) \<subseteq> set (map (slug_id pr) (pr_slugs pr))
      \<and> list_all (\<lambda>s. pr_has_api pr s \<and> pr_import_api pr s = None) (pr_slugs pr)
      \<and> started = sort (pr_slugs pr)
      \<and> report = \<lparr>lr_loaded = map (slug_id pr) (sort (pr_slugs pr)), lr_total_walked = length (pr_slugs pr)\<rparr>)"
    (is "?L \<longleftrightarrow> ?R")
proof -
  let ?w = "sort (pr_slugs pr)"
  let ?v = "map (\<lambda>s. (s, slug_id pr s)) ?w"
  show ?thesis
  proof (cases lock_result)
    case (Inr l)
    have v: "verify_pass verify pr l ?w [] = Ok x \<longleftrightarrow> list_all (passes pr l) (pr_slugs pr) \<and> x = ?v" for x
      by (simp add: verify_pass_Ok list_all_iff)
    have k: "seen_pass pr (map snd ?v) (dict_keys l) = None \<longleftrightarrow>
        set (dict_keys l) \<subseteq> set (map (slug_id pr) (pr_slugs pr))"
      by (simp add: seen_pass_None comp_def)
    have i: "import_pass pr ?v [] = (None, x) \<longleftrightarrow>
        list_all (\<lambda>s. pr_has_api pr s \<and> pr_import_api pr s = None) (pr_slugs pr) \<and> x = ?w" for x
      by (simp add: import_pass_None list_all_iff comp_def)
    have "?L \<longleftrightarrow> (\<exists>x. verify_pass verify pr l ?w [] = Ok x \<and> seen_pass pr (map snd x) (dict_keys l) = None
        \<and> import_pass pr x [] = (None, started)
        \<and> report = \<lparr>lr_loaded = map snd x, lr_total_walked = length (pr_slugs pr)\<rparr>)"
      by (auto simp: load_plugins_def Inr Let_def split: sum.splits option.splits prod.splits)
    also have "\<dots> \<longleftrightarrow> list_all (passes pr l) (pr_slugs pr) \<and> seen_pass pr (map snd ?v) (dict_keys l) = None
        \<and> import_pass pr ?v [] = (None, started)
        \<and> report = \<lparr>lr_loaded = map snd ?v, lr_total_walked = length (pr_slugs pr)\<rparr>"
      unfolding v by blast
    finally show ?thesis unfolding k i by (simp add: Inr comp_def)
  qed (simp add: load_plugins_def)
qed

end

text \<open>When the second of two imports fails the load is refused, although the code of the first has run.\<close>

lemma import_fails_after_start:
  "pr_has_api pr a \<Longrightarrow> pr_has_api pr b \<Longrightarrow> pr_import_api pr a = None \<Longrightarrow> pr_import_api pr b = Some exc \<Longrightarrow>
     import_pass pr [(a, p), (b, q)] [] = (Some (Plugin_import_error q exc), [a, b])"
  by simp

section \<open>The SHA-256 verifier\<close>

interpretation sha: plugin_verifier "sha256_verify sha256" "compute_plugin_tree_digest sha256" for sha256
  by unfold_locales (auto simp: sha256_verify_def split: sum.splits load_error.splits)

definition loadable :: "(string \<Rightarrow> string) \<Rightarrow> plugin_root \<Rightarrow> lock \<Rightarrow> string \<Rightarrow> bool" where
  "loadable sha256 pr l slug \<longleftrightarrow> (\<exists>m digest. pr_manifest pr slug = Ok m \<and> dict_get l (mf_name m) = Some digest
     \<and> compute_plugin_tree_digest sha256 (pr_dir pr slug) = Ok digest)"

lemma loadable_passes: "sha.passes sha256 pr l slug = loadable sha256 pr l slug"
  by (simp add: sha.passes_def loadable_def)

lemma loadable_all: "sha.passes sha256 pr l = loadable sha256 pr l"
  by (rule ext) (rule loadable_passes)

text \<open>C5. Fail closed: when the code of any plugin has been started, whatever the outcome, the lock file was
  well typed, every plugin directory found was valid, locked and had the locked digest, no locked plugin
  was missing, and the code was started in path order.\<close>

theorem no_code_before_verification:
  assumes "load_plugins (sha256_verify sha256) pr (lock_from_path exc_str validation_str raw) = (r, started)"
    and "started \<noteq> []"
  shows "\<exists>l. lock_from_path exc_str validation_str raw = Ok l \<and> lock_typed l
    \<and> list_all (loadable sha256 pr l) (pr_slugs pr)
    \<and> set (dict_keys l) \<subseteq> set (map (slug_id pr) (pr_slugs pr)) \<and> prefix started (sort (pr_slugs pr))"
  using sha.started_passes [OF assms] lock_from_path_typed unfolding loadable_all by blast

text \<open>C32. Loading succeeds exactly when the lock file is readable, every directory passes, every locked plugin
  is there and every \<open>api.py\<close> imports; the report lists the plugins in path order.\<close>

theorem load_plugins_exact:
  "load_plugins (sha256_verify sha256) pr lock_result = (Ok report, started) \<longleftrightarrow>
     (\<exists>l. lock_result = Ok l \<and> list_all (loadable sha256 pr l) (pr_slugs pr)
      \<and> set (dict_keys l) \<subseteq> set (map (slug_id pr) (pr_slugs pr))
      \<and> list_all (\<lambda>s. pr_has_api pr s \<and> pr_import_api pr s = None) (pr_slugs pr)
      \<and> started = sort (pr_slugs pr)
      \<and> report = \<lparr>lr_loaded = map (slug_id pr) (sort (pr_slugs pr)), lr_total_walked = length (pr_slugs pr)\<rparr>)"
  unfolding sha.load_Ok loadable_all ..

text \<open>Tampering: if the lock holds the digest of the files \<open>ps\<close>, a directory that passes under that
  entry has exactly these files with these bytes, or the two trees are a SHA-256 collision.\<close>

theorem loaded_tree_is_locked:
  assumes "loadable sha256 pr l slug" "pr_manifest pr slug = Ok m"
    and "dict_get l (mf_name m) = Some (tree_digest_of_files sha256 ps)"
    and "list_all (\<lambda>f. sep_free (fst f)) ps"
    and "list_all (\<lambda>e. sep_free (as_posix (te_rel e))) (dir_entries (pr_dir pr slug))"
  shows "\<exists>qs. collect_plugin_files (pr_dir pr slug) = Ok qs
    \<and> (qs = ps \<or> (tree_feed True [] qs \<noteq> tree_feed True [] ps
        \<and> sha256 (tree_feed True [] qs) = sha256 (tree_feed True [] ps)))"
proof -
  have loop: "collect_loop pid d r es ps' = Ok qs \<Longrightarrow> list_all (\<lambda>f. sep_free (fst f)) ps' \<Longrightarrow>
      list_all (\<lambda>e. sep_free (as_posix (te_rel e))) es \<Longrightarrow> list_all (\<lambda>f. sep_free (fst f)) qs" for pid d r es ps' qs
    by (induction pid d r es ps' rule: collect_loop.induct) (auto split: if_splits option.splits)
  from assms(1-3) have c: "compute_plugin_tree_digest sha256 (pr_dir pr slug) = Ok (tree_digest_of_files sha256 ps)"
    by (auto simp: loadable_def)
  then obtain qs where q: "collect_plugin_files (pr_dir pr slug) = Ok qs"
    and g: "parse_blob_digest (tree_digest_of_files sha256 qs) = Ok (tree_digest_of_files sha256 ps)"
    unfolding digest_Ok by blast
  have d: "tree_digest_of_files sha256 qs = tree_digest_of_files sha256 ps" using identifier_shapes_blob [OF g] by simp
  have "list_all (\<lambda>e. sep_free (as_posix (te_rel e))) (iter_walk (pr_dir pr slug))"
    using assms(5) by (simp add: iter_walk_def list_all_iff)
  with q have "list_all (\<lambda>f. sep_free (fst f)) qs"
    by (auto simp: collect_plugin_files_def Let_def rbind_Ok_iff list_all_iff
        dest!: loop [unfolded list_all_iff] split: option.splits)
  from tree_digest_separates [OF d this assms(4)] q show ?thesis by blast
qed

section \<open>A loaded plugin\<close>

definition sample_sha :: "string \<Rightarrow> string" where "sample_sha s = replicate 64 (CHR ''a'')"

definition sample_manifest :: plugin_manifest where
  "sample_manifest =
     \<lparr>mf_name = ''vuln--node--npm'', mf_version = ''1'',
      mf_scope = \<lparr>ms_task_class = OneStr ''vuln'', ms_languages = OneStr ''node'', ms_build_systems = OneStr ''npm''\<rparr>,
      mf_extends = [], mf_precedence = 50,
      mf_contributes = \<lparr>mc_adapters = [], mc_tccm = [], mc_subgraph = [], mc_skills = [], mc_recipes = [], mc_probes = []\<rparr>,
      mf_requirements = \<lparr>mr_external_tools = [], mr_optional = []\<rparr>\<rparr>"

definition sample_root :: plugin_root where
  "sample_root =
     \<lparr>pr_path = ''/p'', pr_slugs = [''s''],
      pr_dir = (\<lambda>_. \<lparr>dir_parts = [''p'', ''s''], dir_resolved = Some [''p'', ''s''],
        dir_entries = [\<lparr>te_rel = [''api.py''], te_resolved = Some [''p'', ''s'', ''api.py''], te_is_file = True,
          te_bytes = Some ''x''\<rparr>]\<rparr>),
      pr_manifest = (\<lambda>_. Ok sample_manifest), pr_is_dir = (\<lambda>_. True), pr_has_api = (\<lambda>_. True),
      pr_import_api = (\<lambda>_. None)\<rparr>"

definition sample_raw :: "parser_error + json" where
  "sample_raw = Ok (JObj [(''vuln--node--npm'', JStr (replicate 64 (CHR ''a'')))])"

lemma sample_lock: "lock_from_path es vs sample_raw = Ok [(''vuln--node--npm'', replicate 64 (CHR ''a''))]"
proof -
  have "parse_plugin_id ''vuln--node--npm'' = Ok ''vuln--node--npm''" by code_simp
  moreover have "parse_blob_digest (replicate 64 (CHR ''a'')) = Ok (replicate 64 (CHR ''a''))" by code_simp
  ultimately show ?thesis by (simp add: lock_from_path_def sample_raw_def lift_keys_and_values_def)
qed

lemma sample_collect: "collect_plugin_files (pr_dir sample_root ''s'') = Ok [(''api.py'', ''x'')]"
  by (simp add: collect_plugin_files_def sample_root_def iter_walk_def pycache_dir_def has_pyc_suffix_def
      pyc_suffix_def suffix_def as_posix_def)

lemma sample_digest: "compute_plugin_tree_digest sample_sha (pr_dir sample_root ''s'') = Ok (replicate 64 (CHR ''a''))"
proof -
  have "parse_blob_digest (replicate 64 (CHR ''a'')) = Ok (replicate 64 (CHR ''a''))" by code_simp
  then show ?thesis
    by (simp add: compute_plugin_tree_digest_def sample_collect tree_digest_of_files_def sample_sha_def Let_def
        del: replicate.simps)
qed

lemma sample_loadable:
  "loadable sample_sha sample_root [(''vuln--node--npm'', replicate 64 (CHR ''a''))] ''s''"
  using sample_digest by (simp add: loadable_def sample_root_def sample_manifest_def)

theorem no_code_before_verification_witness:
  "\<exists>r started l. load_plugins (sha256_verify sample_sha) sample_root (lock_from_path (\<lambda>_. []) id sample_raw)
      = (r, started) \<and> started = [''s''] \<and> lock_typed l \<and> list_all (loadable sample_sha sample_root l) [''s'']"
proof -
  obtain report where l: "load_plugins (sha256_verify sample_sha) sample_root
      (lock_from_path (\<lambda>_. []) id sample_raw) = (Ok report, [''s''])"
    using sample_loadable unfolding sha.load_Ok loadable_all sample_lock
    by (fastforce simp: sample_root_def slug_id_def sample_manifest_def)
  from no_code_before_verification [OF this] show ?thesis
    using l by (auto simp: sample_root_def)
qed

theorem loaded_tree_is_locked_witness:
  "\<exists>qs. collect_plugin_files (pr_dir sample_root ''s'') = Ok qs \<and> (qs = [(''api.py'', ''x'')] \<or>
     (tree_feed True [] qs \<noteq> tree_feed True [] [(''api.py'', ''x'')]
      \<and> sample_sha (tree_feed True [] qs) = sample_sha (tree_feed True [] [(''api.py'', ''x'')])))"
  by (rule loaded_tree_is_locked [OF sample_loadable, of sample_manifest])
    (simp_all add: sample_root_def sample_manifest_def tree_digest_of_files_def sample_sha_def sep_free_def
      unit_sep_def as_posix_def)

end
