(* ===== verification/Resolver.thy ===== *)
theory Resolver
  imports Plugin_Registry
begin

text \<open>
  \<open>src/src/codegenie/plugins/resolver.py\<close>: which plugin answers a scope. Every registered
  plugin is fanned out into single-valued candidates, the candidates that admit the scope are
  sorted by (specificity descending, precedence descending, name ascending), and the head's
  \<open>extends\<close> chain is walked depth first with a cycle check and a depth cap. The walk is
  written over an arbitrary lookup function, so that its lemmas are proved once from the laws
  of the locale \<open>plugin_source\<close> and used at the registry.
\<close>

section \<open>Candidates\<close>

definition universal_fallback_id :: plugin_id where
  "universal_fallback_id = ''universal--*--*''"

definition max_extends_depth :: nat where "max_extends_depth = 4"

record 'ad scoped_candidate =
  sc_plugin :: "'ad plugin"
  sc_lifted_scope :: plugin_scope

definition lift_dim :: "string \<Rightarrow> scope_dim" where
  "lift_dim raw = (if raw = ''*'' then Wildcard else Concrete raw)"

fun as_list :: "str_or_list \<Rightarrow> string list" where
  "as_list (OneStr s) = [s]"
| "as_list (ManyStr ss) = ss"

definition lift_manifest_scope :: "manifest_scope \<Rightarrow> plugin_scope list" where
  "lift_manifest_scope ms =
     [\<lparr>task_class = lift_dim task, language = lift_dim lang, build_system = lift_dim build\<rparr>.
        task \<leftarrow> as_list (ms_task_class ms),
        lang \<leftarrow> as_list (ms_languages ms),
        build \<leftarrow> as_list (ms_build_systems ms)]"

definition lift_candidates :: "'ad plugin list \<Rightarrow> 'ad scoped_candidate list" where
  "lift_candidates plugins =
     [\<lparr>sc_plugin = p, sc_lifted_scope = lifted\<rparr>.
        p \<leftarrow> plugins, lifted \<leftarrow> lift_manifest_scope (mf_scope (pl_manifest p))]"

fun unpack_dim :: "scope_dim \<Rightarrow> string" where
  "unpack_dim Wildcard = ''*''"
| "unpack_dim (Concrete v) = v"

definition admits_scope :: "plugin_scope \<Rightarrow> plugin_scope \<Rightarrow> bool" where
  "admits_scope lifted scope \<longleftrightarrow>
     matches lifted (unpack_dim (task_class scope)) (unpack_dim (language scope))
       (unpack_dim (build_system scope))"

definition filter_matches ::
  "'ad scoped_candidate list \<Rightarrow> plugin_scope \<Rightarrow> 'ad scoped_candidate list" where
  "filter_matches candidates scope = filter (\<lambda>c. admits_scope (sc_lifted_scope c) scope) candidates"

definition candidate_key :: "'ad scoped_candidate \<Rightarrow> int \<times> int \<times> string" where
  "candidate_key c =
     (- specificity (sc_lifted_scope c), - mf_precedence (pl_manifest (sc_plugin c)),
      pl_name (sc_plugin c))"

definition candidates_considered :: "'ad registry \<Rightarrow> plugin_id list" where
  "candidates_considered r =
     sort (filter (\<lambda>n. n \<noteq> universal_fallback_id) (map pl_name (registry_all r)))"

section \<open>Composition along the extends chain\<close>

definition empty_tccm :: composed_tccm where
  "empty_tccm = \<lparr>ct_provides = [], ct_requires = []\<rparr>"

definition plugin_tccm :: "'ad plugin \<Rightarrow> composed_tccm" where
  "plugin_tccm p = (case pl_composed_tccm p of Some t \<Rightarrow> t | None \<Rightarrow> empty_tccm)"

definition merge_tccm :: "composed_tccm \<Rightarrow> composed_tccm \<Rightarrow> composed_tccm" where
  "merge_tccm left right =
     \<lparr>ct_provides = fold (\<lambda>(outer_key, inner) merged.
          case dict_get merged outer_key of
            Some old \<Rightarrow> dict_set outer_key (dict_merge old inner) merged
          | None \<Rightarrow> dict_set outer_key inner merged)
        (ct_provides right) (ct_provides left),
      ct_requires = dict_merge (ct_requires left) (ct_requires right)\<rparr>"

definition merge_adapters :: "(string, 'ad) dict \<Rightarrow> (string, 'ad) dict \<Rightarrow> (string, 'ad) dict" where
  "merge_adapters left right = dict_merge left right"

text \<open>The three variables the nested function \<open>walk\<close> updates.\<close>

type_synonym 'ad walk_state = "'ad plugin list \<times> composed_tccm \<times> (string, 'ad) dict"

definition visit :: "'ad plugin \<Rightarrow> 'ad walk_state \<Rightarrow> 'ad walk_state" where
  "visit cur st = (case st of (chain, tccm, adapters) \<Rightarrow>
     (chain @ [cur], merge_tccm tccm (plugin_tccm cur), merge_adapters adapters (pl_adapters cur)))"

lemma rbind_cong [fundef_cong]:
  "r = r' \<Longrightarrow> (\<And>a. r' = Ok a \<Longrightarrow> f a = g a) \<Longrightarrow> rbind r f = rbind r' g"
  by (cases r') auto

text \<open>
  \<open>visited\<close> is the frozenset of the code, as a list without repetition, so that its size is
  its length; \<open>visited_path\<close> is the tuple the errors carry.
\<close>

function walk ::
  "(plugin_id \<Rightarrow> plugin_error + 'ad plugin) \<Rightarrow> nat \<Rightarrow> 'ad plugin \<Rightarrow> plugin_id list \<Rightarrow> plugin_id list
     \<Rightarrow> 'ad walk_state \<Rightarrow> plugin_error + 'ad walk_state"
and walk_all ::
  "(plugin_id \<Rightarrow> plugin_error + 'ad plugin) \<Rightarrow> nat \<Rightarrow> plugin_id list \<Rightarrow> plugin_id list \<Rightarrow> plugin_id list
     \<Rightarrow> 'ad walk_state \<Rightarrow> plugin_error + 'ad walk_state" where
  "walk get max_depth current visited visited_path st =
     (let current_name = pl_name current in
      if current_name \<in> set visited then Err (PluginExtendsCycle (visited_path @ [current_name]))
      else if length visited \<ge> max_depth
        then Err (PluginExtendsDepthExceeded (visited_path @ [current_name]))
      else rbind
        (walk_all get max_depth (mf_extends (pl_manifest current)) (List.insert current_name visited)
           (visited_path @ [current_name]) st)
        (\<lambda>st'. Ok (visit current st')))"
| "walk_all get max_depth [] visited visited_path st = Ok st"
| "walk_all get max_depth (extends_id # rest) visited visited_path st =
     rbind (get extends_id) (\<lambda>target.
       rbind (walk get max_depth target visited visited_path st) (\<lambda>st'.
         walk_all get max_depth rest visited visited_path st'))"
  by pat_completeness auto
termination
  by (relation "measures [
        \<lambda>x. case x of Inl (get, m, c, v, p, s) \<Rightarrow> m - length v | Inr (get, m, xs, v, p, s) \<Rightarrow> m - length v,
        \<lambda>x. case x of Inl (get, m, c, v, p, s) \<Rightarrow> 0 | Inr (get, m, xs, v, p, s) \<Rightarrow> Suc (length xs)]")
     auto

declare walk.simps [simp del]

record 'ad concrete_resolution =
  cr_plugin :: "'ad plugin"
  cr_extends_chain :: "'ad plugin list"
  cr_matched_scope :: plugin_scope
  cr_composed_tccm :: composed_tccm
  cr_composed_adapters :: "(string, 'ad) dict"

datatype 'ad plugin_resolution =
    ConcreteResolution "'ad concrete_resolution"
  | UniversalFallbackResolution string "plugin_id list"

definition compose_extends_chain ::
  "'ad plugin \<Rightarrow> 'ad registry \<Rightarrow> nat \<Rightarrow> plugin_error + 'ad concrete_resolution" where
  "compose_extends_chain plugin r max_depth =
     rbind (walk (registry_get r) max_depth plugin [] [] ([], empty_tccm, []))
       (\<lambda>(chain, tccm, adapters).
         case lift_manifest_scope (mf_scope (pl_manifest plugin)) of
           [] \<Rightarrow> Err IndexError
         | placeholder # _ \<Rightarrow>
             Ok \<lparr>cr_plugin = plugin, cr_extends_chain = chain, cr_matched_scope = placeholder,
                 cr_composed_tccm = tccm, cr_composed_adapters = adapters\<rparr>)"

section \<open>Resolution\<close>

definition universal_registered :: "'ad registry \<Rightarrow> bool" where
  "universal_registered r =
     (case registry_get r universal_fallback_id of Ok _ \<Rightarrow> True | Err _ \<Rightarrow> False)"

definition resolve :: "'ad registry \<Rightarrow> plugin_scope \<Rightarrow> plugin_error + 'ad plugin_resolution" where
  "resolve r scope =
     (if registry_all r = [] then Err (PluginRegistryCorrupted empty_registry)
      else
        let candidates = lift_candidates (registry_all r);
            admitted = filter_matches candidates scope in
        case sort_key candidate_key admitted of
          [] \<Rightarrow>
            if universal_registered r
            then Ok (UniversalFallbackResolution ''no_concrete_match'' [])
            else Err (PluginRegistryCorrupted missing_universal)
        | head # _ \<Rightarrow>
            if pl_name (sc_plugin head) = universal_fallback_id
            then Ok (UniversalFallbackResolution ''no_concrete_match'' (candidates_considered r))
            else rbind (compose_extends_chain (sc_plugin head) r max_extends_depth)
              (\<lambda>composed. Ok (ConcreteResolution
                 (composed\<lparr>cr_matched_scope := sc_lifted_scope head\<rparr>))))"

section \<open>Candidates: lemmas\<close>

lemma lift_dim_cases [simp]:
  "unpack_dim (lift_dim s) = s" "lift_dim ''*'' = Wildcard"
  by (auto simp: lift_dim_def)

lemma set_lift_candidates:
  "c \<in> set (lift_candidates ps) \<longleftrightarrow>
     sc_plugin c \<in> set ps \<and>
     sc_lifted_scope c \<in> set (lift_manifest_scope (mf_scope (pl_manifest (sc_plugin c))))"
  by (cases c) (force simp: lift_candidates_def)

lemma lift_manifest_scope_Nil:
  "lift_manifest_scope ms = [] \<longleftrightarrow>
     as_list (ms_task_class ms) = [] \<or> as_list (ms_languages ms) = [] \<or> as_list (ms_build_systems ms) = []"
  by (auto simp: lift_manifest_scope_def)

lemma length_lift_manifest_scope:
  "length (lift_manifest_scope ms) =
     length (as_list (ms_task_class ms)) * length (as_list (ms_languages ms))
       * length (as_list (ms_build_systems ms))"
  by (simp add: lift_manifest_scope_def length_concat comp_def sum_list_triv mult.assoc)

lemma candidate_key_le:
  "candidate_key c \<le> candidate_key d \<longleftrightarrow>
     (let s = specificity (sc_lifted_scope c); s' = specificity (sc_lifted_scope d);
          q = mf_precedence (pl_manifest (sc_plugin c)); q' = mf_precedence (pl_manifest (sc_plugin d))
      in s > s' \<or> (s = s' \<and> (q > q' \<or> (q = q' \<and> pl_name (sc_plugin c) \<le> pl_name (sc_plugin d)))))"
  by (auto simp: candidate_key_def less_eq_prod_def Let_def)

section \<open>The walk: paths along \<open>extends\<close>\<close>

text \<open>
  The specification of the walk: a path of \<open>extends\<close> targets below a plugin, in which every
  target but the last is resolved to the plugin that names the next.
\<close>

fun ext_path :: "(plugin_id \<Rightarrow> plugin_error + 'ad plugin) \<Rightarrow> 'ad plugin \<Rightarrow> plugin_id list \<Rightarrow> bool" where
  "ext_path get cur [] = True"
| "ext_path get cur (e # es) =
     (e \<in> set (mf_extends (pl_manifest cur)) \<and>
      (es = [] \<or> (\<exists>q. get e = Ok q \<and> ext_path get q es)))"

definition bounded_below ::
  "(plugin_id \<Rightarrow> plugin_error + 'ad plugin) \<Rightarrow> 'ad plugin \<Rightarrow> nat \<Rightarrow> bool" where
  "bounded_below get cur k \<longleftrightarrow>
     (\<forall>es. ext_path get cur es \<longrightarrow> length es < k \<and> (\<forall>e \<in> set es. \<exists>q. get e = Ok q))"

lemma ext_path_append:
  "ext_path get cur es \<Longrightarrow> es \<noteq> [] \<Longrightarrow> get (last es) = Ok q \<Longrightarrow> ext_path get q fs \<Longrightarrow>
     ext_path get cur (es @ fs)"
  by (induction get cur es rule: ext_path.induct) (auto split: if_splits)

lemma ext_path_cycle:
  assumes "ext_path get cur es" and "es \<noteq> []" and "get (last es) = Ok cur"
  shows "\<exists>fs. ext_path get cur fs \<and> n \<le> length fs"
proof (induction n)
  case 0
  then show ?case using ext_path.simps(1) by blast
next
  case (Suc n)
  then obtain fs where "ext_path get cur fs" "n \<le> length fs" by blast
  with assms have "ext_path get cur (es @ fs)" by (blast intro: ext_path_append)
  moreover from assms(2) \<open>n \<le> length fs\<close> have "Suc n \<le> length (es @ fs)" by (cases es) auto
  moreover note \<open>ext_path get cur fs\<close>
  ultimately show ?case by blast
qed

lemma bounded_below_child:
  assumes "bounded_below get cur (Suc k)" and "e \<in> set (mf_extends (pl_manifest cur))"
  obtains q where "get e = Ok q" and "bounded_below get q k"
proof -
  from assms have "\<exists>q. get e = Ok q"
    by (auto simp: bounded_below_def dest!: spec [of _ "[e]"])
  then obtain q where q: "get e = Ok q" ..
  have "bounded_below get q k"
    unfolding bounded_below_def
  proof (intro allI impI)
    fix es
    assume "ext_path get q es"
    with q assms(2) have "ext_path get cur (e # es)" by auto
    with assms(1) have "length (e # es) < Suc k \<and> (\<forall>e' \<in> set (e # es). \<exists>q. get e' = Ok q)"
      unfolding bounded_below_def by blast
    then show "length es < k \<and> (\<forall>e \<in> set es. \<exists>q. get e = Ok q)" by simp
  qed
  with q that show thesis by blast
qed

lemma bounded_below_pos: "bounded_below get cur k \<Longrightarrow> 0 < k"
  by (auto simp: bounded_below_def dest!: spec [of _ "[]"])

text \<open>A walk that returns has seen only paths within the cap, all of them resolved.\<close>

lemma walk_Ok_bounded:
  "walk get m cur v p st = Ok st' \<Longrightarrow> ext_path get cur es \<Longrightarrow>
     length es < m - length v \<and> (\<forall>e \<in> set es. \<exists>q. get e = Ok q)"
  and walk_all_Ok_bounded:
  "walk_all get m xs v p st = Ok st' \<Longrightarrow> e \<in> set xs \<Longrightarrow> es = [] \<or> (\<exists>q. get e = Ok q \<and> ext_path get q es) \<Longrightarrow>
     (\<exists>q. get e = Ok q) \<and> (es = [] \<or> length es < m - length v \<and> (\<forall>e \<in> set es. \<exists>q. get e = Ok q))
       \<and> length v < m"
proof (induction get m cur v p st and get m xs v p st arbitrary: st' es and st' e es
    rule: walk_walk_all.induct)
  case (1 get m cur v p st)
  from "1.prems"(1) obtain st1 where notin: "pl_name cur \<notin> set v" and len: "length v < m"
    and all: "walk_all get m (mf_extends (pl_manifest cur)) (List.insert (pl_name cur) v)
        (p @ [pl_name cur]) st = Ok st1"
    by (auto simp: walk.simps Let_def rbind_iffs split: if_splits)
  show ?case
  proof (cases es)
    case Nil
    with len show ?thesis by simp
  next
    case (Cons e fs)
    with "1.prems"(2) have e: "e \<in> set (mf_extends (pl_manifest cur))"
      and fs: "fs = [] \<or> (\<exists>q. get e = Ok q \<and> ext_path get q fs)" by auto
    have "length (List.insert (pl_name cur) v) = Suc (length v)" using notin by simp
    with "1.IH" [OF refl notin _ all e fs] len Cons show ?thesis by auto
  qed
next
  case (2 get m v p st)
  then show ?case by simp
next
  case (3 get m x xs v p st)
  from "3.prems"(1) obtain t st1 where t: "get x = Ok t" and w: "walk get m t v p st = Ok st1"
    and rest: "walk_all get m xs v p st1 = Ok st'"
    by (auto simp: rbind_iffs)
  show ?case
  proof (cases "e = x")
    case True
    with "3.prems"(3) t have "es = [] \<or> ext_path get t es" by auto
    with "3.IH"(1) [OF t w, of es] "3.IH"(1) [OF t w, of "[]"] t True show ?thesis by auto
  next
    case False
    with "3.prems"(2) have "e \<in> set xs" by simp
    with "3.IH"(2) [OF t w rest] "3.prems"(3) show ?thesis by blast
  qed
qed

lemma walk_all_exists:
  "(\<And>e st. e \<in> set xs \<Longrightarrow> \<exists>q st'. get e = Ok q \<and> walk get m q v p st = Ok st') \<Longrightarrow>
     \<exists>st'. walk_all get m xs v p st = Ok st'"
proof (induction xs arbitrary: st)
  case Nil
  then show ?case by (cases st) simp
next
  case (Cons x xs)
  from Cons.prems [of x st] obtain q st1 where
    x: "get x = Ok q" "walk get m q v p st = Ok st1" by auto
  have "\<exists>st'. walk_all get m xs v p st1 = Ok st'"
    by (rule Cons.IH) (rule Cons.prems, simp)
  with x show ?case by simp
qed

definition reaches :: "(plugin_id \<Rightarrow> plugin_error + 'ad plugin) \<Rightarrow> 'ad plugin \<Rightarrow> plugin_id \<Rightarrow> bool" where
  "reaches get cur n \<longleftrightarrow> pl_name cur = n \<or> (\<exists>es. es \<noteq> [] \<and> ext_path get cur es \<and> last es = n)"

lemma reaches_child:
  "e \<in> set (mf_extends (pl_manifest cur)) \<Longrightarrow> get e = Ok q \<Longrightarrow> pl_name q = e \<Longrightarrow> reaches get q n \<Longrightarrow>
     \<exists>es. es \<noteq> [] \<and> ext_path get cur es \<and> last es = n"
  unfolding reaches_def
proof (elim disjE exE conjE)
  assume "e \<in> set (mf_extends (pl_manifest cur))" "pl_name q = e" "pl_name q = n"
  then show ?thesis by (intro exI [of _ "[e]"]) auto
next
  fix es
  assume "e \<in> set (mf_extends (pl_manifest cur))" "get e = Ok q" "es \<noteq> []" "ext_path get q es"
    "last es = n"
  then show ?thesis by (intro exI [of _ "e # es"]) auto
qed

context plugin_source
begin

text \<open>Conversely, within the cap and with every target registered, the walk returns: a
  revisited name would be a cycle, and a cycle has paths of every length.\<close>

lemma walk_exists:
  assumes inv: "source_inv r"
  shows "bounded_below (source_get r) cur k \<Longrightarrow> k + length v \<le> m \<Longrightarrow> cur \<in> set (source_all r) \<Longrightarrow>
    (\<And>n. n \<in> set v \<Longrightarrow> \<not> reaches (source_get r) cur n) \<Longrightarrow>
    \<exists>st'. walk (source_get r) m cur v p st = Ok st'"
proof (induction k arbitrary: cur v p st)
  case 0
  then show ?case using bounded_below_pos by blast
next
  case (Suc k)
  let ?get = "source_get r"
  let ?v = "List.insert (pl_name cur) v"
  have notin: "pl_name cur \<notin> set v"
    using Suc.prems(4) by (auto simp: reaches_def)
  have self: "?get (pl_name cur) = Ok cur"
    using inv Suc.prems(3) by (rule get_registered)
  have acyclic: "\<not> (\<exists>es. es \<noteq> [] \<and> ext_path ?get cur es \<and> last es = pl_name cur)"
  proof
    assume "\<exists>es. es \<noteq> [] \<and> ext_path ?get cur es \<and> last es = pl_name cur"
    with self obtain fs where "ext_path ?get cur fs" "Suc k \<le> length fs"
      using ext_path_cycle by metis
    with Suc.prems(1) show False by (auto simp: bounded_below_def not_less)
  qed
  have child: "\<exists>q st'. ?get e = Ok q \<and> walk ?get m q ?v (p @ [pl_name cur]) st = Ok st'"
    if e: "e \<in> set (mf_extends (pl_manifest cur))" for e st
  proof -
    from bounded_below_child [OF Suc.prems(1) e] obtain q where q: "?get e = Ok q"
      and bd: "bounded_below ?get q k" .
    from inv q have name: "pl_name q = e" and reg: "q \<in> set (source_all r)"
      by (simp_all add: get_all)
    have "\<not> reaches ?get q n" if "n \<in> set ?v" for n
      using reaches_child [of e cur ?get q n, OF e q name] that acyclic Suc.prems(4) [of n] notin
      by (auto simp: reaches_def)
    moreover have "k + length ?v \<le> m" using Suc.prems(2) notin by simp
    ultimately show ?thesis using Suc.IH [OF bd _ reg] q by blast
  qed
  obtain st1 where "walk_all ?get m (mf_extends (pl_manifest cur)) ?v (p @ [pl_name cur]) st = Ok st1"
    using walk_all_exists [where get = ?get and m = m and v = ?v and p = "p @ [pl_name cur]"] child
    by blast
  with notin Suc.prems(2) show ?case
    by (cases "visit cur st1") (simp add: walk.simps Let_def)
qed

theorem walk_succeeds_iff:
  assumes "source_inv r" and "cur \<in> set (source_all r)"
  shows "(\<exists>st'. walk (source_get r) m cur [] [] st = Ok st') \<longleftrightarrow> bounded_below (source_get r) cur m"
proof
  assume "\<exists>st'. walk (source_get r) m cur [] [] st = Ok st'"
  then show "bounded_below (source_get r) cur m"
    using walk_Ok_bounded by (fastforce simp: bounded_below_def)
next
  assume "bounded_below (source_get r) cur m"
  then show "\<exists>st'. walk (source_get r) m cur [] [] st = Ok st'"
    using assms by (intro walk_exists) auto
qed

end

section \<open>What the walk composes\<close>

text \<open>A chain lists plugins after everything they extend.\<close>

fun ordered_chain :: "plugin_id set \<Rightarrow> 'ad plugin list \<Rightarrow> bool" where
  "ordered_chain seen [] = True"
| "ordered_chain seen (p # ps) =
     (set (mf_extends (pl_manifest p)) \<subseteq> seen \<and> ordered_chain (insert (pl_name p) seen) ps)"

lemma ordered_chain_append:
  "ordered_chain seen (xs @ ys) \<longleftrightarrow>
     ordered_chain seen xs \<and> ordered_chain (seen \<union> pl_name ` set xs) ys"
  by (induction xs arbitrary: seen) (auto simp: Un_commute)

lemma ordered_chain_mono: "ordered_chain seen xs \<Longrightarrow> seen \<subseteq> seen' \<Longrightarrow> ordered_chain seen' xs"
  by (induction xs arbitrary: seen seen') (auto, metis insert_mono)

lemma fold_visit:
  "fold visit xs (chain, t, a) =
     (chain @ xs, fold (\<lambda>p t. merge_tccm t (plugin_tccm p)) xs t,
      fold (\<lambda>p a. merge_adapters a (pl_adapters p)) xs a)"
  by (induction xs arbitrary: chain t a) (auto simp: visit_def)

lemma walk_composes:
  assumes "\<And>n q. get n = Ok q \<Longrightarrow> pl_name q = n"
  shows "walk get m cur v p st = Ok st' \<Longrightarrow>
      \<exists>ps. st' = fold visit (ps @ [cur]) st \<and> ordered_chain {} (ps @ [cur])
         \<and> (\<forall>q \<in> set ps. get (pl_name q) = Ok q)"
    and "walk_all get m xs v p st = Ok st' \<Longrightarrow>
      \<exists>ps. st' = fold visit ps st \<and> ordered_chain {} ps \<and> set xs \<subseteq> pl_name ` set ps
         \<and> (\<forall>q \<in> set ps. get (pl_name q) = Ok q)"
  using assms
proof (induction get m cur v p st and get m xs v p st arbitrary: st' and st'
    rule: walk_walk_all.induct)
  case (1 get m cur v p st)
  from "1.prems"(1) obtain st1 where notin: "pl_name cur \<notin> set v" and len: "length v < m"
    and all: "walk_all get m (mf_extends (pl_manifest cur)) (List.insert (pl_name cur) v)
        (p @ [pl_name cur]) st = Ok st1" and st': "st' = visit cur st1"
    by (auto simp: walk.simps Let_def rbind_iffs split: if_splits)
  from "1.IH" [OF refl notin _ all] len "1.prems"(2) obtain ps where
    "st1 = fold visit ps st" "ordered_chain {} ps"
    "set (mf_extends (pl_manifest cur)) \<subseteq> pl_name ` set ps"
    "\<forall>q \<in> set ps. get (pl_name q) = Ok q" by auto
  with st' show ?case
    by (intro exI [of _ ps]) (auto simp: ordered_chain_append)
next
  case (2 get m v p st)
  then show ?case by (intro exI [of _ "[]"]) auto
next
  case (3 get m x xs v p st)
  from "3.prems"(1) obtain t st1 where t: "get x = Ok t" and w: "walk get m t v p st = Ok st1"
    and rest: "walk_all get m xs v p st1 = Ok st'"
    by (auto simp: rbind_iffs)
  from "3.IH"(1) [OF t w] "3.prems"(2) obtain ps where
    ps: "st1 = fold visit (ps @ [t]) st" "ordered_chain {} (ps @ [t])"
      "\<forall>q \<in> set ps. get (pl_name q) = Ok q" by blast
  from "3.IH"(2) [OF t w rest] "3.prems"(2) obtain qs where
    qs: "st' = fold visit qs st1" "ordered_chain {} qs" "set xs \<subseteq> pl_name ` set qs"
      "\<forall>q \<in> set qs. get (pl_name q) = Ok q" by blast
  have "pl_name t = x" using t "3.prems"(2) by blast
  moreover have "ordered_chain {} ((ps @ [t]) @ qs)"
    using ps(2) qs(2) by (subst ordered_chain_append) (auto intro: ordered_chain_mono)
  ultimately show ?case
    using ps qs t by (intro exI [of _ "ps @ [t] @ qs"]) auto
qed

text \<open>Later-wins merging: the value of a key is that of the last dictionary that has it.\<close>

fun last_wins :: "('k, 'v) dict list \<Rightarrow> 'k \<Rightarrow> 'v option" where
  "last_wins [] k = None"
| "last_wins (d # ds) k = (case last_wins ds k of Some v \<Rightarrow> Some v | None \<Rightarrow> dict_get d k)"

lemma fold_merge_adapters:
  "\<forall>p \<in> set ps. dict_wf (pl_adapters p) \<Longrightarrow>
   dict_get (fold (\<lambda>p a. merge_adapters a (pl_adapters p)) ps a) k =
     (case last_wins (map pl_adapters ps) k of Some v \<Rightarrow> Some v | None \<Rightarrow> dict_get a k)"
  by (induction ps arbitrary: a)
     (auto simp: merge_adapters_def dict_get_merge split: option.splits)

section \<open>Resolution: lemmas\<close>

lemma compose_extends_chain_iff:
  "compose_extends_chain p r m = Ok c \<longleftrightarrow>
     (\<exists>chain t a placeholder rest.
        walk (registry_get r) m p [] [] ([], empty_tccm, []) = Ok (chain, t, a)
        \<and> lift_manifest_scope (mf_scope (pl_manifest p)) = placeholder # rest
        \<and> c = \<lparr>cr_plugin = p, cr_extends_chain = chain, cr_matched_scope = placeholder,
                cr_composed_tccm = t, cr_composed_adapters = a\<rparr>)"
  by (cases "lift_manifest_scope (mf_scope (pl_manifest p))")
     (auto simp: compose_extends_chain_def rbind_iffs)

lemma compose_extends_chain_Ok:
  assumes inv: "registry_inv r" and reg: "p \<in> set (registry_all r)"
    and ok: "compose_extends_chain p r m = Ok c"
  shows "cr_plugin c = p \<and> last (cr_extends_chain c) = p \<and> cr_extends_chain c \<noteq> []
    \<and> set (cr_extends_chain c) \<subseteq> set (registry_all r) \<and> ordered_chain {} (cr_extends_chain c)
    \<and> cr_composed_tccm c =
        fold (\<lambda>p t. merge_tccm t (plugin_tccm p)) (cr_extends_chain c) empty_tccm
    \<and> cr_composed_adapters c =
        fold (\<lambda>p a. merge_adapters a (pl_adapters p)) (cr_extends_chain c) []"
proof -
  from ok obtain chain t a where w: "walk (registry_get r) m p [] [] ([], empty_tccm, []) = Ok (chain, t, a)"
    and c: "cr_plugin c = p" "cr_extends_chain c = chain" "cr_composed_tccm c = t"
      "cr_composed_adapters c = a"
    by (auto simp: compose_extends_chain_iff)
  from walk_composes(1) [OF _ w] reg.get_name [OF inv] obtain ps where
    ps: "(chain, t, a) = fold visit (ps @ [p]) ([], empty_tccm, [])"
      "ordered_chain {} (ps @ [p])" "\<forall>q \<in> set ps. registry_get r (pl_name q) = Ok q" by blast
  from ps(3) inv have "set ps \<subseteq> set (registry_all r)" by (auto simp: reg.get_all)
  with ps(1,2) c reg show ?thesis by (auto simp: fold_visit visit_def)
qed

lemma compose_extends_chain_exists:
  assumes "registry_inv r" and "p \<in> set (registry_all r)"
    and "lift_manifest_scope (mf_scope (pl_manifest p)) \<noteq> []"
  shows "(\<exists>c. compose_extends_chain p r m = Ok c) \<longleftrightarrow> bounded_below (registry_get r) p m"
proof -
  from assms(3) obtain s rest where "lift_manifest_scope (mf_scope (pl_manifest p)) = s # rest"
    by (cases "lift_manifest_scope (mf_scope (pl_manifest p))") auto
  then have "(\<exists>c. compose_extends_chain p r m = Ok c) \<longleftrightarrow>
      (\<exists>st. walk (registry_get r) m p [] [] ([], empty_tccm, []) = Ok st)"
    by (simp add: compose_extends_chain_iff)
  with reg.walk_succeeds_iff [OF assms(1,2)] show ?thesis by blast
qed

lemma universal_registered_iff:
  "registry_inv r \<Longrightarrow> universal_registered r \<longleftrightarrow> universal_fallback_id \<in> pl_name ` set (registry_all r)"
proof (cases "registry_get r universal_fallback_id")
  case (Inl e)
  then have "\<not> universal_registered r" by (simp add: universal_registered_def)
  moreover assume "registry_inv r"
  ultimately show ?thesis using Inl by (simp add: reg.get_missing)
next
  case (Inr p)
  then have "universal_registered r" by (simp add: universal_registered_def)
  moreover assume "registry_inv r"
  ultimately show ?thesis using Inr by (metis reg.get_all image_eqI)
qed

text \<open>What a candidate in the sorted, filtered list is.\<close>

definition admitted_candidates :: "'ad registry \<Rightarrow> plugin_scope \<Rightarrow> 'ad scoped_candidate list" where
  "admitted_candidates r scope = filter_matches (lift_candidates (registry_all r)) scope"

lemma admitted_candidates_iff:
  "c \<in> set (admitted_candidates r scope) \<longleftrightarrow>
     sc_plugin c \<in> set (registry_all r)
      \<and> sc_lifted_scope c \<in> set (lift_manifest_scope (mf_scope (pl_manifest (sc_plugin c))))
      \<and> admits_scope (sc_lifted_scope c) scope"
  by (auto simp: admitted_candidates_def filter_matches_def set_lift_candidates)

lemma resolve_unfold:
  "resolve r scope =
     (if registry_all r = [] then Err (PluginRegistryCorrupted empty_registry)
      else case sort_key candidate_key (admitted_candidates r scope) of
          [] \<Rightarrow> if universal_registered r
                then Ok (UniversalFallbackResolution ''no_concrete_match'' [])
                else Err (PluginRegistryCorrupted missing_universal)
        | head # _ \<Rightarrow>
            if pl_name (sc_plugin head) = universal_fallback_id
            then Ok (UniversalFallbackResolution ''no_concrete_match'' (candidates_considered r))
            else rbind (compose_extends_chain (sc_plugin head) r max_extends_depth)
              (\<lambda>composed. Ok (ConcreteResolution (composed\<lparr>cr_matched_scope := sc_lifted_scope head\<rparr>))))"
  by (simp add: resolve_def admitted_candidates_def Let_def)

section \<open>An example registry\<close>

definition node_scope :: manifest_scope where
  "node_scope = \<lparr>ms_task_class = OneStr ''vuln'', ms_languages = ManyStr [''node'', ''python''],
     ms_build_systems = OneStr ''*''\<rparr>"

definition demo_universal :: "nat plugin" where
  "demo_universal = bare_plugin ''universal--*--*'' ''u.U'' any_scope [] 0"

definition demo_base :: "nat plugin" where
  "demo_base = (bare_plugin ''base--x--y'' ''b.B'' any_scope [] (-5))\<lparr>pl_adapters := [(''graph'', 1), (''tests'', 2)]\<rparr>"

definition demo_node :: "nat plugin" where
  "demo_node = (bare_plugin ''vuln--node--npm'' ''n.N'' node_scope [''base--x--y''] 50)\<lparr>pl_adapters := [(''graph'', 7)]\<rparr>"

definition demo_registry :: "nat registry" where
  "demo_registry =
     \<lparr>rg_plugins = [(''universal--*--*'', demo_universal), (''base--x--y'', demo_base),
        (''vuln--node--npm'', demo_node)],
      rg_origins = [(''universal--*--*'', ''u.U''), (''base--x--y'', ''b.B''), (''vuln--node--npm'', ''n.N'')]\<rparr>"

definition demo_incoming :: plugin_scope where
  "demo_incoming = \<lparr>task_class = Concrete ''vuln'', language = Concrete ''node'', build_system = Concrete ''npm''\<rparr>"

definition demo_resolution :: "nat concrete_resolution" where
  "demo_resolution =
     \<lparr>cr_plugin = demo_node, cr_extends_chain = [demo_base, demo_node],
      cr_matched_scope = \<lparr>task_class = Concrete ''vuln'', language = Concrete ''node'', build_system = Wildcard\<rparr>,
      cr_composed_tccm = empty_tccm, cr_composed_adapters = [(''graph'', 7), (''tests'', 2)]\<rparr>"

lemma demo_registry_inv: "registry_inv demo_registry"
  by (simp add: registry_inv_def demo_registry_def dict_wf_def demo_universal_def demo_base_def demo_node_def)

lemma demo_all: "registry_all demo_registry = [demo_universal, demo_base, demo_node]"
  by (simp add: registry_all_def demo_registry_def)

lemma demo_resolve: "resolve demo_registry demo_incoming = Ok (ConcreteResolution demo_resolution)"
  by code_simp

lemma demo_resolve_other:
  "resolve demo_registry
     \<lparr>task_class = Concrete ''distroless'', language = Wildcard, build_system = Wildcard\<rparr>
   = Ok (UniversalFallbackResolution ''no_concrete_match'' [''base--x--y'', ''vuln--node--npm''])"
  by code_simp

lemma demo_bounded:
  "p \<in> set (registry_all demo_registry) \<Longrightarrow> bounded_below (registry_get demo_registry) p max_extends_depth"
proof -
  assume p: "p \<in> set (registry_all demo_registry)"
  have get: "registry_get demo_registry ''base--x--y'' = Ok demo_base"
    by (simp add: registry_get_def demo_registry_def)
  have leaf: "ext_path (registry_get demo_registry) demo_base es \<Longrightarrow> es = []" for es
    by (cases es) (simp_all add: demo_base_def)
  have "length es < max_extends_depth \<and> (\<forall>e \<in> set es. \<exists>q. registry_get demo_registry e = Ok q)"
    if "ext_path (registry_get demo_registry) p es" for es
  proof (cases es)
    case (Cons e fs)
    with that p have "e = ''base--x--y''" "fs = []"
      using leaf get by (auto simp: demo_all demo_universal_def demo_node_def demo_base_def)
    with Cons get show ?thesis by (simp add: max_extends_depth_def)
  qed (simp add: max_extends_depth_def)
  then show ?thesis by (simp add: bounded_below_def)
qed

section \<open>Properties\<close>

text \<open>C7. A concrete resolution is right: its plugin is registered and is not the universal
  one, its matched scope is one of the plugin's lifted scopes and admits the incoming scope,
  and no registered candidate that admits the scope is preferable in (specificity descending,
  precedence descending, name ascending).\<close>

theorem resolve_concrete_best:
  assumes "resolve r scope = Ok (ConcreteResolution c)" and "registry_inv r"
  shows "cr_plugin c \<in> set (registry_all r) \<and> pl_name (cr_plugin c) \<noteq> universal_fallback_id
    \<and> cr_matched_scope c \<in> set (lift_manifest_scope (mf_scope (pl_manifest (cr_plugin c))))
    \<and> admits_scope (cr_matched_scope c) scope
    \<and> (\<forall>p \<in> set (registry_all r). \<forall>s \<in> set (lift_manifest_scope (mf_scope (pl_manifest p))).
         admits_scope s scope \<longrightarrow>
         candidate_key \<lparr>sc_plugin = cr_plugin c, sc_lifted_scope = cr_matched_scope c\<rparr>
           \<le> candidate_key \<lparr>sc_plugin = p, sc_lifted_scope = s\<rparr>)"
proof -
  from assms(1) obtain head rest where sorted:
      "sort_key candidate_key (admitted_candidates r scope) = head # rest"
    and name: "pl_name (sc_plugin head) \<noteq> universal_fallback_id"
    and comp: "\<exists>c0. compose_extends_chain (sc_plugin head) r max_extends_depth = Ok c0
        \<and> c = c0\<lparr>cr_matched_scope := sc_lifted_scope head\<rparr>"
    by (auto simp: resolve_unfold rbind_iffs split: if_splits list.splits)
  have head: "head \<in> set (admitted_candidates r scope)"
    using sort_key_head_in [OF sorted] .
  from comp have c: "cr_plugin c = sc_plugin head" "cr_matched_scope c = sc_lifted_scope head"
    by (auto simp: compose_extends_chain_iff)
  then have eq: "\<lparr>sc_plugin = cr_plugin c, sc_lifted_scope = cr_matched_scope c\<rparr> = head" by simp
  have best: "candidate_key head \<le> candidate_key \<lparr>sc_plugin = p, sc_lifted_scope = s\<rparr>"
    if "p \<in> set (registry_all r)" "s \<in> set (lift_manifest_scope (mf_scope (pl_manifest p)))"
      "admits_scope s scope" for p s
    using sort_key_head_min [OF sorted] that by (simp add: admitted_candidates_iff)
  show ?thesis
    using head name best unfolding eq by (simp add: c admitted_candidates_iff)
qed

theorem resolve_concrete_best_witness:
  "resolve demo_registry demo_incoming = Ok (ConcreteResolution demo_resolution)
    \<and> cr_plugin demo_resolution \<in> set (registry_all demo_registry)
    \<and> admits_scope (cr_matched_scope demo_resolution) demo_incoming"
  using demo_resolve resolve_concrete_best [OF demo_resolve demo_registry_inv] by blast

text \<open>The extends chain of a concrete resolution ends in the resolved plugin, holds only
  registered plugins and lists every plugin after all it extends; for every primitive the
  composed adapter is that of the last plugin of the chain that provides one.\<close>

theorem resolve_chain_composed:
  assumes "resolve r scope = Ok (ConcreteResolution c)" and "registry_inv r"
    and "\<forall>p \<in> set (registry_all r). dict_wf (pl_adapters p)"
  shows "cr_extends_chain c \<noteq> [] \<and> last (cr_extends_chain c) = cr_plugin c
    \<and> set (cr_extends_chain c) \<subseteq> set (registry_all r)
    \<and> ordered_chain {} (cr_extends_chain c)
    \<and> dict_get (cr_composed_adapters c) k = last_wins (map pl_adapters (cr_extends_chain c)) k"
proof -
  from assms(1) obtain head rest where sorted:
      "sort_key candidate_key (admitted_candidates r scope) = head # rest"
    and comp: "\<exists>c0. compose_extends_chain (sc_plugin head) r max_extends_depth = Ok c0
        \<and> c = c0\<lparr>cr_matched_scope := sc_lifted_scope head\<rparr>"
    by (auto simp: resolve_unfold rbind_iffs split: if_splits list.splits)
  have reg: "sc_plugin head \<in> set (registry_all r)"
    using sort_key_head_in [OF sorted] by (simp add: admitted_candidates_iff)
  from comp obtain c0 where c0: "compose_extends_chain (sc_plugin head) r max_extends_depth = Ok c0"
    and c: "c = c0\<lparr>cr_matched_scope := sc_lifted_scope head\<rparr>" by blast
  note chain = compose_extends_chain_Ok [OF assms(2) reg c0]
  then have "\<forall>p \<in> set (cr_extends_chain c0). dict_wf (pl_adapters p)" using assms(3) by blast
  from chain fold_merge_adapters [OF this, of "[]" k] show ?thesis
    by (simp add: c split: option.splits)
qed

theorem resolve_chain_composed_witness:
  "cr_extends_chain demo_resolution = [demo_base, demo_node]
    \<and> dict_get (cr_composed_adapters demo_resolution) ''graph'' = Some 7"
proof -
  have "\<forall>p \<in> set (registry_all demo_registry). dict_wf (pl_adapters p)"
    by (simp add: demo_all demo_universal_def demo_base_def demo_node_def dict_wf_def)
  from resolve_chain_composed [OF demo_resolve demo_registry_inv this, of "''graph''"]
  show ?thesis by (simp add: demo_resolution_def demo_node_def demo_base_def)
qed

text \<open>\<open>resolve\<close> is total on well-formed registries: when the universal plugin is
  registered and below every plugin the extends paths stay under the depth cap and end in
  registered plugins, every scope gets a resolution; no exception is possible.\<close>

theorem resolve_total:
  assumes "registry_inv r" and "universal_fallback_id \<in> pl_name ` set (registry_all r)"
    and "\<forall>p \<in> set (registry_all r). bounded_below (registry_get r) p max_extends_depth"
  shows "\<exists>res. resolve r scope = Ok res"
proof -
  from assms(2) have nonempty: "registry_all r \<noteq> []" by auto
  show ?thesis
  proof (cases "sort_key candidate_key (admitted_candidates r scope)")
    case Nil
    with nonempty assms show ?thesis by (simp add: resolve_unfold universal_registered_iff)
  next
    case (Cons head rest)
    then have head: "sc_plugin head \<in> set (registry_all r)"
        "lift_manifest_scope (mf_scope (pl_manifest (sc_plugin head))) \<noteq> []"
      using sort_key_head_in [OF Cons] by (auto simp: admitted_candidates_iff)
    with assms(1,3) obtain c where
      "compose_extends_chain (sc_plugin head) r max_extends_depth = Ok c"
      using compose_extends_chain_exists by blast
    with nonempty Cons show ?thesis by (simp add: resolve_unfold)
  qed
qed

theorem resolve_total_witness:
  "\<exists>res. resolve demo_registry \<lparr>task_class = Wildcard, language = Wildcard, build_system = Wildcard\<rparr> = Ok res"
proof (rule resolve_total)
  show "universal_fallback_id \<in> pl_name ` set (registry_all demo_registry)"
    by (simp add: demo_all demo_universal_def universal_fallback_id_def)
qed (use demo_registry_inv demo_bounded in auto)

text \<open>The extends walk of a registered plugin with a non-empty scope succeeds exactly when
  every path of extends links below it is shorter than the depth cap and names registered
  plugins only; so a cycle, a chain that is too deep and a missing target are all refused,
  and nothing else is.\<close>

theorem compose_succeeds_iff_bounded:
  assumes "registry_inv r" and "p \<in> set (registry_all r)"
    and "lift_manifest_scope (mf_scope (pl_manifest p)) \<noteq> []"
  shows "(\<exists>c. compose_extends_chain p r m = Ok c) \<longleftrightarrow>
    (\<forall>es. ext_path (registry_get r) p es \<longrightarrow>
       length es < m \<and> set es \<subseteq> pl_name ` set (registry_all r))"
proof -
  have "(\<exists>q. registry_get r e = Ok q) \<longleftrightarrow> e \<in> pl_name ` set (registry_all r)" for e
    using assms(1) by (auto simp: reg.get_all image_iff)
  then show ?thesis
    by (subst compose_extends_chain_exists [OF assms]) (auto simp: bounded_below_def)
qed

theorem compose_succeeds_iff_bounded_witness:
  "\<exists>c. compose_extends_chain demo_node demo_registry 2 = Ok c"
proof -
  have reg: "demo_node \<in> set (registry_all demo_registry)" by (simp add: demo_all)
  have scope: "lift_manifest_scope (mf_scope (pl_manifest demo_node)) \<noteq> []" by code_simp
  have "length es < 2 \<and> set es \<subseteq> pl_name ` set (registry_all demo_registry)"
    if "ext_path (registry_get demo_registry) demo_node es" for es
  proof (cases es)
    case (Cons e fs)
    moreover from this that have "e = ''base--x--y''" by (simp add: demo_node_def)
    moreover from Cons that this have "fs = []"
      by (cases fs) (auto simp: registry_get_def demo_registry_def demo_base_def)
    ultimately show ?thesis by (simp add: demo_all demo_base_def)
  qed simp
  with compose_succeeds_iff_bounded [OF demo_registry_inv reg scope, of 2] show ?thesis by blast
qed

text \<open>An unspecified dimension of the incoming scope is not free: a candidate is admitted
  only if it is a wildcard in every dimension where the incoming scope is one, so a wildcard
  request reaches only plugins that declare the wildcard there.\<close>

theorem incoming_wildcard_needs_wildcard:
  assumes "s \<in> set (lift_manifest_scope ms)" and "admits_scope s scope"
  shows "(task_class scope = Wildcard \<longrightarrow> task_class s = Wildcard)
    \<and> (language scope = Wildcard \<longrightarrow> language s = Wildcard)
    \<and> (build_system scope = Wildcard \<longrightarrow> build_system s = Wildcard)"
  using assms
  by (auto simp: lift_manifest_scope_def admits_scope_def matches_def lift_dim_def split: if_splits)

theorem incoming_wildcard_needs_wildcard_witness:
  "\<exists>s. s \<in> set (lift_manifest_scope node_scope)
    \<and> admits_scope s \<lparr>task_class = Concrete ''vuln'', language = Concrete ''node'', build_system = Wildcard\<rparr>
    \<and> build_system s = Wildcard"
proof -
  let ?s = "\<lparr>task_class = Concrete ''vuln'', language = Concrete ''node'', build_system = Wildcard\<rparr>"
  have h: "?s \<in> set (lift_manifest_scope node_scope)" "admits_scope ?s ?s" by code_simp+
  have b: "build_system ?s = Wildcard"
    by (rule incoming_wildcard_needs_wildcard [OF h, THEN conjunct2, THEN conjunct2, THEN mp]) simp
  show ?thesis by (intro exI [of _ ?s] conjI h b)
qed

text \<open>The concrete \<open>node\<close> plugin is not reached when the caller leaves the language open.\<close>

lemma incoming_wildcard_misses_concrete:
  "admits_scope \<lparr>task_class = Concrete ''vuln'', language = Concrete ''node'', build_system = Wildcard\<rparr>
     \<lparr>task_class = Concrete ''vuln'', language = Wildcard, build_system = Wildcard\<rparr> = False"
  by code_simp

text \<open>A universal fallback means one of two things: either no candidate admits the scope
  (then no candidate is named), or the best admitted candidate is the universal plugin (then
  the sorted names of all other registered plugins are reported).\<close>

theorem resolve_fallback_cases:
  assumes "resolve r scope = Ok (UniversalFallbackResolution reason names)" and "registry_inv r"
  shows "reason = ''no_concrete_match'' \<and> universal_fallback_id \<in> pl_name ` set (registry_all r)
    \<and> (names = [] \<and> admitted_candidates r scope = []
       \<or> sorted names \<and> set names = pl_name ` set (registry_all r) - {universal_fallback_id}
         \<and> (\<exists>u \<in> set (admitted_candidates r scope). pl_name (sc_plugin u) = universal_fallback_id
             \<and> (\<forall>d \<in> set (admitted_candidates r scope). candidate_key u \<le> candidate_key d)))"
proof (cases "sort_key candidate_key (admitted_candidates r scope)")
  case Nil
  with assms show ?thesis
    by (auto simp: resolve_unfold universal_registered_iff split: if_splits)
next
  case (Cons head rest)
  with assms(1) have "reason = ''no_concrete_match''" and names: "names = candidates_considered r"
    and name: "pl_name (sc_plugin head) = universal_fallback_id"
    by (auto simp: resolve_unfold rbind_iffs split: if_splits)
  moreover have "head \<in> set (admitted_candidates r scope)" using sort_key_head_in [OF Cons] .
  moreover from this name have "universal_fallback_id \<in> pl_name ` set (registry_all r)"
    by (metis admitted_candidates_iff image_eqI)
  moreover have "\<forall>d \<in> set (admitted_candidates r scope). candidate_key head \<le> candidate_key d"
    using sort_key_head_min [OF Cons] by blast
  ultimately show ?thesis by (auto simp: candidates_considered_def)
qed

theorem resolve_fallback_cases_witness:
  "set [''base--x--y'', ''vuln--node--npm''] = pl_name ` set (registry_all demo_registry) - {universal_fallback_id}"
  using resolve_fallback_cases [OF demo_resolve_other demo_registry_inv] by (metis list.distinct(1))

end
