(* ===== verification/Load_Resolve.thy ===== *)
theory Load_Resolve
  imports Plugin_Loader Resolver
begin

text \<open>
  The load gate and the resolver composed: what a scope resolves to when the registered plugins are those
  the loader let through.
\<close>

section \<open>The loader and the resolver together\<close>

lemma universal_no_plugin_id: "parse_plugin_id universal_fallback_id \<noteq> Ok universal_fallback_id"
proof -
  have "(case parse_plugin_id universal_fallback_id of Inl _ \<Rightarrow> False | Inr _ \<Rightarrow> True) = False" by code_simp
  then show ?thesis by auto
qed

lemma loaded_is_locked:
  assumes "load_plugins (sha256_verify sha256) pr (lock_from_path es vs raw) = (Ok report, started)"
    "n \<in> set (lr_loaded report)"
  shows "parse_plugin_id n = Ok n"
proof -
  obtain l where l: "lock_from_path es vs raw = Ok l" and p: "list_all (loadable sha256 pr l) (pr_slugs pr)"
    and r: "lr_loaded report = map (slug_id pr) (sort (pr_slugs pr))"
    using assms(1) unfolding sha.load_Ok loadable_all by auto
  from r assms(2) obtain s where "s \<in> set (pr_slugs pr)" "n = slug_id pr s" by auto
  with p obtain v where "dict_get l n = Some v" by (auto simp: list_all_iff loadable_def slug_id_def)
  then have "(n, v) \<in> set l" by (auto dest: map_of_SomeD)
  then show ?thesis using lock_from_path_typed [OF l] by (auto simp: lock_typed_def list_all_iff)
qed

text \<open>The name of the universal fallback plugin is not a plugin id, so the loader never loads it. When the
  registered plugins are loaded ones, a scope none of them admits is therefore refused with
  \<open>PluginRegistryCorrupted\<close>: \<open>resolve\<close> never falls back.\<close>

theorem loaded_plugins_never_fall_back:
  assumes "load_plugins (sha256_verify sha256) pr (lock_from_path es vs raw) = (Ok report, started)"
    and "registry_inv r" "registry_all r \<noteq> []" "pl_name ` set (registry_all r) \<subseteq> set (lr_loaded report)"
  shows "universal_fallback_id \<notin> set (lr_loaded report)
    \<and> resolve r scope \<noteq> Ok (UniversalFallbackResolution reason names)
    \<and> (admitted_candidates r scope = [] \<longrightarrow> resolve r scope = Err (PluginRegistryCorrupted missing_universal))"
proof -
  have u: "universal_fallback_id \<notin> set (lr_loaded report)"
    using loaded_is_locked [OF assms(1)] universal_no_plugin_id by blast
  then have n: "universal_fallback_id \<notin> pl_name ` set (registry_all r)" using assms(4) by blast
  then have r: "\<not> universal_registered r" by (simp add: universal_registered_iff [OF assms(2)])
  have "resolve r scope \<noteq> Ok (UniversalFallbackResolution reason names)"
  proof (cases "sort_key candidate_key (admitted_candidates r scope)")
    case Nil
    then show ?thesis using assms(3) r by (simp add: resolve_unfold)
  next
    case (Cons head rest)
    have "head \<in> set (admitted_candidates r scope)" using sort_key_head_in [OF Cons] .
    then have "pl_name (sc_plugin head) \<noteq> universal_fallback_id"
      using n unfolding admitted_candidates_iff by (metis imageI)
    then show ?thesis using assms(3) Cons by (auto simp: resolve_unfold rbind_iffs)
  qed
  moreover have "admitted_candidates r scope = [] \<longrightarrow> resolve r scope = Err (PluginRegistryCorrupted missing_universal)"
    using assms(3) r by (simp add: resolve_unfold)
  ultimately show ?thesis using u by simp
qed

theorem loaded_plugins_never_fall_back_witness:
  "resolve \<lparr>rg_plugins = [(''vuln--node--npm'', demo_node)], rg_origins = [(''vuln--node--npm'', ''n.N'')]\<rparr>
     \<lparr>task_class = Concrete ''distroless'', language = Wildcard, build_system = Wildcard\<rparr>
   = Err (PluginRegistryCorrupted missing_universal)"
  (is "resolve ?r ?s = _")
proof -
  obtain report where l: "load_plugins (sha256_verify sample_sha) sample_root
      (lock_from_path (\<lambda>_. []) id sample_raw) = (Ok report, [''s''])"
    and n: "lr_loaded report = [''vuln--node--npm'']"
    using sample_loadable unfolding sha.load_Ok loadable_all sample_lock
    by (fastforce simp: sample_root_def slug_id_def sample_manifest_def)
  have all: "registry_all ?r = [demo_node]" by (simp add: registry_all_def)
  have none: "admitted_candidates ?r ?s = []" by code_simp
  have inv: "registry_inv ?r" by (simp add: registry_inv_def dict_wf_def demo_node_def)
  have some: "registry_all ?r \<noteq> []" by (simp add: all)
  have sub: "pl_name ` set (registry_all ?r) \<subseteq> set (lr_loaded report)" unfolding all n by (simp add: demo_node_def)
  show ?thesis
    by (rule loaded_plugins_never_fall_back [OF l inv some sub, THEN conjunct2, THEN conjunct2, THEN mp, OF none])
qed

end
