(* ===== verification/Registries.thy ===== *)
theory Registries
  imports Prelude
begin

text \<open>
  The contract that the registries of the code share: a key is taken once and keeps its first value. The
  recipe, transform and signal-kind registries interpret it; the lemmas speak of any sequence of
  registrations.
\<close>

section \<open>The contract of a registry\<close>

locale first_wins =
  fixes register :: "'x \<Rightarrow> 'r \<Rightarrow> 'e + 'r" and look :: "'r \<Rightarrow> 'k \<Rightarrow> 'v option"
    and key :: "'x \<Rightarrow> 'k" and val :: "'x \<Rightarrow> 'v"
  assumes register_new: "register x r = Ok r' \<Longrightarrow> look r (key x) = None \<and> look r' (key x) = Some (val x)"
    and register_other: "register x r = Ok r' \<Longrightarrow> k \<noteq> key x \<Longrightarrow> look r' k = look r k"
begin

fun register_all :: "'x list \<Rightarrow> 'r \<Rightarrow> 'e + 'r" where
  "register_all [] r = Ok r"
| "register_all (x # xs) r = rbind (register x r) (register_all xs)"

lemma register_all_keeps: "register_all xs r = Ok r' \<Longrightarrow> look r k = Some v \<Longrightarrow> look r' k = Some v"
proof (induction xs arbitrary: r)
  case (Cons x xs)
  then obtain r1 where r1: "register x r = Ok r1" "register_all xs r1 = Ok r'" by (auto simp: rbind_Ok_iff)
  then have "look r1 k = Some v" using register_new register_other Cons.prems(2) by (metis option.distinct(1))
  with Cons.IH r1(2) show ?case by blast
qed simp

lemma register_all_found:
  "register_all xs r = Ok r' \<Longrightarrow>
     distinct (map key xs) \<and> list_all (\<lambda>x. look r (key x) = None \<and> look r' (key x) = Some (val x)) xs"
proof (induction xs arbitrary: r)
  case (Cons x xs)
  then obtain r1 where r1: "register x r = Ok r1" "register_all xs r1 = Ok r'" by (auto simp: rbind_Ok_iff)
  note x = register_new [OF r1(1)] and ih = Cons.IH [OF r1(2)]
  have x': "look r' (key x) = Some (val x)" using register_all_keeps [OF r1(2)] x by blast
  have n: "key x \<notin> set (map key xs)" using ih x by (auto simp: list_all_iff)
  have "look r (key y) = None" if "y \<in> set xs" for y
  proof -
    have "key y \<in> set (map key xs)" using that by simp
    with n have "key y \<noteq> key x" by metis
    then show ?thesis using register_other [OF r1(1)] ih that by (auto simp: list_all_iff)
  qed
  with x x' ih n show ?case by (simp add: list_all_iff)
qed simp

end

end
