(* ===== verification/Recipes.thy ===== *)
theory Recipes
  imports Regex Registries
begin

text \<open>
  The recipe registry (\<open>plugins/recipe_registry.py\<close>), the matching of recipes
  (\<open>transforms/recipe_engine.py\<close>) and the transform registry (\<open>transforms/transform_registry.py\<close>).
  A recipe is a record of what the kernel reads of the object; its \<open>applies\<close> method is plugin code and may
  raise (\<open>Inl\<close>). The registries interpret the contract of \<open>Registries\<close>.
\<close>

section \<open>Recipes\<close>

type_synonym recipe_id = string

datatype not_applicable_reason =
    PEER_DEP_CONFLICT | MAJOR_BUMP_REFUSE | OVERRIDES_AMBIGUOUS | RECIPE_CATALOG_MISS
  | ALL_RECIPES_NOT_APPLICABLE | NO_RECIPES_REGISTERED | CVE_NOT_IN_DEPENDENCY_SET

record application_plan =
  ap_summary :: "string option"
  ap_package :: "string option"
  ap_from_version :: "string option"
  ap_to_version :: "string option"
  ap_transform_kind :: "string option"

definition for_npm_semver_bump :: "string \<Rightarrow> string \<Rightarrow> string \<Rightarrow> string \<Rightarrow> application_plan" where
  "for_npm_semver_bump package from_version to_version transform_kind =
     \<lparr>ap_summary = None, ap_package = Some package, ap_from_version = Some from_version,
      ap_to_version = Some to_version, ap_transform_kind = Some transform_kind\<rparr>"

datatype applicability = Applies application_plan | NotApplies not_applicable_reason

text \<open>\<open>'c\<close> is what a recipe is asked about, the vulnerability and the bundle.\<close>

record 'c recipe =
  rc_recipe_id :: string
  rc_name :: string
  rc_kind :: string
  rc_precedence :: int
  rc_applies :: "'c \<Rightarrow> string + applicability"
  rc_origin :: string

record 'c registered_recipe =
  rr_plugin_id :: string
  rr_recipe :: "'c recipe"

datatype recipe_error =
    Recipe_value_error string
  | RecipeAlreadyRegistered recipe_id string string
  | RecipeNameCollision string string
  | RecipeNotFound recipe_id

definition recipe_already_message :: "recipe_id \<Rightarrow> string \<Rightarrow> string \<Rightarrow> string" where
  "recipe_already_message rid existing duplicate =
     ''duplicate recipe_id '' @ py_repr rid @ '': '' @ existing @ '' and '' @ duplicate"
definition recipe_collision_message :: "string \<Rightarrow> string \<Rightarrow> string" where
  "recipe_collision_message pid nm = ''recipe name '' @ py_repr nm @ '' collides within plugin '' @ py_repr pid"
definition recipe_not_found_message :: "recipe_id \<Rightarrow> string" where
  "recipe_not_found_message rid = ''recipe '' @ py_repr rid @ '' is not registered''"

definition engine_recipe_id_rx :: pattern where
  "engine_recipe_id_rx = compiled ''^[a-z][a-z0-9-]*$''
     [RCls lower, RStar (RCls (\<lambda>c. lower c \<or> digit c \<or> c = CHR ''-''))]"

definition validate_recipe_id :: "string \<Rightarrow> recipe_error + recipe_id" where
  "validate_recipe_id rid =
     (if \<not> fullmatch (pat_rx engine_recipe_id_rx) rid
      then Err (Recipe_value_error (''recipe_id '' @ py_repr rid @ '' does not match '' @ pat_text engine_recipe_id_rx))
      else Ok rid)"

section \<open>The recipe registry\<close>

record 'c recipe_registry =
  rg_recipes :: "(recipe_id, 'c registered_recipe) dict"
  rg_by_plugin :: "(string, recipe_id list) dict"
  rg_names_by_plugin :: "(string, string list) dict"
  rg_recipe_origins :: "(recipe_id, string) dict"

definition empty_recipe_registry :: "'c recipe_registry" where
  "empty_recipe_registry =
     \<lparr>rg_recipes = [], rg_by_plugin = [], rg_names_by_plugin = [], rg_recipe_origins = []\<rparr>"

text \<open>\<open>d.setdefault(k, [])\<close>, then read: the present list or the empty one.\<close>

definition dict_list :: "('k, 'a list) dict \<Rightarrow> 'k \<Rightarrow> 'a list" where
  "dict_list d k = (case dict_get d k of Some l \<Rightarrow> l | None \<Rightarrow> [])"

definition register_recipe :: "string \<Rightarrow> 'c recipe \<Rightarrow> 'c recipe_registry \<Rightarrow> recipe_error + 'c recipe_registry" where
  "register_recipe plugin_id recipe r =
     rbind (validate_recipe_id (rc_recipe_id recipe)) (\<lambda>rid.
       case dict_get (rg_recipes r) rid of
         Some _ \<Rightarrow> Err (RecipeAlreadyRegistered rid
           (case dict_get (rg_recipe_origins r) rid of Some q \<Rightarrow> q | None \<Rightarrow> []) (rc_origin recipe))
       | None \<Rightarrow>
           let names = dict_list (rg_names_by_plugin r) plugin_id in
           if rc_name recipe \<in> set names then Err (RecipeNameCollision plugin_id (rc_name recipe))
           else Ok \<lparr>rg_recipes = dict_set rid \<lparr>rr_plugin_id = plugin_id, rr_recipe = recipe\<rparr> (rg_recipes r),
                    rg_by_plugin = dict_set plugin_id (dict_list (rg_by_plugin r) plugin_id @ [rid]) (rg_by_plugin r),
                    rg_names_by_plugin = dict_set plugin_id (rc_name recipe # names) (rg_names_by_plugin r),
                    rg_recipe_origins = dict_set rid (rc_origin recipe) (rg_recipe_origins r)\<rparr>)"

definition recipe_get :: "'c recipe_registry \<Rightarrow> recipe_id \<Rightarrow> recipe_error + 'c registered_recipe" where
  "recipe_get r rid = (case dict_get (rg_recipes r) rid of Some x \<Rightarrow> Ok x | None \<Rightarrow> Err (RecipeNotFound rid))"

definition recipe_order :: "'c registered_recipe \<Rightarrow> int \<times> string" where
  "recipe_order x = (- rc_precedence (rr_recipe x), rc_name (rr_recipe x))"

text \<open>\<open>self._recipes[rid]\<close> raises on an unknown id; no registration leads there (\<open>recipe_inv\<close>).\<close>

definition recipe_all :: "'c recipe_registry \<Rightarrow> string option \<Rightarrow> recipe_error + 'c registered_recipe list" where
  "recipe_all r plugin_id =
     (let candidates =
        (case plugin_id of
           None \<Rightarrow> Some (dict_values (rg_recipes r))
         | Some p \<Rightarrow> those (map (dict_get (rg_recipes r)) (dict_list (rg_by_plugin r) p)))
      in case candidates of
           None \<Rightarrow> Err (Recipe_value_error ''KeyError'')
         | Some cs \<Rightarrow> Ok (sort_key recipe_order cs))"

section \<open>Matching\<close>

datatype 'c match_result =
    MatchedRecipe "'c recipe" application_plan
  | RecipeNotApplicable not_applicable_reason "not_applicable_reason list"

text \<open>The loop over the registered recipes; an exception of \<open>applies\<close> leaves it.\<close>

fun match_loop :: "'c \<Rightarrow> 'c registered_recipe list \<Rightarrow> not_applicable_reason list \<Rightarrow> string + 'c match_result" where
  "match_loop c [] considered = Ok (RecipeNotApplicable ALL_RECIPES_NOT_APPLICABLE considered)"
| "match_loop c (entry # rest) considered =
     (case rc_applies (rr_recipe entry) c of
        Inl e \<Rightarrow> Err e
      | Inr (Applies plan) \<Rightarrow> Ok (MatchedRecipe (rr_recipe entry) plan)
      | Inr (NotApplies reason) \<Rightarrow> match_loop c rest (considered @ [reason]))"

datatype match_error = Applies_raised string | Registry_raised recipe_error

definition match_recipes :: "'c recipe_registry \<Rightarrow> string \<Rightarrow> 'c \<Rightarrow> match_error + 'c match_result" where
  "match_recipes r plugin_id c =
     (case recipe_all r (Some plugin_id) of
        Inl e \<Rightarrow> Err (Registry_raised e)
      | Inr registered \<Rightarrow>
          if registered = [] then Ok (RecipeNotApplicable NO_RECIPES_REGISTERED [])
          else case match_loop c registered [] of
                 Inl e \<Rightarrow> Err (Applies_raised e)
               | Inr m \<Rightarrow> Ok m)"

section \<open>The transform registry\<close>

text \<open>A transform with its provenance; a path is the list of its components, a time an integer.\<close>

record transform_provenance =
  tp_plugin_id :: string
  tp_plugin_version :: string
  tp_recipe_id :: string
  tp_recipe_version :: string
  tp_transform_kind :: string
  tp_applied_at :: int
  tp_capability_use_id :: string

record transform =
  tf_transform_id :: string
  tf_diff_bytes :: string
  tf_files_changed :: "string list list"
  tf_provenance :: transform_provenance
  tf_origin :: string

datatype transform_error = TransformAlreadyRegistered string string string | TransformNotFound string

record transform_registry =
  tg_transforms :: "(string, transform) dict"
  tg_origins :: "(string, string) dict"

definition register_transform :: "transform \<Rightarrow> transform_registry \<Rightarrow> transform_error + transform_registry" where
  "register_transform t r =
     (case dict_get (tg_transforms r) (tf_transform_id t) of
        Some _ \<Rightarrow> Err (TransformAlreadyRegistered (tf_transform_id t)
          (case dict_get (tg_origins r) (tf_transform_id t) of Some q \<Rightarrow> q | None \<Rightarrow> []) (tf_origin t))
      | None \<Rightarrow> Ok \<lparr>tg_transforms = dict_set (tf_transform_id t) t (tg_transforms r),
                    tg_origins = dict_set (tf_transform_id t) (tf_origin t) (tg_origins r)\<rparr>)"

definition transform_get :: "transform_registry \<Rightarrow> string \<Rightarrow> transform_error + transform" where
  "transform_get r tid =
     (case dict_get (tg_transforms r) tid of Some t \<Rightarrow> Ok t | None \<Rightarrow> Err (TransformNotFound tid))"

definition transform_contains :: "transform_registry \<Rightarrow> string \<Rightarrow> bool" where
  "transform_contains r tid \<longleftrightarrow> tid \<in> set (dict_keys (tg_transforms r))"
definition transform_len :: "transform_registry \<Rightarrow> nat" where
  "transform_len r = length (tg_transforms r)"

interpretation tforms: first_wins register_transform "\<lambda>r. dict_get (tg_transforms r)" tf_transform_id "\<lambda>t. t"
  by unfold_locales (auto simp: register_transform_def dict_get_set split: option.splits)

section \<open>The invariant of the recipe registry\<close>

definition of_plugin :: "string \<Rightarrow> 'c registered_recipe \<Rightarrow> bool" where
  "of_plugin p x \<longleftrightarrow> rr_plugin_id x = p"

definition entry_name :: "'c registered_recipe \<Rightarrow> string" where
  "entry_name x = rc_name (rr_recipe x)"

definition recipe_inv :: "'c recipe_registry \<Rightarrow> bool" where
  "recipe_inv r \<longleftrightarrow> dict_wf (rg_recipes r)
     \<and> list_all (\<lambda>(rid, x). rc_recipe_id (rr_recipe x) = rid \<and> validate_recipe_id rid = Ok rid) (rg_recipes r)
     \<and> dict_keys (rg_recipe_origins r) = dict_keys (rg_recipes r)
     \<and> (\<forall>p. dict_list (rg_by_plugin r) p = map fst (filter (\<lambda>e. of_plugin p (snd e)) (rg_recipes r)))
     \<and> (\<forall>p. set (dict_list (rg_names_by_plugin r) p) = entry_name ` set (filter (of_plugin p) (dict_values (rg_recipes r))))
     \<and> (\<forall>p. distinct (map entry_name (filter (of_plugin p) (dict_values (rg_recipes r)))))"

lemma recipe_inv_empty: "recipe_inv empty_recipe_registry"
  by (simp add: recipe_inv_def empty_recipe_registry_def dict_wf_def dict_list_def)

lemma dict_list_set: "dict_list (dict_set k v d) k' = (if k' = k then v else dict_list d k')"
  by (simp add: dict_list_def dict_get_set)

lemma validate_recipe_id_same: "validate_recipe_id rid = Ok v \<Longrightarrow> v = rid"
  by (simp add: validate_recipe_id_def split: if_splits)

lemma register_recipe_Ok:
  assumes "register_recipe p rc r = Ok r'"
  shows "rc_recipe_id rc \<notin> set (dict_keys (rg_recipes r))
    \<and> validate_recipe_id (rc_recipe_id rc) = Ok (rc_recipe_id rc)
    \<and> rc_name rc \<notin> set (dict_list (rg_names_by_plugin r) p)
    \<and> r' = \<lparr>rg_recipes = rg_recipes r @ [(rc_recipe_id rc, \<lparr>rr_plugin_id = p, rr_recipe = rc\<rparr>)],
            rg_by_plugin = dict_set p (dict_list (rg_by_plugin r) p @ [rc_recipe_id rc]) (rg_by_plugin r),
            rg_names_by_plugin = dict_set p (rc_name rc # dict_list (rg_names_by_plugin r) p) (rg_names_by_plugin r),
            rg_recipe_origins = dict_set (rc_recipe_id rc) (rc_origin rc) (rg_recipe_origins r)\<rparr>"
proof -
  from assms obtain rid where v: "validate_recipe_id (rc_recipe_id rc) = Ok rid"
    and n: "dict_get (rg_recipes r) rid = None" and nm: "rc_name rc \<notin> set (dict_list (rg_names_by_plugin r) p)"
    by (auto simp: register_recipe_def rbind_Ok_iff Let_def split: option.splits if_splits)
  have e: "rid = rc_recipe_id rc" using validate_recipe_id_same [OF v] .
  have "rc_recipe_id rc \<notin> set (dict_keys (rg_recipes r))" using n e by (simp add: map_of_eq_None_iff)
  with assms v n nm e dict_set_fresh [OF this] show ?thesis
    by (simp add: register_recipe_def Let_def)
qed

lemma register_recipe_inv:
  assumes "register_recipe p rc r = Ok r'" "recipe_inv r" shows "recipe_inv r'"
proof -
  let ?x = "\<lparr>rr_plugin_id = p, rr_recipe = rc\<rparr>"
  note ok = register_recipe_Ok [OF assms(1)] and i = assms(2) [unfolded recipe_inv_def]
  have fresh: "rc_recipe_id rc \<notin> set (dict_keys (rg_recipe_origins r))" using ok i by simp
  have recs: "rg_recipes r' = rg_recipes r @ [(rc_recipe_id rc, ?x)]" using ok by simp
  have 1: "dict_wf (rg_recipes r')" using ok i by (simp add: recs dict_wf_def)
  have 2: "list_all (\<lambda>(rid, x). rc_recipe_id (rr_recipe x) = rid \<and> validate_recipe_id rid = Ok rid) (rg_recipes r')"
    using ok i by (simp add: recs)
  have 3: "dict_keys (rg_recipe_origins r') = dict_keys (rg_recipes r')"
    using ok i dict_set_fresh [OF fresh] by simp
  have 4: "dict_list (rg_by_plugin r') q = map fst (filter (\<lambda>e. of_plugin q (snd e)) (rg_recipes r'))" for q
    using ok i by (simp add: dict_list_set of_plugin_def)
  have 5: "set (dict_list (rg_names_by_plugin r') q) = entry_name ` set (filter (of_plugin q) (dict_values (rg_recipes r')))" for q
    using ok i by (auto simp: dict_list_set of_plugin_def entry_name_def simp del: set_filter)
  have 6: "distinct (map entry_name (filter (of_plugin q) (dict_values (rg_recipes r'))))" for q
  proof -
    have "entry_name ?x \<notin> entry_name ` set (filter (of_plugin p) (dict_values (rg_recipes r)))"
      using ok i by (simp add: entry_name_def)
    then show ?thesis using i by (auto simp: recs of_plugin_def)
  qed
  show ?thesis unfolding recipe_inv_def using 1 2 3 4 5 6 by blast
qed

fun register_recipes :: "(string \<times> 'c recipe) list \<Rightarrow> 'c recipe_registry \<Rightarrow> recipe_error + 'c recipe_registry" where
  "register_recipes [] r = Ok r"
| "register_recipes ((p, rc) # xs) r = rbind (register_recipe p rc r) (register_recipes xs)"

lemma register_recipes_inv: "register_recipes xs r = Ok r' \<Longrightarrow> recipe_inv r \<Longrightarrow> recipe_inv r'"
  by (induction xs r rule: register_recipes.induct) (auto simp: rbind_Ok_iff register_recipe_inv)

interpretation recs: first_wins "\<lambda>(p, rc). register_recipe p rc" "\<lambda>r. dict_get (rg_recipes r)"
  "\<lambda>(p, rc). rc_recipe_id rc" "\<lambda>(p, rc). \<lparr>rr_plugin_id = p, rr_recipe = rc\<rparr>"
proof
  fix x :: "string \<times> 'c recipe" and r r' and k
  obtain p rc where x: "x = (p, rc)" by (cases x)
  assume "(case x of (p, rc) \<Rightarrow> register_recipe p rc) r = Ok r'"
  then have "register_recipe p rc r = Ok r'" by (simp add: x)
  note ok = register_recipe_Ok [OF this]
  then show "dict_get (rg_recipes r) (case x of (p, rc) \<Rightarrow> rc_recipe_id rc) = None \<and>
      dict_get (rg_recipes r') (case x of (p, rc) \<Rightarrow> rc_recipe_id rc)
        = Some (case x of (p, rc) \<Rightarrow> \<lparr>rr_plugin_id = p, rr_recipe = rc\<rparr>)"
    using map_of_eq_None_iff [of "rg_recipes r" "rc_recipe_id rc"] by (simp add: x map_add_def)
  assume "k \<noteq> (case x of (p, rc) \<Rightarrow> rc_recipe_id rc)"
  with ok show "dict_get (rg_recipes r') k = dict_get (rg_recipes r) k"
    by (simp add: x map_add_def split: option.split)
qed

lemma register_recipes_alt: "register_recipes xs r = recs.register_all xs r"
proof (induction xs arbitrary: r)
  case (Cons x xs)
  then show ?case by (cases x) (simp add: Cons.IH [abs_def])
qed simp

section \<open>Listing and matching\<close>

lemma those_present:
  "dict_wf d \<Longrightarrow> set es \<subseteq> set d \<Longrightarrow> those (map (dict_get d) (map fst es)) = Some (map snd es)"
proof (induction es)
  case (Cons e es)
  then have "dict_get d (fst e) = Some (snd e)"
    by (cases e) (auto simp: dict_wf_def intro: map_of_is_SomeI)
  with Cons show ?case by simp
qed simp

lemma recipe_all_inv:
  assumes "recipe_inv r"
  shows "recipe_all r None = Ok (sort_key recipe_order (dict_values (rg_recipes r)))"
    "recipe_all r (Some p) = Ok (filter (of_plugin p) (sort_key recipe_order (dict_values (rg_recipes r))))"
proof -
  show "recipe_all r None = Ok (sort_key recipe_order (dict_values (rg_recipes r)))"
    by (simp add: recipe_all_def)
  let ?es = "filter (\<lambda>e. of_plugin p (snd e)) (rg_recipes r)"
  have "those (map (dict_get (rg_recipes r)) (dict_list (rg_by_plugin r) p)) = Some (map snd ?es)"
    using assms those_present [of "rg_recipes r" ?es] by (auto simp: recipe_inv_def)
  moreover have "map snd ?es = filter (of_plugin p) (dict_values (rg_recipes r))"
    by (simp add: filter_map comp_def)
  ultimately show "recipe_all r (Some p) = Ok (filter (of_plugin p) (sort_key recipe_order (dict_values (rg_recipes r))))"
    by (simp add: recipe_all_def filter_sort)
qed

lemma plugin_recipes_sorted:
  assumes "recipe_inv r" "recipe_all r (Some p) = Ok xs"
  shows "sorted_wrt (\<lambda>x y. recipe_order x < recipe_order y) xs"
proof -
  let ?vs = "filter (of_plugin p) (dict_values (rg_recipes r))"
  have xs: "xs = sort_key recipe_order ?vs" using assms(2) recipe_all_inv(2) [OF assms(1), of p] by (simp add: filter_sort)
  have "distinct (map entry_name ?vs)" using assms(1) by (simp add: recipe_inv_def)
  then have "distinct (map recipe_order ?vs)"
    by (auto simp: distinct_map inj_on_def recipe_order_def entry_name_def)
  then have "distinct (map recipe_order xs)" by (simp add: xs distinct_map)
  moreover have "sorted (map recipe_order xs)" by (simp add: xs)
  ultimately have "sorted_wrt (<) (map recipe_order xs)" by (simp add: strict_sorted_iff)
  then show ?thesis by (simp add: sorted_wrt_map)
qed

text \<open>After any registrations the identifiers are distinct and valid, every recipe is found under its own,
  and the recipes of a plugin are the listing of all recipes cut down to it: in strict order of
  decreasing precedence, then name.\<close>

theorem recipe_registrations:
  assumes "register_recipes xs empty_recipe_registry = Ok r"
  shows "distinct (map (rc_recipe_id \<circ> snd) xs)
    \<and> list_all (\<lambda>(p, rc). recipe_get r (rc_recipe_id rc) = Ok \<lparr>rr_plugin_id = p, rr_recipe = rc\<rparr>) xs
    \<and> (\<exists>ys. recipe_all r None = Ok ys \<and> sorted (map recipe_order ys)
        \<and> (\<forall>p. recipe_all r (Some p) = Ok (filter (of_plugin p) ys)
             \<and> sorted_wrt (\<lambda>x y. recipe_order x < recipe_order y) (filter (of_plugin p) ys)))"
proof -
  have inv: "recipe_inv r" by (rule register_recipes_inv [OF assms recipe_inv_empty])
  have "distinct (map (\<lambda>(p, rc). rc_recipe_id rc) xs)
      \<and> list_all (\<lambda>x. dict_get (rg_recipes r) (case x of (p, rc) \<Rightarrow> rc_recipe_id rc)
          = Some (case x of (p, rc) \<Rightarrow> \<lparr>rr_plugin_id = p, rr_recipe = rc\<rparr>)) xs"
    using recs.register_all_found [OF assms [unfolded register_recipes_alt]] by (simp add: list_all_iff)
  then have 1: "distinct (map (rc_recipe_id \<circ> snd) xs)"
    and 2: "list_all (\<lambda>(p, rc). recipe_get r (rc_recipe_id rc) = Ok \<lparr>rr_plugin_id = p, rr_recipe = rc\<rparr>) xs"
    by (auto simp: list_all_iff recipe_get_def comp_def case_prod_unfold)
  show ?thesis
    using 1 2 recipe_all_inv [OF inv] plugin_recipes_sorted [OF inv] by auto
qed

lemma match_loop_Ok:
  "match_loop c xs acc = Ok (MatchedRecipe rc plan) \<longleftrightarrow>
     (\<exists>us x vs. xs = us @ x # vs \<and> rr_recipe x = rc \<and> rc_applies rc c = Ok (Applies plan)
        \<and> list_all (\<lambda>y. \<exists>n. rc_applies (rr_recipe y) c = Ok (NotApplies n)) us)"
proof (induction xs arbitrary: acc)
  case (Cons x xs)
  show ?case
  proof (cases "rc_applies (rr_recipe x) c")
    case (Inl e)
    then show ?thesis by (auto simp: Cons_eq_append_conv)
  next
    case (Inr a)
    then show ?thesis
    proof (cases a)
      case (Applies pl)
      have "match_loop c (x # xs) acc = Ok (MatchedRecipe rc plan) \<longleftrightarrow> rr_recipe x = rc \<and> pl = plan"
        using Inr Applies by auto
      also have "\<dots> \<longleftrightarrow> (\<exists>us y vs. x # xs = us @ y # vs \<and> rr_recipe y = rc
          \<and> rc_applies rc c = Ok (Applies plan)
          \<and> list_all (\<lambda>y. \<exists>n. rc_applies (rr_recipe y) c = Ok (NotApplies n)) us)" (is "_ \<longleftrightarrow> ?R")
      proof
        assume "rr_recipe x = rc \<and> pl = plan"
        then show ?R using Inr Applies by (intro exI [of _ "[]"] exI [of _ x] exI [of _ xs]) auto
      next
        assume ?R
        then obtain us y vs where u: "x # xs = us @ y # vs" "rr_recipe y = rc" "rc_applies rc c = Ok (Applies plan)"
          "list_all (\<lambda>y. \<exists>n. rc_applies (rr_recipe y) c = Ok (NotApplies n)) us" by blast
        then show "rr_recipe x = rc \<and> pl = plan" using Inr Applies by (cases us) auto
      qed
      finally show ?thesis .
    next
      case (NotApplies n)
      with Inr have "match_loop c (x # xs) acc = match_loop c xs (acc @ [n])" by simp
      then have m: "match_loop c (x # xs) acc = Ok (MatchedRecipe rc plan) \<longleftrightarrow>
          (\<exists>us y vs. xs = us @ y # vs \<and> rr_recipe y = rc \<and> rc_applies rc c = Ok (Applies plan)
            \<and> list_all (\<lambda>y. \<exists>n. rc_applies (rr_recipe y) c = Ok (NotApplies n)) us)" 
        using Cons.IH [of "acc @ [n]"] by (simp only:)
      show ?thesis
      proof
        assume "match_loop c (x # xs) acc = Ok (MatchedRecipe rc plan)"
        then obtain us y vs where "xs = us @ y # vs" "rr_recipe y = rc" "rc_applies rc c = Ok (Applies plan)"
          "list_all (\<lambda>y. \<exists>n. rc_applies (rr_recipe y) c = Ok (NotApplies n)) us" using m by blast
        then show "\<exists>us y vs. x # xs = us @ y # vs \<and> rr_recipe y = rc \<and> rc_applies rc c = Ok (Applies plan)
            \<and> list_all (\<lambda>y. \<exists>n. rc_applies (rr_recipe y) c = Ok (NotApplies n)) us"
          using Inr NotApplies by (intro exI [of _ "x # us"] exI [of _ y] exI [of _ vs]) simp
      next
        assume "\<exists>us y vs. x # xs = us @ y # vs \<and> rr_recipe y = rc \<and> rc_applies rc c = Ok (Applies plan)
            \<and> list_all (\<lambda>y. \<exists>n. rc_applies (rr_recipe y) c = Ok (NotApplies n)) us"
        then obtain us y vs where u: "x # xs = us @ y # vs" "rr_recipe y = rc" "rc_applies rc c = Ok (Applies plan)"
          "list_all (\<lambda>y. \<exists>n. rc_applies (rr_recipe y) c = Ok (NotApplies n)) us" by blast
        then obtain us' where "us = x # us'" using Inr NotApplies by (cases us) auto
        with u m show "match_loop c (x # xs) acc = Ok (MatchedRecipe rc plan)" by auto
      qed
    qed
  qed
qed simp

lemma match_loop_None:
  "match_loop c xs acc = Ok (RecipeNotApplicable why considered) \<longleftrightarrow>
     why = ALL_RECIPES_NOT_APPLICABLE \<and> (\<exists>ns. considered = acc @ ns
       \<and> map (\<lambda>x. rc_applies (rr_recipe x) c) xs = map (\<lambda>n. Ok (NotApplies n)) ns)"
proof (induction xs arbitrary: acc)
  case (Cons x xs)
  then show ?case
    by (auto simp: Cons_eq_map_conv split: sum.splits applicability.splits)
qed auto

text \<open>Matching asks the recipes of the plugin in their order. It answers with a recipe exactly when that
  recipe applies and all before it do not; it reports that none applies exactly when there are some and
  all decline, with their reasons in order; and that there are none exactly when the plugin has none.\<close>

theorem match_recipes_exact:
  assumes "recipe_inv r" and "recipe_all r (Some p) = Ok xs"
  shows "(match_recipes r p c = Ok (MatchedRecipe rc plan) \<longleftrightarrow>
      (\<exists>us x vs. xs = us @ x # vs \<and> rr_recipe x = rc \<and> rc_applies rc c = Ok (Applies plan)
        \<and> list_all (\<lambda>y. \<exists>n. rc_applies (rr_recipe y) c = Ok (NotApplies n)) us
        \<and> list_all (\<lambda>y. recipe_order x < recipe_order y) vs)) \<and>
    (match_recipes r p c = Ok (RecipeNotApplicable why considered) \<longleftrightarrow>
      (if xs = [] then why = NO_RECIPES_REGISTERED \<and> considered = []
       else why = ALL_RECIPES_NOT_APPLICABLE
         \<and> map (\<lambda>x. rc_applies (rr_recipe x) c) xs = map (\<lambda>n. Ok (NotApplies n)) considered))"
proof (intro conjI)
  have s: "list_all (\<lambda>y. recipe_order x < recipe_order y) vs" if "xs = us @ x # vs" for us x vs
    using plugin_recipes_sorted [OF assms] by (simp add: that sorted_wrt_append list_all_iff)
  have "match_recipes r p c = Ok (MatchedRecipe rc plan) \<longleftrightarrow> match_loop c xs [] = Ok (MatchedRecipe rc plan)"
    using assms(2) by (auto simp: match_recipes_def split: sum.splits)
  then show "match_recipes r p c = Ok (MatchedRecipe rc plan) \<longleftrightarrow>
      (\<exists>us x vs. xs = us @ x # vs \<and> rr_recipe x = rc \<and> rc_applies rc c = Ok (Applies plan)
        \<and> list_all (\<lambda>y. \<exists>n. rc_applies (rr_recipe y) c = Ok (NotApplies n)) us
        \<and> list_all (\<lambda>y. recipe_order x < recipe_order y) vs)"
    unfolding match_loop_Ok using s by blast
  have "xs \<noteq> [] \<Longrightarrow> match_recipes r p c = Ok (RecipeNotApplicable why considered) \<longleftrightarrow>
      match_loop c xs [] = Ok (RecipeNotApplicable why considered)"
    using assms(2) by (auto simp: match_recipes_def split: sum.splits)
  then show "match_recipes r p c = Ok (RecipeNotApplicable why considered) \<longleftrightarrow>
      (if xs = [] then why = NO_RECIPES_REGISTERED \<and> considered = []
       else why = ALL_RECIPES_NOT_APPLICABLE
         \<and> map (\<lambda>x. rc_applies (rr_recipe x) c) xs = map (\<lambda>n. Ok (NotApplies n)) considered)"
    using assms(2) by (auto simp: match_loop_None match_recipes_def)
qed

definition sample_recipe :: "string \<Rightarrow> string \<Rightarrow> int \<Rightarrow> (unit \<Rightarrow> string + applicability) \<Rightarrow> unit recipe" where
  "sample_recipe rid nm prec f = \<lparr>rc_recipe_id = rid, rc_name = nm, rc_kind = ''bump'', rc_precedence = prec,
     rc_applies = f, rc_origin = ''m.R''\<rparr>"

definition sample_recipes :: "(string \<times> unit recipe) list" where
  "sample_recipes =
     [(''p'', sample_recipe ''low'' ''a'' 1 (\<lambda>_. Ok (Applies (for_npm_semver_bump ''x'' ''1'' ''2'' ''bump'')))),
      (''p'', sample_recipe ''high'' ''b'' 5 (\<lambda>_. Ok (NotApplies MAJOR_BUMP_REFUSE)))]"

lemma sample_registered: "\<exists>r. register_recipes sample_recipes empty_recipe_registry = Ok r
    \<and> recipe_all r (Some ''p'') = Ok [\<lparr>rr_plugin_id = ''p'', rr_recipe = snd (sample_recipes ! 1)\<rparr>,
        \<lparr>rr_plugin_id = ''p'', rr_recipe = snd (sample_recipes ! 0)\<rparr>]"
proof -
  have "validate_recipe_id ''low'' = Ok ''low''" "validate_recipe_id ''high'' = Ok ''high''" by code_simp+
  then show ?thesis
    by (simp add: sample_recipes_def sample_recipe_def register_recipe_def empty_recipe_registry_def dict_list_def
        recipe_all_def recipe_order_def)
qed

theorem recipe_registrations_witness:
  "\<exists>r. register_recipes sample_recipes empty_recipe_registry = Ok r
    \<and> distinct (map (rc_recipe_id \<circ> snd) sample_recipes)"
  using sample_registered recipe_registrations [of sample_recipes] by blast

theorem match_recipes_exact_witness:
  "\<exists>r. register_recipes sample_recipes empty_recipe_registry = Ok r
    \<and> match_recipes r ''p'' () = Ok (MatchedRecipe (snd (sample_recipes ! 0)) (for_npm_semver_bump ''x'' ''1'' ''2'' ''bump''))"
proof -
  obtain r where r: "register_recipes sample_recipes empty_recipe_registry = Ok r"
    and all: "recipe_all r (Some ''p'') = Ok [\<lparr>rr_plugin_id = ''p'', rr_recipe = snd (sample_recipes ! 1)\<rparr>,
        \<lparr>rr_plugin_id = ''p'', rr_recipe = snd (sample_recipes ! 0)\<rparr>]" using sample_registered by blast
  let ?us = "[\<lparr>rr_plugin_id = ''p'', rr_recipe = snd (sample_recipes ! 1)\<rparr>]"
  let ?x = "\<lparr>rr_plugin_id = ''p'', rr_recipe = snd (sample_recipes ! 0)\<rparr>"
  have "match_recipes r ''p'' () = Ok (MatchedRecipe (rr_recipe ?x) (for_npm_semver_bump ''x'' ''1'' ''2'' ''bump''))"
    unfolding match_recipes_exact [OF register_recipes_inv [OF r recipe_inv_empty] all, THEN conjunct1]
    by (intro exI [of _ ?us] exI [of _ ?x] exI [of _ "[]"]) (simp add: sample_recipes_def sample_recipe_def)
  with r show ?thesis by auto
qed

end
