(* ===== verification/Trust.thy ===== *)
theory Trust
  imports Registries Event_Replay
begin

text \<open>
  Trust: the signal-kind registry (\<open>transforms/signal_kinds.py\<close>), the signals and outcomes of
  \<open>transforms/outcomes.py\<close> with their validators, the scorer (\<open>transforms/trust_scorer.py\<close>), which reads
  the replayed event log, and the confidence gate (\<open>fallback/confidence_gate.py\<close>).
\<close>

section \<open>Signal kinds\<close>

record signal_kind_registry =
  sk_origins :: "(string, string) dict"

datatype trust_error =
    SignalKindAlreadyRegistered string string string
  | EmptySignals
  | UnregisteredSignalKind string
  | Replay_failed log_error
  | Validation_error string

definition signal_kind_message :: "string \<Rightarrow> string \<Rightarrow> string \<Rightarrow> string" where
  "signal_kind_message name existing duplicate =
     ''duplicate signal kind '' @ py_repr name @ '': '' @ existing @ '' and '' @ duplicate"

definition fresh_signal_kinds :: signal_kind_registry where
  "fresh_signal_kinds = \<lparr>sk_origins = []\<rparr>"

definition register_kind :: "string \<times> string \<Rightarrow> signal_kind_registry \<Rightarrow> trust_error + signal_kind_registry" where
  "register_kind = (\<lambda>(name, origin) r.
     case dict_get (sk_origins r) name of
       Some existing \<Rightarrow> Err (SignalKindAlreadyRegistered name existing origin)
     | None \<Rightarrow> Ok \<lparr>sk_origins = dict_set name origin (sk_origins r)\<rparr>)"

definition kind_registered :: "signal_kind_registry \<Rightarrow> string \<Rightarrow> bool" where
  "kind_registered r kind \<longleftrightarrow> kind \<in> set (dict_keys (sk_origins r))"

definition builtin_kinds :: "string list" where
  "builtin_kinds = [''build'', ''install'', ''tests'', ''lockfile_policy'', ''cve_delta'']"

interpretation kinds: first_wins register_kind "\<lambda>r. dict_get (sk_origins r)" fst snd
  by unfold_locales (auto simp: register_kind_def dict_get_set split: option.splits prod.splits)

section \<open>Signals and outcomes\<close>

record trust_signal =
  ts_kind :: string
  ts_passed :: bool
  ts_details :: "(string \<times> json) list"

datatype trust_confidence = High | Degraded

record trust_outcome =
  to_passed :: bool
  to_failing :: "string list"
  to_signals :: "trust_signal list"
  to_confidence :: trust_confidence

text \<open>The constructor of the model with its validator.\<close>

definition make_trust_outcome ::
  "bool \<Rightarrow> string list \<Rightarrow> trust_signal list \<Rightarrow> trust_confidence \<Rightarrow> trust_error + trust_outcome" where
  "make_trust_outcome passed failing signals confidence =
     (if passed \<noteq> (length failing = 0)
      then Err (Validation_error ''TrustOutcome invariant violated: passed must equal (failing == [])'')
      else Ok \<lparr>to_passed = passed, to_failing = failing, to_signals = signals, to_confidence = confidence\<rparr>)"

record validated =
  va_branch :: string
  va_report_path :: string
  va_passed :: bool
  va_failing :: "string list"

definition make_validated :: "string \<Rightarrow> string \<Rightarrow> bool \<Rightarrow> string list \<Rightarrow> trust_error + validated" where
  "make_validated branch report_path passed failing =
     (if passed \<noteq> (length failing = 0)
      then Err (Validation_error ''Validated invariant violated: passed must equal (failing == [])'')
      else Ok \<lparr>va_branch = branch, va_report_path = report_path, va_passed = passed, va_failing = failing\<rparr>)"

section \<open>The scorer\<close>

definition compute_strict_and :: "trust_signal list \<Rightarrow> bool \<times> string list" where
  "compute_strict_and signals =
     (let failing = map ts_kind (filter (\<lambda>s. \<not> ts_passed s) signals) in (failing = [], failing))"

fun is_adapter_degraded :: "string \<Rightarrow> workflow_event \<Rightarrow> bool" where
  "is_adapter_degraded wid (InternalEvent e) =
     (case ie_payload e of
        StageEv (AdapterDegraded _ _ _) \<Rightarrow> eh_workflow_id (ie_header e) = wid
      | _ \<Rightarrow> False)"
| "is_adapter_degraded wid (SpanningEvent _) = False"

definition has_adapter_degraded :: "workflow_event list \<Rightarrow> string \<Rightarrow> bool" where
  "has_adapter_degraded events wid = list_ex (is_adapter_degraded wid) events"

text \<open>The loop that refuses the first signal of an unknown kind.\<close>

fun check_kinds :: "signal_kind_registry \<Rightarrow> trust_signal list \<Rightarrow> trust_error option" where
  "check_kinds r [] = None"
| "check_kinds r (s # ss) =
     (if \<not> kind_registered r (ts_kind s) then Some (UnregisteredSignalKind (ts_kind s)) else check_kinds r ss)"

definition score ::
  "event_lib \<Rightarrow> 'i sink_ops \<Rightarrow> 's sink_ops \<Rightarrow> ('i, 's) event_log \<Rightarrow> signal_kind_registry \<Rightarrow> trust_signal list
     \<Rightarrow> trust_error + trust_outcome" where
  "score lib io so lg r signals =
     (if signals = [] then Err EmptySignals
      else case check_kinds r signals of
        Some e \<Rightarrow> Err e
      | None \<Rightarrow>
          let (passed, failing) = compute_strict_and signals in
          case replay lib io so lg of
            Inl e \<Rightarrow> Err (Replay_failed e)
          | Inr events \<Rightarrow>
              make_trust_outcome passed failing signals
                (if has_adapter_degraded events (lg_workflow_id lg) then Degraded else High))"

section \<open>The confidence gate\<close>

definition trust_passed :: "trust_outcome \<Rightarrow> bool" where "trust_passed trust = to_passed trust"
definition high_confidence :: "trust_outcome \<Rightarrow> bool" where
  "high_confidence trust = (to_confidence trust = High)"
definition gate_passes :: "trust_outcome \<Rightarrow> bool" where
  "gate_passes trust = (trust_passed trust \<and> high_confidence trust)"

section \<open>Properties\<close>

lemma check_kinds_None: "check_kinds r ss = None \<longleftrightarrow> list_all (\<lambda>s. kind_registered r (ts_kind s)) ss"
  by (induction ss) auto

lemma strict_and_valid: "make_trust_outcome (fst (compute_strict_and ss)) (snd (compute_strict_and ss)) ss c =
    Ok \<lparr>to_passed = list_all ts_passed ss, to_failing = map ts_kind (filter (\<lambda>s. \<not> ts_passed s) ss),
        to_signals = ss, to_confidence = c\<rparr>"
  by (simp add: make_trust_outcome_def compute_strict_and_def Let_def filter_empty_conv list_all_iff)

lemma score_Ok:
  "score lib io so lg r signals = Ok t \<longleftrightarrow>
     signals \<noteq> [] \<and> list_all (\<lambda>s. kind_registered r (ts_kind s)) signals
     \<and> (\<exists>events. replay lib io so lg = Ok events
        \<and> t = \<lparr>to_passed = list_all ts_passed signals,
               to_failing = map ts_kind (filter (\<lambda>s. \<not> ts_passed s) signals), to_signals = signals,
               to_confidence = (if has_adapter_degraded events (lg_workflow_id lg) then Degraded else High)\<rparr>)"
proof (cases "replay lib io so lg")
  case (Inr events)
  show ?thesis
  proof (cases "check_kinds r signals")
    case None
    then show ?thesis
      using strict_and_valid [of signals] Inr
      by (cases "compute_strict_and signals") (auto simp: score_def check_kinds_None [symmetric])
  next
    case (Some e)
    then show ?thesis by (auto simp: score_def check_kinds_None [symmetric])
  qed
qed (auto simp: score_def Let_def split: option.splits prod.splits)

lemma emit_all_workflow:
  "emit_all lib io so lg es = Ok lg' \<Longrightarrow> lg_workflow_id lg' = lg_workflow_id lg"
proof (induction lib io so lg es rule: emit_all.induct)
  case (2 lib io so lg now e es)
  then show ?case by (auto simp: rbind_Ok_iff emit_internal_def Let_def)
next
  case (3 lib io so lg now e es)
  then show ?case by (fastforce simp: rbind_Ok_iff emit_spanning_def Let_def)
qed simp

text \<open>C20. The gate opens exactly on a clean history: on a log over fresh files, after any faithful emissions,
  scoring registered signals succeeds, and the gate then passes exactly when every signal passed and no
  adapter of this workflow was reported degraded in the log.\<close>

theorem gate_follows_history:
  assumes "codec_ok z" "hex_digests lib"
    and "\<forall>e \<in> set (internals_of es). internal_faithful lib e"
    and "spannings_faithful lib genesis_head (spannings_of es)"
    and "signals \<noteq> []" and "list_all (\<lambda>s. kind_registered r (ts_kind s)) signals"
  shows "\<exists>lg lg' t. open_log lib (file_ops z spanning_stream) wid None None = Ok lg \<and>
    emit_all lib (file_ops z internal_stream) (file_ops z spanning_stream) lg es = Ok lg' \<and>
    score lib (file_ops z internal_stream) (file_ops z spanning_stream) lg' r signals = Ok t \<and>
    (gate_passes t \<longleftrightarrow> list_all ts_passed signals
       \<and> \<not> list_ex (is_adapter_degraded wid) (map InternalEvent (internals_of es)))"
proof -
  let ?lg = "\<lparr>lg_workflow_id = wid, lg_internal_sink = None, lg_spanning_sink = None, lg_chain_head = genesis_head\<rparr>"
  have o: "open_log lib (file_ops z spanning_stream) wid None None = Ok ?lg"
    by (simp add: open_log_def file_read_all_def log_tail_chain_head_def)
  have "files.holds z lib ?lg [] []"
    using assms(1) by (simp add: files.holds_def file_inv_def file_read_all_def)
  with files.replay_emitted [OF assms(2) _ assms(3,4)] obtain lg' where
    e: "emit_all lib (file_ops z internal_stream) (file_ops z spanning_stream) ?lg es = Ok lg'" and
    rp: "replay lib (file_ops z internal_stream) (file_ops z spanning_stream) lg' =
      Ok (sort_key (replay_sort_key lib) (map InternalEvent (internals_of es) @
        map SpanningEvent (chained_events lib genesis_head (spannings_of es))))" (is "_ = Ok ?events") by blast
  have "lg_workflow_id lg' = wid" using emit_all_workflow [OF e] by simp
  moreover have "has_adapter_degraded ?events wid = list_ex (is_adapter_degraded wid) (map InternalEvent (internals_of es))"
  proof -
    have "list_ex P (sort_key f xs) = list_ex P xs" for P and f :: "workflow_event \<Rightarrow> int \<times> string" and xs
      by (simp add: list_ex_iff)
    moreover have "\<not> list_ex (is_adapter_degraded wid) (map SpanningEvent ss)" for ss
      by (induction ss) simp_all
    ultimately show ?thesis by (simp add: has_adapter_degraded_def)
  qed
  ultimately obtain t where "score lib (file_ops z internal_stream) (file_ops z spanning_stream) lg' r signals = Ok t"
    and "gate_passes t \<longleftrightarrow> list_all ts_passed signals
       \<and> \<not> list_ex (is_adapter_degraded wid) (map InternalEvent (internals_of es))"
    using assms(5,6) rp unfolding score_Ok gate_passes_def trust_passed_def high_confidence_def by auto
  with o e show ?thesis by blast
qed

theorem gate_follows_history_witness:
  "\<exists>lg lg' t. open_log toy_lib (file_ops toy_codec spanning_stream) ''w'' None None = Ok lg \<and>
    emit_all toy_lib (file_ops toy_codec internal_stream) (file_ops toy_codec spanning_stream) lg toy_emits = Ok lg' \<and>
    score toy_lib (file_ops toy_codec internal_stream) (file_ops toy_codec spanning_stream) lg'
      \<lparr>sk_origins = [(''tests'', ''m'')]\<rparr> [\<lparr>ts_kind = ''tests'', ts_passed = True, ts_details = []\<rparr>] = Ok t \<and>
    gate_passes t"
proof -
  have d: "\<not> list_ex (is_adapter_degraded ''w'') (map InternalEvent (internals_of toy_emits))"
    by (simp add: toy_emitted toy_internal_def)
  show ?thesis
    using gate_follows_history [OF toy_codec_ok toy_hex, of toy_emits
        "[\<lparr>ts_kind = ''tests'', ts_passed = True, ts_details = []\<rparr>]" "\<lparr>sk_origins = [(''tests'', ''m'')]\<rparr>" "''w''"]
      toy_faithful d by (simp add: toy_emitted kind_registered_def)
qed

end
