(* ===== verification/Plan_Proposal.thy ===== *)
theory Plan_Proposal
  imports Utf8
begin

text \<open>
  The plan a language model proposes (\<open>fallback/plan_proposal.py\<close>): the validators of a unified diff and of
  a repository-relative path, and the four variants with the containment check of the callsite rewrite.
  Text is code points. A validation error is a constructor with the data its message shows; pydantic
  reports the errors of all fields, in field order.
\<close>

section \<open>Lines and segments\<close>

definition text_of :: "string \<Rightarrow> utext" where "text_of s = map of_char s"

text \<open>\<open>str.splitlines\<close>.\<close>

definition line_break :: "nat \<Rightarrow> bool" where
  "line_break c \<longleftrightarrow> 10 \<le> c \<and> c \<le> 13 \<or> 28 \<le> c \<and> c \<le> 30 \<or> c = 0x85 \<or> c = 0x2028 \<or> c = 0x2029"

function split_lines :: "utext \<Rightarrow> utext \<Rightarrow> utext list" where
  "split_lines acc [] = (if acc = [] then [] else [rev acc])"
| "split_lines acc (c # s) =
     (if line_break c then rev acc # split_lines [] (if c = 13 \<and> prefix [10] s then drop 1 s else s)
      else split_lines (c # acc) s)"
  by pat_completeness auto
termination
  by (relation "measure (\<lambda>(acc, s). length s)") auto

text \<open>\<open>s.split("/")\<close>.\<close>

fun split_slash :: "utext \<Rightarrow> utext \<Rightarrow> utext list" where
  "split_slash acc [] = [rev acc]"
| "split_slash acc (c # s) = (if c = 47 then rev acc # split_slash [] s else split_slash (c # acc) s)"

section \<open>The validators\<close>

datatype plan_error =
    Empty_diff | Carriage_return | Not_encodable | Diff_too_large nat | New_file_marker | No_op_diff
  | Empty_path | Absolute_path utext | Nul_byte | Backslash_in_path | Traversal_segment utext
  | Too_long | No_files | Diff_path_escape "utext list" "utext list"

definition max_diff_bytes :: nat where "max_diff_bytes = 65536"
definition max_rationale_chars :: nat where "max_rationale_chars = 2048"

definition data_line :: "utext \<Rightarrow> bool" where
  "data_line line \<longleftrightarrow>
     \<not> (prefix (text_of ''+++'') line \<or> prefix (text_of ''---'') line)
     \<and> (prefix (text_of ''+'') line \<or> prefix (text_of ''-'') line)"

definition validate_unified_diff :: "utext \<Rightarrow> plan_error + utext" where
  "validate_unified_diff v =
     (if v = [] then Err Empty_diff
      else if py_in [13] v then Err Carriage_return
      else case utf8_encode v of
        None \<Rightarrow> Err Not_encodable
      | Some encoded \<Rightarrow>
          if length encoded > max_diff_bytes then Err (Diff_too_large (length encoded))
          else if py_in (text_of ''--- /dev/null'') v then Err New_file_marker
          else if length (filter data_line (split_lines [] v)) = 0 then Err No_op_diff
          else Ok v)"

definition validate_sandboxed_relative_path :: "utext \<Rightarrow> plan_error + utext" where
  "validate_sandboxed_relative_path v =
     (if v = [] then Err Empty_path
      else if prefix [47] v then Err (Absolute_path v)
      else if py_in [0] v then Err Nul_byte
      else if py_in [92] v then Err Backslash_in_path
      else if list_ex ((=) [46, 46]) (split_slash [] v) then Err (Traversal_segment v)
      else Ok v)"

definition diff_markers :: "utext list" where
  "diff_markers = [text_of ''--- a/'', text_of ''+++ b/'']"

text \<open>The markers differ, so at most one of them opens a line; the set is kept as a list.\<close>

definition extract_diff_paths :: "utext \<Rightarrow> utext list" where
  "extract_diff_paths diff =
     concat (map (\<lambda>line. case find (\<lambda>m. prefix m line) diff_markers of
                           Some m \<Rightarrow> [drop (length m) line]
                         | None \<Rightarrow> []) (split_lines [] diff))"

section \<open>The variants\<close>

datatype refuse_reason = Out_of_scope | Insufficient_context | Policy_block

datatype plan_proposal =
    Dep_bump utext string string utext
  | Override utext string string utext
  | Callsite_rewrite utext "utext list" utext utext
  | Refuse refuse_reason utext

fun errors_of :: "plan_error + 'a \<Rightarrow> plan_error list" where
  "errors_of (Inl e) = [e]"
| "errors_of (Inr _) = []"

definition rationale_errors :: "utext \<Rightarrow> plan_error list" where
  "rationale_errors r = (if length r > max_rationale_chars then [Too_long] else [])"

definition make_dep_bump :: "utext \<Rightarrow> string \<Rightarrow> string \<Rightarrow> utext \<Rightarrow> plan_error list + plan_proposal" where
  "make_dep_bump manifest_path package target_version rationale =
     (let es = errors_of (validate_sandboxed_relative_path manifest_path) @ rationale_errors rationale in
      if es \<noteq> [] then Err es else Ok (Dep_bump manifest_path package target_version rationale))"

definition make_override :: "utext \<Rightarrow> string \<Rightarrow> string \<Rightarrow> utext \<Rightarrow> plan_error list + plan_proposal" where
  "make_override manifest_path package forced_version rationale =
     (let es = errors_of (validate_sandboxed_relative_path manifest_path) @ rationale_errors rationale in
      if es \<noteq> [] then Err es else Ok (Override manifest_path package forced_version rationale))"

definition diff_paths_subset_of_files :: "utext list \<Rightarrow> utext \<Rightarrow> plan_error option" where
  "diff_paths_subset_of_files files diff =
     (let escapees = filter (\<lambda>p. p \<notin> set files) (extract_diff_paths diff) in
      if escapees \<noteq> [] then Some (Diff_path_escape (sort (remdups escapees)) (sort (remdups files))) else None)"

definition make_callsite_rewrite ::
  "utext \<Rightarrow> utext list \<Rightarrow> utext \<Rightarrow> utext \<Rightarrow> plan_error list + plan_proposal" where
  "make_callsite_rewrite manifest_path files diff rationale =
     (let es = errors_of (validate_sandboxed_relative_path manifest_path)
            @ (if files = [] then [No_files] else concat (map (\<lambda>f. errors_of (validate_sandboxed_relative_path f)) files))
            @ errors_of (validate_unified_diff diff) @ rationale_errors rationale
      in if es \<noteq> [] then Err es
         else case diff_paths_subset_of_files files diff of
                Some e \<Rightarrow> Err [e]
              | None \<Rightarrow> Ok (Callsite_rewrite manifest_path files diff rationale))"

definition make_refuse :: "refuse_reason \<Rightarrow> utext \<Rightarrow> plan_error list + plan_proposal" where
  "make_refuse reason rationale =
     (let es = rationale_errors rationale in if es \<noteq> [] then Err es else Ok (Refuse reason rationale))"

section \<open>Paths stay inside\<close>

text \<open>Where a path leads from a directory, component by component, without symbolic links: an absolute
  path starts at the root, a dot or an empty segment stays, two dots go up.\<close>

fun walk :: "utext list \<Rightarrow> utext list \<Rightarrow> utext list" where
  "walk dir [] = dir"
| "walk dir (s # ss) =
     (if s = [] \<or> s = [46] then walk dir ss
      else if s = [46, 46] then walk (butlast dir) ss
      else walk (dir @ [s]) ss)"

definition leads_to :: "utext list \<Rightarrow> utext \<Rightarrow> utext list" where
  "leads_to dir path = (if prefix [47] path then walk [] (split_slash [] path) else walk dir (split_slash [] path))"

lemma walk_inside: "[46, 46] \<notin> set ss \<Longrightarrow> \<exists>t. walk dir ss = dir @ t"
proof (induction ss arbitrary: dir)
  case (Cons s ss)
  then have "\<exists>t. walk dir ss = dir @ t" "\<exists>t. walk (dir @ [s]) ss = dir @ t" by auto (metis append.assoc)
  with Cons.prems show ?case by auto
qed simp

lemma path_ok:
  "validate_sandboxed_relative_path v = Ok w \<longleftrightarrow>
     w = v \<and> v \<noteq> [] \<and> \<not> prefix [47] v \<and> 0 \<notin> set v \<and> 92 \<notin> set v \<and> [46, 46] \<notin> set (split_slash [] v)"
proof -
  have "py_in [c] v \<longleftrightarrow> c \<in> set v" for c
    unfolding py_in_iff by (auto simp: in_set_conv_decomp)
  moreover have "list_ex ((=) [46, 46]) xs \<longleftrightarrow> [46, 46] \<in> set xs" for xs :: "utext list"
    by (auto simp: list_ex_iff)
  ultimately show ?thesis by (auto simp: validate_sandboxed_relative_path_def)
qed

text \<open>C25. An accepted path is the given one, holds no NUL and no backslash, and leads from any directory to a
  place inside it.\<close>

theorem accepted_path_inside:
  assumes "validate_sandboxed_relative_path v = Ok w"
  shows "w = v \<and> 0 \<notin> set v \<and> 92 \<notin> set v \<and> prefix dir (leads_to dir w)"
  using assms walk_inside [of "split_slash [] v" dir] by (auto simp: path_ok leads_to_def prefix_def)

theorem accepted_path_inside_witness:
  "validate_sandboxed_relative_path (text_of ''src/a..b'') = Ok (text_of ''src/a..b'')
    \<and> prefix [text_of ''repo''] (leads_to [text_of ''repo''] (text_of ''src/a..b''))"
proof -
  have "validate_sandboxed_relative_path (text_of ''src/a..b'') = Ok (text_of ''src/a..b'')" by code_simp
  from accepted_path_inside [OF this, of "[text_of ''repo'']"] this show ?thesis by simp
qed

section \<open>Callsite rewrites\<close>

lemma diff_ok:
  "validate_unified_diff v = Ok w \<longleftrightarrow>
     w = v \<and> v \<noteq> [] \<and> \<not> py_in [13] v \<and> list_all scalar v \<and> length (utf8 v) \<le> 65536
     \<and> \<not> py_in (text_of ''--- /dev/null'') v \<and> list_ex data_line (split_lines [] v)"
  by (auto simp: validate_unified_diff_def utf8_encode_def max_diff_bytes_def filter_empty_conv list_ex_iff)

lemma errors_of_Nil [simp]: "errors_of r = [] \<longleftrightarrow> (\<exists>v. r = Ok v)"
  by (cases r) auto

lemma paths_ok: "concat (map (\<lambda>f. errors_of (validate_sandboxed_relative_path f)) files) = [] \<longleftrightarrow>
    list_all (\<lambda>f. validate_sandboxed_relative_path f = Ok f) files"
  by (induction files) (auto simp: path_ok)

lemma callsite_Ok:
  "make_callsite_rewrite path files diff rationale = Ok p \<longleftrightarrow>
     p = Callsite_rewrite path files diff rationale
     \<and> (\<exists>v. validate_sandboxed_relative_path path = Ok v)
     \<and> files \<noteq> [] \<and> list_all (\<lambda>f. validate_sandboxed_relative_path f = Ok f) files
     \<and> (\<exists>v. validate_unified_diff diff = Ok v) \<and> length rationale \<le> 2048
     \<and> set (extract_diff_paths diff) \<subseteq> set files"
proof -
  let ?es = "errors_of (validate_sandboxed_relative_path path)
            @ (if files = [] then [No_files] else concat (map (\<lambda>f. errors_of (validate_sandboxed_relative_path f)) files))
            @ errors_of (validate_unified_diff diff) @ rationale_errors rationale"
  have r: "rationale_errors rationale = [] \<longleftrightarrow> length rationale \<le> 2048"
    by (simp add: rationale_errors_def max_rationale_chars_def)
  have es: "?es = [] \<longleftrightarrow> (\<exists>v. validate_sandboxed_relative_path path = Ok v) \<and> files \<noteq> []
      \<and> list_all (\<lambda>f. validate_sandboxed_relative_path f = Ok f) files
      \<and> (\<exists>v. validate_unified_diff diff = Ok v) \<and> length rationale \<le> 2048"
    unfolding append_is_Nil_conv errors_of_Nil r using paths_ok [of files] by auto
  have sub: "diff_paths_subset_of_files files diff = None \<longleftrightarrow> set (extract_diff_paths diff) \<subseteq> set files"
    by (auto simp: diff_paths_subset_of_files_def Let_def filter_empty_conv)
  have "make_callsite_rewrite path files diff rationale = Ok p \<longleftrightarrow>
      ?es = [] \<and> diff_paths_subset_of_files files diff = None \<and> p = Callsite_rewrite path files diff rationale"
    unfolding make_callsite_rewrite_def Let_def by (cases "?es = []") (auto split: option.split)
  then show ?thesis unfolding es sub by blast
qed

text \<open>A callsite rewrite is built exactly when the manifest path and every file, of which there is one at
  least, are accepted paths, the diff has only line feeds, encodes to at most 64 KB, names no new file by
  the \<open>/dev/null\<close> marker and changes a line, the rationale is short enough, and every path after an
  \<open>a/\<close> or \<open>b/\<close> marker is one of the files.\<close>

theorem callsite_rewrite_exact:
  "make_callsite_rewrite path files diff rationale = Ok p \<longleftrightarrow>
     p = Callsite_rewrite path files diff rationale
     \<and> validate_sandboxed_relative_path path = Ok path
     \<and> files \<noteq> [] \<and> list_all (\<lambda>f. validate_sandboxed_relative_path f = Ok f) files
     \<and> (diff \<noteq> [] \<and> \<not> py_in [13] diff \<and> list_all scalar diff \<and> length (utf8 diff) \<le> 65536
        \<and> \<not> py_in (text_of ''--- /dev/null'') diff \<and> list_ex data_line (split_lines [] diff))
     \<and> length rationale \<le> 2048
     \<and> set (extract_diff_paths diff) \<subseteq> set files"
proof -
  have "(\<exists>v. validate_unified_diff diff = Ok v) \<longleftrightarrow> diff \<noteq> [] \<and> \<not> py_in [13] diff \<and> list_all scalar diff
      \<and> length (utf8 diff) \<le> 65536 \<and> \<not> py_in (text_of ''--- /dev/null'') diff
      \<and> list_ex data_line (split_lines [] diff)" by (simp add: diff_ok)
  moreover have "(\<exists>v. validate_sandboxed_relative_path path = Ok v) \<longleftrightarrow> validate_sandboxed_relative_path path = Ok path"
    using path_ok by auto
  ultimately show ?thesis unfolding callsite_Ok by (simp only:)
qed

text \<open>A path without the \<open>a/\<close> and \<open>b/\<close> markers is not looked at: this diff names a file outside the
  repository and is accepted.\<close>

definition escaping_diff :: utext where
  "escaping_diff = text_of ''--- ../../x'' @ [10] @ text_of ''+++ ../../x'' @ [10] @ text_of ''+evil''"

lemma escaping_lines:
  "split_lines [] escaping_diff = [text_of ''--- ../../x'', text_of ''+++ ../../x'', text_of ''+evil'']"
  by (simp add: escaping_diff_def text_of_def line_break_def)

lemma escape_unseen:
  "make_callsite_rewrite (text_of ''package.json'') [text_of ''a.js''] escaping_diff [] =
     Ok (Callsite_rewrite (text_of ''package.json'') [text_of ''a.js''] escaping_diff [])"
proof -
  have paths: "validate_sandboxed_relative_path (text_of ''package.json'') = Ok (text_of ''package.json'')"
    "validate_sandboxed_relative_path (text_of ''a.js'') = Ok (text_of ''a.js'')" by code_simp+
  have ascii: "list_all (\<lambda>c. c < 0x80) escaping_diff" by (simp add: escaping_diff_def text_of_def)
  have short: "length escaping_diff = 29" by (simp add: escaping_diff_def text_of_def)
  have "\<not> py_in [13] escaping_diff" "\<not> py_in (text_of ''--- /dev/null'') escaping_diff" "escaping_diff \<noteq> []"
    by (simp_all add: escaping_diff_def text_of_def py_in_def)
  moreover have "list_ex data_line (split_lines [] escaping_diff)"
    unfolding escaping_lines by (simp add: text_of_def data_line_def)
  ultimately have "validate_unified_diff escaping_diff = Ok escaping_diff"
    unfolding diff_ok using scalar_ascii [OF ascii] utf8_ascii [OF ascii] short by simp
  moreover have "extract_diff_paths escaping_diff = []"
    unfolding extract_diff_paths_def escaping_lines by (simp add: text_of_def diff_markers_def)
  ultimately show ?thesis unfolding callsite_Ok using paths by simp
qed

end
