(* ===== verification/Rag.thy ===== *)
theory Rag
  imports Complex_Main Prompt
begin

text \<open>
  Retrieval of solved examples (\<open>rag\<close>): the chain-orphan predicate (\<open>provenance.py\<close>), the model-digest
  filter (\<open>exclusion.py\<close>), the band classifier (\<open>confidence.py\<close>) and \<open>SolvedExampleRetriever.query\<close>
  (\<open>retriever.py\<close>) with the events it emits. A similarity is a rational, a floor that is not a finite
  number is \<open>None\<close>. The query builder, the embedder and the vector store are third parties: the
  candidates they produce are an argument.
\<close>

section \<open>Records\<close>

record solved_example =
  se_id :: string
  se_embedding_model :: string
  se_event_chain_head :: string
  se_json :: utext

record scored_example =
  sx_record :: solved_example
  sx_score :: rat

record spanning_chain_log =
  sp_contains :: "string \<Rightarrow> bool"
  sp_head :: string

definition verify_record :: "solved_example \<Rightarrow> spanning_chain_log \<Rightarrow> bool" where
  "verify_record record spanning =
     (if se_event_chain_head record = [] then False else sp_contains spanning (se_event_chain_head record))"

section \<open>Confidence bands\<close>

datatype rag_confidence = Band_high | Band_medium | Band_low

definition classify_similarity :: "rat \<Rightarrow> rat \<Rightarrow> rat \<Rightarrow> rag_confidence" where
  "classify_similarity score high_floor degraded_floor =
     (if score \<ge> high_floor then Band_high else if score \<ge> degraded_floor then Band_medium else Band_low)"

record band_classifier =
  bc_high_floor :: rat
  bc_degraded_floor :: rat

definition make_band_classifier :: "rat option \<Rightarrow> rat option \<Rightarrow> string + band_classifier" where
  "make_band_classifier hf df =
     (case (hf, df) of
        (Some h, Some d) \<Rightarrow>
          if 0 \<le> d \<and> d < h \<and> h \<le> 1 then Ok \<lparr>bc_high_floor = h, bc_degraded_floor = d\<rparr>
          else Err ''degraded_floor must be strictly less than high_floor and both must lie in [0.0, 1.0]''
      | _ \<Rightarrow> Err ''degraded_floor must be strictly less than high_floor and both must lie in [0.0, 1.0]'')"

lemma make_band_floors:
  "make_band_classifier hf df = Ok bc \<Longrightarrow> bc_degraded_floor bc < bc_high_floor bc"
  by (auto simp: make_band_classifier_def split: option.splits if_splits)

definition default_classifier :: band_classifier where
  "default_classifier = \<lparr>bc_high_floor = 85 / 100, bc_degraded_floor = 65 / 100\<rparr>"

record candidate =
  ca_fenced :: fenced_segment
  ca_record :: solved_example
  ca_score :: rat

definition lex_inverse :: "string \<Rightarrow> int list" where
  "lex_inverse record_id = map (\<lambda>ch. - of_char ch) record_id"

text \<open>The tuples \<open>(score, _lex_inverse id)\<close> compare lexicographically.\<close>

definition key_less :: "candidate \<Rightarrow> candidate \<Rightarrow> bool" where
  "key_less a b =
     (ca_score a < ca_score b \<or>
      ca_score a = ca_score b \<and> ord_class.lexordp (lex_inverse (se_id (ca_record a))) (lex_inverse (se_id (ca_record b))))"

text \<open>\<open>max\<close> keeps the first of equal keys.\<close>

definition top_candidate :: "candidate \<Rightarrow> candidate list \<Rightarrow> candidate" where
  "top_candidate c cs = foldl (\<lambda>m x. if key_less m x then x else m) c cs"

datatype retrieval_outcome = RagHit solved_example rat | RagMiss | RagDegraded solved_example rat

fun classify :: "band_classifier \<Rightarrow> candidate list \<Rightarrow> retrieval_outcome" where
  "classify bc [] = RagMiss"
| "classify bc (c # cs) =
     (let top = top_candidate c cs in
      case classify_similarity (ca_score top) (bc_high_floor bc) (bc_degraded_floor bc) of
        Band_high \<Rightarrow> RagHit (ca_record top) (ca_score top)
      | Band_medium \<Rightarrow> RagDegraded (ca_record top) (ca_score top)
      | Band_low \<Rightarrow> RagMiss)"

section \<open>The retriever\<close>

text \<open>What the retriever is built from, and the draws of one query: events, and one fence per candidate.\<close>

record retriever =
  rt_lib :: event_lib
  rt_span :: spanning_chain_log
  rt_classifier :: band_classifier
  rt_model_digest :: "string option"
  rt_scan :: scanner_fun
  rt_draws :: "nat \<Rightarrow> event_draw"
  rt_nonces :: "nat \<Rightarrow> string"

type_synonym ('a, 'i, 's) query_act = "(prompt_error, 'a, ('i, 's) event_log) act"

definition tell :: "retriever \<Rightarrow> 'i sink_ops \<Rightarrow> internal_payload \<Rightarrow> (unit, 'i, 's) query_act" where
  "tell rt io p = say (rt_lib rt) io (rt_draws rt) Event_log_error p"

fun chain_verify :: "retriever \<Rightarrow> 'i sink_ops \<Rightarrow> scored_example list \<Rightarrow> (scored_example list, 'i, 's) query_act" where
  "chain_verify rt io [] = return_act []"
| "chain_verify rt io (cand # rest) =
     (if verify_record (sx_record cand) (rt_span rt)
      then andThen (chain_verify rt io rest) (\<lambda>vs. return_act (cand # vs))
      else andThen (tell rt io (HarvestEv (RagRecordChainOrphan (se_id (sx_record cand))
                     (se_event_chain_head (sx_record cand)) (sp_head (rt_span rt)))))
             (\<lambda>_. chain_verify rt io rest))"

definition model_digest_filter ::
  "retriever \<Rightarrow> 'i sink_ops \<Rightarrow> string \<Rightarrow> scored_example list \<Rightarrow> (scored_example list \<times> nat, 'i, 's) query_act" where
  "model_digest_filter rt io current cands =
     (let surviving = filter (\<lambda>c. se_embedding_model (sx_record c) = current) cands;
          stale = filter (\<lambda>c. se_embedding_model (sx_record c) \<noteq> current) cands in
      case stale of
        [] \<Rightarrow> return_act (surviving, 0)
      | c # _ \<Rightarrow>
          andThen (tell rt io (RagEv (RagRecordModelMismatch (int (length stale)) current
                    (se_embedding_model (sx_record c)))))
            (\<lambda>_. return_act (surviving, length stale)))"

text \<open>\<open>FenceWrapper.fence\<close> under the source kind of retrieved text, its two events among the draws.\<close>

definition fence_act :: "retriever \<Rightarrow> 'i sink_ops \<Rightarrow> string \<Rightarrow> utext \<Rightarrow> (fenced_segment, 'i, 's) query_act" where
  "fence_act rt io nonce payload =
     (case fence_pure (rt_scan rt) payload nonce fsk_rag_retrieved of
        Inl e \<Rightarrow> (\<lambda>st. (Err e, st))
      | Inr seg \<Rightarrow>
          andThen
            (case fs_canary seg of
               CanaryCollision pid \<Rightarrow> tell rt io (FenceEv (CanaryCollisionEvent fsk_rag_retrieved nonce pid))
             | CanaryClean \<Rightarrow> return_act ())
            (\<lambda>_. andThen (tell rt io (FenceEv (FenceApplied fsk_rag_retrieved nonce (fs_truncated seg)
                            (int (fs_original_byte_length seg)))))
              (\<lambda>_. return_act seg)))"

fun fence_candidates ::
  "retriever \<Rightarrow> 'i sink_ops \<Rightarrow> nat \<Rightarrow> scored_example list \<Rightarrow> (candidate list, 'i, 's) query_act" where
  "fence_candidates rt io k [] = return_act []"
| "fence_candidates rt io k (cand # rest) =
     andThen (fence_act rt io (rt_nonces rt k) (se_json (sx_record cand))) (\<lambda>fenced.
     andThen (fence_candidates rt io (Suc k) rest) (\<lambda>cs.
       return_act (\<lparr>ca_fenced = fenced, ca_record = sx_record cand, ca_score = sx_score cand\<rparr> # cs)))"

text \<open>The digest of the fenced text is that of its UTF-8 bytes.\<close>

definition digest_fenced :: "retriever \<Rightarrow> fenced_segment \<Rightarrow> string" where
  "digest_fenced rt seg = content_hash_bytes (rt_lib rt) (map char_of (utf8 (fs_content seg)))"

fun emit_selected :: "retriever \<Rightarrow> 'i sink_ops \<Rightarrow> string \<Rightarrow> candidate list \<Rightarrow> (unit, 'i, 's) query_act" where
  "emit_selected rt io record_id [] = return_act ()"
| "emit_selected rt io record_id (cand # cands) =
     (if se_id (ca_record cand) = record_id
      then tell rt io (RagEv (RagCandidateSelectedEvent record_id (digest_fenced rt (ca_fenced cand))))
      else emit_selected rt io record_id cands)"

definition emit_outcome_events ::
  "retriever \<Rightarrow> 'i sink_ops \<Rightarrow> retrieval_outcome \<Rightarrow> candidate list \<Rightarrow> (unit, 'i, 's) query_act" where
  "emit_outcome_events rt io outcome candidates =
     (case outcome of
        RagHit record _ \<Rightarrow>
          andThen (tell rt io (RagEv (RagHitEvent (se_id record)))) (\<lambda>_. emit_selected rt io (se_id record) candidates)
      | RagDegraded record _ \<Rightarrow>
          andThen (tell rt io (RagEv (RagDegradedEvent (se_id record)))) (\<lambda>_. emit_selected rt io (se_id record) candidates)
      | RagMiss \<Rightarrow> tell rt io (RagEv (RagMissEvent rmr_top1_below_floor)))"

definition miss :: "retriever \<Rightarrow> 'i sink_ops \<Rightarrow> rag_miss_reason \<Rightarrow> (retrieval_outcome, 'i, 's) query_act" where
  "miss rt io reason = andThen (tell rt io (RagEv (RagMissEvent reason))) (\<lambda>_. return_act RagMiss)"

definition finish_query ::
  "retriever \<Rightarrow> 'i sink_ops \<Rightarrow> scored_example list \<Rightarrow> (retrieval_outcome, 'i, 's) query_act" where
  "finish_query rt io verified =
     andThen (fence_candidates rt io 0 verified) (\<lambda>candidates.
     andThen (tell rt io (RagEv (RecordsFencedEvent (int (length candidates))))) (\<lambda>_.
       let outcome = classify (rt_classifier rt) candidates in
       andThen (emit_outcome_events rt io outcome candidates) (\<lambda>_. return_act outcome)))"

definition retrieve :: "retriever \<Rightarrow> 'i sink_ops \<Rightarrow> scored_example list \<Rightarrow> (retrieval_outcome, 'i, 's) query_act" where
  "retrieve rt io raw =
     andThen (tell rt io (RagEv QueryBuiltEvent)) (\<lambda>_.
     andThen (tell rt io (RagEv QueryRenderedEvent)) (\<lambda>_.
     andThen (tell rt io (RagEv RecordsEmbeddedEvent)) (\<lambda>_.
     andThen (tell rt io (RagEv (StoreQueriedEvent (int (length raw))))) (\<lambda>_.
       if raw = [] then miss rt io rmr_empty_store
       else
         andThen (chain_verify rt io raw) (\<lambda>verified.
         andThen (tell rt io (RagEv (RecordsChainVerifiedEvent (int (length verified))
                   (int (length raw) - int (length verified))))) (\<lambda>_.
           if verified = [] then miss rt io rmr_all_candidates_chain_orphan
           else case rt_model_digest rt of
             None \<Rightarrow> finish_query rt io verified
           | Some current \<Rightarrow>
               andThen (model_digest_filter rt io current verified) (\<lambda>(surviving, _).
                 if surviving = [] then miss rt io rmr_all_candidates_model_mismatch
                 else finish_query rt io surviving)))))))"

section \<open>The classifier picks the best\<close>

text \<open>A record is at least as good as another when its score is higher, or equal with an id that is not
  larger; ids of one length compare as their code points do.\<close>

definition best_of :: "scored_example list \<Rightarrow> solved_example \<Rightarrow> rat \<Rightarrow> bool" where
  "best_of xs r s \<longleftrightarrow>
     (\<exists>x \<in> set xs. sx_record x = r \<and> sx_score x = s) \<and>
     (\<forall>y \<in> set xs. sx_score y < s \<or> sx_score y = s \<and>
        \<not> ord_class.lexordp (lex_inverse (se_id r)) (lex_inverse (se_id (sx_record y))))"

definition band_right :: "band_classifier \<Rightarrow> scored_example list \<Rightarrow> retrieval_outcome \<Rightarrow> bool" where
  "band_right bc xs out =
     (case out of
        RagHit r s \<Rightarrow> bc_high_floor bc \<le> s \<and> best_of xs r s
      | RagDegraded r s \<Rightarrow> bc_degraded_floor bc \<le> s \<and> s < bc_high_floor bc \<and> best_of xs r s
      | RagMiss \<Rightarrow> (\<forall>x \<in> set xs. sx_score x < bc_degraded_floor bc))"

lemma lex_inverse_order:
  "length a = length b \<Longrightarrow>
     ord_class.lexordp (lex_inverse a) (lex_inverse b) =
       ord_class.lexordp (map of_char b :: int list) (map of_char a)"
proof (induction a arbitrary: b)
  case (Cons x a)
  then show ?case by (cases b) (auto simp: lex_inverse_def)
qed (simp add: lex_inverse_def)

text \<open>Of two ids of which one extends the other the longer one is preferred.\<close>

lemma longer_id_preferred: "ord_class.lexordp (lex_inverse a) (lex_inverse (a @ c # cs))"
  by (induction a) (simp_all add: lex_inverse_def)

lemma key_less_neg_trans:
  assumes "\<not> key_less a b" "\<not> key_less b c"
  shows "\<not> key_less a c"
proof
  assume ac: "key_less a c"
  let ?k = "\<lambda>x. lex_inverse (se_id (ca_record x))"
  have "ca_score b \<le> ca_score a" "ca_score c \<le> ca_score b" using assms by (auto simp: key_less_def)
  with ac have e: "ca_score a = ca_score b" "ca_score b = ca_score c" and l: "ord_class.lexordp (?k a) (?k c)"
    by (auto simp: key_less_def)
  with assms have "\<not> ord_class.lexordp (?k a) (?k b)" "\<not> ord_class.lexordp (?k b) (?k c)"
    by (auto simp: key_less_def)
  with lexordp_linear [of "?k a" "?k b"] lexordp_linear [of "?k b" "?k c"] l
  have "ord_class.lexordp (?k c) (?k b) \<or> ?k b = ?k c" "ord_class.lexordp (?k b) (?k a) \<or> ?k a = ?k b" by auto
  with l \<open>\<not> ord_class.lexordp (?k a) (?k b)\<close> \<open>\<not> ord_class.lexordp (?k b) (?k c)\<close>
  show False using lexordp_trans [of "?k a" "?k c" "?k b"] by auto
qed

lemma key_less_asym: "key_less a b \<Longrightarrow> \<not> key_less b a"
  using lexordp_antisym [of "lex_inverse (se_id (ca_record a))" "lex_inverse (se_id (ca_record b))"]
  by (auto simp: key_less_def)

lemma top_candidate_best:
  "top_candidate c cs \<in> set (c # cs) \<and> (\<forall>x \<in> set (c # cs). \<not> key_less (top_candidate c cs) x)"
proof (induction cs arbitrary: c)
  case Nil
  then show ?case by (auto simp: top_candidate_def dest: key_less_asym)
next
  case (Cons y ys)
  let ?m = "if key_less c y then y else c"
  have t: "top_candidate c (y # ys) = top_candidate ?m ys" by (simp add: top_candidate_def)
  have m: "\<not> key_less ?m c" "\<not> key_less ?m y" by (auto dest: key_less_asym)
  let ?t = "top_candidate ?m ys"
  have ih: "?t \<in> set (?m # ys)" "\<And>x. x \<in> set (?m # ys) \<Longrightarrow> \<not> key_less ?t x" using Cons.IH [of ?m] by blast+
  have "?t \<in> set (c # y # ys)" using ih(1) by (auto split: if_splits)
  moreover have "\<not> key_less ?t ?m" using ih(2) by simp
  then have "\<not> key_less ?t c" "\<not> key_less ?t y" using key_less_neg_trans m by blast+
  then have "\<forall>x \<in> set (c # y # ys). \<not> key_less ?t x" using ih(2) by simp
  ultimately show ?case by (simp add: t)
qed

definition scored_of :: "candidate \<Rightarrow> scored_example" where
  "scored_of c = \<lparr>sx_record = ca_record c, sx_score = ca_score c\<rparr>"

lemma scored_of_sel [simp]: "sx_record (scored_of c) = ca_record c" "sx_score (scored_of c) = ca_score c"
  by (simp_all add: scored_of_def)

lemma unbeaten_best:
  assumes "t \<in> set cs" "\<forall>x \<in> set cs. \<not> key_less t x"
  shows "best_of (map scored_of cs) (ca_record t) (ca_score t)"
  unfolding best_of_def
proof (intro conjI ballI)
  show "\<exists>x \<in> set (map scored_of cs). sx_record x = ca_record t \<and> sx_score x = ca_score t"
    using assms(1) by (auto intro: bexI [of _ t])
next
  fix y assume "y \<in> set (map scored_of cs)"
  then obtain x where y: "y = scored_of x" and x: "x \<in> set cs" by auto
  from assms(2) x have "\<not> key_less t x" by blast
  then show "sx_score y < ca_score t \<or> sx_score y = ca_score t \<and>
      \<not> ord_class.lexordp (lex_inverse (se_id (ca_record t))) (lex_inverse (se_id (sx_record y)))"
    unfolding y key_less_def scored_of_sel by (meson not_less_iff_gr_or_eq)
qed

lemma best_of_le: "best_of xs r s \<Longrightarrow> x \<in> set xs \<Longrightarrow> sx_score x \<le> s"
  by (auto simp: best_of_def)

lemma classify_right:
  assumes "bc_degraded_floor bc \<le> bc_high_floor bc"
  shows "band_right bc (map scored_of cs) (classify bc cs)"
proof (cases cs)
  case (Cons c rest)
  let ?t = "top_candidate c rest"
  have b: "best_of (map scored_of cs) (ca_record ?t) (ca_score ?t)"
    using unbeaten_best [of ?t cs] top_candidate_best [of c rest] by (simp add: Cons)
  have c: "classify bc cs = (if bc_high_floor bc \<le> ca_score ?t then RagHit (ca_record ?t) (ca_score ?t)
      else if bc_degraded_floor bc \<le> ca_score ?t then RagDegraded (ca_record ?t) (ca_score ?t) else RagMiss)"
    by (simp add: Cons Let_def classify_similarity_def)
  have "\<forall>x \<in> set (map scored_of cs). sx_score x \<le> ca_score ?t"
    using best_of_le [OF b] by blast
  then show ?thesis using b by (auto simp: c band_right_def simp del: set_map)
qed (simp add: band_right_def)

section \<open>What a query does\<close>

abbreviation told :: "retriever \<Rightarrow> 'i sink_ops \<Rightarrow> (prompt_error, 'a, ('i, 's) event_log) act \<Rightarrow> 'a \<Rightarrow> internal_payload list \<Rightarrow> bool" where
  "told rt io \<equiv> does (rt_lib rt) io (rt_draws rt)"

lemma told_tell [steps]: "told rt io (tell rt io p) () [p]"
  by (simp add: tell_def does_say)

lemma told_seq:
  "told rt io m a ps \<Longrightarrow> told rt io (f a) b qs \<Longrightarrow> rs = ps @ qs \<Longrightarrow> told rt io (andThen m f) b rs"
  by (simp add: does_andThen)

definition orphan_event :: "retriever \<Rightarrow> scored_example \<Rightarrow> internal_payload" where
  "orphan_event rt c = HarvestEv (RagRecordChainOrphan (se_id (sx_record c))
     (se_event_chain_head (sx_record c)) (sp_head (rt_span rt)))"

definition chained :: "retriever \<Rightarrow> scored_example \<Rightarrow> bool" where
  "chained rt c = verify_record (sx_record c) (rt_span rt)"

lemma chain_verify_told:
  "told rt io (chain_verify rt io cands) (filter (chained rt) cands)
     (map (orphan_event rt) (filter (\<lambda>c. \<not> chained rt c) cands))"
proof (induction cands)
  case (Cons c cs)
  show ?case
  proof (cases "chained rt c")
    case True
    then show ?thesis
      by (simp add: chained_def) (rule told_seq [OF Cons.IH [unfolded chained_def] does_return], simp)
  next
    case False
    then show ?thesis
      by (simp add: chained_def orphan_event_def)
        (rule told_seq [OF told_tell Cons.IH [unfolded chained_def orphan_event_def]], simp)
  qed
qed (simp add: does_return)

definition of_model :: "string \<Rightarrow> scored_example \<Rightarrow> bool" where
  "of_model m c = (se_embedding_model (sx_record c) = m)"

definition mismatch_events :: "string \<Rightarrow> scored_example list \<Rightarrow> internal_payload list" where
  "mismatch_events m cands =
     (case filter (\<lambda>c. \<not> of_model m c) cands of
        [] \<Rightarrow> []
      | c # cs \<Rightarrow> [RagEv (RagRecordModelMismatch (int (length (c # cs))) m (se_embedding_model (sx_record c)))])"

lemma model_digest_filter_told:
  "told rt io (model_digest_filter rt io m cands)
     (filter (of_model m) cands, length (filter (\<lambda>c. \<not> of_model m c) cands)) (mismatch_events m cands)"
  by (auto simp: model_digest_filter_def mismatch_events_def of_model_def [abs_def] Let_def does_return
      split: list.split intro!: told_seq [OF told_tell does_return])

definition fence_events :: "fenced_segment \<Rightarrow> internal_payload list" where
  "fence_events seg =
     (case fs_canary seg of
        CanaryCollision pid \<Rightarrow> [FenceEv (CanaryCollisionEvent (fs_source_kind seg) (fs_nonce seg) pid)]
      | CanaryClean \<Rightarrow> []) @
     [FenceEv (FenceApplied (fs_source_kind seg) (fs_nonce seg) (fs_truncated seg) (int (fs_original_byte_length seg)))]"

lemma fence_act_told:
  assumes "fence_pure (rt_scan rt) p nonce fsk_rag_retrieved = Ok seg"
  shows "told rt io (fence_act rt io nonce p) seg (fence_events seg)"
proof -
  have "told rt io (case fs_canary seg of
      CanaryCollision pid \<Rightarrow> tell rt io (FenceEv (CanaryCollisionEvent fsk_rag_retrieved nonce pid))
    | CanaryClean \<Rightarrow> return_act ()) ()
    (case fs_canary seg of
        CanaryCollision pid \<Rightarrow> [FenceEv (CanaryCollisionEvent fsk_rag_retrieved nonce pid)]
      | CanaryClean \<Rightarrow> [])"
    by (cases "fs_canary seg") (simp_all add: does_return told_tell)
  note collision = this
  show ?thesis
    using fence_pure_labels [OF assms]
    by (simp add: fence_act_def assms fence_events_def)
      (rule told_seq [OF collision told_seq [OF told_tell does_return refl]], simp split: canary_result.split)
qed

text \<open>The segments of a list of records, fenced in order under their own nonces.\<close>

fun fenced_records :: "retriever \<Rightarrow> nat \<Rightarrow> scored_example list \<Rightarrow> candidate list \<Rightarrow> bool" where
  "fenced_records rt k [] cs = (cs = [])"
| "fenced_records rt k (x # xs) cs =
     (case cs of
        [] \<Rightarrow> False
      | c # rest \<Rightarrow>
          fence_pure (rt_scan rt) (se_json (sx_record x)) (rt_nonces rt k) fsk_rag_retrieved = Ok (ca_fenced c) \<and>
          scored_of c = x \<and> fenced_records rt (Suc k) xs rest)"

lemma fenced_records_scored: "fenced_records rt k xs cs \<Longrightarrow> map scored_of cs = xs"
proof (induction rt k xs cs rule: fenced_records.induct)
  case (2 rt k x xs cs)
  then show ?case by (cases cs) auto
qed simp

lemma fence_candidates_told:
  "fenced_records rt k xs cs \<Longrightarrow>
     told rt io (fence_candidates rt io k xs) cs (concat (map (fence_events \<circ> ca_fenced) cs))"
proof (induction rt k xs cs rule: fenced_records.induct)
  case (2 rt k x xs cs)
  then obtain c rest where c: "cs = c # rest" and x: "scored_of c = x"
    and f: "fence_pure (rt_scan rt) (se_json (sx_record x)) (rt_nonces rt k) fsk_rag_retrieved = Ok (ca_fenced c)"
    and r: "fenced_records rt (Suc k) xs rest" by (cases cs) auto
  have "\<lparr>ca_fenced = ca_fenced c, ca_record = sx_record x, ca_score = sx_score x\<rparr> = c"
    by (simp flip: x)
  then have "told rt io (return_act (\<lparr>ca_fenced = ca_fenced c, ca_record = sx_record x, ca_score = sx_score x\<rparr> # rest))
      cs []" by (simp add: does_return c)
  note last = this
  show ?case unfolding fence_candidates.simps
    by (rule told_seq [OF fence_act_told [OF f]], rule told_seq [OF "2.IH" [OF c r]], rule last, rule refl)
      (simp add: c)
qed (simp add: does_return)

lemma fenced_records_exist:
  assumes "rt_scan rt = canary_scan" "\<forall>k. ascii_nonce (rt_nonces rt k)"
  shows "list_all (\<lambda>x. list_all scalar (se_json (sx_record x))) xs \<Longrightarrow> \<exists>cs. fenced_records rt k xs cs"
proof (induction xs arbitrary: k)
  case (Cons x xs)
  from Cons obtain rest where r: "fenced_records rt (Suc k) xs rest" by auto
  obtain seg where "fence_pure canary_scan (se_json (sx_record x)) (rt_nonces rt k) fsk_rag_retrieved = Ok seg"
    using fence_total [of "se_json (sx_record x)" "rt_nonces rt k"] Cons.prems assms(2)
    by (auto simp: ascii_nonce_def)
  with r assms(1) show ?case
    by (intro exI [of _ "\<lparr>ca_fenced = seg, ca_record = sx_record x, ca_score = sx_score x\<rparr> # rest"])
      (simp add: scored_of_def)
qed auto

fun selected_events :: "retriever \<Rightarrow> string \<Rightarrow> candidate list \<Rightarrow> internal_payload list" where
  "selected_events rt rid [] = []"
| "selected_events rt rid (c # cs) =
     (if se_id (ca_record c) = rid then [RagEv (RagCandidateSelectedEvent rid (digest_fenced rt (ca_fenced c)))]
      else selected_events rt rid cs)"

lemma emit_selected_told: "told rt io (emit_selected rt io rid cs) () (selected_events rt rid cs)"
  by (induction cs) (simp_all add: does_return told_tell)

definition outcome_events :: "retriever \<Rightarrow> retrieval_outcome \<Rightarrow> candidate list \<Rightarrow> internal_payload list" where
  "outcome_events rt out cs =
     (case out of
        RagHit r _ \<Rightarrow> RagEv (RagHitEvent (se_id r)) # selected_events rt (se_id r) cs
      | RagDegraded r _ \<Rightarrow> RagEv (RagDegradedEvent (se_id r)) # selected_events rt (se_id r) cs
      | RagMiss \<Rightarrow> [RagEv (RagMissEvent rmr_top1_below_floor)])"

lemma emit_outcome_told: "told rt io (emit_outcome_events rt io out cs) () (outcome_events rt out cs)"
  by (cases out)
    (auto simp: emit_outcome_events_def outcome_events_def told_tell intro!: told_seq [OF told_tell emit_selected_told])

lemma miss_told: "told rt io (miss rt io reason) RagMiss [RagEv (RagMissEvent reason)]"
  unfolding miss_def by (rule told_seq [OF told_tell does_return], simp)

definition finish_events :: "retriever \<Rightarrow> candidate list \<Rightarrow> internal_payload list" where
  "finish_events rt cs =
     concat (map (fence_events \<circ> ca_fenced) cs) @ [RagEv (RecordsFencedEvent (int (length cs)))] @
     outcome_events rt (classify (rt_classifier rt) cs) cs"

lemma finish_query_told:
  assumes "fenced_records rt 0 xs cs"
  shows "told rt io (finish_query rt io xs) (classify (rt_classifier rt) cs) (finish_events rt cs)"
  unfolding finish_query_def Let_def
  by (rule told_seq [OF fence_candidates_told [OF assms]
        told_seq [OF told_tell told_seq [OF emit_outcome_told does_return refl] refl]])
    (simp add: finish_events_def)

section \<open>The query\<close>

definition usable :: "retriever \<Rightarrow> scored_example \<Rightarrow> bool" where
  "usable rt c = (chained rt c \<and> (case rt_model_digest rt of None \<Rightarrow> True | Some m \<Rightarrow> of_model m c))"

text \<open>Every event of a query, in order.\<close>

definition query_events :: "retriever \<Rightarrow> scored_example list \<Rightarrow> candidate list \<Rightarrow> internal_payload list" where
  "query_events rt raw cs =
     [RagEv QueryBuiltEvent, RagEv QueryRenderedEvent, RagEv RecordsEmbeddedEvent,
      RagEv (StoreQueriedEvent (int (length raw)))] @
     (if raw = [] then [RagEv (RagMissEvent rmr_empty_store)]
      else let verified = filter (chained rt) raw in
        map (orphan_event rt) (filter (\<lambda>c. \<not> chained rt c) raw) @
        [RagEv (RecordsChainVerifiedEvent (int (length verified)) (int (length raw) - int (length verified)))] @
        (if verified = [] then [RagEv (RagMissEvent rmr_all_candidates_chain_orphan)]
         else case rt_model_digest rt of
           None \<Rightarrow> finish_events rt cs
         | Some m \<Rightarrow>
             mismatch_events m verified @
             (if filter (of_model m) verified = [] then [RagEv (RagMissEvent rmr_all_candidates_model_mismatch)]
              else finish_events rt cs)))"

lemma usable_filter:
  "filter (usable rt) raw =
     (case rt_model_digest rt of None \<Rightarrow> filter (chained rt) raw
      | Some m \<Rightarrow> filter (of_model m) (filter (chained rt) raw))"
  by (cases "rt_model_digest rt") (auto simp: usable_def [abs_def] conj_commute)

lemma retrieve_told:
  assumes "fenced_records rt 0 (filter (usable rt) raw) cs"
  shows "told rt io (retrieve rt io raw) (classify (rt_classifier rt) cs) (query_events rt raw cs)"
proof -
  have none: "classify (rt_classifier rt) cs = RagMiss" if "filter (usable rt) raw = []"
    using assms that by simp
  have core: "told rt io
      (if raw = [] then miss rt io rmr_empty_store
       else andThen (chain_verify rt io raw) (\<lambda>verified.
         andThen (tell rt io (RagEv (RecordsChainVerifiedEvent (int (length verified))
                   (int (length raw) - int (length verified))))) (\<lambda>_.
           if verified = [] then miss rt io rmr_all_candidates_chain_orphan
           else case rt_model_digest rt of
             None \<Rightarrow> finish_query rt io verified
           | Some current \<Rightarrow>
               andThen (model_digest_filter rt io current verified) (\<lambda>(surviving, _).
                 if surviving = [] then miss rt io rmr_all_candidates_model_mismatch
                 else finish_query rt io surviving))))
      (classify (rt_classifier rt) cs) (drop 4 (query_events rt raw cs))"
  proof (cases "raw = []")
    case True
    then show ?thesis using none by (simp add: query_events_def miss_told)
  next
    case False
    let ?v = "filter (chained rt) raw"
    have tail: "told rt io
        (if ?v = [] then miss rt io rmr_all_candidates_chain_orphan
         else case rt_model_digest rt of
             None \<Rightarrow> finish_query rt io ?v
           | Some current \<Rightarrow>
               andThen (model_digest_filter rt io current ?v) (\<lambda>(surviving, _).
                 if surviving = [] then miss rt io rmr_all_candidates_model_mismatch
                 else finish_query rt io surviving))
        (classify (rt_classifier rt) cs)
        (if ?v = [] then [RagEv (RagMissEvent rmr_all_candidates_chain_orphan)]
         else case rt_model_digest rt of
           None \<Rightarrow> finish_events rt cs
         | Some m \<Rightarrow>
             mismatch_events m ?v @
             (if filter (of_model m) ?v = [] then [RagEv (RagMissEvent rmr_all_candidates_model_mismatch)]
              else finish_events rt cs))" (is "told _ _ (if _ then _ else ?q) _ (if _ then _ else ?e)")
    proof (cases "?v = []")
      case True
      then show ?thesis using none by (simp add: usable_filter miss_told split: option.splits)
    next
      case v: False
      show ?thesis
      proof (cases "rt_model_digest rt")
        case None
        then show ?thesis using v assms by (simp add: usable_filter finish_query_told)
      next
        case (Some m)
        have "told rt io (if filter (of_model m) ?v = [] then miss rt io rmr_all_candidates_model_mismatch
              else finish_query rt io (filter (of_model m) ?v)) (classify (rt_classifier rt) cs)
            (if filter (of_model m) ?v = [] then [RagEv (RagMissEvent rmr_all_candidates_model_mismatch)]
              else finish_events rt cs)"
          using none assms Some
          by (cases "filter (of_model m) ?v = []")
            (simp_all add: usable_filter miss_told finish_query_told del: filter_filter)
        note last = this
        have "told rt io
            (andThen (model_digest_filter rt io m ?v) (\<lambda>(surviving, _).
               if surviving = [] then miss rt io rmr_all_candidates_model_mismatch
               else finish_query rt io surviving)) (classify (rt_classifier rt) cs)
            (mismatch_events m ?v @ (if filter (of_model m) ?v = []
               then [RagEv (RagMissEvent rmr_all_candidates_model_mismatch)] else finish_events rt cs))"
          by (rule told_seq [OF model_digest_filter_told], simp only: prod.case, rule last) (rule refl)
        then show ?thesis unfolding Some option.case if_not_P [OF v] .
      qed
    qed
    show ?thesis unfolding if_not_P [OF False]
      by (rule told_seq [OF chain_verify_told], rule told_seq [OF told_tell], rule tail, rule refl)
        (simp add: query_events_def Let_def False)
  qed
  show ?thesis unfolding retrieve_def
    by (rule told_seq [OF told_tell], rule told_seq [OF told_tell], rule told_seq [OF told_tell],
        rule told_seq [OF told_tell], rule core, (rule refl)+) (simp add: query_events_def)
qed

text \<open>C21. A query always answers. Its answer is right for the candidates whose event-chain head the spanning
  log knows and whose embedding model is the current one: the best of them when it reaches a floor, a
  miss when all are below the lower floor. Every one of them was fenced, and the log gained exactly the
  events of the query.\<close>

theorem query_answers:
  assumes "make_band_classifier hf df = Ok (rt_classifier rt)" "rt_scan rt = canary_scan"
    "\<forall>k. ascii_nonce (rt_nonces rt k)" "\<forall>x \<in> set raw. list_all scalar (se_json (sx_record x))"
  shows "\<exists>out cs. fenced_records rt 0 (filter (usable rt) raw) cs
    \<and> told rt io (retrieve rt io raw) out (query_events rt raw cs)
    \<and> band_right (rt_classifier rt) (filter (usable rt) raw) out"
proof -
  have "list_all (\<lambda>x. list_all scalar (se_json (sx_record x))) (filter (usable rt) raw)"
    using assms(4) by (auto simp: list_all_iff)
  then obtain cs where cs: "fenced_records rt 0 (filter (usable rt) raw) cs"
    using fenced_records_exist [OF assms(2,3)] by blast
  have "bc_degraded_floor (rt_classifier rt) \<le> bc_high_floor (rt_classifier rt)"
    using make_band_floors [OF assms(1)] by simp
  from classify_right [OF this, of cs] show ?thesis
    using cs retrieve_told [OF cs, of io] by (auto simp: fenced_records_scored [OF cs])
qed

definition sample_example :: "string \<Rightarrow> string \<Rightarrow> solved_example" where
  "sample_example i h = \<lparr>se_id = i, se_embedding_model = ''m1'', se_event_chain_head = h, se_json = [123, 125]\<rparr>"

definition sample_retriever :: retriever where
  "sample_retriever =
     \<lparr>rt_lib = toy_lib, rt_span = \<lparr>sp_contains = (\<lambda>h. h = ''h1''), sp_head = ''h1''\<rparr>,
      rt_classifier = default_classifier, rt_model_digest = Some ''m1'', rt_scan = canary_scan,
      rt_draws = (\<lambda>i. \<lparr>ed_event_id = ''e'', ed_timestamp = 0, ed_now = int i\<rparr>), rt_nonces = (\<lambda>_. ''0a'')\<rparr>"

theorem query_answers_witness:
  "\<exists>out cs. told sample_retriever memory_ops
      (retrieve sample_retriever memory_ops [\<lparr>sx_record = sample_example ''a'' ''h1'', sx_score = 9 / 10\<rparr>,
         \<lparr>sx_record = sample_example ''b'' ''h2'', sx_score = 1\<rparr>] :: (retrieval_outcome, string list, string list) query_act) out
      (query_events sample_retriever [\<lparr>sx_record = sample_example ''a'' ''h1'', sx_score = 9 / 10\<rparr>,
         \<lparr>sx_record = sample_example ''b'' ''h2'', sx_score = 1\<rparr>] cs)
    \<and> out = RagHit (sample_example ''a'' ''h1'') (9 / 10)"
proof -
  let ?raw = "[\<lparr>sx_record = sample_example ''a'' ''h1'', sx_score = 9 / 10\<rparr>,
         \<lparr>sx_record = sample_example ''b'' ''h2'', sx_score = 1 :: rat\<rparr>]"
  have u: "filter (usable sample_retriever) ?raw = [\<lparr>sx_record = sample_example ''a'' ''h1'', sx_score = 9 / 10\<rparr>]"
    by (simp add: usable_def chained_def verify_record_def of_model_def sample_retriever_def sample_example_def)
  have "make_band_classifier (Some (85 / 100)) (Some (65 / 100)) = Ok (rt_classifier sample_retriever)"
    by (simp add: make_band_classifier_def sample_retriever_def default_classifier_def)
  moreover have "rt_scan sample_retriever = canary_scan" by (simp add: sample_retriever_def)
  moreover have "\<forall>k. ascii_nonce (rt_nonces sample_retriever k)"
    by (simp add: sample_retriever_def ascii_nonce_def)
  moreover have "\<forall>x \<in> set ?raw. list_all scalar (se_json (sx_record x))"
    by (simp add: sample_example_def scalar_def)
  ultimately obtain out cs where t: "told sample_retriever memory_ops (retrieve sample_retriever memory_ops ?raw :: (retrieval_outcome, string list, string list) query_act) out
      (query_events sample_retriever ?raw cs)"
    and b: "band_right (rt_classifier sample_retriever) (filter (usable sample_retriever) ?raw) out"
    by (rule query_answers [where io = memory_ops, THEN exE]) blast
  from b have "out = RagHit (sample_example ''a'' ''h1'') (9 / 10)"
    unfolding u band_right_def
    by (auto simp: sample_retriever_def default_classifier_def best_of_def split: retrieval_outcome.splits)
  with t show ?thesis by blast
qed

end
