(* ===== verification/Py_Text.thy ===== *)
theory Py_Text
  imports Identifiers
begin

text \<open>
  The text operations of Python that the parsers of the repository call: \<open>strip\<close> and its one-sided
  forms, \<open>splitlines\<close>, \<open>split\<close> on white space, case mapping and \<open>int\<close> of a text. A text is a list
  of code points below 256. No definition here models code of the repository.
\<close>

section \<open>Stripping\<close>

definition py_lstrip :: "string \<Rightarrow> string" where "py_lstrip s = dropWhile py_isspace s"
definition py_rstrip :: "string \<Rightarrow> string" where "py_rstrip s = rev (dropWhile py_isspace (rev s))"
definition py_strip :: "string \<Rightarrow> string" where
  "py_strip s = rev (dropWhile py_isspace (rev (dropWhile py_isspace s)))"

text \<open>\<open>s.strip(c)\<close> with one character.\<close>

definition strip_char :: "char \<Rightarrow> string \<Rightarrow> string" where
  "strip_char q s = rev (dropWhile (\<lambda>c. c = q) (rev (dropWhile (\<lambda>c. c = q) s)))"

lemma py_strip_alt: "py_strip s = py_rstrip (py_lstrip s)"
  by (simp add: py_strip_def py_rstrip_def py_lstrip_def)

lemma py_rstrip_prefix: "\<exists>w. s = py_rstrip s @ w \<and> list_all py_isspace w"
proof -
  have "s = rev (dropWhile py_isspace (rev s)) @ rev (takeWhile py_isspace (rev s))"
    by (metis rev_append rev_rev_ident takeWhile_dropWhile_id)
  moreover have "list_all py_isspace (rev (takeWhile py_isspace (rev s)))"
    by (auto simp: list_all_iff dest: set_takeWhileD)
  ultimately show ?thesis unfolding py_rstrip_def by blast
qed

lemma py_rstrip_id: "s = [] \<or> \<not> py_isspace (last s) \<Longrightarrow> py_rstrip s = s"
  by (cases s rule: rev_cases) (simp_all add: py_rstrip_def)
lemma py_lstrip_id: "s = [] \<or> \<not> py_isspace (hd s) \<Longrightarrow> py_lstrip s = s"
  by (cases s) (simp_all add: py_lstrip_def)
lemma py_strip_id: "s = [] \<or> \<not> py_isspace (hd s) \<and> \<not> py_isspace (last s) \<Longrightarrow> py_strip s = s"
  by (auto simp: py_strip_alt py_rstrip_id py_lstrip_id)
lemma strip_char_id: "q \<notin> set s \<Longrightarrow> strip_char q s = s"
proof -
  assume q: "q \<notin> set s"
  have "dropWhile (\<lambda>c. c = q) t = t" if "q \<notin> set t" for t using that by (cases t) auto
  then show ?thesis using q by (simp add: strip_char_def)
qed

section \<open>Lines and words\<close>

text \<open>The line boundaries below 256; a carriage return and a line feed together are one.\<close>

definition line_break :: "char \<Rightarrow> bool" where
  "line_break c = (let n = of_char c :: nat in 10 \<le> n \<and> n \<le> 13 \<or> 28 \<le> n \<and> n \<le> 30 \<or> n = 133)"

fun split_lines :: "string \<Rightarrow> string \<Rightarrow> string list" where
  "split_lines acc [] = (if acc = [] then [] else [rev acc])"
| "split_lines acc [c] = (if line_break c then [rev acc] else [rev (c # acc)])"
| "split_lines acc (c # d # s) =
     (if c = CHR 0x0D \<and> d = CHR 0x0A then rev acc # split_lines [] s
      else if line_break c then rev acc # split_lines [] (d # s)
      else split_lines (c # acc) (d # s))"

definition py_splitlines :: "string \<Rightarrow> string list" where "py_splitlines s = split_lines [] s"

text \<open>A text of lines that hold no boundary, each ended by a line feed, is split into them.\<close>

lemma split_lines_line:
  "list_all (\<lambda>c. \<not> line_break c) l \<Longrightarrow> split_lines acc (l @ CHR 0x0A # s) = (rev acc @ l) # split_lines [] s"
proof (induction l arbitrary: acc)
  case Nil
  then show ?case by (cases s) (simp_all add: line_break_def)
next
  case (Cons c l)
  then have "\<not> line_break c" by simp
  moreover have "c \<noteq> CHR 0x0D" using Cons.prems by (auto simp: line_break_def)
  ultimately show ?case using Cons by (cases l) auto
qed

lemma splitlines_concat:
  "list_all (list_all (\<lambda>c. \<not> line_break c)) ls \<Longrightarrow> py_splitlines (concat (map (\<lambda>l. l @ [CHR 0x0A]) ls)) = ls"
  by (induction ls) (simp_all add: py_splitlines_def split_lines_line)

text \<open>\<open>s.split()\<close>.\<close>

fun split_words :: "string \<Rightarrow> string \<Rightarrow> string list" where
  "split_words acc [] = (if acc = [] then [] else [rev acc])"
| "split_words acc (c # s) =
     (if py_isspace c then (if acc = [] then split_words [] s else rev acc # split_words [] s)
      else split_words (c # acc) s)"

definition py_split_ws :: "string \<Rightarrow> string list" where "py_split_ws s = split_words [] s"

section \<open>Case\<close>

text \<open>\<open>str.upper\<close> and \<open>str.lower\<close> on the ASCII letters.\<close>

definition ascii_upper :: "string \<Rightarrow> string" where
  "ascii_upper = map (\<lambda>c. if lower c then char_of (of_char c - 32 :: nat) else c)"
definition ascii_lower :: "string \<Rightarrow> string" where
  "ascii_lower = map (\<lambda>c. if upper c then char_of (of_char c + 32 :: nat) else c)"

text \<open>\<open>str.upper\<close> on all code points below 256; the two letters whose capital lies above stay, since no text they
  are compared with holds it.\<close>

definition upper_char :: "char \<Rightarrow> string" where
  "upper_char c =
     (let n = of_char c :: nat in
      if n = 223 then ''SS''
      else if 97 \<le> n \<and> n \<le> 122 \<or> 224 \<le> n \<and> n \<le> 254 \<and> n \<noteq> 247 then [char_of (n - 32)]
      else [c])"

definition py_upper :: "string \<Rightarrow> string" where "py_upper s = concat (map upper_char s)"

section \<open>\<open>int\<close> of a text\<close>

text \<open>A sign, digits with single underscores between them, at most 4300 digits; the caller strips.\<close>

fun int_digits :: "int \<Rightarrow> bool \<Rightarrow> string \<Rightarrow> int option" where
  "int_digits acc prev [] = (if prev then Some acc else None)"
| "int_digits acc prev (c # s) =
     (if digit c then int_digits (acc * 10 + (of_char c - 48)) True s
      else if c = CHR ''_'' \<and> prev then int_digits acc False s
      else None)"

definition int_max_str_digits :: nat where "int_max_str_digits = 4300"

definition py_int_text :: "string \<Rightarrow> int option" where
  "py_int_text s =
     (let (neg, body) = (case s of [] \<Rightarrow> (False, []) | c # t \<Rightarrow>
                           if c = CHR ''-'' then (True, t) else if c = CHR ''+'' then (False, t) else (False, s)) in
      if length (filter digit body) > int_max_str_digits then None
      else map_option (\<lambda>n. if neg then - n else n) (int_digits 0 False body))"

definition py_int :: "string \<Rightarrow> int option" where "py_int s = py_int_text (py_strip s)"

section \<open>A unary text of an integer, for examples\<close>

definition signed :: "int \<Rightarrow> string" where
  "signed i = (if i < 0 then CHR ''-'' else CHR ''+'') # replicate (nat \<bar>i\<bar>) (CHR ''x'')"
definition unsigned :: "string \<Rightarrow> int" where
  "unsigned s = (if hd s = CHR ''-'' then - int (length (tl s)) else int (length (tl s)))"

lemma unsigned_signed [simp]: "unsigned (signed i) = i"
  by (simp add: signed_def unsigned_def)

end
