(* ===== verification/Vuln_Index.thy ===== *)
theory Vuln_Index
  imports Py_Text Hashing Json
begin

text \<open>
  The vulnerability index (\<open>vuln_index/models.py\<close>, \<open>index.py\<close>, \<open>ingest.py\<close>): records and their
  validators, the two tables behind SQLite, ingest, the look-ups, the digests and the staleness rule.
  SQLite is modelled by the meaning of the statements the code runs: a table is the list of its rows, the
  unique constraint covers the six range columns, and \<open>db_order\<close> is the order, unspecified by SQL, in
  which a select without \<open>ORDER BY\<close> yields its rows. An aware datetime is its instant in microseconds
  and its offset; \<open>isoformat\<close>, \<open>fromisoformat\<close>, pydantic's dumps and SHA-256 are parameters.
\<close>

section \<open>Records\<close>

record datetime =
  dt_instant :: int
  dt_utcoffset :: "int option"

record affected_range =
  ar_introduced :: string
  ar_fixed :: "string option"
  ar_last_affected :: "string option"

record vuln_record =
  vr_cve_id :: string
  vr_ecosystem :: string
  vr_package :: string
  vr_range :: affected_range
  vr_severity :: string
  vr_published_at :: datetime
  vr_source :: string

text \<open>The field validators of \<open>AffectedRange\<close>, then the closed sets of \<open>VulnerabilityRecord\<close>; an error is
  the message of the first one that fails.\<close>

definition coerce_introduced :: "string \<Rightarrow> string + string" where
  "coerce_introduced v =
     (if v = [] then Err ''AffectedRange.introduced must be a non-empty semver string''
      else case parse_semver v of
        Inl e \<Rightarrow> Err (''AffectedRange.introduced: '' @ pe_message e)
      | Inr w \<Rightarrow> Ok w)"

definition coerce_optional :: "string option \<Rightarrow> string + string option" where
  "coerce_optional v =
     (case v of
        None \<Rightarrow> Ok None
      | Some s \<Rightarrow>
          if s = [] then Err ''AffectedRange version strings must be non-empty semver when present''
          else case parse_semver s of
            Inl e \<Rightarrow> Err (''AffectedRange: '' @ pe_message e)
          | Inr w \<Rightarrow> Ok (Some w))"

definition make_range :: "string \<Rightarrow> string option \<Rightarrow> string option \<Rightarrow> string + affected_range" where
  "make_range introduced fixed last_affected =
     rbind (coerce_introduced introduced) (\<lambda>i.
     rbind (coerce_optional fixed) (\<lambda>f.
     rbind (coerce_optional last_affected) (\<lambda>l.
       Ok \<lparr>ar_introduced = i, ar_fixed = f, ar_last_affected = l\<rparr>)))"

definition severities :: "string list" where
  "severities = [''low'', ''medium'', ''high'', ''critical'']"
definition sources :: "string list" where "sources = [''nvd'', ''ghsa'', ''osv'']"

definition make_record ::
  "string \<Rightarrow> string \<Rightarrow> string \<Rightarrow> affected_range \<Rightarrow> string \<Rightarrow> datetime \<Rightarrow> string \<Rightarrow> string + vuln_record" where
  "make_record cve_id ecosystem package affected severity published_at source =
     (if ecosystem \<notin> set ecosystems then Err ''ecosystem''
      else if severity \<notin> set severities then Err ''severity''
      else if source \<notin> set sources then Err ''source''
      else Ok \<lparr>vr_cve_id = cve_id, vr_ecosystem = ecosystem, vr_package = package, vr_range = affected,
               vr_severity = severity, vr_published_at = published_at, vr_source = source\<rparr>)"

text \<open>What the validators guarantee of a record.\<close>

definition range_ok :: "affected_range \<Rightarrow> bool" where
  "range_ok r \<longleftrightarrow> parse_semver (ar_introduced r) = Ok (ar_introduced r)
     \<and> (\<forall>v \<in> set_option (ar_fixed r). parse_semver v = Ok v)
     \<and> (\<forall>v \<in> set_option (ar_last_affected r). parse_semver v = Ok v)"

definition record_ok :: "vuln_record \<Rightarrow> bool" where
  "record_ok r \<longleftrightarrow> vr_ecosystem r \<in> set ecosystems \<and> vr_severity r \<in> set severities
     \<and> vr_source r \<in> set sources \<and> range_ok (vr_range r)"

section \<open>The tables\<close>

record db_row =
  db_cve_id :: string
  db_ecosystem :: string
  db_package :: string
  db_introduced :: string
  db_fixed :: string
  db_last_affected :: string
  db_severity :: string
  db_published_at :: string
  db_source :: string
  db_raw_payload :: string

record database =
  db_vulnerabilities :: "db_row list"
  db_meta :: "(string, string) dict"

record vuln_index =
  vi_closed :: bool
  vi_conn :: "database option"

record vuln_lib =
  vl_isoformat :: "datetime \<Rightarrow> string"
  vl_fromisoformat :: "string \<Rightarrow> datetime option"
  vl_dump_json :: "vuln_record \<Rightarrow> string"
  vl_dump :: "vuln_record \<Rightarrow> json"
  vl_sha256 :: "string \<Rightarrow> string"
  vl_order :: "db_row list \<Rightarrow> db_row list"

datatype vuln_error =
    Index_closed
  | Cve_not_found string
  | Invalid_max_age string
  | Non_positive_max_age string
  | Raised_value_error string

definition require_open :: "vuln_index \<Rightarrow> vuln_error + database" where
  "require_open idx =
     (if vi_closed idx then Err Index_closed
      else case vi_conn idx of None \<Rightarrow> Err Index_closed | Some conn \<Rightarrow> Ok conn)"

definition index_init :: "database option \<Rightarrow> vuln_index" where
  "index_init file = \<lparr>vi_closed = False, vi_conn = file\<rparr>"

definition index_close :: "vuln_index \<Rightarrow> vuln_index" where
  "index_close idx = (if vi_closed idx then idx else \<lparr>vi_closed = True, vi_conn = None\<rparr>)"

section \<open>Rows\<close>

definition opt_text :: "string option \<Rightarrow> string" where
  "opt_text v = (case v of None \<Rightarrow> [] | Some s \<Rightarrow> s)"
definition text_opt :: "string \<Rightarrow> string option" where
  "text_opt s = (if s = [] then None else Some s)"

definition record_to_row :: "vuln_lib \<Rightarrow> vuln_record \<Rightarrow> db_row" where
  "record_to_row lib r =
     \<lparr>db_cve_id = vr_cve_id r, db_ecosystem = vr_ecosystem r, db_package = vr_package r,
      db_introduced = ar_introduced (vr_range r), db_fixed = opt_text (ar_fixed (vr_range r)),
      db_last_affected = opt_text (ar_last_affected (vr_range r)), db_severity = vr_severity r,
      db_published_at = vl_isoformat lib (vr_published_at r), db_source = vr_source r,
      db_raw_payload = vl_dump_json lib r\<rparr>"

definition narrow :: "string list \<Rightarrow> string \<Rightarrow> string \<Rightarrow> vuln_error + string" where
  "narrow allowed what s =
     (if s \<notin> set allowed then Err (Raised_value_error (''unknown '' @ what @ '' in stored row: '' @ py_repr s)) else Ok s)"

definition lift_value :: "string + 'a \<Rightarrow> vuln_error + 'a" where
  "lift_value r = (case r of Inl m \<Rightarrow> Err (Raised_value_error m) | Inr v \<Rightarrow> Ok v)"

definition row_to_record :: "vuln_lib \<Rightarrow> db_row \<Rightarrow> vuln_error + vuln_record" where
  "row_to_record lib row =
     rbind (narrow ecosystems ''ecosystem'' (db_ecosystem row)) (\<lambda>eco.
     rbind (lift_value (make_range (db_introduced row) (text_opt (db_fixed row)) (text_opt (db_last_affected row)))) (\<lambda>range.
     rbind (narrow severities ''severity'' (db_severity row)) (\<lambda>sev.
     rbind (case vl_fromisoformat lib (db_published_at row) of
              None \<Rightarrow> Err (Raised_value_error ''Invalid isoformat string'') | Some dt \<Rightarrow> Ok dt) (\<lambda>dt.
     rbind (narrow sources ''source'' (db_source row)) (\<lambda>src.
       lift_value (make_record (db_cve_id row) eco (db_package row) range sev dt src))))))"

fun rows_to_records :: "vuln_lib \<Rightarrow> db_row list \<Rightarrow> vuln_error + vuln_record list" where
  "rows_to_records lib [] = Ok []"
| "rows_to_records lib (r # rs) =
     rbind (row_to_record lib r) (\<lambda>x. rbind (rows_to_records lib rs) (\<lambda>xs. Ok (x # xs)))"

text \<open>The unique constraint, and \<open>INSERT OR IGNORE\<close>.\<close>

definition unique_key :: "db_row \<Rightarrow> string list" where
  "unique_key r = [db_cve_id r, db_ecosystem r, db_package r, db_introduced r, db_fixed r, db_last_affected r]"

definition insert_or_ignore :: "db_row \<Rightarrow> db_row list \<Rightarrow> db_row list" where
  "insert_or_ignore row rows = (if unique_key row \<in> set (map unique_key rows) then rows else rows @ [row])"

definition raw_insert :: "vuln_lib \<Rightarrow> vuln_index \<Rightarrow> vuln_record \<Rightarrow> vuln_error + vuln_index" where
  "raw_insert lib idx r =
     rbind (require_open idx) (\<lambda>conn.
       Ok (idx\<lparr>vi_conn := Some (conn\<lparr>db_vulnerabilities :=
         insert_or_ignore (record_to_row lib r) (db_vulnerabilities conn)\<rparr>)\<rparr>))"

definition raw_set_meta :: "vuln_index \<Rightarrow> string \<Rightarrow> string \<Rightarrow> vuln_error + vuln_index" where
  "raw_set_meta idx key v =
     rbind (require_open idx) (\<lambda>conn. Ok (idx\<lparr>vi_conn := Some (conn\<lparr>db_meta := dict_set key v (db_meta conn)\<rparr>)\<rparr>))"

section \<open>Look-ups\<close>

definition severity_order :: "string \<Rightarrow> nat" where
  "severity_order s =
     (if s = ''critical'' then 0 else if s = ''high'' then 1 else if s = ''medium'' then 2 else 3)"

definition vuln_sort_key :: "vuln_record \<Rightarrow> nat \<times> int \<times> string" where
  "vuln_sort_key r = (severity_order (vr_severity r), - dt_instant (vr_published_at r), vr_cve_id r)"

definition lookup :: "vuln_lib \<Rightarrow> vuln_index \<Rightarrow> string \<Rightarrow> string \<Rightarrow> vuln_error + vuln_record list" where
  "lookup lib idx name ecosystem =
     rbind (require_open idx) (\<lambda>conn.
     rbind (rows_to_records lib (vl_order lib
        (filter (\<lambda>r. db_ecosystem r = ecosystem \<and> db_package r = name) (db_vulnerabilities conn)))) (\<lambda>records.
       Ok (sort_key vuln_sort_key records)))"

definition find_by_cve :: "vuln_lib \<Rightarrow> vuln_index \<Rightarrow> string \<Rightarrow> vuln_error + vuln_record list" where
  "find_by_cve lib idx cve =
     rbind (require_open idx) (\<lambda>conn.
     rbind (rows_to_records lib (vl_order lib
        (filter (\<lambda>r. db_cve_id r = cve) (db_vulnerabilities conn)))) (\<lambda>records.
       Ok (sort_key vuln_sort_key records)))"

text \<open>\<open>ORDER BY package, ecosystem, introduced LIMIT 1\<close>: rows equal in the three are in any order.\<close>

definition affecting_range :: "vuln_lib \<Rightarrow> vuln_index \<Rightarrow> string \<Rightarrow> vuln_error + affected_range" where
  "affecting_range lib idx cve =
     rbind (require_open idx) (\<lambda>conn.
       case sort_key (\<lambda>r. (db_package r, db_ecosystem r, db_introduced r))
              (vl_order lib (filter (\<lambda>r. db_cve_id r = cve) (db_vulnerabilities conn))) of
         [] \<Rightarrow> Err (Cve_not_found cve)
       | row # _ \<Rightarrow>
           lift_value (make_range (db_introduced row) (text_opt (db_fixed row)) (text_opt (db_last_affected row))))"

section \<open>Digests\<close>

definition schema_version :: string where "schema_version = ''1''"

definition meta_or :: "string \<Rightarrow> database \<Rightarrow> string \<Rightarrow> string" where
  "meta_or d conn k = (case dict_get (db_meta conn) k of Some v \<Rightarrow> v | None \<Rightarrow> d)"

definition after_colon :: "string \<Rightarrow> string" where "after_colon s = snd (py_partition (CHR '':'') s)"

definition index_digest :: "vuln_lib \<Rightarrow> vuln_index \<Rightarrow> vuln_error + string" where
  "index_digest lib idx =
     rbind (require_open idx) (\<lambda>conn.
       Ok (after_colon (identity_hash (vl_sha256 lib)
         [meta_or schema_version conn ''schema_version'', meta_or [] conn ''feed_digest_nvd'',
          meta_or [] conn ''feed_digest_ghsa'', meta_or [] conn ''feed_digest_osv''])))"

definition canonical_raw_payload :: "json \<Rightarrow> string" where
  "canonical_raw_payload j = json_dumps j"

definition feed_part :: "vuln_lib \<Rightarrow> vuln_record \<Rightarrow> string" where
  "feed_part lib r = vr_cve_id r @ [CHR 0x1F] @ canonical_raw_payload (vl_dump lib r) @ [CHR 0x1E]"

definition update_feed_digest :: "vuln_lib \<Rightarrow> vuln_index \<Rightarrow> string \<Rightarrow> vuln_record list \<Rightarrow> vuln_error + vuln_index" where
  "update_feed_digest lib idx source records =
     (if records = [] then raw_set_meta idx (''feed_digest_'' @ source) []
      else raw_set_meta idx (''feed_digest_'' @ source)
        (after_colon (identity_hash (vl_sha256 lib) (map (feed_part lib) (sort_key vr_cve_id records)))))"

section \<open>Ingest\<close>

definition max_error_report :: nat where "max_error_report = 100"

record 'e ingest_stats =
  is_inserted :: int
  is_skipped :: int
  is_errors :: "'e list"
  is_errors_truncated :: nat

text \<open>The loop that separates records from errors.\<close>

fun partition_items ::
  "('e + vuln_record) list \<Rightarrow> vuln_record list \<times> 'e list \<times> nat \<Rightarrow> vuln_record list \<times> 'e list \<times> nat" where
  "partition_items [] acc = acc"
| "partition_items (item # items) (successes, errors, truncated) =
     (case item of
        Inl e \<Rightarrow>
          if length errors < max_error_report then partition_items items (successes, errors @ [e], truncated)
          else partition_items items (successes, errors, truncated + 1)
      | Inr r \<Rightarrow> partition_items items (successes @ [r], errors, truncated))"

text \<open>One transaction; \<open>total_changes\<close> counts the rows that were inserted.\<close>

definition persist :: "db_row list \<Rightarrow> nat \<Rightarrow> database \<Rightarrow> database \<times> int \<times> int" where
  "persist rows attempted conn =
     (let after = fold insert_or_ignore rows (db_vulnerabilities conn);
          inserted = int (length after) - int (length (db_vulnerabilities conn))
      in (conn\<lparr>db_vulnerabilities := after\<rparr>, inserted, int attempted - inserted))"

definition ingest_records ::
  "vuln_lib \<Rightarrow> vuln_index \<Rightarrow> ('e + vuln_record) list \<Rightarrow> vuln_error + (vuln_index \<times> 'e ingest_stats)" where
  "ingest_records lib idx items =
     (let (successes, errors, truncated) = partition_items items ([], [], 0) in
      rbind (require_open idx) (\<lambda>conn.
        let (conn', inserted, skipped) = persist (map (record_to_row lib) successes) (length successes) conn
        in Ok (idx\<lparr>vi_conn := Some conn'\<rparr>,
               \<lparr>is_inserted = inserted, is_skipped = skipped, is_errors = errors,
                is_errors_truncated = truncated\<rparr>)))"

section \<open>Staleness\<close>

definition default_max_age_days :: int where "default_max_age_days = 7"

definition parse_max_age_seconds :: "string option \<Rightarrow> vuln_error + int" where
  "parse_max_age_seconds raw_opt =
     (case raw_opt of
        None \<Rightarrow> Ok (default_max_age_days * 86400)
      | Some raw \<Rightarrow>
          let stripped = py_strip raw in
          if \<not> py_isdigit stripped then
            (case py_int_text stripped of
               None \<Rightarrow> Err (Invalid_max_age raw)
             | Some n \<Rightarrow> if n \<le> 0 then Err (Non_positive_max_age raw) else Err (Invalid_max_age raw))
          else
            (case py_int_text stripped of
               None \<Rightarrow> Err (Raised_value_error ''invalid literal for int() with base 10'')
             | Some n \<Rightarrow> if n \<le> 0 then Err (Non_positive_max_age raw) else Ok (n * 86400)))"

definition is_stale_pure :: "rat \<Rightarrow> rat \<Rightarrow> int \<Rightarrow> bool" where
  "is_stale_pure now mtime max_age_seconds =
     (let age = now - mtime in if age \<le> 0 then False else age > of_int max_age_seconds)"

text \<open>\<open>stat\<close> is the modification time, absent when the file is not there (also when it went away after the
  test of its existence).\<close>

definition is_stale :: "string option \<Rightarrow> rat option \<Rightarrow> rat \<Rightarrow> vuln_error + bool" where
  "is_stale env stat now =
     rbind (parse_max_age_seconds env) (\<lambda>max_age.
       Ok (case stat of None \<Rightarrow> False | Some mtime \<Rightarrow> is_stale_pure now mtime max_age))"

section \<open>Records survive the table\<close>

lemma semver_nonempty: "parse_semver v = Ok w \<Longrightarrow> v \<noteq> []"
proof
  assume p: "parse_semver v = Ok w" "v = []"
  have "isl (parse_semver [])" by code_simp
  with p show False by simp
qed

lemma coerce_optional_ok: "\<forall>v \<in> set_option f. parse_semver v = Ok v \<Longrightarrow> coerce_optional f = Ok f"
  by (cases f) (auto simp: coerce_optional_def dest: semver_nonempty)

lemma make_range_ok: "range_ok r \<Longrightarrow> make_range (ar_introduced r) (ar_fixed r) (ar_last_affected r) = Ok r"
  by (auto simp: make_range_def range_ok_def coerce_introduced_def coerce_optional_ok dest: semver_nonempty)

lemma text_opt_text: "\<forall>v \<in> set_option f. parse_semver v = Ok v \<Longrightarrow> text_opt (opt_text f) = f"
  by (cases f) (auto simp: opt_text_def text_opt_def dest: semver_nonempty)

definition iso_ok :: "vuln_lib \<Rightarrow> bool" where
  "iso_ok lib \<longleftrightarrow> (\<forall>dt. dt_utcoffset dt \<noteq> None \<longrightarrow> vl_fromisoformat lib (vl_isoformat lib dt) = Some dt)"

definition storable :: "vuln_record \<Rightarrow> bool" where
  "storable r \<longleftrightarrow> record_ok r \<and> dt_utcoffset (vr_published_at r) \<noteq> None"

lemma row_roundtrip:
  assumes "iso_ok lib" "storable r"
  shows "row_to_record lib (record_to_row lib r) = Ok r"
  using assms
  by (simp add: row_to_record_def record_to_row_def narrow_def storable_def record_ok_def iso_ok_def range_ok_def
      text_opt_text make_range_ok [unfolded range_ok_def] lift_value_def make_record_def)

definition range_key :: "vuln_record \<Rightarrow> string \<times> string \<times> string \<times> affected_range" where
  "range_key r = (vr_cve_id r, vr_ecosystem r, vr_package r, vr_range r)"

lemma unique_key_row:
  assumes "storable r" "storable s"
  shows "unique_key (record_to_row lib r) = unique_key (record_to_row lib s) \<longleftrightarrow> range_key r = range_key s"
proof -
  have "opt_text (ar_fixed (vr_range r)) = opt_text (ar_fixed (vr_range s)) \<longleftrightarrow> ar_fixed (vr_range r) = ar_fixed (vr_range s)"
    "opt_text (ar_last_affected (vr_range r)) = opt_text (ar_last_affected (vr_range s)) \<longleftrightarrow>
       ar_last_affected (vr_range r) = ar_last_affected (vr_range s)"
    using assms text_opt_text unfolding storable_def record_ok_def range_ok_def by metis+
  then show ?thesis by (auto simp: unique_key_def record_to_row_def range_key_def)
qed

section \<open>The abstract index: the first record of every range\<close>

definition add_record :: "vuln_record \<Rightarrow> vuln_record list \<Rightarrow> vuln_record list" where
  "add_record r rs = (if range_key r \<in> set (map range_key rs) then rs else rs @ [r])"

definition stores :: "vuln_lib \<Rightarrow> vuln_index \<Rightarrow> vuln_record list \<Rightarrow> bool" where
  "stores lib idx rs \<longleftrightarrow> list_all storable rs \<and> distinct (map range_key rs) \<and> \<not> vi_closed idx \<and>
     (\<exists>conn. vi_conn idx = Some conn \<and> db_vulnerabilities conn = map (record_to_row lib) rs)"

lemma fold_insert_rows:
  "list_all storable rs \<Longrightarrow> list_all storable new \<Longrightarrow>
     fold insert_or_ignore (map (record_to_row lib) new) (map (record_to_row lib) rs) =
       map (record_to_row lib) (fold add_record new rs)"
proof (induction new arbitrary: rs)
  case (Cons r new)
  have "unique_key (record_to_row lib r) \<in> set (map unique_key (map (record_to_row lib) rs)) \<longleftrightarrow>
      range_key r \<in> set (map range_key rs)"
    using Cons.prems unique_key_row [of r _ lib] by (auto simp: list_all_iff image_iff)
  then have "insert_or_ignore (record_to_row lib r) (map (record_to_row lib) rs) =
      map (record_to_row lib) (add_record r rs)"
    by (simp add: insert_or_ignore_def add_record_def)
  moreover have "list_all storable (add_record r rs)" using Cons.prems by (simp add: add_record_def)
  ultimately show ?case using Cons by simp
qed simp

lemma fold_add_storable:
  "list_all storable rs \<Longrightarrow> list_all storable new \<Longrightarrow> list_all storable (fold add_record new rs)"
  by (induction new arbitrary: rs) (simp_all add: add_record_def)

lemma fold_add_distinct: "distinct (map range_key rs) \<Longrightarrow> distinct (map range_key (fold add_record new rs))"
  by (induction new arbitrary: rs) (simp_all add: add_record_def)

lemma fold_add_keys:
  "set (map range_key (fold add_record new rs)) = set (map range_key rs) \<union> set (map range_key new)"
  by (induction new arbitrary: rs) (auto simp: add_record_def)

lemma fold_add_known:
  "set (map range_key new) \<subseteq> set (map range_key rs) \<Longrightarrow> fold add_record new rs = rs"
  by (induction new arbitrary: rs) (simp_all add: add_record_def)

definition successes_of :: "('e + vuln_record) list \<Rightarrow> vuln_record list" where
  "successes_of items = map projr (filter (\<lambda>x. \<not> isl x) items)"
definition errors_of_items :: "('e + vuln_record) list \<Rightarrow> 'e list" where
  "errors_of_items items = map projl (filter isl items)"

lemma partition_items_eq:
  "length es \<le> max_error_report \<Longrightarrow> n = 0 \<or> length es = max_error_report \<Longrightarrow>
   partition_items items (ss, es, n) =
     (ss @ successes_of items, take max_error_report (es @ errors_of_items items),
      n + (length es + length (errors_of_items items) - max_error_report))"
proof (induction items arbitrary: ss es n)
  case (Cons item items)
  show ?case
  proof (cases item)
    case (Inl e)
    with Cons show ?thesis
      by (cases "length es < max_error_report") (simp_all add: successes_of_def errors_of_items_def take_Cons')
  next
    case (Inr r)
    with Cons show ?thesis by (simp add: successes_of_def errors_of_items_def)
  qed
qed (auto simp: successes_of_def errors_of_items_def)

lemma ingest_stores:
  assumes "stores lib idx rs" "list_all storable (successes_of items)"
  shows "\<exists>idx'. ingest_records lib idx items = Ok (idx',
      \<lparr>is_inserted = int (length (fold add_record (successes_of items) rs)) - int (length rs),
       is_skipped = int (length (successes_of items)) -
         (int (length (fold add_record (successes_of items) rs)) - int (length rs)),
       is_errors = take 100 (errors_of_items items), is_errors_truncated = length (errors_of_items items) - 100\<rparr>)
    \<and> stores lib idx' (fold add_record (successes_of items) rs)
    \<and> (set (map range_key (successes_of items)) \<subseteq> set (map range_key rs) \<longrightarrow> idx' = idx)"
proof -
  obtain conn where c: "vi_conn idx = Some conn" "db_vulnerabilities conn = map (record_to_row lib) rs"
    and o: "\<not> vi_closed idx" and ok: "list_all storable rs" "distinct (map range_key rs)"
    using assms(1) by (auto simp: stores_def)
  have p: "partition_items items ([], [], 0) = (successes_of items, take 100 (errors_of_items items),
      length (errors_of_items items) - 100)"
    by (simp add: partition_items_eq max_error_report_def)
  have f: "fold insert_or_ignore (map (record_to_row lib) (successes_of items)) (map (record_to_row lib) rs) =
      map (record_to_row lib) (fold add_record (successes_of items) rs)"
    by (rule fold_insert_rows [OF ok(1) assms(2)])
  let ?idx = "idx\<lparr>vi_conn := Some (conn\<lparr>db_vulnerabilities :=
      map (record_to_row lib) (fold add_record (successes_of items) rs)\<rparr>)\<rparr>"
  have "ingest_records lib idx items = Ok (?idx,
      \<lparr>is_inserted = int (length (fold add_record (successes_of items) rs)) - int (length rs),
       is_skipped = int (length (successes_of items)) -
         (int (length (fold add_record (successes_of items) rs)) - int (length rs)),
       is_errors = take 100 (errors_of_items items), is_errors_truncated = length (errors_of_items items) - 100\<rparr>)"
    using c o by (simp add: ingest_records_def p require_open_def persist_def Let_def f)
  moreover have "stores lib ?idx (fold add_record (successes_of items) rs)"
    using o by (simp add: stores_def fold_add_storable [OF ok(1) assms(2)] fold_add_distinct [OF ok(2)])
  moreover have "?idx = idx" if "set (map range_key (successes_of items)) \<subseteq> set (map range_key rs)"
    unfolding fold_add_known [OF that] c(2) [symmetric] using c(1) by simp
  ultimately show ?thesis by blast
qed

lemma rows_to_records_map:
  assumes "iso_ok lib" "list_all storable rs"
  shows "rows_to_records lib (map (record_to_row lib) rs) = Ok rs"
  using assms(2) by (induction rs) (simp_all add: row_roundtrip [OF assms(1)])

lemma permuted_rows: "mset rows = mset (map f xs) \<Longrightarrow> \<exists>ys. rows = map f ys \<and> mset ys = mset xs"
proof (induction rows arbitrary: xs)
  case (Cons r rows)
  then have "r \<in> set (map f xs)" by (metis list.set_intros(1) set_mset_mset)
  then obtain x where x: "x \<in> set xs" "r = f x" by auto
  from x(1) obtain as bs where "xs = as @ x # bs" by (auto dest: split_list)
  then obtain zs where xs: "mset xs = add_mset x (mset zs)" using that [of "as @ bs"] by simp
  then have "mset rows = mset (map f zs)" using Cons.prems x(2) by simp
  from Cons.IH [OF this] obtain ys where "rows = map f ys" "mset ys = mset zs" by blast
  then have "r # rows = map f (x # ys) \<and> mset (x # ys) = mset xs" using x(2) xs by simp
  then show ?case by (rule exI [of _ "x # ys"])
qed simp

lemma select_records:
  assumes "stores lib idx rs" "iso_ok lib" "\<forall>xs. mset (vl_order lib xs) = mset xs"
  shows "\<exists>conn ys. require_open idx = Ok conn \<and>
    vl_order lib (filter P (db_vulnerabilities conn)) = map (record_to_row lib) ys \<and>
    rows_to_records lib (vl_order lib (filter P (db_vulnerabilities conn))) = Ok ys \<and>
    mset ys = mset (filter (\<lambda>r. P (record_to_row lib r)) rs)"
proof -
  obtain conn where c: "require_open idx = Ok conn" "db_vulnerabilities conn = map (record_to_row lib) rs"
    and ok: "list_all storable rs"
    using assms(1) by (auto simp: stores_def require_open_def)
  have "mset (vl_order lib (filter P (db_vulnerabilities conn))) =
      mset (map (record_to_row lib) (filter (\<lambda>r. P (record_to_row lib r)) rs))"
    using assms(3) by (simp add: c(2) filter_map comp_def)
  then obtain ys where y: "vl_order lib (filter P (db_vulnerabilities conn)) = map (record_to_row lib) ys"
    "mset ys = mset (filter (\<lambda>r. P (record_to_row lib r)) rs)" using permuted_rows by blast
  have "set ys \<subseteq> set rs" using arg_cong [OF y(2), of set_mset] by auto
  then have "list_all storable ys" using ok by (auto simp: list_all_iff)
  then show ?thesis using c(1) y rows_to_records_map [OF assms(2)] by auto
qed

section \<open>Properties\<close>

text \<open>C19. Ingesting any mixture of records and errors keeps the first record of every (CVE, ecosystem, package,
  range), counts insertions and repetitions, keeps a hundred errors and counts the rest; afterwards every
  look-up returns exactly the kept records of the package, the most severe first, then the newest, and a
  second ingest of the same items changes nothing.\<close>

theorem ingest_then_lookup:
  assumes "stores lib idx rs" "list_all storable (successes_of items)" "iso_ok lib"
    and "\<forall>xs. mset (vl_order lib xs) = mset xs"
  shows "\<exists>idx' stats kept. ingest_records lib idx items = Ok (idx', stats)
    \<and> kept = fold add_record (successes_of items) rs \<and> stores lib idx' kept
    \<and> is_inserted stats + is_skipped stats = int (length (successes_of items))
    \<and> is_inserted stats = int (length kept) - int (length rs)
    \<and> is_errors stats = take 100 (errors_of_items items)
    \<and> is_errors_truncated stats = length (errors_of_items items) - 100
    \<and> (\<forall>name eco. \<exists>found. lookup lib idx' name eco = Ok found \<and> sorted (map vuln_sort_key found)
        \<and> mset found = mset (filter (\<lambda>r. vr_ecosystem r = eco \<and> vr_package r = name) kept))
    \<and> (\<exists>stats'. ingest_records lib idx' items = Ok (idx', stats') \<and> is_inserted stats' = 0)"
proof -
  let ?k = "fold add_record (successes_of items) rs"
  obtain idx' where i: "ingest_records lib idx items = Ok (idx',
      \<lparr>is_inserted = int (length ?k) - int (length rs),
       is_skipped = int (length (successes_of items)) - (int (length ?k) - int (length rs)),
       is_errors = take 100 (errors_of_items items), is_errors_truncated = length (errors_of_items items) - 100\<rparr>)"
      (is "_ = Ok (_, ?stats)") and st: "stores lib idx' ?k"
    using ingest_stores [OF assms(1,2)] by blast
  have found: "\<exists>found. lookup lib idx' name eco = Ok found \<and> sorted (map vuln_sort_key found)
      \<and> mset found = mset (filter (\<lambda>r. vr_ecosystem r = eco \<and> vr_package r = name) ?k)" for name eco
    using select_records [OF st assms(3,4), of "\<lambda>r. db_ecosystem r = eco \<and> db_package r = name"]
    by (auto simp: lookup_def record_to_row_def)
  have sub: "set (map range_key (successes_of items)) \<subseteq> set (map range_key ?k)" unfolding fold_add_keys by simp
  have again: "\<exists>stats'. ingest_records lib idx' items = Ok (idx', stats') \<and> is_inserted stats' = 0"
    using ingest_stores [OF st assms(2)] sub unfolding fold_add_known [OF sub] by (auto intro!: exI)
  show ?thesis by (rule exI [of _ idx'], rule exI [of _ ?stats], rule exI [of _ ?k])
      (use i st found again in simp)
qed

section \<open>A small library, and what the digest depends on\<close>

definition toy_iso :: "datetime \<Rightarrow> string" where
  "toy_iso dt = signed (dt_instant dt) @ '':'' @ signed (case dt_utcoffset dt of None \<Rightarrow> 0 | Some off \<Rightarrow> off)"
definition toy_from :: "string \<Rightarrow> datetime option" where
  "toy_from s = (let (a, b) = py_partition (CHR '':'') s in
     Some \<lparr>dt_instant = unsigned a, dt_utcoffset = Some (unsigned b)\<rparr>)"

definition toy_vuln_lib :: vuln_lib where
  "toy_vuln_lib = \<lparr>vl_isoformat = toy_iso, vl_fromisoformat = toy_from, vl_dump_json = (\<lambda>_. ''{}''),
     vl_dump = (\<lambda>r. JStr (vr_package r)), vl_sha256 = (\<lambda>s. s), vl_order = rev\<rparr>"

lemma toy_iso_ok: "iso_ok toy_vuln_lib"
proof -
  have c: "takeWhile (\<lambda>d. d \<noteq> CHR '':'') (signed i @ CHR '':'' # t) = signed i"
    "dropWhile (\<lambda>d. d \<noteq> CHR '':'') (signed i @ CHR '':'' # t) = CHR '':'' # t" for i t
    by (auto simp: signed_def takeWhile_append dropWhile_append)
  show ?thesis by (auto simp: iso_ok_def toy_vuln_lib_def toy_from_def toy_iso_def py_partition_def c)
qed

definition toy_vuln :: "string \<Rightarrow> string \<Rightarrow> vuln_record" where
  "toy_vuln cve pkg = \<lparr>vr_cve_id = cve, vr_ecosystem = ''npm'', vr_package = pkg,
     vr_range = \<lparr>ar_introduced = ''0.0.0'', ar_fixed = Some ''1.2.3'', ar_last_affected = None\<rparr>,
     vr_severity = ''high'', vr_published_at = \<lparr>dt_instant = 5, dt_utcoffset = Some 0\<rparr>, vr_source = ''nvd''\<rparr>"

lemma toy_storable: "storable (toy_vuln cve pkg)"
proof -
  have "parse_semver ''0.0.0'' = Ok ''0.0.0''" "parse_semver ''1.2.3'' = Ok ''1.2.3''" by code_simp+
  then show ?thesis
    by (simp add: storable_def record_ok_def range_ok_def toy_vuln_def ecosystems_def severities_def sources_def)
qed

lemma toy_key: "range_key (toy_vuln a p) = range_key (toy_vuln b q) \<longleftrightarrow> a = b \<and> p = q"
  by (auto simp: range_key_def toy_vuln_def)

theorem ingest_then_lookup_witness:
  "\<exists>idx' stats. ingest_records toy_vuln_lib (index_init (Some \<lparr>db_vulnerabilities = [], db_meta = []\<rparr>))
      [Ok (toy_vuln ''CVE-1'' ''a''), Err (0 :: nat), Ok (toy_vuln ''CVE-1'' ''a''), Ok (toy_vuln ''CVE-2'' ''b'')] =
        Ok (idx', stats)
    \<and> is_inserted stats = 2 \<and> is_skipped stats = 1 \<and> is_errors stats = [0]
    \<and> lookup toy_vuln_lib idx' ''a'' ''npm'' = Ok [toy_vuln ''CVE-1'' ''a'']"
proof -
  let ?items = "[Ok (toy_vuln ''CVE-1'' ''a''), Err (0 :: nat), Ok (toy_vuln ''CVE-1'' ''a''), Ok (toy_vuln ''CVE-2'' ''b'')]"
  let ?idx = "index_init (Some \<lparr>db_vulnerabilities = [], db_meta = []\<rparr>)"
  have s: "stores toy_vuln_lib ?idx []" by (simp add: stores_def index_init_def)
  have ss: "successes_of ?items = [toy_vuln ''CVE-1'' ''a'', toy_vuln ''CVE-1'' ''a'', toy_vuln ''CVE-2'' ''b'']"
    by (simp add: successes_of_def)
  then have ok: "list_all storable (successes_of ?items)" by (simp add: toy_storable)
  have o: "\<forall>xs. mset (vl_order toy_vuln_lib xs) = mset xs" by (simp add: toy_vuln_lib_def)
  have kept: "fold add_record (successes_of ?items) [] = [toy_vuln ''CVE-1'' ''a'', toy_vuln ''CVE-2'' ''b'']"
    unfolding ss by (simp add: add_record_def toy_key)
  from ingest_then_lookup [OF s ok toy_iso_ok o] obtain idx' stats k where
    i: "ingest_records toy_vuln_lib ?idx ?items = Ok (idx', stats)"
    and k: "k = fold add_record (successes_of ?items) []"
    and st: "is_inserted stats + is_skipped stats = int (length (successes_of ?items))"
      "is_inserted stats = int (length k) - int (length ([] :: vuln_record list))"
      "is_errors stats = take 100 (errors_of_items ?items)"
    and l: "\<forall>name eco. \<exists>found. lookup toy_vuln_lib idx' name eco = Ok found \<and> sorted (map vuln_sort_key found)
        \<and> mset found = mset (filter (\<lambda>r. vr_ecosystem r = eco \<and> vr_package r = name) k)"
    by blast
  have k2: "k = [toy_vuln ''CVE-1'' ''a'', toy_vuln ''CVE-2'' ''b'']" using k kept by simp
  have "filter (\<lambda>r. vr_ecosystem r = ''npm'' \<and> vr_package r = ''a'') k = [toy_vuln ''CVE-1'' ''a'']"
    by (simp add: k2 toy_vuln_def)
  note f = this
  obtain found where "lookup toy_vuln_lib idx' ''a'' ''npm'' = Ok found"
    "mset found = mset (filter (\<lambda>r. vr_ecosystem r = ''npm'' \<and> vr_package r = ''a'') k)" using l by blast
  then have "lookup toy_vuln_lib idx' ''a'' ''npm'' = Ok [toy_vuln ''CVE-1'' ''a'']" unfolding f by simp
  moreover have "is_inserted stats = 2" "is_skipped stats = 1" "is_errors stats = [0]"
    using st by (simp_all add: ss k2 errors_of_items_def)
  ultimately show ?thesis using i by blast
qed

text \<open>The feed digest sorts by CVE alone, so two records of one CVE are fed in the order of the fetch.\<close>

lemma feed_digest_order_matters:
  "update_feed_digest toy_vuln_lib (index_init (Some \<lparr>db_vulnerabilities = [], db_meta = []\<rparr>)) ''nvd''
       [toy_vuln ''c'' ''a'', toy_vuln ''c'' ''b'']
   \<noteq> update_feed_digest toy_vuln_lib (index_init (Some \<lparr>db_vulnerabilities = [], db_meta = []\<rparr>)) ''nvd''
       [toy_vuln ''c'' ''b'', toy_vuln ''c'' ''a'']"
  by (simp add: update_feed_digest_def raw_set_meta_def require_open_def index_init_def feed_part_def toy_vuln_lib_def
      toy_vuln_def canonical_raw_payload_def json_dumps_def json_str_def json_char_def identity_hash_def
      identity_payload_def after_colon_def py_partition_def)

text \<open>A superscript digit passes \<open>isdigit\<close> and is refused by \<open>int\<close>: the \<open>ValueError\<close> escapes.\<close>

lemma superscript_max_age: "\<exists>m. parse_max_age_seconds (Some [CHR 0xB2]) = Err (Raised_value_error m)"
  by (simp add: parse_max_age_seconds_def py_strip_def py_isspace_def py_isdigit_def py_int_text_def digit_def
      between_def)

end
