(* ===== verification/Vuln_Feeds.thy ===== *)
theory Vuln_Feeds
  imports Vuln_Index
begin

text \<open>
  The three vulnerability feeds (\<open>vuln_index/parsers.py\<close>, \<open>vuln_index/feeds\<close>): the envelope with its size
  and depth caps, the shared field parsers and the record parsers of NVD, GHSA and OSV. \<open>json.loads\<close>,
  \<open>datetime.fromisoformat\<close> and \<open>repr\<close> are parameters. A feed's answer is \<open>Err\<close> where an exception leaves
  \<open>parse_one\<close>, and otherwise the result value it returns.
\<close>

section \<open>Errors and the envelope\<close>

datatype vuln_parse_error =
    Payload_too_large nat nat
  | Json_too_deep nat
  | Bad_json string
  | Missing_required_field string
  | Unsupported_ecosystem string
  | Bad_cve_id string
  | Missing_tz string
  | Bad_semver string string

text \<open>What \<open>json.loads\<close> does with bytes: a value, a \<open>JSONDecodeError\<close>, or another exception, as for bytes
  that are not UTF-8 or for nesting beyond the recursion limit.\<close>

datatype loads_answer = Decoded json | Decode_error string | Loads_raised string

record feed_lib =
  fl_loads :: "string \<Rightarrow> loads_answer"
  fl_repr :: "json \<Rightarrow> string"
  fl_fromisoformat :: "string \<Rightarrow> datetime option"

definition max_payload_bytes :: nat where "max_payload_bytes = 1048576"
definition max_json_depth :: nat where "max_json_depth = 16"
definition max_raw_payload_bytes :: nat where "max_raw_payload_bytes = 262144"

type_synonym 'a answer = "string + (vuln_parse_error + 'a)"

fun is_container :: "json \<Rightarrow> bool" where
  "is_container (JArr _) = True"
| "is_container (JObj _) = True"
| "is_container _ = False"

fun json_children :: "json \<Rightarrow> json list" where
  "json_children (JArr js) = js"
| "json_children (JObj kvs) = map snd kvs"
| "json_children _ = []"

text \<open>The depth at which the walk raises, if it does.\<close>

function too_deep :: "nat \<Rightarrow> nat \<Rightarrow> json \<Rightarrow> nat option" where
  "too_deep max_depth depth node =
     (if depth > max_depth then Some depth
      else (case List.find (\<lambda>c. is_container c \<and> too_deep max_depth (depth + 1) c \<noteq> None) (json_children node) of
              None \<Rightarrow> None | Some c \<Rightarrow> too_deep max_depth (depth + 1) c))"
  by pat_completeness auto
termination
  by (relation "measure (\<lambda>(max_depth, depth, node). Suc max_depth - depth)") auto


declare too_deep.simps [simp del]

definition check_depth :: "json \<Rightarrow> nat option" where
  "check_depth v = (if is_container v then too_deep max_json_depth 1 v else None)"

definition safe_json_load :: "feed_lib \<Rightarrow> string \<Rightarrow> json answer" where
  "safe_json_load lib raw =
     (if length raw > max_payload_bytes then Ok (Err (Payload_too_large (length raw) max_payload_bytes))
      else case fl_loads lib raw of
        Decode_error m \<Rightarrow> Ok (Err (Bad_json m))
      | Loads_raised e \<Rightarrow> Err e
      | Decoded v \<Rightarrow> Ok (Ok v))"

definition parse_record_envelope :: "feed_lib \<Rightarrow> string \<Rightarrow> json answer" where
  "parse_record_envelope lib raw =
     rbind (safe_json_load lib raw) (\<lambda>loaded.
       case loaded of
         Inl e \<Rightarrow> Ok (Err e)
       | Inr v \<Rightarrow> (case check_depth v of Some d \<Rightarrow> Ok (Err (Json_too_deep d)) | None \<Rightarrow> Ok (Ok v)))"

section \<open>The shared field parsers\<close>

definition repr64 :: "feed_lib \<Rightarrow> json \<Rightarrow> string" where "repr64 lib v = take 64 (fl_repr lib v)"

definition smart_construct_cve_id :: "feed_lib \<Rightarrow> json \<Rightarrow> vuln_parse_error + string" where
  "smart_construct_cve_id lib v =
     (case v of
        JStr s \<Rightarrow> (case parse_cve_id s of Inr w \<Rightarrow> Ok w | Inl _ \<Rightarrow> Err (Bad_cve_id s))
      | _ \<Rightarrow> Err (Bad_cve_id (repr64 lib v)))"

definition smart_construct_package_name :: "json \<Rightarrow> vuln_parse_error + string" where
  "smart_construct_package_name v =
     (case v of
        JStr s \<Rightarrow> (case parse_package_name s of Inr w \<Rightarrow> Ok w | Inl _ \<Rightarrow> Err (Missing_required_field ''package''))
      | _ \<Rightarrow> Err (Missing_required_field ''package''))"

definition smart_construct_semver :: "feed_lib \<Rightarrow> json \<Rightarrow> string \<Rightarrow> vuln_parse_error + string" where
  "smart_construct_semver lib v field =
     (case v of
        JStr s \<Rightarrow> (case parse_semver s of Inr w \<Rightarrow> Ok w | Inl _ \<Rightarrow> Err (Bad_semver s field))
      | _ \<Rightarrow> Err (Bad_semver (repr64 lib v) field))"

definition extract_published_at :: "feed_lib \<Rightarrow> json \<Rightarrow> vuln_parse_error + datetime" where
  "extract_published_at lib v =
     (case v of
        JStr s \<Rightarrow>
          (case fl_fromisoformat lib s of
             None \<Rightarrow> Err (Missing_tz s)
           | Some dt \<Rightarrow> if dt_utcoffset dt = None then Err (Missing_tz s) else Ok dt)
      | _ \<Rightarrow> Err (Missing_tz (repr64 lib v)))"

definition assert_ecosystem_registered :: "string \<Rightarrow> vuln_parse_error + string" where
  "assert_ecosystem_registered s = (if s \<notin> set ecosystems then Err (Unsupported_ecosystem s) else Ok s)"

definition require_dict :: "string \<Rightarrow> json \<Rightarrow> vuln_parse_error + (string \<times> json) list" where
  "require_dict field v = (case v of JObj kvs \<Rightarrow> Ok kvs | _ \<Rightarrow> Err (Missing_required_field field))"
definition require_list :: "string \<Rightarrow> json \<Rightarrow> vuln_parse_error + json list" where
  "require_list field v =
     (case v of JArr js \<Rightarrow> if js = [] then Err (Missing_required_field field) else Ok js
      | _ \<Rightarrow> Err (Missing_required_field field))"
definition require_str :: "string \<Rightarrow> json \<Rightarrow> vuln_parse_error + string" where
  "require_str field v = (case v of JStr s \<Rightarrow> Ok s | _ \<Rightarrow> Err (Missing_required_field field))"

text \<open>A version field that may be absent.\<close>

definition opt_semver :: "feed_lib \<Rightarrow> json \<Rightarrow> string \<Rightarrow> vuln_parse_error + string option" where
  "opt_semver lib v field =
     (if v = JNull then Ok None else rbind (smart_construct_semver lib v field) (\<lambda>s. Ok (Some s)))"

text \<open>The common end: the cap on the persisted payload and the construction of the record, whose
  \<open>ValueError\<close> becomes an error value.\<close>

definition build_record ::
  "(string \<times> json) list \<Rightarrow> string \<Rightarrow> string \<Rightarrow> string \<Rightarrow> string \<times> string option \<times> string option \<Rightarrow> string
     \<Rightarrow> datetime \<Rightarrow> string \<Rightarrow> vuln_parse_error + vuln_record" where
  "build_record record cve_id eco pkg = (\<lambda>(introduced, fixed, last_affected) severity published source.
     let raw_blob = canonical_raw_payload (JObj record) in
     if length raw_blob > max_raw_payload_bytes
     then Err (Payload_too_large (length raw_blob) max_raw_payload_bytes)
     else case rbind (make_range introduced fixed last_affected)
                 (\<lambda>range. make_record cve_id eco pkg range severity published source) of
       Inl m \<Rightarrow> Err (Bad_semver m ''affected_range'')
     | Inr r \<Rightarrow> Ok r)"

section \<open>NVD\<close>

definition nvd_severities :: "(string, string) dict" where
  "nvd_severities = [(''LOW'', ''low''), (''MEDIUM'', ''medium''), (''HIGH'', ''high''), (''CRITICAL'', ''critical'')]"

fun nvd_severity_loop :: "(string \<times> json) list \<Rightarrow> string list \<Rightarrow> string option" where
  "nvd_severity_loop metrics [] = None"
| "nvd_severity_loop metrics (key # keys) =
     (case jget key metrics of
        JArr (JObj head # _) \<Rightarrow>
          (case jget ''baseSeverity'' head of
             JStr base \<Rightarrow> map_of nvd_severities (ascii_upper base)
           | _ \<Rightarrow> nvd_severity_loop metrics keys)
      | _ \<Rightarrow> nvd_severity_loop metrics keys)"

definition extract_nvd_severity :: "(string \<times> json) list \<Rightarrow> string option" where
  "extract_nvd_severity cve_obj =
     (case jget ''metrics'' cve_obj of
        JObj metrics \<Rightarrow> nvd_severity_loop metrics [''cvssMetricV31'', ''cvssMetricV30'', ''cvssMetricV2'']
      | _ \<Rightarrow> None)"

definition extract_first_range :: "feed_lib \<Rightarrow> json \<Rightarrow> vuln_parse_error + (string \<times> string option \<times> string option)" where
  "extract_first_range lib ranges =
     rbind (require_list ''affected.ranges'' ranges) (\<lambda>rs.
     rbind (require_dict ''affected.ranges[0]'' (hd rs)) (\<lambda>head.
     rbind (smart_construct_semver lib (case map_of head ''introduced'' of None \<Rightarrow> JStr ''0.0.0'' | Some v \<Rightarrow> v)
              ''introduced'') (\<lambda>intro.
     rbind (opt_semver lib (jget ''fixed'' head) ''fixed'') (\<lambda>fixed.
     rbind (opt_semver lib (jget ''last_affected'' head) ''last_affected'') (\<lambda>lastaff.
       Ok (intro, fixed, lastaff))))))"

definition parse_nvd_record :: "feed_lib \<Rightarrow> (string \<times> json) list \<Rightarrow> vuln_parse_error + vuln_record" where
  "parse_nvd_record lib record =
     rbind (require_dict ''cve'' (jget ''cve'' record)) (\<lambda>cve_obj.
     rbind (smart_construct_cve_id lib (jget ''id'' cve_obj)) (\<lambda>cve_id.
     rbind (extract_published_at lib (jget ''published'' cve_obj)) (\<lambda>published.
     rbind (case extract_nvd_severity cve_obj of
              None \<Rightarrow> Err (Missing_required_field ''metrics.baseSeverity'') | Some s \<Rightarrow> Ok s) (\<lambda>severity.
     rbind (require_dict ''affected'' (jget ''affected'' record)) (\<lambda>affected.
     rbind (require_str ''affected.ecosystem'' (jget ''ecosystem'' affected)) (\<lambda>eco_raw.
     rbind (assert_ecosystem_registered eco_raw) (\<lambda>eco.
     rbind (smart_construct_package_name (jget ''package'' affected)) (\<lambda>pkg.
     rbind (extract_first_range lib (jget ''ranges'' affected)) (\<lambda>range.
       build_record record cve_id eco pkg range severity published ''nvd'')))))))))"

section \<open>GHSA\<close>

definition ghsa_severities :: "(string, string) dict" where
  "ghsa_severities = [(''low'', ''low''), (''medium'', ''medium''), (''moderate'', ''medium''), (''high'', ''high''),
     (''critical'', ''critical'')]"

definition ghsa_id :: "feed_lib \<Rightarrow> (string \<times> json) list \<Rightarrow> vuln_parse_error + string" where
  "ghsa_id lib record =
     (let v = jget ''cve_id'' record; cve_value = (if truthy v then v else jget ''ghsa_id'' record) in
      case cve_value of
        JStr s \<Rightarrow>
          if s = [] then Err (Missing_required_field ''cve_id'')
          else if prefix ''CVE-'' s then smart_construct_cve_id lib cve_value
          else if prefix ''GHSA-'' s then Ok s
          else Err (Bad_cve_id s)
      | _ \<Rightarrow> Err (Missing_required_field ''cve_id''))"

definition parse_ghsa_record :: "feed_lib \<Rightarrow> (string \<times> json) list \<Rightarrow> vuln_parse_error + vuln_record" where
  "parse_ghsa_record lib record =
     rbind (ghsa_id lib record) (\<lambda>cve_id.
     rbind (extract_published_at lib (jget ''published_at'' record)) (\<lambda>published.
     rbind (case jget ''severity'' record of
              JStr s \<Rightarrow> (case map_of ghsa_severities (ascii_lower s) of
                            None \<Rightarrow> Err (Missing_required_field ''severity'') | Some v \<Rightarrow> Ok v)
            | _ \<Rightarrow> Err (Missing_required_field ''severity'')) (\<lambda>severity.
     rbind (require_dict ''package'' (jget ''package'' record)) (\<lambda>pkg_obj.
     rbind (require_str ''package.ecosystem'' (jget ''ecosystem'' pkg_obj)) (\<lambda>eco_raw.
     rbind (assert_ecosystem_registered eco_raw) (\<lambda>eco.
     rbind (smart_construct_package_name (jget ''name'' pkg_obj)) (\<lambda>pkg.
     rbind (smart_construct_semver lib (case map_of record ''introduced'' of None \<Rightarrow> JStr ''0.0.0'' | Some v \<Rightarrow> v)
              ''introduced'') (\<lambda>intro.
     rbind (opt_semver lib (jget ''fixed_version'' record) ''fixed'') (\<lambda>fixed.
     rbind (opt_semver lib (jget ''last_affected'' record) ''last_affected'') (\<lambda>lastaff.
       build_record record cve_id eco pkg (intro, fixed, lastaff) severity published ''ghsa''))))))))))"

section \<open>OSV\<close>

definition osv_severities :: "(string, string) dict" where
  "osv_severities = [(''LOW'', ''low''), (''MEDIUM'', ''medium''), (''MODERATE'', ''medium''), (''HIGH'', ''high''),
     (''CRITICAL'', ''critical'')]"

text \<open>The first alias that starts as a CVE id.\<close>

fun first_cve_alias :: "json list \<Rightarrow> string option" where
  "first_cve_alias [] = None"
| "first_cve_alias (a # as) =
     (case a of JStr s \<Rightarrow> if prefix ''CVE-'' s then Some s else first_cve_alias as | _ \<Rightarrow> first_cve_alias as)"

definition osv_id :: "feed_lib \<Rightarrow> (string \<times> json) list \<Rightarrow> vuln_parse_error + string" where
  "osv_id lib record =
     (case (case jget ''aliases'' record of JArr aliases \<Rightarrow> first_cve_alias aliases | _ \<Rightarrow> None) of
        Some a \<Rightarrow> smart_construct_cve_id lib (JStr a)
      | None \<Rightarrow>
          (case jget ''id'' record of
             JStr s \<Rightarrow> if s = [] then Err (Missing_required_field ''id'') else Ok s
           | _ \<Rightarrow> Err (Missing_required_field ''id'')))"

text \<open>The loop over the events: the first of each kind is taken.\<close>

fun collapse_events ::
  "feed_lib \<Rightarrow> json list \<Rightarrow> string option \<Rightarrow> string option \<Rightarrow> string option
     \<Rightarrow> vuln_parse_error + (string option \<times> string option \<times> string option)" where
  "collapse_events lib [] introduced fixed lastaff = Ok (introduced, fixed, lastaff)"
| "collapse_events lib (ev # evs) introduced fixed lastaff =
     (case ev of
        JObj kvs \<Rightarrow>
          if map_of kvs ''introduced'' \<noteq> None \<and> introduced = None
          then rbind (smart_construct_semver lib (jget ''introduced'' kvs) ''introduced'')
                 (\<lambda>v. collapse_events lib evs (Some v) fixed lastaff)
          else if map_of kvs ''fixed'' \<noteq> None \<and> fixed = None
          then rbind (smart_construct_semver lib (jget ''fixed'' kvs) ''fixed'')
                 (\<lambda>v. collapse_events lib evs introduced (Some v) lastaff)
          else if map_of kvs ''last_affected'' \<noteq> None \<and> lastaff = None
          then rbind (smart_construct_semver lib (jget ''last_affected'' kvs) ''last_affected'')
                 (\<lambda>v. collapse_events lib evs introduced fixed (Some v))
          else collapse_events lib evs introduced fixed lastaff
      | _ \<Rightarrow> collapse_events lib evs introduced fixed lastaff)"

definition collapse_osv_events :: "feed_lib \<Rightarrow> json \<Rightarrow> vuln_parse_error + (string \<times> string option \<times> string option)" where
  "collapse_osv_events lib ranges =
     rbind (require_list ''ranges'' ranges) (\<lambda>rs.
     rbind (require_dict ''ranges[0]'' (hd rs)) (\<lambda>head.
     rbind (require_list ''ranges[0].events'' (jget ''events'' head)) (\<lambda>events.
     rbind (collapse_events lib events None None None) (\<lambda>(introduced, fixed, lastaff).
       Ok (case introduced of None \<Rightarrow> ''0.0.0'' | Some v \<Rightarrow> v, fixed, lastaff)))))"

definition parse_osv_record :: "feed_lib \<Rightarrow> (string \<times> json) list \<Rightarrow> vuln_parse_error + vuln_record" where
  "parse_osv_record lib record =
     rbind (osv_id lib record) (\<lambda>cve_id.
     rbind (extract_published_at lib (jget ''published'' record)) (\<lambda>published.
     rbind (case jget ''database_specific'' record of
              JObj db \<Rightarrow>
                (case jget ''severity'' db of
                   JStr s \<Rightarrow> (case map_of osv_severities (ascii_upper s) of
                                None \<Rightarrow> Err (Missing_required_field ''database_specific.severity'') | Some v \<Rightarrow> Ok v)
                 | _ \<Rightarrow> Err (Missing_required_field ''database_specific.severity''))
            | _ \<Rightarrow> Err (Missing_required_field ''database_specific.severity'')) (\<lambda>severity.
     rbind (require_list ''affected'' (jget ''affected'' record)) (\<lambda>affected.
     rbind (require_dict ''affected[0]'' (hd affected)) (\<lambda>head.
     rbind (require_dict ''affected[0].package'' (jget ''package'' head)) (\<lambda>pkg_obj.
     rbind (require_str ''affected[0].package.ecosystem'' (jget ''ecosystem'' pkg_obj)) (\<lambda>eco_raw.
     rbind (assert_ecosystem_registered eco_raw) (\<lambda>eco.
     rbind (smart_construct_package_name (jget ''name'' pkg_obj)) (\<lambda>pkg.
     rbind (collapse_osv_events lib (jget ''ranges'' head)) (\<lambda>range.
       build_record record cve_id eco pkg range severity published ''osv''))))))))))"

section \<open>The feeds\<close>

datatype feed = Nvd_feed | Ghsa_feed | Osv_feed


fun feed_record_parser :: "feed \<Rightarrow> feed_lib \<Rightarrow> (string \<times> json) list \<Rightarrow> vuln_parse_error + vuln_record" where
  "feed_record_parser Nvd_feed = parse_nvd_record"
| "feed_record_parser Ghsa_feed = parse_ghsa_record"
| "feed_record_parser Osv_feed = parse_osv_record"

fun feed_record_field :: "feed \<Rightarrow> string" where
  "feed_record_field Nvd_feed = ''cve''"
| "feed_record_field Ghsa_feed = ''advisory''"
| "feed_record_field Osv_feed = ''record''"

definition parse_one :: "feed \<Rightarrow> feed_lib \<Rightarrow> string \<Rightarrow> vuln_record answer" where
  "parse_one f lib raw =
     rbind (parse_record_envelope lib raw) (\<lambda>env.
       case env of
         Inl e \<Rightarrow> Ok (Err e)
       | Inr (JObj record) \<Rightarrow> Ok (feed_record_parser f lib record)
       | Inr _ \<Rightarrow> Ok (Err (Missing_required_field (feed_record_field f))))"

section \<open>What a record parser delivers\<close>

text \<open>A parser step delivers values of a kind, and its errors are not the one reserved for a record that
  fails to build.\<close>

definition delivers :: "vuln_parse_error + 'a \<Rightarrow> ('a \<Rightarrow> bool) \<Rightarrow> bool" where
  "delivers x P \<longleftrightarrow> (case x of Inl e \<Rightarrow> \<forall>m. e \<noteq> Bad_semver m ''affected_range'' | Inr v \<Rightarrow> P v)"

named_theorems delivered

lemma delivers_simps [simp]:
  "delivers (Inl e) P \<longleftrightarrow> (\<forall>m. e \<noteq> Bad_semver m ''affected_range'')" "delivers (Inr v) P \<longleftrightarrow> P v"
  by (simp_all add: delivers_def)

lemma delivers_rbind: "delivers x Q \<Longrightarrow> (\<And>v. Q v \<Longrightarrow> delivers (f v) P) \<Longrightarrow> delivers (rbind x f) P"
  by (cases x) simp_all

lemma semver_same: "parse_semver s = Ok w \<Longrightarrow> w = s"
  by (simp add: parse_semver_def semver_match_def regex_parser_def split: if_splits)
lemma package_name_same: "parse_package_name s = Ok w \<Longrightarrow> w = s"
  by (simp add: parse_package_name_def package_name_match_def regex_parser_def split: if_splits)

definition is_semver :: "string \<Rightarrow> bool" where "is_semver v \<longleftrightarrow> parse_semver v = Ok v"
definition is_package :: "string \<Rightarrow> bool" where "is_package v \<longleftrightarrow> parse_package_name v = Ok v"

lemma zero_is_semver: "is_semver ''0.0.0''" unfolding is_semver_def by code_simp

lemma delivers_semver [delivered]:
  "field \<noteq> ''affected_range'' \<Longrightarrow> delivers (smart_construct_semver lib v field) is_semver"
  by (auto simp: smart_construct_semver_def is_semver_def split: json.split sum.split dest: semver_same)

lemma delivers_opt_semver [delivered]:
  "field \<noteq> ''affected_range'' \<Longrightarrow> delivers (opt_semver lib v field) (\<lambda>r. \<forall>w \<in> set_option r. is_semver w)"
  unfolding opt_semver_def by (auto intro: delivers_rbind delivers_semver)

lemma delivers_package [delivered]: "delivers (smart_construct_package_name v) is_package"
  by (auto simp: smart_construct_package_name_def is_package_def split: json.split sum.split dest: package_name_same)

lemma delivers_published [delivered]: "delivers (extract_published_at lib v) (\<lambda>dt. dt_utcoffset dt \<noteq> None)"
  by (simp add: extract_published_at_def split: json.split option.split)

lemma delivers_ecosystem [delivered]: "delivers (assert_ecosystem_registered s) (\<lambda>e. e \<in> set ecosystems)"
  by (simp add: assert_ecosystem_registered_def)

lemma delivers_shapes [delivered]:
  "delivers (require_dict field v) (\<lambda>_. True)" "delivers (require_list field v) (\<lambda>_. True)"
  "delivers (require_str field v) (\<lambda>_. True)" "delivers (smart_construct_cve_id lib v) (\<lambda>_. True)"
  by (simp_all add: require_dict_def require_list_def require_str_def smart_construct_cve_id_def
      split: json.split sum.split)

definition good_range :: "string \<times> string option \<times> string option \<Rightarrow> bool" where
  "good_range = (\<lambda>(i, f, l). is_semver i \<and> (\<forall>w \<in> set_option f. is_semver w) \<and> (\<forall>w \<in> set_option l. is_semver w))"



lemma delivers_first_range [delivered]: "delivers (extract_first_range lib v) good_range"
  unfolding extract_first_range_def
  by (rule delivers_rbind, rule delivered, (simp; fail)?)+ (simp add: good_range_def)


lemma delivers_events:
  "\<forall>w \<in> set_option i. is_semver w \<Longrightarrow> \<forall>w \<in> set_option fx. is_semver w \<Longrightarrow> \<forall>w \<in> set_option l. is_semver w \<Longrightarrow>
   delivers (collapse_events lib evs i fx l)
     (\<lambda>(i, fx, l). (\<forall>w \<in> set_option i. is_semver w) \<and> (\<forall>w \<in> set_option fx. is_semver w) \<and> (\<forall>w \<in> set_option l. is_semver w))"
proof (induction lib evs i fx l rule: collapse_events.induct)
  case (2 lib ev evs i fx l)
  then show ?case
    by (cases ev) (auto intro!: delivers_rbind [OF delivers_semver])
qed simp

lemma delivers_osv_range [delivered]: "delivers (collapse_osv_events lib v) good_range"
  unfolding collapse_osv_events_def
  by (rule delivers_rbind, rule delivered)+
    (auto simp: good_range_def zero_is_semver intro!: delivers_rbind [OF delivers_events] split: option.split)







lemma delivers_ghsa_id [delivered]: "delivers (ghsa_id lib record) (\<lambda>_. True)"
  by (simp add: ghsa_id_def Let_def delivers_shapes split: json.split)
lemma delivers_osv_id [delivered]: "delivers (osv_id lib record) (\<lambda>_. True)"
  by (simp add: osv_id_def delivers_shapes split: json.split option.split)



section \<open>Properties\<close>



section \<open>What the feeds refuse\<close>

text \<open>The OSV schema writes \<open>"0"\<close> for a range without a lower bound; the version grammar wants three numbers.\<close>

lemma osv_zero_refused:
  "collapse_osv_events lib (JArr [JObj [(''events'', JArr [JObj [(''introduced'', JStr ''0'')],
     JObj [(''fixed'', JStr ''1.2.3'')]])]]) = Err (Bad_semver ''0'' ''introduced'')"
proof -
  have "isl (parse_semver ''0'')" by code_simp
  then obtain e where "parse_semver ''0'' = Inl e" by (auto simp: isl_def)
  then show ?thesis
    by (simp add: collapse_osv_events_def require_list_def require_dict_def jget_def smart_construct_semver_def)
qed

text \<open>An exception of \<open>json.loads\<close> other than \<open>JSONDecodeError\<close>, as for bytes that are not UTF-8, leaves the
  feed.\<close>

lemma loads_exception_escapes:
  "length raw \<le> max_payload_bytes \<Longrightarrow> fl_loads lib raw = Loads_raised e \<Longrightarrow> parse_one f lib raw = Err e"
  by (simp add: parse_one_def parse_record_envelope_def safe_json_load_def)

end
