(* ===== verification/Bundle_Cache.thy ===== *)
theory Bundle_Cache
  imports Py_Text Hashing
begin

text \<open>
  The bundle cache (\<open>plugins/cache.py\<close>) and its garbage collector (\<open>plugins/cache_gc.py\<close>). The state is
  the directory \<open>bundles\<close>, absent or a dictionary of entries, and the content of \<open>.gc-stamp\<close>. A time is
  an exact rational; a float read from the stamp may also be an infinity or a NaN. BLAKE3, pydantic's
  dump and validation, \<open>float\<close> and \<open>repr\<close> of a float are parameters, as are the order of a directory
  listing and the entries that another process removes under the loop. A replacement is atomic, as the
  code arranges it; file modes and the lock, which serialises the collectors, are not in the state.
\<close>

section \<open>State\<close>

datatype entry_kind = Symlink | Directory | Regular

record cache_entry =
  ce_kind :: entry_kind
  ce_mtime :: rat
  ce_bytes :: string

type_synonym entries = "(string, cache_entry) dict"

record bundle_fs =
  bf_bundles :: "entries option"
  bf_stamp :: "string option"

datatype bundle_cache_error =
    Invalid_ttl_env string
  | Separator_in_input string
  | Invalid_key string
  | Corrupt_gc_stamp string
  | Bundle_os_error string
  | Int_value_error
  | Emitter_raised string

datatype py_float = Fin rat | Pos_inf | Neg_inf | Nan

record 'b bundle_lib =
  bl_blake3 :: "string \<Rightarrow> string"
  bl_dump :: "'b \<Rightarrow> string"
  bl_validate :: "string \<Rightarrow> 'b option"
  bl_float :: "string \<Rightarrow> py_float option"
  bl_repr_float :: "rat \<Rightarrow> string"

section \<open>Keys\<close>

definition composer_input_order :: "string list" where
  "composer_input_order = [''plugin_id'', ''plugin_version'', ''primitive'', ''args_canonical'', ''repo_ctx_digest'',
     ''scip_digest'', ''dep_graph_digest'', ''vuln_index_digest'']"

record bundle_key_inputs =
  bk_plugin_id :: string
  bk_plugin_version :: string
  bk_primitive :: string
  bk_args_canonical :: string
  bk_repo_ctx_digest :: string
  bk_scip_digest :: string
  bk_dep_graph_digest :: string
  bk_vuln_index_digest :: string

definition key_parts :: "bundle_key_inputs \<Rightarrow> string list" where
  "key_parts i = [bk_plugin_id i, bk_plugin_version i, bk_primitive i, bk_args_canonical i, bk_repo_ctx_digest i,
     bk_scip_digest i, bk_dep_graph_digest i, bk_vuln_index_digest i]"

fun check_separators :: "(string \<times> string) list \<Rightarrow> bundle_cache_error + unit" where
  "check_separators [] = Ok ()"
| "check_separators ((name, v) # rest) =
     (if unit_sep \<in> set v then Err (Separator_in_input name) else check_separators rest)"

definition compose_bundle_cache_key :: "'b bundle_lib \<Rightarrow> bundle_key_inputs \<Rightarrow> bundle_cache_error + string" where
  "compose_bundle_cache_key lib i =
     rbind (check_separators (zip composer_input_order (key_parts i))) (\<lambda>_.
       Ok (''blake3:'' @ bl_blake3 lib (py_join [unit_sep] (key_parts i))))"

definition hex_name :: "string \<Rightarrow> bool" where
  "hex_name h \<longleftrightarrow> length h = 64 \<and> list_all (\<lambda>c. c \<in> set ''0123456789abcdef'') h"

definition validate_key :: "string \<Rightarrow> bundle_cache_error + unit" where
  "validate_key key =
     (if \<not> (prefix ''blake3:'' key \<and> hex_name (drop 7 key)) then Err (Invalid_key (take 16 key)) else Ok ())"

definition key_to_filename :: "string \<Rightarrow> string" where "key_to_filename key = drop 7 key @ ''.json''"

section \<open>Put and get\<close>

definition entries_of :: "bundle_fs \<Rightarrow> entries" where
  "entries_of fs = (case bf_bundles fs of None \<Rightarrow> [] | Some es \<Rightarrow> es)"

text \<open>\<open>now\<close> becomes the modification time. The replacement of a directory is refused by the system.\<close>

definition bundle_put :: "'b bundle_lib \<Rightarrow> rat \<Rightarrow> string \<Rightarrow> 'b \<Rightarrow> bundle_fs \<Rightarrow> bundle_fs \<times> (bundle_cache_error + unit)" where
  "bundle_put lib now key bundle fs =
     (case validate_key key of
        Inl e \<Rightarrow> (fs, Err e)
      | Inr _ \<Rightarrow>
          let es = entries_of fs; target = key_to_filename key in
          if (\<exists>e \<in> set_option (dict_get es target). ce_kind e = Directory)
          then (fs\<lparr>bf_bundles := Some es\<rparr>, Err (Bundle_os_error target))
          else (fs\<lparr>bf_bundles := Some (dict_set target
                  \<lparr>ce_kind = Regular, ce_mtime = now, ce_bytes = bl_dump lib bundle\<rparr> es)\<rparr>, Ok ()))"

definition bundle_get :: "'b bundle_lib \<Rightarrow> string \<Rightarrow> bundle_fs \<Rightarrow> bundle_cache_error + 'b option" where
  "bundle_get lib key fs =
     rbind (validate_key key) (\<lambda>_.
       case dict_get (entries_of fs) (key_to_filename key) of
         None \<Rightarrow> Ok None
       | Some e \<Rightarrow> if ce_kind e = Directory then Err (Bundle_os_error (key_to_filename key))
                     else Ok (bl_validate lib (ce_bytes e)))"

section \<open>Decisions of the collector\<close>

fun decimal_int :: "string \<Rightarrow> bool" where
  "decimal_int [] = False"
| "decimal_int (c # s) = (digit c \<and> c \<noteq> CHR ''0'' \<and> list_all digit s)"

definition bundle_parse_ttl_seconds :: "string option \<Rightarrow> bundle_cache_error + int" where
  "bundle_parse_ttl_seconds env =
     (let raw = (case env of None \<Rightarrow> ''7'' | Some v \<Rightarrow> v); stripped = py_strip raw in
      if \<not> decimal_int stripped then Err (Invalid_ttl_env raw)
      else case py_int_text stripped of None \<Rightarrow> Err Int_value_error | Some n \<Rightarrow> Ok (n * 86400))"

definition is_evictable :: "rat \<Rightarrow> rat \<Rightarrow> int \<Rightarrow> bool" where
  "is_evictable now mtime ttl_seconds \<longleftrightarrow> now - mtime > of_int ttl_seconds"

definition should_run_amortized :: "rat \<Rightarrow> py_float \<Rightarrow> int \<Rightarrow> bool" where
  "should_run_amortized now last_stamp interval_seconds =
     (case last_stamp of
        Fin r \<Rightarrow> if r > now then True else now - r \<ge> of_int interval_seconds
      | Pos_inf \<Rightarrow> True
      | Neg_inf \<Rightarrow> True
      | Nan \<Rightarrow> False)"

definition amortization_seconds :: int where "amortization_seconds = 86400"

section \<open>The collector\<close>

record cache_gc_result =
  gr_entries_evicted :: nat
  gr_bytes_reclaimed :: nat
  gr_ttl_days :: int
  gr_duration_ms :: int
  gr_wall_clock_iso :: string

datatype gc_trigger = Amortized | Operator_cli

record cache_gc_event =
  ge_result :: cache_gc_result
  ge_trigger :: gc_trigger

definition event_from_result :: "cache_gc_result \<Rightarrow> gc_trigger \<Rightarrow> cache_gc_event" where
  "event_from_result r trigger = \<lparr>ge_result = r, ge_trigger = trigger\<rparr>"

text \<open>What another process does to an entry while the loop is at it.\<close>

datatype race = Quiet | Gone_before_stat | Gone_before_unlink

record bundle_gc =
  bg_ttl_override :: "int option"
  bg_emitter :: "(cache_gc_event \<Rightarrow> string option) option"

record gc_world =
  gw_env :: "string option"
  gw_now :: rat
  gw_stamp_now :: rat
  gw_wall_clock :: string
  gw_duration_ms :: int
  gw_listing :: "entries \<Rightarrow> string list"
  gw_race :: "string \<Rightarrow> race"

definition resolved_ttl_seconds :: "bundle_gc \<Rightarrow> gc_world \<Rightarrow> bundle_cache_error + int" where
  "resolved_ttl_seconds gc w =
     (case bg_ttl_override gc of Some t \<Rightarrow> Ok t | None \<Rightarrow> bundle_parse_ttl_seconds (gw_env w))"

definition blob_name :: "string \<Rightarrow> bool" where
  "blob_name n \<longleftrightarrow> n = take 64 n @ ''.json'' \<and> hex_name (take 64 n)"

text \<open>One turn of the loop; \<open>continue\<close> leaves the state as it is, but for an entry that went away.\<close>

definition gc_entry :: "gc_world \<Rightarrow> int \<Rightarrow> string \<Rightarrow> entries \<times> nat \<times> nat \<Rightarrow> entries \<times> nat \<times> nat" where
  "gc_entry w ttl_seconds name = (\<lambda>(es, evicted, reclaimed).
     case dict_get es name of
       None \<Rightarrow> (es, evicted, reclaimed)
     | Some e \<Rightarrow>
         if ce_kind e = Symlink then (es, evicted, reclaimed)
         else if ce_kind e \<noteq> Regular then (es, evicted, reclaimed)
         else if \<not> blob_name name then (es, evicted, reclaimed)
         else if gw_race w name = Gone_before_stat then (AList.delete name es, evicted, reclaimed)
         else if \<not> is_evictable (gw_now w) (ce_mtime e) ttl_seconds then (es, evicted, reclaimed)
         else if gw_race w name = Gone_before_unlink then (AList.delete name es, evicted, reclaimed)
         else (AList.delete name es, evicted + 1, reclaimed + length (ce_bytes e)))"

definition gc_run ::
  "bundle_gc \<Rightarrow> gc_world \<Rightarrow> bundle_fs \<Rightarrow> bundle_fs \<times> cache_gc_event list \<times> (bundle_cache_error + cache_gc_result)" where
  "gc_run gc w fs =
     (case resolved_ttl_seconds gc w of
        Inl e \<Rightarrow> (fs, [], Err e)
      | Inr ttl_seconds \<Rightarrow>
          let (fs', evicted, reclaimed) =
                (case bf_bundles fs of
                   None \<Rightarrow> (fs, 0, 0)
                 | Some es \<Rightarrow> let (es', n, b) = fold (gc_entry w ttl_seconds) (gw_listing w es) (es, 0, 0)
                              in (fs\<lparr>bf_bundles := Some es'\<rparr>, n, b));
              result = \<lparr>gr_entries_evicted = evicted, gr_bytes_reclaimed = reclaimed, gr_ttl_days = ttl_seconds div 86400,
                        gr_duration_ms = gw_duration_ms w, gr_wall_clock_iso = gw_wall_clock w\<rparr>
          in case bg_emitter gc of
               None \<Rightarrow> (fs', [], Ok result)
             | Some emit \<Rightarrow>
                 let event = event_from_result result Amortized in
                 (case emit event of
                    None \<Rightarrow> (fs', [event], Ok result)
                  | Some exc \<Rightarrow> (fs', [event], Err (Emitter_raised exc))))"

definition read_stamp :: "'b bundle_lib \<Rightarrow> bundle_fs \<Rightarrow> bundle_cache_error + py_float" where
  "read_stamp lib fs =
     (case bf_stamp fs of
        None \<Rightarrow> Ok (Fin 0)
      | Some raw \<Rightarrow>
          let content = py_strip raw in
          (case bl_float lib content of None \<Rightarrow> Err (Corrupt_gc_stamp (take 32 content)) | Some x \<Rightarrow> Ok x))"

definition run_amortized ::
  "'b bundle_lib \<Rightarrow> bundle_gc \<Rightarrow> gc_world \<Rightarrow> bundle_fs
     \<Rightarrow> bundle_fs \<times> cache_gc_event list \<times> (bundle_cache_error + cache_gc_result option)" where
  "run_amortized lib gc w fs =
     (case read_stamp lib fs of
        Inl e \<Rightarrow> (fs, [], Err e)
      | Inr last_stamp \<Rightarrow>
          if \<not> should_run_amortized (gw_now w) last_stamp amortization_seconds then (fs, [], Ok None)
          else (case gc_run gc w fs of
                  (fs', events, Inl e) \<Rightarrow> (fs', events, Err e)
                | (fs', events, Inr result) \<Rightarrow>
                    (fs'\<lparr>bf_stamp := Some (bl_repr_float lib (gw_stamp_now w))\<rparr>, events, Ok (Some result))))"

section \<open>What one run removes\<close>

definition victim :: "gc_world \<Rightarrow> int \<Rightarrow> string \<Rightarrow> cache_entry \<Rightarrow> bool" where
  "victim w ttl_seconds name e \<longleftrightarrow>
     ce_kind e = Regular \<and> blob_name name \<and> is_evictable (gw_now w) (ce_mtime e) ttl_seconds"

definition victims :: "gc_world \<Rightarrow> int \<Rightarrow> entries \<Rightarrow> string set" where
  "victims w ttl_seconds es = {n. \<exists>e. dict_get es n = Some e \<and> victim w ttl_seconds n e}"

definition survivors :: "gc_world \<Rightarrow> int \<Rightarrow> entries \<Rightarrow> entries" where
  "survivors w ttl_seconds es = filter (\<lambda>(n, e). \<not> victim w ttl_seconds n e) es"

lemma gc_entry_quiet:
  assumes "gw_race w name = Quiet"
  shows "gc_entry w t name (es, n, b) =
     (if name \<in> victims w t es then (AList.delete name es, n + 1, b + length (ce_bytes (the (dict_get es name))))
      else (es, n, b))"
  using assms by (auto simp: gc_entry_def victims_def victim_def split: option.split)

lemma victims_delete: "victims w t (AList.delete m es) = victims w t es - {m}"
  by (auto simp: victims_def delete_conv')

lemma fold_gc_entries:
  assumes "distinct ns" "\<forall>m \<in> set ns. gw_race w m = Quiet"
  shows "fold (gc_entry w t) ns (es, n, b) =
     (filter (\<lambda>(m, e). m \<notin> set ns \<inter> victims w t es) es, n + card (set ns \<inter> victims w t es),
      b + (\<Sum>m \<in> set ns \<inter> victims w t es. length (ce_bytes (the (dict_get es m)))))"
  using assms
proof (induction ns arbitrary: es n b)
  case (Cons m ns)
  show ?case
  proof (cases "m \<in> victims w t es")
    case True
    let ?es = "AList.delete m es"
    have i: "set ns \<inter> victims w t ?es = set ns \<inter> victims w t es" using Cons.prems(1) by (auto simp: victims_delete)
    have f: "filter (\<lambda>(k, e). k \<notin> set ns \<inter> victims w t es) ?es =
        filter (\<lambda>(k, e). k \<notin> insert m (set ns \<inter> victims w t es)) es"
      by (auto simp: AList.delete_eq intro!: filter_cong)
    have s: "(\<Sum>k \<in> set ns \<inter> victims w t es. length (ce_bytes (the (dict_get ?es k)))) =
        (\<Sum>k \<in> set ns \<inter> victims w t es. length (ce_bytes (the (dict_get es k))))"
      using Cons.prems(1) by (intro sum.cong) (auto simp: delete_conv')
    have j: "set (m # ns) \<inter> victims w t es = insert m (set ns \<inter> victims w t es)" using True by auto
    have "m \<notin> set ns \<inter> victims w t es" using Cons.prems(1) by simp
    then show ?thesis
      using Cons.IH [of ?es] Cons.prems
      by (simp add: gc_entry_quiet True i f s j del: insert_iff Int_iff)
  next
    case False
    then have j: "set (m # ns) \<inter> victims w t es = set ns \<inter> victims w t es" by auto
    have "gc_entry w t m (es, n, b) = (es, n, b)" using Cons.prems(2) False by (simp add: gc_entry_quiet)
    then show ?thesis using Cons unfolding j by simp
  qed
qed simp

definition lists_directory :: "gc_world \<Rightarrow> bool" where
  "lists_directory w \<longleftrightarrow> (\<forall>es. distinct (gw_listing w es) \<and> set (gw_listing w es) = set (dict_keys es)) \<and>
     (\<forall>m. gw_race w m = Quiet)"

lemma gc_loop_exact:
  assumes "lists_directory w" "dict_wf es"
  shows "fold (gc_entry w t) (gw_listing w es) (es, 0, 0) =
     (survivors w t es, card (victims w t es), \<Sum>m \<in> victims w t es. length (ce_bytes (the (dict_get es m))))"
proof -
  have sub: "set (gw_listing w es) \<inter> victims w t es = victims w t es"
    using assms(1) by (auto simp: lists_directory_def victims_def intro!: image_eqI [OF _ map_of_SomeD])
  have "(k \<notin> victims w t es) = (\<not> victim w t k e)" if "(k, e) \<in> set es" for k e
  proof -
    have "dict_get es k = Some e" using that assms(2) by (simp add: dict_wf_def)
    then show ?thesis by (simp add: victims_def)
  qed
  then have "filter (\<lambda>(m, e). m \<notin> victims w t es) es = survivors w t es"
    unfolding survivors_def by (intro filter_cong) auto
  then show ?thesis
    using fold_gc_entries [of "gw_listing w es" w t es 0 0] assms(1) by (simp add: sub lists_directory_def)
qed

lemma survivors_get:
  assumes "dict_wf es"
  shows "dict_get (survivors w t es) m =
     (case dict_get es m of None \<Rightarrow> None | Some e \<Rightarrow> if victim w t m e then None else Some e)"
  using assms unfolding survivors_def
  by (induction es) (auto simp: dict_wf_def map_of_eq_None_iff split: option.splits)

lemma survivors_wf: "dict_wf es \<Longrightarrow> dict_wf (survivors w t es)"
  unfolding survivors_def dict_wf_def by (rule distinct_map_filter)

section \<open>The abstract cache\<close>

text \<open>A history of the cache, and its meaning: a map from keys to a bundle and the time it was put.\<close>

datatype 'b bundle_op = Put_op string 'b rat | Collect_op gc_world | Amortized_op gc_world

fun bundle_step :: "'b bundle_lib \<Rightarrow> bundle_gc \<Rightarrow> 'b bundle_op \<Rightarrow> bundle_fs \<Rightarrow> bundle_fs" where
  "bundle_step lib gc (Put_op key b t) fs = fst (bundle_put lib t key b fs)"
| "bundle_step lib gc (Collect_op w) fs = fst (gc_run gc w fs)"
| "bundle_step lib gc (Amortized_op w) fs = fst (run_amortized lib gc w fs)"

type_synonym 'b bundle_spec = "(string \<Rightarrow> ('b \<times> rat) option) \<times> rat option"

definition spec_collect :: "bundle_gc \<Rightarrow> gc_world \<Rightarrow> (string \<Rightarrow> ('b \<times> rat) option) \<Rightarrow> string \<Rightarrow> ('b \<times> rat) option" where
  "spec_collect gc w m key = (case m key of None \<Rightarrow> None | Some (b, t) \<Rightarrow>
     (case resolved_ttl_seconds gc w of Inl _ \<Rightarrow> Some (b, t)
      | Inr ttl_seconds \<Rightarrow> if gw_now w > t + of_int ttl_seconds then None else Some (b, t)))"

definition spec_due :: "gc_world \<Rightarrow> rat option \<Rightarrow> bool" where
  "spec_due w st = (let r = (case st of None \<Rightarrow> 0 | Some r \<Rightarrow> r) in r > gw_now w \<or> gw_now w \<ge> r + 86400)"

fun spec_step :: "bundle_gc \<Rightarrow> 'b bundle_op \<Rightarrow> 'b bundle_spec \<Rightarrow> 'b bundle_spec" where
  "spec_step gc (Put_op key b t) (m, st) = (if validate_key key = Ok () then (m(key \<mapsto> (b, t)), st) else (m, st))"
| "spec_step gc (Collect_op w) (m, st) = (spec_collect gc w m, st)"
| "spec_step gc (Amortized_op w) (m, st) =
     (if spec_due w st \<and> \<not> isl (resolved_ttl_seconds gc w) then (spec_collect gc w m, Some (gw_stamp_now w)) else (m, st))"

fun op_ok :: "'b bundle_op \<Rightarrow> bool" where
  "op_ok (Put_op key b t) = True"
| "op_ok (Collect_op w) = lists_directory w"
| "op_ok (Amortized_op w) = lists_directory w"

definition quiet_emitter :: "bundle_gc \<Rightarrow> bool" where
  "quiet_emitter gc \<longleftrightarrow> (\<forall>emit \<in> set_option (bg_emitter gc). \<forall>ev. emit ev = None)"

definition float_round_trip :: "'b bundle_lib \<Rightarrow> bool" where
  "float_round_trip lib \<longleftrightarrow> (\<forall>r. bl_float lib (py_strip (bl_repr_float lib r)) = Some (Fin r))"

fun represents :: "'b bundle_lib \<Rightarrow> bundle_fs \<Rightarrow> 'b bundle_spec \<Rightarrow> bool" where
  "represents lib fs (m, st) \<longleftrightarrow> dict_wf (entries_of fs) \<and> bf_stamp fs = map_option (bl_repr_float lib) st \<and>
     (\<forall>key. validate_key key = Ok () \<longrightarrow> dict_get (entries_of fs) (key_to_filename key) =
        map_option (\<lambda>(b, t). \<lparr>ce_kind = Regular, ce_mtime = t, ce_bytes = bl_dump lib b\<rparr>) (m key))"

lemma valid_key: "validate_key key = Ok () \<longleftrightarrow> (\<exists>h. key = ''blake3:'' @ h \<and> hex_name h)"
proof -
  have "prefix ''blake3:'' key \<and> hex_name (drop 7 key) \<longleftrightarrow> (\<exists>h. key = ''blake3:'' @ h \<and> hex_name h)"
    by (auto simp: prefix_def)
  then show ?thesis by (simp add: validate_key_def)
qed

lemma filename_inject:
  "validate_key a = Ok () \<Longrightarrow> validate_key b = Ok () \<Longrightarrow> key_to_filename a = key_to_filename b \<longleftrightarrow> a = b"
  by (auto simp: valid_key key_to_filename_def)

lemma filename_blob: "validate_key key = Ok () \<Longrightarrow> blob_name (key_to_filename key)"
  by (auto simp: valid_key key_to_filename_def blob_name_def hex_name_def)

lemma represents_put:
  assumes "represents lib fs (m, st)"
  shows "represents lib (fst (bundle_put lib t key b fs)) (spec_step gc (Put_op key b t) (m, st))"
proof (cases "validate_key key")
  case (Inr u)
  then have v: "validate_key key = Ok ()" by simp
  then have "dict_get (entries_of fs) (key_to_filename key) =
      map_option (\<lambda>(b, t). \<lparr>ce_kind = Regular, ce_mtime = t, ce_bytes = bl_dump lib b\<rparr>) (m key)"
    using assms by simp
  then have "\<not> (\<exists>e \<in> set_option (dict_get (entries_of fs) (key_to_filename key)). ce_kind e = Directory)" by auto
  then show ?thesis
    using assms v by (auto simp: bundle_put_def entries_of_def dict_simps filename_inject Let_def)
qed (use assms in \<open>simp add: bundle_put_def\<close>)

lemma gc_run_quiet:
  assumes "lists_directory w" "quiet_emitter gc" "dict_wf (entries_of fs)" "resolved_ttl_seconds gc w = Ok ttl"
  shows "\<exists>r. gc_run gc w fs =
      (fs\<lparr>bf_bundles := map_option (survivors w ttl) (bf_bundles fs)\<rparr>,
       (if bg_emitter gc = None then [] else [event_from_result r Amortized]), Ok r)
    \<and> gr_entries_evicted r = card (victims w ttl (entries_of fs))
    \<and> gr_bytes_reclaimed r = (\<Sum>m \<in> victims w ttl (entries_of fs). length (ce_bytes (the (dict_get (entries_of fs) m))))"
proof (cases "bf_bundles fs")
  case None
  then have "victims w ttl (entries_of fs) = {}" by (simp add: entries_of_def victims_def)
  then show ?thesis using assms(2,4) None
    by (cases "bg_emitter gc") (auto simp: gc_run_def Let_def quiet_emitter_def)
next
  case (Some es)
  then have "dict_wf es" using assms(3) by (simp add: entries_of_def)
  then show ?thesis using assms(2,4) Some gc_loop_exact [OF assms(1), of es ttl]
    by (cases "bg_emitter gc") (auto simp: gc_run_def Let_def quiet_emitter_def entries_of_def)
qed

lemma gc_run_no_ttl: "resolved_ttl_seconds gc w = Err e \<Longrightarrow> gc_run gc w fs = (fs, [], Err e)"
  by (simp add: gc_run_def)

lemma represents_collect:
  assumes "represents lib fs (m, st)" "lists_directory w" "quiet_emitter gc"
  shows "represents lib (fst (gc_run gc w fs)) (spec_collect gc w m, st)"
proof (cases "resolved_ttl_seconds gc w")
  case (Inl e)
  then have "spec_collect gc w m = m" by (auto simp: spec_collect_def fun_eq_iff split: option.split)
  then show ?thesis using assms(1) Inl by (simp add: gc_run_no_ttl)
next
  case (Inr ttl)
  have wf: "dict_wf (entries_of fs)" using assms(1) by simp
  have e: "entries_of (fst (gc_run gc w fs)) = survivors w ttl (entries_of fs)"
    "bf_stamp (fst (gc_run gc w fs)) = bf_stamp fs"
    using gc_run_quiet [OF assms(2,3) wf Inr] by (auto simp: entries_of_def survivors_def split: option.split)
  show ?thesis
    using assms(1) unfolding represents.simps e
    by (auto simp: survivors_wf survivors_get spec_collect_def Inr victim_def filename_blob is_evictable_def
        algebra_simps split: option.split)
qed

lemma read_stamp_represents:
  assumes "float_round_trip lib" "represents lib fs (m, st)"
  shows "read_stamp lib fs = Ok (Fin (case st of None \<Rightarrow> 0 | Some r \<Rightarrow> r))"
  using assms by (cases st) (auto simp: read_stamp_def float_round_trip_def)

lemma due_spec: "should_run_amortized (gw_now w) (Fin (case st of None \<Rightarrow> 0 | Some r \<Rightarrow> r)) amortization_seconds = spec_due w st"
  by (auto simp: should_run_amortized_def amortization_seconds_def spec_due_def Let_def algebra_simps)

lemma represents_amortized:
  assumes "represents lib fs (m, st)" "lists_directory w" "quiet_emitter gc" "float_round_trip lib"
  shows "represents lib (fst (run_amortized lib gc w fs)) (spec_step gc (Amortized_op w) (m, st))"
proof -
  note read = read_stamp_represents [OF assms(4,1)]
  show ?thesis
  proof (cases "spec_due w st")
    case False
    then show ?thesis using assms(1) by (simp add: run_amortized_def read due_spec)
  next
    case True
    show ?thesis
    proof (cases "resolved_ttl_seconds gc w")
      case (Inl e)
      then show ?thesis using assms(1) True by (simp add: run_amortized_def read due_spec gc_run_no_ttl)
    next
      case (Inr ttl)
      have wf: "dict_wf (entries_of fs)" using assms(1) by simp
      obtain r where r: "gc_run gc w fs = (fs\<lparr>bf_bundles := map_option (survivors w ttl) (bf_bundles fs)\<rparr>,
          (if bg_emitter gc = None then [] else [event_from_result r Amortized]), Ok r)"
        using gc_run_quiet [OF assms(2,3) wf Inr] by blast
      have "fst (run_amortized lib gc w fs) = (fst (gc_run gc w fs))\<lparr>bf_stamp := Some (bl_repr_float lib (gw_stamp_now w))\<rparr>"
        using True by (simp add: run_amortized_def read due_spec r)
      then show ?thesis
        using represents_collect [OF assms(1,2,3)] True Inr by (simp add: entries_of_def)
    qed
  qed
qed

lemma represents_history:
  assumes "float_round_trip lib" "quiet_emitter gc" "list_all op_ok ops" "represents lib fs sp"
  shows "represents lib (fold (bundle_step lib gc) ops fs) (fold (spec_step gc) ops sp)"
  using assms(3,4)
proof (induction ops arbitrary: fs sp)
  case (Cons op ops)
  obtain m st where sp: "sp = (m, st)" by (cases sp)
  have rep: "represents lib fs (m, st)" and ok: "op_ok op" using Cons.prems sp by auto
  have "represents lib (bundle_step lib gc op fs) (spec_step gc op sp)"
  proof (cases op)
    case (Put_op key b t)
    show ?thesis unfolding Put_op sp bundle_step.simps by (rule represents_put [OF rep])
  next
    case (Collect_op w)
    show ?thesis unfolding Collect_op sp bundle_step.simps spec_step.simps
      by (rule represents_collect [OF rep _ assms(2)]) (use ok Collect_op in simp)
  next
    case (Amortized_op w)
    show ?thesis unfolding Amortized_op sp bundle_step.simps
      by (rule represents_amortized [OF rep _ assms(2,1)]) (use ok Amortized_op in simp)
  qed
  then show ?case using Cons by simp
qed simp

section \<open>Properties\<close>


text \<open>C18. After any history of puts, collections and amortised collections, \<open>get\<close> answers what the abstract
  cache holds: the last bundle put under the key, unless a collection ran when it was older than the time
  to live.\<close>

theorem bundle_cache_refines:
  assumes "\<forall>b. bl_validate lib (bl_dump lib b) = Some b" "float_round_trip lib" "quiet_emitter gc"
    and "list_all op_ok ops" "validate_key key = Ok ()"
  shows "bundle_get lib key (fold (bundle_step lib gc) ops \<lparr>bf_bundles = None, bf_stamp = None\<rparr>) =
    Ok (map_option fst (fst (fold (spec_step gc) ops (Map.empty, None)) key))"
proof -
  have "represents lib \<lparr>bf_bundles = None, bf_stamp = None\<rparr> (Map.empty, None)"
    by (simp add: entries_of_def dict_simps)
  from represents_history [OF assms(2-4) this]
  obtain m st where "fold (spec_step gc) ops (Map.empty, None) = (m, st)"
    and "represents lib (fold (bundle_step lib gc) ops \<lparr>bf_bundles = None, bf_stamp = None\<rparr>) (m, st)"
    by (metis surj_pair)
  then show ?thesis
    using assms(1,5) by (cases "m key") (auto simp: bundle_get_def)
qed

section \<open>How often the amortised collector runs\<close>

text \<open>The calls that run to the end, over a sequence of calls whose clock readings do not go back.\<close>

fun amortized_runs :: "'b bundle_lib \<Rightarrow> bundle_gc \<Rightarrow> gc_world list \<Rightarrow> bundle_fs \<Rightarrow> nat" where
  "amortized_runs lib gc [] fs = 0"
| "amortized_runs lib gc (w # ws) fs =
     (let (fs', _, r) = run_amortized lib gc w fs in
      (case r of Inr (Some _) \<Rightarrow> 1 | _ \<Rightarrow> 0) + amortized_runs lib gc ws fs')"

fun clock_ordered :: "gc_world list \<Rightarrow> bool" where
  "clock_ordered [] = True"
| "clock_ordered [w] = (gw_now w \<le> gw_stamp_now w)"
| "clock_ordered (w # v # ws) = (gw_now w \<le> gw_stamp_now w \<and> gw_stamp_now w \<le> gw_now v \<and> clock_ordered (v # ws))"

lemma gc_run_stamp: "bf_stamp (fst (gc_run gc w fs)) = bf_stamp fs"
  by (auto simp: gc_run_def Let_def split: sum.split option.split prod.split)

lemma amortized_step:
  "run_amortized lib gc w fs = (fs', evs, r) \<Longrightarrow>
     (\<exists>res. r = Ok (Some res) \<and> bf_stamp fs' = Some (bl_repr_float lib (gw_stamp_now w))
        \<and> (\<exists>x. read_stamp lib fs = Ok x \<and> should_run_amortized (gw_now w) x amortization_seconds))
     \<or> ((\<forall>res. r \<noteq> Ok (Some res)) \<and> bf_stamp fs' = bf_stamp fs)"
  using gc_run_stamp [of gc w fs]
  by (auto simp: run_amortized_def split: sum.splits if_splits prod.splits)

lemma clock_tail: "clock_ordered (w # ws) \<Longrightarrow> clock_ordered ws"
  by (cases ws) auto
lemma clock_last: "clock_ordered ws \<Longrightarrow> w \<in> set ws \<Longrightarrow> gw_now w \<le> gw_now (last ws)"
proof (induction ws arbitrary: w rule: clock_ordered.induct)
  case (3 w0 v ws)
  have v: "gw_now v \<le> gw_now (last (v # ws))" using 3 by simp
  have "gw_now w0 \<le> gw_now v" using 3(2) by simp
  from this v have "gw_now w0 \<le> gw_now (last (v # ws))" by (rule order.trans)
  with 3 show ?case by (cases "w = w0") auto
qed simp_all

lemma runs_after_stamp:
  assumes "float_round_trip lib"
  shows "clock_ordered ws \<Longrightarrow> ws \<noteq> [] \<Longrightarrow> bf_stamp fs = Some (bl_repr_float lib r) \<Longrightarrow> r \<le> gw_now (hd ws) \<Longrightarrow>
    86400 * rat_of_nat (amortized_runs lib gc ws fs) \<le> gw_now (last ws) - r"
proof (induction ws arbitrary: fs r)
  case (Cons w ws)
  obtain fs' evs res where s: "run_amortized lib gc w fs = (fs', evs, res)" by (cases "run_amortized lib gc w fs")
  have read: "read_stamp lib fs = Ok (Fin r)" using assms Cons.prems(3) by (simp add: read_stamp_def float_round_trip_def)
  have last: "gw_now w \<le> gw_now (last (w # ws))" using clock_last [OF Cons.prems(1)] by simp
  from amortized_step [OF s] show ?case
  proof (elim disjE exE conjE)
    fix y x
    assume y: "res = Ok (Some y)" and st: "bf_stamp fs' = Some (bl_repr_float lib (gw_stamp_now w))"
      and x: "read_stamp lib fs = Ok x" "should_run_amortized (gw_now w) x amortization_seconds"
    have gap: "gw_now w - r \<ge> 86400"
      using x read Cons.prems(4) by (auto simp: should_run_amortized_def amortization_seconds_def split: if_splits)
    show ?thesis
    proof (cases "ws = []")
      case True
      then show ?thesis using gap y s by simp
    next
      case False
      then have "gw_stamp_now w \<le> gw_now (hd ws)" "gw_now w \<le> gw_stamp_now w"
        using Cons.prems(1) by (cases ws; simp)+
      then have "86400 * rat_of_nat (amortized_runs lib gc ws fs') \<le> gw_now (last ws) - gw_stamp_now w"
        using Cons.IH [OF clock_tail [OF Cons.prems(1)] False st] by simp
      then show ?thesis using gap y s False \<open>gw_now w \<le> gw_stamp_now w\<close> by simp
    qed
  next
    assume n: "\<forall>y. res \<noteq> Ok (Some y)" and st: "bf_stamp fs' = bf_stamp fs"
    have e: "amortized_runs lib gc (w # ws) fs = amortized_runs lib gc ws fs'"
      using s n by (auto split: sum.split option.split)
    show ?thesis
    proof (cases "ws = []")
      case True
      then have "amortized_runs lib gc (w # ws) fs = 0" unfolding e by simp
      then show ?thesis using Cons.prems(4) True by (simp only:) simp
    next
      case False
      then have "r \<le> gw_now (hd ws)" using Cons.prems(1,4) by (cases ws) auto
      then show ?thesis using Cons.IH [OF clock_tail [OF Cons.prems(1)] False, of fs' r] e st Cons.prems(3) False by simp
    qed
  qed
qed simp

text \<open>C37. Whatever the stamp holds at first, \<open>k\<close> collections need \<open>k - 1\<close> days.\<close>

theorem amortized_rarely:
  assumes "float_round_trip lib" "clock_ordered ws" "ws \<noteq> []"
  shows "86400 * (rat_of_nat (amortized_runs lib gc ws fs) - 1) \<le> gw_now (last ws) - gw_now (hd ws)"
  using assms(2,3)
proof (induction ws arbitrary: fs)
  case (Cons w ws)
  obtain fs' evs res where s: "run_amortized lib gc w fs = (fs', evs, res)" by (cases "run_amortized lib gc w fs")
  show ?case
  proof (cases "ws = []")
    case True
    then show ?thesis using s by (auto split: sum.split option.split)
  next
    case False
    then have o: "gw_stamp_now w \<le> gw_now (hd ws)" "gw_now w \<le> gw_stamp_now w"
      using Cons.prems(1) by (cases ws; simp)+
    from amortized_step [OF s] show ?thesis
    proof (elim disjE exE conjE)
      fix y
      assume y: "res = Ok (Some y)" and st: "bf_stamp fs' = Some (bl_repr_float lib (gw_stamp_now w))"
      show ?thesis
        using runs_after_stamp [OF assms(1) clock_tail [OF Cons.prems(1)] False st o(1), of gc] y s False o by simp
    next
      assume n: "\<forall>y. res \<noteq> Ok (Some y)"
      have e: "amortized_runs lib gc (w # ws) fs = amortized_runs lib gc ws fs'"
        using s n by (auto split: sum.split option.split)
      show ?thesis unfolding e
        using Cons.IH [OF clock_tail [OF Cons.prems(1)] False, of fs'] o False by simp
    qed
  qed
qed simp

section \<open>Keys do not mix up their inputs\<close>

text \<open>Two bundles share a key only when all eight inputs agree, up to a BLAKE3 collision; the key is one
  the store accepts when the digest is sixty-four hexadecimal digits.\<close>

theorem bundle_keys_separate:
  assumes "compose_bundle_cache_key lib i = Ok k" "compose_bundle_cache_key lib j = Ok k'"
    and "\<forall>s. hex_name (bl_blake3 lib s)"
  shows "validate_key k = Ok () \<and>
    (k = k' \<longrightarrow> i = j \<or> (\<exists>a b. a \<noteq> b \<and> bl_blake3 lib a = bl_blake3 lib b))"
proof -
  have sep: "unit_sep \<notin> set v" if "check_separators kvs = Ok ()" "v \<in> snd ` set kvs" for kvs v
    using that by (induction kvs rule: check_separators.induct) (auto split: if_splits)
  have ok: "check_separators (zip composer_input_order (key_parts x)) = Ok ()"
      "y = ''blake3:'' @ bl_blake3 lib (py_join [unit_sep] (key_parts x))"
    if "compose_bundle_cache_key lib x = Ok y" for x y
    using that by (auto simp: compose_bundle_cache_key_def rbind_Ok_iff)
  have free: "\<forall>p \<in> set (key_parts x). unit_sep \<notin> set p" if "compose_bundle_cache_key lib x = Ok y" for x y
  proof
    fix p assume "p \<in> set (key_parts x)"
    then have "p \<in> snd ` set (zip composer_input_order (key_parts x))"
      by (auto simp: key_parts_def composer_input_order_def)
    then show "unit_sep \<notin> set p" by (rule sep [OF ok(1) [OF that]])
  qed
  have "i = j" if "py_join [unit_sep] (key_parts i) = py_join [unit_sep] (key_parts j)"
  proof -
    have "key_parts i = key_parts j"
      by (rule join_inject [OF that]) (use free [OF assms(1)] free [OF assms(2)] in \<open>auto simp: key_parts_def\<close>)
    then show ?thesis by (simp add: key_parts_def)
  qed
  moreover have "validate_key k = Ok ()" using ok(2) [OF assms(1)] assms(3) by (auto simp: valid_key)
  ultimately show ?thesis using ok(2) [OF assms(1)] ok(2) [OF assms(2)] by auto
qed

section \<open>What the collector misses\<close>

text \<open>A stamp that reads as NaN compares false with everything: no call runs, and none rewrites it.\<close>

lemma nan_stamp_stops_gc: "read_stamp lib fs = Ok Nan \<Longrightarrow> run_amortized lib gc w fs = (fs, [], Ok None)"
  by (simp add: run_amortized_def should_run_amortized_def)

text \<open>The temporary file of an interrupted put has another name than a blob and stays.\<close>

lemma leftover_stays:
  assumes "hex_name h" "t \<noteq> []"
  shows "gc_entry w ttl (h @ ''.json'' @ t) st = st"
proof -
  have "\<not> blob_name (h @ ''.json'' @ t)" using assms by (auto simp: blob_name_def hex_name_def)
  then show ?thesis by (cases st) (auto simp: gc_entry_def split: option.split)
qed

section \<open>Examples\<close>

definition toy_repr :: "rat \<Rightarrow> string" where
  "toy_repr r = (let (p, q) = quotient_of r in signed p @ ''/'' @ signed q)"
definition toy_float :: "string \<Rightarrow> py_float option" where
  "toy_float s = (let (a, b) = py_partition (CHR ''/'') s in Some (Fin (rat_of_int (unsigned a) / rat_of_int (unsigned b))))"

definition toy_bundle_lib :: "string bundle_lib" where
  "toy_bundle_lib = \<lparr>bl_blake3 = (\<lambda>s. replicate 64 (CHR ''0'')), bl_dump = (\<lambda>b. b), bl_validate = Some, bl_float = toy_float,
     bl_repr_float = toy_repr\<rparr>"

lemma toy_float_round_trip: "float_round_trip toy_bundle_lib"
proof -
  have "toy_float (py_strip (toy_repr r)) = Some (Fin r)" for r
  proof -
    obtain p q where q: "quotient_of r = (p, q)" by (cases "quotient_of r")
    have r: "toy_repr r = signed p @ CHR ''/'' # signed q" using q by (simp add: toy_repr_def)
    have l: "\<not> py_isspace (last (signed i))" "\<not> py_isspace (hd (signed i @ u))" "CHR ''/'' \<notin> set (signed i)" for i u
      by (auto simp: signed_def py_isspace_def last_replicate)
    have "py_strip (signed p @ CHR ''/'' # signed q) = signed p @ CHR ''/'' # signed q"
      by (rule py_strip_id) (use l in \<open>auto simp: signed_def\<close>)
    then have "toy_float (py_strip (toy_repr r)) = Some (Fin (rat_of_int p / rat_of_int q))"
      by (simp add: r toy_float_def partition_at l)
    then show ?thesis using quotient_of_div [OF q] by simp
  qed
  then show ?thesis by (simp add: float_round_trip_def toy_bundle_lib_def)
qed

definition toy_key :: string where "toy_key = ''blake3:'' @ replicate 64 (CHR ''0'')"
definition toy_gc :: bundle_gc where
  "toy_gc = \<lparr>bg_ttl_override = Some 604800, bg_emitter = Some (\<lambda>_. None)\<rparr>"
definition toy_world :: "rat \<Rightarrow> gc_world" where
  "toy_world now = \<lparr>gw_env = None, gw_now = now, gw_stamp_now = now, gw_wall_clock = ''2026-01-01T00:00:00.000Z'',
     gw_duration_ms = 0, gw_listing = (\<lambda>es. remdups (dict_keys es)), gw_race = (\<lambda>_. Quiet)\<rparr>"

lemma toy_lists: "lists_directory (toy_world now)"
  by (simp add: lists_directory_def toy_world_def)
lemma toy_quiet: "quiet_emitter toy_gc"
  by (simp add: quiet_emitter_def toy_gc_def)
lemma toy_hex_blob: "hex_name (replicate 64 (CHR ''0''))"
  by (simp add: hex_name_def list_all_iff)
lemma toy_key_valid: "validate_key toy_key = Ok ()"
  using toy_hex_blob by (auto simp: valid_key toy_key_def)



lemma bundle_cache_refines_witness:
  "bundle_get toy_bundle_lib toy_key (fold (bundle_step toy_bundle_lib toy_gc)
      [Put_op toy_key ''old'' 0, Put_op toy_key ''new'' 10, Amortized_op (toy_world 604801)]
      \<lparr>bf_bundles = None, bf_stamp = None\<rparr>) = Ok (Some ''new'')
   \<and> bundle_get toy_bundle_lib toy_key (fold (bundle_step toy_bundle_lib toy_gc)
      [Put_op toy_key ''old'' 0, Collect_op (toy_world 604801)] \<lparr>bf_bundles = None, bf_stamp = None\<rparr>) = Ok None"
proof -
  have r: "\<forall>b. bl_validate toy_bundle_lib (bl_dump toy_bundle_lib b) = Some b" by (simp add: toy_bundle_lib_def)
  have t: "resolved_ttl_seconds toy_gc w = Ok 604800" for w by (simp add: resolved_ttl_seconds_def toy_gc_def)
  have ok: "list_all op_ok [Put_op toy_key ''old'' 0, Put_op toy_key ''new'' 10, Amortized_op (toy_world 604801)]"
    "list_all op_ok [Put_op toy_key ''old'' 0, Collect_op (toy_world 604801)]" by (simp_all add: toy_lists)
  show ?thesis
    unfolding bundle_cache_refines [OF r toy_float_round_trip toy_quiet ok(1) toy_key_valid]
      bundle_cache_refines [OF r toy_float_round_trip toy_quiet ok(2) toy_key_valid]
    by (simp add: toy_key_valid spec_collect_def t toy_world_def spec_due_def)
qed

lemma amortized_rarely_witness:
  "amortized_runs toy_bundle_lib toy_gc [toy_world 86400, toy_world 86401, toy_world 172800]
     \<lparr>bf_bundles = None, bf_stamp = None\<rparr> \<le> 2"
proof -
  let ?ws = "[toy_world 86400, toy_world 86401, toy_world 172800]"
  have "clock_ordered ?ws" "gw_now (last ?ws) - gw_now (hd ?ws) = 86400" by (simp_all add: toy_world_def)
  with amortized_rarely [OF toy_float_round_trip this(1), of toy_gc "\<lparr>bf_bundles = None, bf_stamp = None\<rparr>"]
  show ?thesis by (simp del: amortized_runs.simps last.simps list.sel)
qed

definition toy_inputs :: "string \<Rightarrow> bundle_key_inputs" where
  "toy_inputs index = \<lparr>bk_plugin_id = ''p'', bk_plugin_version = ''1.0.0'', bk_primitive = ''x'', bk_args_canonical = ''{}'',
     bk_repo_ctx_digest = ''r'', bk_scip_digest = ''s'', bk_dep_graph_digest = ''d'', bk_vuln_index_digest = index\<rparr>"

lemma bundle_keys_separate_witness:
  "\<exists>k. compose_bundle_cache_key toy_bundle_lib (toy_inputs ''v1'') = Ok k \<and> validate_key k = Ok ()"
proof -
  have c: "compose_bundle_cache_key toy_bundle_lib (toy_inputs ''v1'') = Ok (''blake3:'' @ replicate 64 (CHR ''0''))"
    by (simp add: compose_bundle_cache_key_def composer_input_order_def key_parts_def toy_inputs_def unit_sep_def
        toy_bundle_lib_def)
  have h: "\<forall>s. hex_name (bl_blake3 toy_bundle_lib s)" using toy_hex_blob by (simp add: toy_bundle_lib_def)
  show ?thesis using c bundle_keys_separate [OF c c h] by blast
qed

end
