(* ===== verification/Lockfiles.thy ===== *)
theory Lockfiles
  imports Parsers Py_Text
begin

text \<open>
  The lockfile parsers, \<open>probes/_lockfiles\<close>: the npm and pnpm parsers, which translate one error of the
  safe readers, and the yarn parser, a line-by-line state machine of its own. The decoders, \<open>pyarn\<close> and
  the decoding of UTF-8 are parameters. \<open>pyarn\<close> answers with an exception or with the entries.
\<close>

section \<open>npm and pnpm\<close>

datatype lockfile_error = Reader_error parser_error | Malformed_lockfile string

definition npm_lockfile_max_bytes :: int where "npm_lockfile_max_bytes = 50 * 1024 * 1024"
definition npm_lockfile_max_depth :: int where "npm_lockfile_max_depth = 64"
definition pnpm_lockfile_max_bytes :: int where "pnpm_lockfile_max_bytes = 50 * 1024 * 1024"
definition pnpm_lockfile_max_depth :: int where "pnpm_lockfile_max_depth = 64"

definition npm_parse :: "decoder \<Rightarrow> string \<Rightarrow> open_answer \<Rightarrow> lockfile_error + (heap \<times> pyval)" where
  "npm_parse json_loads path answer =
     (case safe_json_load json_loads answer npm_lockfile_max_bytes npm_lockfile_max_depth of
        Inl (MalformedJSONError m) \<Rightarrow> Err (Malformed_lockfile (path @ '': MalformedJSONError: '' @ m))
      | Inl e \<Rightarrow> Err (Reader_error e)
      | Inr raw \<Rightarrow> Ok raw)"

definition pnpm_parse :: "decoder \<Rightarrow> string \<Rightarrow> open_answer \<Rightarrow> lockfile_error + (heap \<times> pyval)" where
  "pnpm_parse yaml_load path answer =
     (case safe_yaml_load yaml_load answer pnpm_lockfile_max_bytes pnpm_lockfile_max_depth of
        Inl (MalformedYAMLError m) \<Rightarrow> Err (Malformed_lockfile (path @ '': MalformedYAMLError: '' @ m))
      | Inl e \<Rightarrow> Err (Reader_error e)
      | Inr raw \<Rightarrow> Ok raw)"

section \<open>yarn\<close>

datatype yarn_value = Scalar string | Block "(string, string) dict"

type_synonym yarn_entry = "(string, yarn_value) dict"
type_synonym yarn_lock = "(string, yarn_entry) dict"

record yarn_state =
  ys_entries :: yarn_lock
  ys_key :: "string option"
  ys_entry :: yarn_entry
  ys_subblock :: "string option"

abbreviation dq :: char where "dq \<equiv> CHR 0x22"

definition dequote_entry_header :: "string \<Rightarrow> string" where
  "dequote_entry_header header =
     (if prefix [dq] header
      then py_join '', '' (map (\<lambda>piece. strip_char dq (py_strip piece)) (py_split [dq, CHR '','', CHR '' '', dq] header))
      else strip_char dq header)"

definition close_entry :: "yarn_state \<Rightarrow> yarn_lock" where
  "close_entry st = (case ys_key st of None \<Rightarrow> ys_entries st | Some k \<Rightarrow> dict_set k (ys_entry st) (ys_entries st))"

text \<open>\<open>line.strip().partition(" ")\<close> with the quotes taken off both ends of both parts.\<close>

definition key_value :: "string \<Rightarrow> string \<times> string" where
  "key_value stripped = (let (k, v) = py_partition (CHR '' '') stripped in (strip_char dq k, strip_char dq v))"

definition yarn_line :: "string \<Rightarrow> yarn_state \<Rightarrow> exn + yarn_state" where
  "yarn_line raw_line st =
     (let line = py_rstrip raw_line in
      if line = [] \<or> prefix ''#'' (py_lstrip line) then Ok st
      else if \<not> prefix '' '' line then
        (if \<not> suffix '':'' line
         then Err (''ValueError'', ''expected entry header ending in '' @ py_repr '':'' @ '', got '' @ py_repr line)
         else Ok \<lparr>ys_entries = close_entry st, ys_key = Some (dequote_entry_header (py_strip (butlast line))),
                  ys_entry = [], ys_subblock = None\<rparr>)
      else if prefix ''    '' line \<and> ys_subblock st \<noteq> None then
        (let (k, v) = key_value (py_strip line); sub = the (ys_subblock st) in
         case dict_get (ys_entry st) sub of
           Some (Scalar _) \<Rightarrow> Err (''TypeError'', py_repr ''str'' @ '' object does not support item assignment'')
         | Some (Block d) \<Rightarrow> Ok (st\<lparr>ys_entry := dict_set sub (Block (dict_set k v d)) (ys_entry st)\<rparr>)
         | None \<Rightarrow> Ok (st\<lparr>ys_entry := dict_set sub (Block [(k, v)]) (ys_entry st)\<rparr>))
      else if prefix ''  '' line then
        (let stripped = py_strip line in
         if stripped = ''dependencies:'' \<or> stripped = ''optionalDependencies:''
         then Ok (st\<lparr>ys_subblock := Some (butlast stripped)\<rparr>)
         else let (k, v) = key_value stripped in
              Ok (st\<lparr>ys_subblock := None, ys_entry := dict_set k (Scalar v) (ys_entry st)\<rparr>))
      else Ok st)"

fun yarn_lines :: "string list \<Rightarrow> yarn_state \<Rightarrow> exn + yarn_state" where
  "yarn_lines [] st = Ok st"
| "yarn_lines (l # ls) st = rbind (yarn_line l st) (yarn_lines ls)"

definition yarn_start :: yarn_state where
  "yarn_start = \<lparr>ys_entries = [], ys_key = None, ys_entry = [], ys_subblock = None\<rparr>"

definition parse_handrolled :: "(string \<Rightarrow> exn + string) \<Rightarrow> string \<Rightarrow> exn + yarn_lock" where
  "parse_handrolled decode body =
     rbind (decode body) (\<lambda>txt. rbind (yarn_lines (py_splitlines txt) yarn_start) (\<lambda>st. Ok (close_entry st)))"

definition yarn_lockfile_max_bytes :: int where "yarn_lockfile_max_bytes = 50 * 1024 * 1024"

definition yarn_parse ::
  "(string \<Rightarrow> exn + string) \<Rightarrow> (string \<Rightarrow> exn + yarn_lock) option \<Rightarrow> string \<Rightarrow> open_answer \<Rightarrow> lockfile_error + yarn_lock" where
  "yarn_parse decode pyarn path answer =
     (case open_capped answer yarn_lockfile_max_bytes of
        Inl e \<Rightarrow> Err (Reader_error e)
      | Inr body \<Rightarrow>
          (case (case pyarn of Some p \<Rightarrow> rbind (decode body) p | None \<Rightarrow> parse_handrolled decode body) of
             Inl (cls, msg) \<Rightarrow> Err (Malformed_lockfile (path @ '': '' @ cls @ '': '' @ msg))
           | Inr lock \<Rightarrow> Ok lock))"

section \<open>The text of a lock file\<close>

text \<open>An entry as the printer sees it: the specs that share it, and its fields in order.\<close>

type_synonym yarn_doc = "(string list \<times> yarn_entry) list"

definition quoted :: "string \<Rightarrow> string" where "quoted s = dq # s @ [dq]"

definition header_line :: "string list \<Rightarrow> string" where "header_line specs = py_join '', '' (map quoted specs) @ '':''"

fun field_lines :: "string \<times> yarn_value \<Rightarrow> string list" where
  "field_lines (k, Scalar v) = [''  '' @ k @ '' '' @ quoted v]"
| "field_lines (k, Block d) = (''  '' @ k @ '':'') # map (\<lambda>(n, v). ''    '' @ n @ '' '' @ quoted v) d"

definition entry_lines :: "string list \<times> yarn_entry \<Rightarrow> string list" where
  "entry_lines = (\<lambda>(specs, fields). header_line specs # concat (map field_lines fields))"

definition yarn_text :: "yarn_doc \<Rightarrow> string" where
  "yarn_text doc = concat (map (\<lambda>l. l @ [CHR 0x0A]) (concat (map entry_lines doc)))"

definition yarn_meaning :: "yarn_doc \<Rightarrow> yarn_lock" where
  "yarn_meaning = map (\<lambda>(specs, fields). (py_join '', '' specs, fields))"

text \<open>What the format can carry: specs and values without quotes and line boundaries, names that are words and
  no comment, and a block only for the two kinds of dependencies and never empty.\<close>

definition plain :: "string \<Rightarrow> bool" where
  "plain s \<longleftrightarrow> list_all (\<lambda>c. c \<noteq> dq \<and> \<not> line_break c) s"
definition spec_ok :: "string \<Rightarrow> bool" where
  "spec_ok s \<longleftrightarrow> plain s \<and> s \<noteq> [] \<and> \<not> py_isspace (hd s) \<and> \<not> py_isspace (last s)"
definition name_ok :: "string \<Rightarrow> bool" where
  "name_ok s \<longleftrightarrow> s \<noteq> [] \<and> list_all (\<lambda>c. c \<noteq> dq \<and> \<not> py_isspace c) s \<and> hd s \<noteq> CHR ''#''"

fun field_ok :: "string \<times> yarn_value \<Rightarrow> bool" where
  "field_ok (k, Scalar v) \<longleftrightarrow> name_ok k \<and> plain v"
| "field_ok (k, Block d) \<longleftrightarrow> k \<in> {''dependencies'', ''optionalDependencies''} \<and> d \<noteq> [] \<and> dict_wf d \<and>
     list_all (\<lambda>(n, v). name_ok n \<and> plain v) d"

definition doc_ok :: "yarn_doc \<Rightarrow> bool" where
  "doc_ok doc \<longleftrightarrow> dict_wf (yarn_meaning doc) \<and>
     list_all (\<lambda>(specs, fields). specs \<noteq> [] \<and> list_all spec_ok specs \<and> dict_wf fields \<and> list_all field_ok fields) doc"

section \<open>Reading back one line\<close>

lemma not_space [simp]: "\<not> py_isspace dq" "\<not> py_isspace (CHR '':'')" "py_isspace (CHR '' '')"
  by (simp_all add: py_isspace_def)

lemma line_break_space: "line_break c \<Longrightarrow> py_isspace c"
proof -
  have "9 \<le> n \<and> n \<le> 13 \<or> 28 \<le> n \<and> n \<le> 32 \<or> n = 133 \<or> n = 160"
    if "10 \<le> n \<and> n \<le> 13 \<or> 28 \<le> n \<and> n \<le> 30 \<or> n = 133" for n :: nat
    using that by (elim disjE) simp_all
  then show "line_break c \<Longrightarrow> py_isspace c" unfolding line_break_def py_isspace_def Let_def by blast
qed

lemma strip_quoted: "dq \<notin> set s \<Longrightarrow> strip_char dq (quoted s) = s"
proof -
  assume q: "dq \<notin> set s"
  have id: "dropWhile (\<lambda>c. c = dq) t = t" if "dq \<notin> set t" for t using that by (cases t) auto
  have "dropWhile (\<lambda>c. c = dq) (s @ [dq]) = (if s = [] then [] else s @ [dq])"
    using q by (cases s) auto
  then show ?thesis using q id [of "rev s"] by (simp add: strip_char_def quoted_def)
qed

lemma key_value_line:
  assumes "name_ok k" "dq \<notin> set v"
  shows "key_value (k @ CHR '' '' # quoted v) = (k, v)"
proof -
  have k: "CHR '' '' \<notin> set k" "dq \<notin> set k"
    using assms(1) not_space(3) unfolding name_ok_def list_all_iff by blast+
  show ?thesis
    by (simp add: key_value_def partition_at(1) [OF k(1)] strip_quoted [OF assms(2)] strip_char_id [OF k(2)])
qed

lemma field_line_strip:
  assumes "name_ok k" "list_all (\<lambda>c. c = CHR '' '') sp"
  shows "py_rstrip (sp @ k @ CHR '' '' # quoted v) = sp @ k @ CHR '' '' # quoted v"
    "py_strip (sp @ k @ CHR '' '' # quoted v) = k @ CHR '' '' # quoted v"
    "py_lstrip (sp @ k @ CHR '' '' # quoted v) = k @ CHR '' '' # quoted v"
proof -
  have k: "k \<noteq> []" "\<not> py_isspace (hd k)" using assms(1) by (cases k; auto simp: name_ok_def)+
  show r: "py_rstrip (sp @ k @ CHR '' '' # quoted v) = sp @ k @ CHR '' '' # quoted v"
    by (rule py_rstrip_id) (simp add: quoted_def)
  have sp: "dropWhile py_isspace (sp @ t) = dropWhile py_isspace t" for t
    using assms(2) by (induction sp) auto
  show l: "py_lstrip (sp @ k @ CHR '' '' # quoted v) = k @ CHR '' '' # quoted v"
    using k by (cases k) (simp_all add: py_lstrip_def sp)
  show "py_strip (sp @ k @ CHR '' '' # quoted v) = k @ CHR '' '' # quoted v"
    unfolding py_strip_alt l by (rule py_rstrip_id) (simp add: quoted_def)
qed

lemma name_front: "name_ok k \<Longrightarrow> \<not> prefix ''#'' (k @ t) \<and> \<not> prefix '' '' (k @ t) \<and> \<not> prefix ''  '' (k @ t)"
  by (cases k) (auto simp: name_ok_def)

lemma scalar_line:
  assumes "name_ok k" "plain v"
  shows "yarn_line (''  '' @ k @ '' '' @ quoted v) st = Ok (st\<lparr>ys_subblock := None, ys_entry := dict_set k (Scalar v) (ys_entry st)\<rparr>)"
proof -
  have v: "dq \<notin> set v" using assms(2) by (auto simp: plain_def list_all_iff)
  note s = field_line_strip [OF assms(1), of "''  ''" v, simplified]
  note f = name_front [OF assms(1), of "CHR '' '' # quoted v"]
  have "k @ CHR '' '' # quoted v \<noteq> ''dependencies:''" "k @ CHR '' '' # quoted v \<noteq> ''optionalDependencies:''"
    using arg_cong [of "k @ CHR '' '' # quoted v" _ last] by (fastforce simp: quoted_def)+
  then show ?thesis
    using f by (simp add: yarn_line_def Let_def s key_value_line [OF assms(1) v])
qed

lemma sub_line:
  assumes "name_ok n" "plain v" "ys_subblock st = Some sub" "dict_get (ys_entry st) sub = None \<or> dict_get (ys_entry st) sub = Some (Block d)"
  shows "yarn_line (''    '' @ n @ '' '' @ quoted v) st =
    Ok (st\<lparr>ys_entry := dict_set sub (Block (dict_set n v (if dict_get (ys_entry st) sub = None then [] else d))) (ys_entry st)\<rparr>)"
proof -
  have v: "dq \<notin> set v" using assms(2) by (auto simp: plain_def list_all_iff)
  note s = field_line_strip [OF assms(1), of "''    ''" v, simplified]
  note f = name_front [OF assms(1), of "CHR '' '' # quoted v"]
  show ?thesis
    using f assms(3,4) by (auto simp: yarn_line_def Let_def s key_value_line [OF assms(1) v])
qed

lemma block_header_line:
  assumes "k \<in> {''dependencies'', ''optionalDependencies''}"
  shows "yarn_line (''  '' @ k @ '':'') st = Ok (st\<lparr>ys_subblock := Some k\<rparr>)"
  using assms by (auto simp: yarn_line_def py_rstrip_def py_lstrip_def py_strip_def py_isspace_def)

section \<open>Reading back a header\<close>

definition dq_sep :: string where "dq_sep = [dq, CHR '','', CHR '' '', dq]"

lemma spec_chars: "spec_ok s \<Longrightarrow> dq \<notin> set s" by (auto simp: spec_ok_def plain_def list_all_iff)

lemma strip_spec:
  "spec_ok s \<Longrightarrow> strip_char dq (py_strip s) = s" "spec_ok s \<Longrightarrow> strip_char dq (py_strip (dq # s)) = s"
  "spec_ok s \<Longrightarrow> strip_char dq (py_strip (s @ [dq])) = s" "spec_ok s \<Longrightarrow> strip_char dq (py_strip (dq # s @ [dq])) = s"
proof -
  assume s: "spec_ok s"
  have id: "dropWhile (\<lambda>c. c = dq) t = t" if "dq \<notin> set t" for t using that by (cases t) auto
  have ne: "s \<noteq> []" using s by (simp add: spec_ok_def)
  have sd: "dropWhile (\<lambda>c. c = dq) (s @ [dq]) = s @ [dq]" using spec_chars [OF s] ne by (cases s) auto
  show "strip_char dq (py_strip s) = s"
    using s by (subst py_strip_id) (auto simp: spec_ok_def strip_char_id spec_chars [OF s])
  show "strip_char dq (py_strip (dq # s)) = s"
    using s by (subst py_strip_id) (auto simp: spec_ok_def strip_char_def id spec_chars [OF s])
  show "strip_char dq (py_strip (s @ [dq])) = s"
    using s ne by (subst py_strip_id) (auto simp: spec_ok_def strip_char_def sd id spec_chars [OF s])
  show "strip_char dq (py_strip (dq # s @ [dq])) = s"
    using s ne by (subst py_strip_id) (auto simp: strip_char_def sd id spec_chars [OF s])
qed

lemma no_dq_safe: "dq \<notin> set s \<Longrightarrow> split_safe dq_sep s" "dq \<notin> set s \<Longrightarrow> split_last dq_sep (s @ [dq])"
proof -
  assume q: "dq \<notin> set s"
  have h: "\<not> prefix dq_sep (drop k (s @ t))" if "k < length s" for k t
  proof
    assume "prefix dq_sep (drop k (s @ t))"
    then have "(s @ t) ! k = dq" using that by (auto simp: prefix_def dq_sep_def drop_Cons' nth_via_drop)
    then show False using q that nth_mem [OF that] by (simp add: nth_append)
  qed
  show "split_safe dq_sep s" using h by (simp add: split_safe_def)
  show "split_last dq_sep (s @ [dq])"
  proof -
    have "\<not> prefix dq_sep (drop k (s @ [dq]))" if "k < Suc (length s)" for k
      using h [of k "[dq]"] that by (cases "k = length s") (auto simp: dq_sep_def)
    then show ?thesis by (simp add: split_last_def)
  qed
qed

lemma split_specs:
  assumes "specs \<noteq> []" "list_all spec_ok specs" "acc = [] \<or> acc = [dq]"
  shows "map (\<lambda>p. strip_char dq (py_strip p)) (split_go dq_sep acc (py_join dq_sep specs @ [dq])) = specs"
  using assms
proof (induction dq_sep specs arbitrary: acc rule: py_join.induct)
  case (2 p)
  then have "split_go dq_sep acc (p @ [dq]) = [rev acc @ p @ [dq]]"
    by (intro split_go_last no_dq_safe spec_chars) simp
  then show ?case using 2 strip_spec [of p] by auto
next
  case (3 p q ps)
  then have "split_go dq_sep acc (p @ dq_sep @ py_join dq_sep (q # ps) @ [dq]) =
      (rev acc @ p) # split_go dq_sep [] (py_join dq_sep (q # ps) @ [dq])"
    by (intro split_go_safe no_dq_safe spec_chars) (simp_all add: dq_sep_def)
  then show ?case using 3 strip_spec [of p] by auto
qed simp

lemma join_quoted: "specs \<noteq> [] \<Longrightarrow> py_join '', '' (map quoted specs) = dq # py_join dq_sep specs @ [dq]"
  by (induction dq_sep specs rule: py_join.induct) (simp_all add: quoted_def dq_sep_def)

lemma dequote_header:
  assumes "specs \<noteq> []" "list_all spec_ok specs"
  shows "dequote_entry_header (py_join '', '' (map quoted specs)) = py_join '', '' specs"
proof -
  let ?x = "py_join dq_sep specs @ [dq]"
  obtain p ps where sp: "specs = p # ps" using assms(1) by (cases specs) auto
  have p: "spec_ok p" using assms(2) sp by simp
  obtain r where x: "?x = p @ dq # r" by (cases ps) (auto simp: sp dq_sep_def)
  have "\<not> prefix dq_sep (dq # ?x)"
  proof
    assume "prefix dq_sep (dq # ?x)"
    then obtain t where t: "?x = CHR '','' # CHR '' '' # dq # t" by (auto simp: dq_sep_def prefix_def)
    have "takeWhile (\<lambda>c. c \<noteq> dq) ?x = p" unfolding x using spec_chars [OF p]
      by (subst takeWhile_append2) auto
    then have "p = '', ''" unfolding t by simp
    then show False using p by (simp add: spec_ok_def)
  qed
  then have "split_go dq_sep [] (dq # ?x) = split_go dq_sep [dq] ?x" by (simp add: split_go_Cons)
  then have "map (\<lambda>p. strip_char dq (py_strip p)) (py_split dq_sep (dq # ?x)) = specs"
    using split_specs [OF assms, of "[dq]"] by (simp add: py_split_def)
  then show ?thesis
    by (simp add: dequote_entry_header_def join_quoted [OF assms(1)] dq_sep_def [symmetric])
qed

lemma header_line_read:
  assumes "specs \<noteq> []" "list_all spec_ok specs"
  shows "yarn_line (header_line specs) st =
    Ok \<lparr>ys_entries = close_entry st, ys_key = Some (py_join '', '' specs), ys_entry = [], ys_subblock = None\<rparr>"
proof -
  let ?h = "py_join '', '' (map quoted specs)"
  have j: "?h = dq # py_join dq_sep specs @ [dq]" by (rule join_quoted [OF assms(1)])
  have r: "py_rstrip (?h @ '':'') = ?h @ '':''" by (rule py_rstrip_id) simp
  have l: "py_lstrip (?h @ '':'') = ?h @ '':''" by (rule py_lstrip_id) (simp add: j)
  have st: "py_strip ?h = ?h" by (rule py_strip_id) (simp add: j)
  show ?thesis
    using dequote_header [OF assms] r l st
    by (simp add: yarn_line_def header_line_def Let_def butlast_append) (simp add: j)
qed

section \<open>Reading back a document\<close>

lemma yarn_lines_append: "yarn_lines (ls @ ms) st = rbind (yarn_lines ls st) (yarn_lines ms)"
  by (induction ls arbitrary: st) (simp_all, metis rbind.simps sumE)

lemma block_lines:
  assumes "list_all (\<lambda>(n, v). name_ok n \<and> plain v) d" "dict_wf (d0 @ d)" "sub \<notin> set (dict_keys e)"
    and "ys_subblock st = Some sub" "ys_entry st = e @ [(sub, Block d0)]"
  shows "yarn_lines (map (\<lambda>(n, v). ''    '' @ n @ '' '' @ quoted v) d) st = Ok (st\<lparr>ys_entry := e @ [(sub, Block (d0 @ d))]\<rparr>)"
  using assms
proof (induction d arbitrary: d0 st)
  case (Cons nv d)
  obtain n v where nv: "nv = (n, v)" by (cases nv)
  have get: "dict_get (ys_entry st) sub = Some (Block d0)"
    using Cons.prems(3,5) by (simp add: map_add_Some_iff map_of_eq_None_iff [symmetric] map_of_append)
  have upd: "dict_set sub x (e @ [(sub, y)]) = e @ [(sub, x)]" for x y
    using Cons.prems(3) by (induction e) auto
  have fresh: "dict_set n v d0 = d0 @ [(n, v)]"
    using Cons.prems(2) by (intro dict_set_fresh) (auto simp: dict_wf_def nv)
  have line: "yarn_line (''    '' @ n @ '' '' @ quoted v) st = Ok (st\<lparr>ys_entry := e @ [(sub, Block (d0 @ [(n, v)]))]\<rparr>)"
    using sub_line [of n v st sub d0] Cons.prems(1,4,5) get by (simp add: nv upd fresh)
  show ?case
    using Cons.IH [of "d0 @ [(n, v)]" "st\<lparr>ys_entry := e @ [(sub, Block (d0 @ [(n, v)]))]\<rparr>"] Cons.prems line by (simp add: nv)
qed simp

lemma read_field:
  assumes "field_ok f" "fst f \<notin> set (dict_keys (ys_entry st))"
  shows "\<exists>sub. yarn_lines (field_lines f) st = Ok (st\<lparr>ys_subblock := sub, ys_entry := ys_entry st @ [f]\<rparr>)"
proof (cases f)
  case (Pair k val)
  show ?thesis
  proof (cases val)
    case (Scalar v)
    have "yarn_lines (field_lines f) st = Ok (st\<lparr>ys_subblock := None, ys_entry := ys_entry st @ [f]\<rparr>)"
      using assms Pair Scalar scalar_line [of k v st] by (simp add: dict_set_fresh)
    then show ?thesis ..
  next
    case (Block d)
    obtain n v d' where d: "d = (n, v) # d'" using assms(1) Pair Block by (cases d) auto
    let ?st = "st\<lparr>ys_subblock := Some k\<rparr>"
    have none: "dict_get (ys_entry ?st) k = None" using assms(2) Pair by (simp add: map_of_eq_None_iff)
    have one: "yarn_line (''    '' @ n @ '' '' @ quoted v) ?st = Ok (?st\<lparr>ys_entry := ys_entry st @ [(k, Block [(n, v)])]\<rparr>)"
      using sub_line [of n v ?st k "[]"] assms Pair Block d none by (simp add: dict_set_fresh)
    have rest: "yarn_lines (map (\<lambda>(n, v). ''    '' @ n @ '' '' @ quoted v) d') (?st\<lparr>ys_entry := ys_entry st @ [(k, Block [(n, v)])]\<rparr>)
      = Ok (?st\<lparr>ys_entry := ys_entry st @ [(k, Block d)]\<rparr>)"
      using block_lines [of d' "[(n, v)]" k "ys_entry st" "?st\<lparr>ys_entry := ys_entry st @ [(k, Block [(n, v)])]\<rparr>"]
        assms Pair Block d by simp
    have "yarn_line (''  '' @ k @ '':'') st = Ok ?st" by (rule block_header_line) (use assms(1) Pair Block in simp)
    then have "yarn_lines (field_lines f) st = Ok (st\<lparr>ys_subblock := Some k, ys_entry := ys_entry st @ [f]\<rparr>)"
      using one rest by (simp add: Pair Block d)
    then show ?thesis ..
  qed
qed

lemma read_fields:
  assumes "list_all field_ok fs" "dict_wf (ys_entry st @ fs)"
  shows "\<exists>sub. yarn_lines (concat (map field_lines fs)) st = Ok (st\<lparr>ys_subblock := sub, ys_entry := ys_entry st @ fs\<rparr>)"
  using assms
proof (induction fs arbitrary: st)
  case Nil
  have "st = st\<lparr>ys_subblock := ys_subblock st, ys_entry := ys_entry st\<rparr>" by simp
  then show ?case by (metis append_Nil2 concat.simps(1) list.simps(8) yarn_lines.simps(1))
next
  case (Cons f fs)
  obtain sub where one: "yarn_lines (field_lines f) st = Ok (st\<lparr>ys_subblock := sub, ys_entry := ys_entry st @ [f]\<rparr>)"
    using read_field [of f st] Cons.prems by (auto simp: dict_wf_def)
  obtain sub' where "yarn_lines (concat (map field_lines fs)) (st\<lparr>ys_subblock := sub, ys_entry := ys_entry st @ [f]\<rparr>) =
      Ok (st\<lparr>ys_subblock := sub', ys_entry := ys_entry st @ f # fs\<rparr>)"
    using Cons.IH [of "st\<lparr>ys_subblock := sub, ys_entry := ys_entry st @ [f]\<rparr>"] Cons.prems by auto
  then show ?case using one by (auto simp: yarn_lines_append)
qed

lemma read_entries:
  assumes "list_all (\<lambda>(specs, fields). specs \<noteq> [] \<and> list_all spec_ok specs \<and> dict_wf fields \<and> list_all field_ok fields) doc"
    and "dict_wf (close_entry st @ yarn_meaning doc)"
  shows "\<exists>st'. yarn_lines (concat (map entry_lines doc)) st = Ok st' \<and> close_entry st' = close_entry st @ yarn_meaning doc"
  using assms
proof (induction doc arbitrary: st)
  case (Cons e doc)
  obtain specs fields where e: "e = (specs, fields)" by (cases e)
  have ok: "specs \<noteq> []" "list_all spec_ok specs" "dict_wf fields" "list_all field_ok fields" using Cons.prems(1) e by auto
  let ?k = "py_join '', '' specs"
  let ?st = "\<lparr>ys_entries = close_entry st, ys_key = Some ?k, ys_entry = [], ys_subblock = None\<rparr>"
  obtain sub where f: "yarn_lines (concat (map field_lines fields)) ?st = Ok (?st\<lparr>ys_subblock := sub, ys_entry := fields\<rparr>)"
    using read_fields [of fields ?st] ok(3,4) by auto
  have "?k \<notin> set (dict_keys (close_entry st))" using Cons.prems(2) by (auto simp: dict_wf_def yarn_meaning_def e)
  then have c: "close_entry (?st\<lparr>ys_subblock := sub, ys_entry := fields\<rparr>) = close_entry st @ [(?k, fields)]"
    using dict_set_fresh [of ?k "close_entry st" fields]
    by (simp add: close_entry_def [of "\<lparr>ys_entries = close_entry st, ys_key = Some ?k, ys_entry = fields, ys_subblock = sub\<rparr>"])
  obtain st' where st': "yarn_lines (concat (map entry_lines doc)) (?st\<lparr>ys_subblock := sub, ys_entry := fields\<rparr>) = Ok st'"
      "close_entry st' = close_entry st @ [(?k, fields)] @ yarn_meaning doc"
    using Cons.IH [of "?st\<lparr>ys_subblock := sub, ys_entry := fields\<rparr>"] Cons.prems unfolding c by (auto simp: yarn_meaning_def e)
  have "yarn_lines (concat (map entry_lines (e # doc))) st = Ok st'"
    using f st'(1) header_line_read [OF ok(1,2)] by (simp add: e entry_lines_def yarn_lines_append)
  then show ?case using st'(2) by (auto simp: yarn_meaning_def e)
qed (simp add: yarn_meaning_def)

lemma plain_no_break: "plain s \<Longrightarrow> list_all (\<lambda>c. \<not> line_break c) s"
  by (simp add: plain_def list_all_iff)
lemma name_no_break: "name_ok s \<Longrightarrow> list_all (\<lambda>c. \<not> line_break c) s"
  using line_break_space by (auto simp: name_ok_def list_all_iff)

lemma line_break_consts [simp]: "\<not> line_break (CHR '' '')" "\<not> line_break (CHR '','')" "\<not> line_break dq" "\<not> line_break (CHR '':'')"
  by (simp_all add: line_break_def)

lemma field_lines_clean: "field_ok f \<Longrightarrow> list_all (list_all (\<lambda>c. \<not> line_break c)) (field_lines f)"
proof (induction f rule: field_lines.induct)
  case (1 k v)
  then show ?case using plain_no_break [of v] name_no_break [of k] by (simp add: quoted_def)
next
  case (2 k d)
  have "list_all (\<lambda>c. \<not> line_break c) k" using 2 by (auto simp: line_break_def)
  moreover have "list_all (\<lambda>c. \<not> line_break c) n" "list_all (\<lambda>c. \<not> line_break c) v" if "(n, v) \<in> set d" for n v
    using 2 that plain_no_break [of v] name_no_break [of n] by (auto simp: list_all_iff)
  ultimately show ?case by (auto simp: quoted_def list_all_iff)
qed

lemma header_clean: "list_all spec_ok specs \<Longrightarrow> list_all (\<lambda>c. \<not> line_break c) (header_line specs)"
proof -
  assume ok: "list_all spec_ok specs"
  have "list_all (\<lambda>c. \<not> line_break c) (py_join '', '' (map quoted specs))"
    using ok by (induction "'', ''" specs rule: py_join.induct)
      (auto simp: quoted_def spec_ok_def dest: plain_no_break)
  then show ?thesis by (simp add: header_line_def)
qed

lemma document_clean:
  "list_all (\<lambda>(specs, fields). specs \<noteq> [] \<and> list_all spec_ok specs \<and> dict_wf fields \<and> list_all field_ok fields) doc \<Longrightarrow>
   list_all (list_all (\<lambda>c. \<not> line_break c)) (concat (map entry_lines doc))"
proof (induction doc)
  case (Cons e doc)
  obtain specs fields where e: "e = (specs, fields)" by (cases e)
  have "list_all (list_all (\<lambda>c. \<not> line_break c)) (concat (map field_lines fs))" if "list_all field_ok fs" for fs
    using that by (induction fs) (auto simp: field_lines_clean)
  from this [of fields] have "list_all (list_all (\<lambda>c. \<not> line_break c)) (concat (map field_lines fields))"
    using Cons.prems e by simp
  then show ?case using Cons e header_clean [of specs] by (simp add: entry_lines_def)
qed simp

section \<open>Properties\<close>

text \<open>C22. The yarn parser reads the text of any lock file that the format can carry back to its entries: every
  spec of a shared header without its quotes, every field and every dependency, in their order.\<close>

theorem yarn_round_trip:
  assumes "doc_ok doc" "decode body = Ok (yarn_text doc)" "int (length body) \<le> yarn_lockfile_max_bytes"
  shows "yarn_parse decode None path (Opened (int (length body)) body) = Ok (yarn_meaning doc)"
proof -
  have ok: "list_all (\<lambda>(specs, fields). specs \<noteq> [] \<and> list_all spec_ok specs \<and> dict_wf fields \<and> list_all field_ok fields) doc"
    and wf: "dict_wf (yarn_meaning doc)" using assms(1) by (simp_all add: doc_ok_def)
  have o: "open_capped (Opened (int (length body)) body) yarn_lockfile_max_bytes = Ok body"
    using assms(3) by (auto simp: open_capped_def)
  have c: "close_entry yarn_start = []" by (simp add: close_entry_def yarn_start_def)
  obtain st where st: "yarn_lines (concat (map entry_lines doc)) yarn_start = Ok st" "close_entry st = yarn_meaning doc"
    using read_entries [OF ok, of yarn_start] wf c by auto
  have "parse_handrolled decode body = Ok (yarn_meaning doc)"
    using st by (simp add: parse_handrolled_def assms(2) yarn_text_def splitlines_concat [OF document_clean [OF ok]])
  then show ?thesis by (simp add: yarn_parse_def o)
qed

definition sample_doc :: yarn_doc where
  "sample_doc = [([''@types/node@^20'', ''@types/node@>=18 <21''],
     [(''version'', Scalar ''20.1.0''), (''dependencies'', Block [(''undici-types'', ''~5.26.4'')]), (''integrity'', Scalar [])])]"

lemma yarn_round_trip_witness:
  "yarn_parse Ok None ''yarn.lock'' (Opened (int (length (yarn_text sample_doc))) (yarn_text sample_doc)) =
    Ok [(''@types/node@^20, @types/node@>=18 <21'',
      [(''version'', Scalar ''20.1.0''), (''dependencies'', Block [(''undici-types'', ''~5.26.4'')]), (''integrity'', Scalar [])])]"
proof -
  have d: "doc_ok sample_doc" by code_simp
  have l: "int (length (yarn_text sample_doc)) \<le> yarn_lockfile_max_bytes" by code_simp
  have m: "yarn_meaning sample_doc = [(''@types/node@^20, @types/node@>=18 <21'',
      [(''version'', Scalar ''20.1.0''), (''dependencies'', Block [(''undici-types'', ''~5.26.4'')]), (''integrity'', Scalar [])])]"
    by code_simp
  have b: "Ok (yarn_text sample_doc) = Ok (yarn_text sample_doc)" ..
  show ?thesis using yarn_round_trip [where decode = Ok and path = "''yarn.lock''", OF d b l] unfolding m .
qed

text \<open>A header that quotes only some of its specs, which yarn writes, keeps stray quotes in the key.\<close>

lemma mixed_header_keeps_quotes:
  "dequote_entry_header (''foo@^1.0.0, '' @ [dq] @ ''foo@>=1.0.0 <2.0.0'' @ [dq]) = ''foo@^1.0.0, '' @ [dq] @ ''foo@>=1.0.0 <2.0.0''"
  by (simp add: dequote_entry_header_def strip_char_def)

end
