(* ===== verification/Lcov.thy ===== *)
theory Lcov
  imports Parsers Py_Text Hashing
begin

text \<open>
  The coverage scanner, \<open>probes/_lcov_scanner.py\<close>: the six summed counters of \<open>scan\<close> and the per-file
  records of \<open>scan_records\<close>. \<open>decode\<close> is UTF-8 decoding with replacement, which never fails.
\<close>

section \<open>The counters\<close>

record lcov_totals =
  lines_found :: int
  lines_hit :: int
  functions_found :: int
  functions_hit :: int
  branches_found :: int
  branches_hit :: int

record lcov_record =
  test_file :: "string option"
  source_file :: string
  lines_covered :: "int list"

definition lcov_prefix_map :: "(string \<times> string) list" where
  "lcov_prefix_map = [(''LF:'', ''lines_found''), (''LH:'', ''lines_hit''), (''FNF:'', ''functions_found''),
     (''FNH:'', ''functions_hit''), (''BRF:'', ''branches_found''), (''BRH:'', ''branches_hit'')]"

definition lcov_max_bytes :: int where "lcov_max_bytes = 50 * 1024 * 1024"

type_synonym counters = "(string, int) dict"

definition counter :: "counters \<Rightarrow> string \<Rightarrow> int" where
  "counter acc f = (case dict_get acc f of None \<Rightarrow> 0 | Some n \<Rightarrow> n)"

text \<open>The inner loop: the first prefix that fits is taken, and a value that is no number is dropped.\<close>

fun scan_prefixes :: "string \<Rightarrow> (string \<times> string) list \<Rightarrow> counters \<Rightarrow> counters" where
  "scan_prefixes line [] acc = acc"
| "scan_prefixes line ((pre, field) # rest) acc =
     (if prefix pre line
      then (case py_int (drop (length pre) line) of
              Some n \<Rightarrow> dict_set field (counter acc field + n) acc | None \<Rightarrow> acc)
      else scan_prefixes line rest acc)"

definition lcov_scan :: "(string \<Rightarrow> string) \<Rightarrow> int option \<Rightarrow> open_answer \<Rightarrow> parser_error + lcov_totals" where
  "lcov_scan decode max_bytes answer =
     (let effective_cap = (case max_bytes of None \<Rightarrow> lcov_max_bytes | Some n \<Rightarrow> n) in
      rbind (open_capped answer effective_cap) (\<lambda>body.
        let acc = fold (\<lambda>line. scan_prefixes line lcov_prefix_map) (py_splitlines (decode body))
                    (map (\<lambda>(_, f). (f, 0)) lcov_prefix_map)
        in Ok \<lparr>lines_found = counter acc ''lines_found'', lines_hit = counter acc ''lines_hit'',
               functions_found = counter acc ''functions_found'', functions_hit = counter acc ''functions_hit'',
               branches_found = counter acc ''branches_found'', branches_hit = counter acc ''branches_hit''\<rparr>))"

section \<open>The records\<close>

datatype lcov_error = Lcov_reader parser_error | Truncated_da string | Malformed_da string

record lcov_state =
  ls_records :: "lcov_record list"
  ls_source :: "string option"
  ls_lines :: "int list"

definition flush_record :: "lcov_state \<Rightarrow> lcov_record list" where
  "flush_record st = (case ls_source st of
     None \<Rightarrow> ls_records st
   | Some s \<Rightarrow> ls_records st @ [\<lparr>test_file = None, source_file = s, lines_covered = ls_lines st\<rparr>])"

definition lcov_line :: "string \<Rightarrow> lcov_state \<Rightarrow> lcov_error + lcov_state" where
  "lcov_line line st =
     (if prefix ''SF:'' line then Ok \<lparr>ls_records = flush_record st, ls_source = Some (drop 3 line), ls_lines = []\<rparr>
      else if prefix ''DA:'' line then
        (let payload = drop 3 line; (before, after) = py_partition (CHR '','') payload in
         if CHR '','' \<notin> set payload then Err (Truncated_da line)
         else case (py_int before, py_int after) of
           (Some lineno, Some hits) \<Rightarrow>
             Ok (if hits > 0 \<and> ls_source st \<noteq> None then st\<lparr>ls_lines := ls_lines st @ [lineno]\<rparr> else st)
         | _ \<Rightarrow> Err (Malformed_da line))
      else if prefix ''end_of_record'' line then
        (if ls_source st \<noteq> None then Ok \<lparr>ls_records = flush_record st, ls_source = None, ls_lines = []\<rparr> else Ok st)
      else Ok st)"

fun lcov_lines :: "string list \<Rightarrow> lcov_state \<Rightarrow> lcov_error + lcov_state" where
  "lcov_lines [] st = Ok st"
| "lcov_lines (l # ls) st = rbind (lcov_line l st) (lcov_lines ls)"

definition lcov_start :: lcov_state where
  "lcov_start = \<lparr>ls_records = [], ls_source = None, ls_lines = []\<rparr>"

definition scan_records :: "(string \<Rightarrow> string) \<Rightarrow> int option \<Rightarrow> open_answer \<Rightarrow> lcov_error + lcov_record list" where
  "scan_records decode max_bytes answer =
     (let effective_cap = (case max_bytes of None \<Rightarrow> lcov_max_bytes | Some n \<Rightarrow> n) in
      case open_capped answer effective_cap of
        Inl e \<Rightarrow> Err (Lcov_reader e)
      | Inr body \<Rightarrow> rbind (lcov_lines (py_splitlines (decode body)) lcov_start) (\<lambda>st. Ok (flush_record st)))"

section \<open>Integers in a row\<close>

lemma digit_not_space: "digit c \<Longrightarrow> \<not> py_isspace c"
  using class_chars(1) [of c] by (auto simp: py_isspace_def Let_def)

lemma digit_values: "digit c \<Longrightarrow> of_char c - 48 = int (digit_value c)"
proof -
  assume "digit c"
  then have "48 \<le> (of_char c :: nat)" using class_chars(1) [of c] by simp
  moreover have "(of_char c :: int) = int (of_char c)" by (rule of_nat_of_char [symmetric])
  ultimately show ?thesis by (simp add: digit_value_def of_nat_diff)
qed

lemma int_digits_foldl:
  "list_all digit s \<Longrightarrow> int_digits (int acc) True s = Some (int (foldl (\<lambda>a c. 10 * a + digit_value c) acc s))"
proof (induction s arbitrary: acc)
  case (Cons c s)
  have "int acc * 10 + (of_char c - 48) = int (10 * acc + digit_value c)" using Cons.prems digit_values [of c] by simp
  then show ?case using Cons by (simp del: of_nat_add of_nat_mult)
qed simp

lemma nat_str_all_digits: "list_all digit (nat_str n)" "nat_str n \<noteq> []"
proof -
  have "digit (digit_char d)" if "d < 10" for d
    using that by (simp add: digit_def between_def digit_char_def less_eq_char_def)
  then show "list_all digit (nat_str n)" using nat_str_digits by (fastforce simp: list_all_iff)
  show "nat_str n \<noteq> []" by (subst nat_str.simps) simp
qed

lemma int_of_nat_str: "length (nat_str n) \<le> int_max_str_digits \<Longrightarrow> py_int (nat_str n) = Some (int n)"
proof -
  assume l: "length (nat_str n) \<le> int_max_str_digits"
  obtain c s where cs: "nat_str n = c # s" using nat_str_all_digits(2) [of n] by (cases "nat_str n") auto
  have d: "digit c" "list_all digit s" using nat_str_all_digits(1) [of n] by (simp_all add: cs)
  have "py_strip (nat_str n) = nat_str n"
    by (rule py_strip_id) (use nat_str_all_digits [of n] digit_not_space in \<open>auto simp: list_all_iff\<close>)
  moreover have "length (filter digit (c # s)) \<le> int_max_str_digits"
    using l unfolding cs by (rule order.trans [OF length_filter_le])
  moreover have "c \<noteq> CHR ''-''" "c \<noteq> CHR ''+''" using d(1) by (auto simp: digit_def between_def)
  moreover have "int_digits 0 False (c # s) = Some (int n)"
    using int_digits_foldl [OF d(2), of "digit_value c"] d(1) digit_values [OF d(1)] nat_str_value [of n] by (simp add: cs)
  ultimately show ?thesis unfolding py_int_def py_int_text_def by (simp add: cs)
qed

section \<open>The text of a coverage file\<close>

datatype lcov_row = Da nat nat | Other_line string

text \<open>A block is its source file, its rows, and whether it is ended by \<open>end_of_record\<close>.\<close>

type_synonym lcov_block = "string \<times> lcov_row list \<times> bool"

fun row_line :: "lcov_row \<Rightarrow> string" where
  "row_line (Da l h) = ''DA:'' @ nat_str l @ '','' @ nat_str h"
| "row_line (Other_line s) = s"

fun block_lines :: "lcov_block \<Rightarrow> string list" where
  "block_lines (src, rows, ended) = (''SF:'' @ src) # map row_line rows @ (if ended then [''end_of_record''] else [])"

definition lcov_text :: "lcov_block list \<Rightarrow> string" where
  "lcov_text bs = concat (map (\<lambda>l. l @ [CHR 0x0A]) (concat (map block_lines bs)))"

fun row_ok :: "lcov_row \<Rightarrow> bool" where
  "row_ok (Da l h) \<longleftrightarrow> length (nat_str l) \<le> int_max_str_digits \<and> length (nat_str h) \<le> int_max_str_digits"
| "row_ok (Other_line s) \<longleftrightarrow> list_all (\<lambda>c. \<not> line_break c) s \<and> \<not> prefix ''SF:'' s \<and> \<not> prefix ''DA:'' s \<and> \<not> prefix ''end_of_record'' s"

fun block_ok :: "lcov_block \<Rightarrow> bool" where
  "block_ok (src, rows, ended) \<longleftrightarrow> list_all (\<lambda>c. \<not> line_break c) src \<and> list_all row_ok rows"

fun row_hit :: "lcov_row \<Rightarrow> int list" where
  "row_hit (Da l h) = (if h > 0 then [int l] else [])"
| "row_hit (Other_line s) = []"

fun block_record :: "lcov_block \<Rightarrow> lcov_record" where
  "block_record (src, rows, ended) = \<lparr>test_file = None, source_file = src, lines_covered = concat (map row_hit rows)\<rparr>"

lemma lcov_lines_append: "lcov_lines (ls @ ms) st = rbind (lcov_lines ls st) (lcov_lines ms)"
  by (induction ls arbitrary: st) (simp_all, metis rbind.simps sumE)

lemma comma_free: "CHR '','' \<notin> set (nat_str n)"
  using nat_str_all_digits(1) [of n] by (auto simp: list_all_iff digit_def between_def)

lemma read_row:
  assumes "row_ok r" "ls_source st = Some src"
  shows "lcov_line (row_line r) st = Ok (st\<lparr>ls_lines := ls_lines st @ row_hit r\<rparr>)"
proof (cases r)
  case (Da l h)
  have p: "py_partition (CHR '','') (nat_str l @ CHR '','' # nat_str h) = (nat_str l, nat_str h)"
    by (rule partition_at(1) [OF comma_free])
  have i: "py_int (nat_str l) = Some (int l)" "py_int (nat_str h) = Some (int h)"
    using assms(1) Da by (auto intro: int_of_nat_str)
  show ?thesis using assms(2) by (simp add: Da lcov_line_def p i)
next
  case (Other_line s)
  then show ?thesis using assms(1) by (simp add: lcov_line_def)
qed

lemma read_rows:
  "list_all row_ok rows \<Longrightarrow> ls_source st = Some src \<Longrightarrow>
     lcov_lines (map row_line rows) st = Ok (st\<lparr>ls_lines := ls_lines st @ concat (map row_hit rows)\<rparr>)"
  by (induction rows arbitrary: st) (simp_all add: read_row)

lemma read_block:
  assumes "block_ok b"
  shows "\<exists>st'. lcov_lines (block_lines b) st = Ok st' \<and> flush_record st' = flush_record st @ [block_record b]"
proof -
  obtain src rows ended where b: "b = (src, rows, ended)" by (cases b)
  let ?st = "\<lparr>ls_records = flush_record st, ls_source = Some src, ls_lines = concat (map row_hit rows)\<rparr>"
  have rows: "lcov_lines (map row_line rows) \<lparr>ls_records = flush_record st, ls_source = Some src, ls_lines = []\<rparr> = Ok ?st"
    using assms b by (subst read_rows [where src = src]) simp_all
  have head: "lcov_line (''SF:'' @ src) st = Ok \<lparr>ls_records = flush_record st, ls_source = Some src, ls_lines = []\<rparr>"
    by (simp add: lcov_line_def)
  have f: "flush_record ?st = flush_record st @ [block_record b]" by (simp add: flush_record_def [of ?st] b)
  show ?thesis
  proof (cases ended)
    case True
    have "lcov_line ''end_of_record'' ?st = Ok \<lparr>ls_records = flush_record ?st, ls_source = None, ls_lines = []\<rparr>"
      by (simp add: lcov_line_def)
    then have "lcov_lines (block_lines b) st = Ok \<lparr>ls_records = flush_record ?st, ls_source = None, ls_lines = []\<rparr>"
      using rows head True by (simp add: b lcov_lines_append)
    moreover have "flush_record \<lparr>ls_records = flush_record ?st, ls_source = None, ls_lines = []\<rparr> = flush_record ?st"
      by (simp add: flush_record_def [of "\<lparr>ls_records = flush_record ?st, ls_source = None, ls_lines = []\<rparr>"])
    ultimately show ?thesis using f by metis
  next
    case False
    then have "lcov_lines (block_lines b) st = Ok ?st" using rows head by (simp add: b)
    then show ?thesis using f by blast
  qed
qed

lemma read_blocks:
  "list_all block_ok bs \<Longrightarrow> \<exists>st'. lcov_lines (concat (map block_lines bs)) st = Ok st' \<and>
     flush_record st' = flush_record st @ map block_record bs"
proof (induction bs arbitrary: st)
  case (Cons b bs)
  obtain st1 where 1: "lcov_lines (block_lines b) st = Ok st1" "flush_record st1 = flush_record st @ [block_record b]"
    using read_block [of b st] Cons.prems by auto
  obtain st2 where "lcov_lines (concat (map block_lines bs)) st1 = Ok st2"
      "flush_record st2 = flush_record st1 @ map block_record bs"
    using Cons.IH [of st1] Cons.prems by auto
  then show ?case using 1 by (auto simp: lcov_lines_append)
qed simp

lemma blocks_clean:
  "list_all block_ok bs \<Longrightarrow> list_all (list_all (\<lambda>c. \<not> line_break c)) (concat (map block_lines bs))"
proof (induction bs)
  case (Cons b bs)
  obtain src rows ended where b: "b = (src, rows, ended)" by (cases b)
  have d: "\<not> line_break c" if "digit c" for c using that class_chars(1) [of c] by (auto simp: line_break_def Let_def)
  have n: "list_all (\<lambda>c. \<not> line_break c) (nat_str k)" for k
    using nat_str_all_digits(1) [of k] d by (auto simp: list_all_iff)
  have row: "list_all (\<lambda>c. \<not> line_break c) (row_line r)" if "row_ok r" for r
    using that n by (cases r) (auto simp: line_break_def)
  have k: "list_all (\<lambda>c. \<not> line_break c) ''end_of_record''" "list_all (\<lambda>c. \<not> line_break c) ''SF:''"
    by (simp_all add: line_break_def)
  have "list_all (list_all (\<lambda>c. \<not> line_break c)) (block_lines b)"
    using Cons.prems k row by (auto simp: b list_all_iff)
  then show ?case using Cons by simp
qed simp

section \<open>Properties\<close>

text \<open>C30. The records of a coverage file are those of its blocks in order: a block ends at \<open>end_of_record\<close>, at the next
  source file or at the end of the file, its covered lines are the rows with hits, and other lines do not count.\<close>

theorem scan_records_exact:
  assumes "list_all block_ok bs" "decode body = lcov_text bs" "int (length body) \<le> lcov_max_bytes"
  shows "scan_records decode None (Opened (int (length body)) body) = Ok (map block_record bs)"
proof -
  have o: "open_capped (Opened (int (length body)) body) lcov_max_bytes = Ok body"
    using assms(3) by (auto simp: open_capped_def)
  obtain st where "lcov_lines (concat (map block_lines bs)) lcov_start = Ok st"
      "flush_record st = flush_record lcov_start @ map block_record bs"
    using read_blocks [OF assms(1)] by blast
  then show ?thesis
    by (simp add: scan_records_def o assms(2) lcov_text_def splitlines_concat [OF blocks_clean [OF assms(1)]]
        flush_record_def [of lcov_start] lcov_start_def [symmetric]) (simp add: lcov_start_def)
qed

definition sample_blocks :: "lcov_block list" where
  "sample_blocks = [(''src/a.js'', [Da 1 2, Da 2 0, Other_line ''LF:2''], True), (''src/b.js'', [Da 7 1], False)]"

lemma scan_records_exact_witness:
  "scan_records (\<lambda>s. s) None (Opened (int (length (lcov_text sample_blocks))) (lcov_text sample_blocks)) =
     Ok [\<lparr>test_file = None, source_file = ''src/a.js'', lines_covered = [1]\<rparr>,
         \<lparr>test_file = None, source_file = ''src/b.js'', lines_covered = [7]\<rparr>]"
proof -
  have ok: "list_all block_ok sample_blocks" by code_simp
  have l: "int (length (lcov_text sample_blocks)) \<le> lcov_max_bytes" by code_simp
  have m: "map block_record sample_blocks = [\<lparr>test_file = None, source_file = ''src/a.js'', lines_covered = [1]\<rparr>,
         \<lparr>test_file = None, source_file = ''src/b.js'', lines_covered = [7]\<rparr>]" by (simp add: sample_blocks_def)
  show ?thesis using scan_records_exact [where decode = "\<lambda>s. s", OF ok refl l] unfolding m .
qed

text \<open>What a counter sums: the numbers of the lines that carry its prefix.\<close>

definition prefixed_value :: "string \<Rightarrow> string \<Rightarrow> int" where
  "prefixed_value pre line =
     (if prefix pre line then (case py_int (drop (length pre) line) of Some n \<Rightarrow> n | None \<Rightarrow> 0) else 0)"

definition prefixed_sum :: "string \<Rightarrow> string list \<Rightarrow> int" where
  "prefixed_sum pre lines = sum_list (map (prefixed_value pre) lines)"

lemma counter_set: "counter (dict_set f v acc) g = (if g = f then v else counter acc g)"
  by (simp add: counter_def dict_simps)

lemma scan_prefixes_other: "f \<notin> snd ` set pm \<Longrightarrow> counter (scan_prefixes line pm acc) f = counter acc f"
  by (induction line pm acc rule: scan_prefixes.induct) (auto simp: counter_set split: option.split)

lemma scan_prefixes_sum:
  assumes "(pre, f) \<in> set pm" "distinct (map snd pm)"
    and "\<forall>p \<in> fst ` set pm. \<forall>q \<in> fst ` set pm. prefix p q \<longrightarrow> p = q" "distinct (map fst pm)"
  shows "counter (scan_prefixes line pm acc) f = counter acc f + prefixed_value pre line"
  using assms
proof (induction line pm acc rule: scan_prefixes.induct)
  case (2 line p g rest acc)
  show ?case
  proof (cases "(pre, f) = (p, g)")
    case True
    then have "f \<notin> snd ` set rest" using "2.prems"(2) by auto
    then show ?thesis using True scan_prefixes_other [of f rest line acc]
      by (auto simp: prefixed_value_def counter_set split: option.split)
  next
    case False
    then have r: "(pre, f) \<in> set rest" using "2.prems"(1) by auto
    have ne: "f \<noteq> g" "pre \<noteq> p"
      using "2.prems"(2,4) image_eqI [OF _ r, of f snd] image_eqI [OF _ r, of pre fst] by auto
    show ?thesis
    proof (cases "prefix p line")
      case True
      have "\<not> prefix pre line"
      proof
        assume "prefix pre line"
        with True have d: "prefix p pre \<or> prefix pre p" by (rule prefix_same_cases)
        have m: "p \<in> fst ` set ((p, g) # rest)" "pre \<in> fst ` set ((p, g) # rest)"
          using image_eqI [OF _ r, of pre fst] by simp_all
        from d show False
        proof
          assume "prefix p pre"
          then have "p = pre" using "2.prems"(3) m by blast
          then show False using ne(2) by simp
        next
          assume "prefix pre p"
          then have "pre = p" using "2.prems"(3) m by blast
          then show False using ne(2) by simp
        qed
      qed
      then show ?thesis using True ne(1) by (auto simp: prefixed_value_def counter_set split: option.split)
    next
      case False
      have "counter (scan_prefixes line rest acc) f = counter acc f + prefixed_value pre line"
      proof (rule "2.IH" [OF False r])
        show "distinct (map snd rest)" "distinct (map fst rest)" using "2.prems"(2,4) by simp_all
        have "fst ` set rest \<subseteq> fst ` set ((p, g) # rest)" by auto
        then show "\<forall>p \<in> fst ` set rest. \<forall>q \<in> fst ` set rest. prefix p q \<longrightarrow> p = q"
          using "2.prems"(3) by (meson subsetD)
      qed
      then show ?thesis using False by simp
    qed
  qed
qed simp

lemma scan_fold_sum:
  assumes "(pre, f) \<in> set lcov_prefix_map"
  shows "counter (fold (\<lambda>line. scan_prefixes line lcov_prefix_map) lines acc) f = counter acc f + prefixed_sum pre lines"
proof (induction lines arbitrary: acc)
  case (Cons l lines)
  have "counter (scan_prefixes l lcov_prefix_map acc) f = counter acc f + prefixed_value pre l"
    by (rule scan_prefixes_sum [OF assms]) (simp_all add: lcov_prefix_map_def)
  then show ?case using Cons by (simp add: prefixed_sum_def)
qed (simp add: prefixed_sum_def)

text \<open>The six totals are the sums of the numbers after their prefixes; no line, however malformed, fails.\<close>

theorem scan_totals_exact:
  "lcov_scan decode max_bytes answer =
     rbind (open_capped answer (case max_bytes of None \<Rightarrow> lcov_max_bytes | Some n \<Rightarrow> n)) (\<lambda>body.
       Ok (let ls = py_splitlines (decode body) in
           \<lparr>lines_found = prefixed_sum ''LF:'' ls, lines_hit = prefixed_sum ''LH:'' ls,
            functions_found = prefixed_sum ''FNF:'' ls, functions_hit = prefixed_sum ''FNH:'' ls,
            branches_found = prefixed_sum ''BRF:'' ls, branches_hit = prefixed_sum ''BRH:'' ls\<rparr>))"
proof -
  let ?z = "map (\<lambda>(_, f). (f, 0 :: int)) lcov_prefix_map"
  have z: "counter ?z f = 0" for f by (auto simp: counter_def lcov_prefix_map_def)
  have s: "counter (fold (\<lambda>line. scan_prefixes line lcov_prefix_map) ls ?z) f = prefixed_sum pre ls"
    if "(pre, f) \<in> set lcov_prefix_map" for pre f ls
    using scan_fold_sum [OF that, of ls ?z] by (simp only: z add_0)
  have m: "(''LF:'', ''lines_found'') \<in> set lcov_prefix_map" "(''LH:'', ''lines_hit'') \<in> set lcov_prefix_map"
    "(''FNF:'', ''functions_found'') \<in> set lcov_prefix_map" "(''FNH:'', ''functions_hit'') \<in> set lcov_prefix_map"
    "(''BRF:'', ''branches_found'') \<in> set lcov_prefix_map" "(''BRH:'', ''branches_hit'') \<in> set lcov_prefix_map"
    by (simp_all add: lcov_prefix_map_def)
  show ?thesis unfolding lcov_scan_def Let_def s [OF m(1)] s [OF m(2)] s [OF m(3)] s [OF m(4)] s [OF m(5)] s [OF m(6)] ..
qed

text \<open>A row may carry a checksum after the hits; \<open>int\<close> refuses it and the whole file.\<close>

lemma checksum_row_refused: "lcov_line ''DA:1,2,9f8e'' st = Err (Malformed_da ''DA:1,2,9f8e'')"
proof -
  have "py_partition (CHR '','') ''1,2,9f8e'' = (''1'', ''2,9f8e'')" "py_int ''2,9f8e'' = None" by code_simp+
  then show ?thesis by (simp add: lcov_line_def Let_def split: option.split)
qed

end
