(* ===== verification/Example_Store.thy ===== *)
theory Example_Store
  imports Complex_Main Json Plan_Proposal
begin

text \<open>
  The store of solved examples: \<open>rag/store.py\<close>, \<open>rag/ingest.py\<close> and the models they use. The state is the
  directory \<open>records\<close>, the file \<open>manifest.yaml\<close>, the roster in memory and the vector database, which is a third
  party's: its state \<open>'c\<close> and its operations are parameters, and so are YAML, the JSON of an example,
  pydantic's validation and BLAKE3. A write of a file is atomic, as the code arranges it, and may fail; the
  exceptions of the system and of the database carry a text.
\<close>

section \<open>Records\<close>

record record_provenance =
  rp_workflow_id :: string
  rp_event_chain_head :: string
  rp_created_at :: int
  rp_signing_method :: string

record 'p full_example =
  fe_id :: string
  fe_task_class :: string
  fe_language :: string
  fe_build_system :: string
  fe_cve_id :: string
  fe_advisory_digest :: string
  fe_plan_kind :: string
  fe_plan_proposal :: 'p
  fe_transform_digest :: string
  fe_trust_outcome_digest :: string
  fe_provenance :: record_provenance
  fe_origin :: string
  fe_embedding_model :: string
  fe_embedding_vector :: "rat list"
  fe_created_at :: int

record write_capability =
  wc_workflow_id :: string

record store_manifest =
  sm_records :: "string list"
  sm_chain_head :: string

datatype store_error =
    Store_closed
  | Store_corrupted string
  | Store_write_contention string
  | Record_id_error string
  | System_error string
  | Chroma_error string
  | Type_error string

record store_files =
  sf_records :: "(string, string) dict"
  sf_manifest :: "string option"

record query_result =
  qr_ids :: "string list list"
  qr_distances :: "rat list list"
  qr_metadatas :: "json list list"

record 'c chroma_ops =
  ch_get_or_create :: "string \<Rightarrow> 'c \<Rightarrow> string + 'c"
  ch_exists :: "string \<Rightarrow> 'c \<Rightarrow> bool"
  ch_add :: "string \<Rightarrow> string \<Rightarrow> rat list \<Rightarrow> (string \<times> string) list \<Rightarrow> 'c \<Rightarrow> string + 'c"
  ch_query :: "string \<Rightarrow> rat list \<Rightarrow> nat \<Rightarrow> 'c \<Rightarrow> string + query_result"

record 'c example_store =
  st_open :: bool
  st_collections :: "string list"
  st_record_ids :: "string list"
  st_files :: store_files
  st_chroma :: 'c

record store_lib =
  sl_blake3 :: "string \<Rightarrow> string"
  sl_yaml_example :: "plan_proposal full_example \<Rightarrow> string"
  sl_yaml_manifest :: "store_manifest \<Rightarrow> string"
  sl_yaml_load :: "string \<Rightarrow> json option"
  sl_validate_manifest :: "json \<Rightarrow> store_manifest option"
  sl_example_json :: "plan_proposal full_example \<Rightarrow> string"
  sl_validate_example :: "string \<Rightarrow> plan_proposal full_example option"

section \<open>Helpers\<close>

definition collection_name :: "string \<Rightarrow> string \<Rightarrow> string \<Rightarrow> string" where
  "collection_name task_class language build_system = task_class @ ''__'' @ language @ ''__'' @ build_system"

definition roll_chain_head :: "store_lib \<Rightarrow> string list \<Rightarrow> string" where
  "roll_chain_head lib blobs = sl_blake3 lib (concat blobs)"

definition read_record :: "store_files \<Rightarrow> string \<Rightarrow> store_error + string" where
  "read_record fs rid = (case dict_get (sf_records fs) rid of
     None \<Rightarrow> Err (Store_corrupted (''manifest references missing record: '' @ rid)) | Some b \<Rightarrow> Ok b)"

fun read_all :: "store_files \<Rightarrow> string list \<Rightarrow> store_error + string list" where
  "read_all fs [] = Ok []"
| "read_all fs (rid # rids) = rbind (read_record fs rid) (\<lambda>b. rbind (read_all fs rids) (\<lambda>bs. Ok (b # bs)))"

definition compute_chain_head :: "store_lib \<Rightarrow> string list \<Rightarrow> store_files \<Rightarrow> store_error + string" where
  "compute_chain_head lib record_ids fs = rbind (read_all fs record_ids) (\<lambda>bs. Ok (roll_chain_head lib bs))"

definition validate_record_id :: "string \<Rightarrow> store_error + unit" where
  "validate_record_id record_id =
     (if record_id = [] then Err (Record_id_error ''SolvedExample.id must be non-empty'')
      else if prefix ''.'' record_id then Err (Record_id_error (''SolvedExample.id may not begin with '' @ py_repr ''.''))
      else if py_in ''..'' record_id then Err (Record_id_error (''SolvedExample.id may not contain '' @ py_repr ''..''))
      else if list_ex (\<lambda>c. c \<in> set record_id) [CHR ''/'', CHR 0x5C, CHR 0x00]
      then Err (Record_id_error ''SolvedExample.id may not contain a separator'')
      else Ok ())"

text \<open>\<open>parsed.get("schema_version") != 1\<close>: a true boolean and the float one are equal to the integer.\<close>

fun equals_one :: "json \<Rightarrow> bool" where
  "equals_one (JInt i) = (i = 1)"
| "equals_one (JBool b) = b"
| "equals_one (JFloat r) = (r = ''1.0'')"
| "equals_one _ = False"

definition parse_manifest :: "store_lib \<Rightarrow> string \<Rightarrow> store_error + store_manifest" where
  "parse_manifest lib raw_text =
     (case sl_yaml_load lib raw_text of
        None \<Rightarrow> Err (Store_corrupted ''manifest.yaml is not valid YAML'')
      | Some (JObj kvs) \<Rightarrow>
          (if \<not> (\<exists>v \<in> set_option (map_of kvs ''schema_version''). equals_one v)
           then Err (Store_corrupted ''unknown manifest schema_version'')
           else case sl_validate_manifest lib (JObj kvs) of
             None \<Rightarrow> Err (Store_corrupted ''manifest.yaml is malformed'')
           | Some m \<Rightarrow> Ok m)
      | Some _ \<Rightarrow> Err (Store_corrupted ''manifest.yaml must be a mapping at the top level''))"

definition metadata_from_example :: "store_lib \<Rightarrow> plan_proposal full_example \<Rightarrow> (string \<times> string) list" where
  "metadata_from_example lib ex =
     [(''task_class'', fe_task_class ex), (''language'', fe_language ex), (''build_system'', fe_build_system ex),
      (''embedding_model'', fe_embedding_model ex), (''event_chain_head'', rp_event_chain_head (fe_provenance ex)),
      (''example_json'', sl_example_json lib ex)]"

section \<open>Opening, reading, closing\<close>

definition load_record_ids :: "store_lib \<Rightarrow> store_files \<Rightarrow> store_error + string list" where
  "load_record_ids lib fs =
     (case sf_manifest fs of
        None \<Rightarrow> Ok []
      | Some raw_text \<Rightarrow>
          rbind (parse_manifest lib raw_text) (\<lambda>m.
          rbind (compute_chain_head lib (sm_records m) fs) (\<lambda>_. Ok (sm_records m))))"

definition open_store :: "store_lib \<Rightarrow> store_files \<Rightarrow> 'c \<Rightarrow> store_error + 'c example_store" where
  "open_store lib fs c =
     rbind (load_record_ids lib fs) (\<lambda>ids.
       Ok \<lparr>st_open = True, st_collections = [], st_record_ids = ids, st_files = fs, st_chroma = c\<rparr>)"

definition store_contains :: "'c example_store \<Rightarrow> string \<Rightarrow> bool" where
  "store_contains st sid = (if \<not> st_open st then False else sid \<in> set (st_record_ids st))"

definition store_digest :: "store_lib \<Rightarrow> 'c example_store \<Rightarrow> store_error + string" where
  "store_digest lib st = compute_chain_head lib (st_record_ids st) (st_files st)"

definition store_close :: "'c example_store \<Rightarrow> 'c example_store" where
  "store_close st = st\<lparr>st_open := False, st_collections := []\<rparr>"

section \<open>Adding\<close>

text \<open>What goes wrong outside: the lock is not had in time, or a file cannot be written.\<close>

record add_faults =
  af_lock_timeout :: bool
  af_yaml_write :: "string option"
  af_manifest_write :: "string option"

definition get_collection ::
  "'c chroma_ops \<Rightarrow> string \<Rightarrow> 'c example_store \<Rightarrow> 'c example_store \<times> (store_error + unit)" where
  "get_collection co name st =
     (if name \<in> set (st_collections st) then (st, Ok ())
      else case ch_get_or_create co name (st_chroma st) of
        Inl e \<Rightarrow> (st, Err (Chroma_error e))
      | Inr c \<Rightarrow> (st\<lparr>st_chroma := c, st_collections := name # st_collections st\<rparr>, Ok ()))"

definition write_yaml :: "store_lib \<Rightarrow> plan_proposal full_example \<Rightarrow> 'c example_store \<Rightarrow> 'c example_store" where
  "write_yaml lib ex st =
     st\<lparr>st_files := (st_files st)\<lparr>sf_records := dict_set (fe_id ex) (sl_yaml_example lib ex) (sf_records (st_files st))\<rparr>\<rparr>"

definition roll_manifest ::
  "store_lib \<Rightarrow> add_faults \<Rightarrow> string \<Rightarrow> 'c example_store \<Rightarrow> 'c example_store \<times> (store_error + string)" where
  "roll_manifest lib fl rid st0 =
     (let st = st0\<lparr>st_record_ids := st_record_ids st0 @ [rid]\<rparr> in
      case compute_chain_head lib (st_record_ids st) (st_files st) of
        Inl e \<Rightarrow> (st, Err e)
      | Inr head \<Rightarrow>
          (case af_manifest_write fl of
             Some e \<Rightarrow> (st, Err (System_error e))
           | None \<Rightarrow>
               (st\<lparr>st_files := (st_files st)\<lparr>sf_manifest :=
                  Some (sl_yaml_manifest lib \<lparr>sm_records = st_record_ids st, sm_chain_head = head\<rparr>)\<rparr>\<rparr>, Ok rid)))"

definition store_add ::
  "store_lib \<Rightarrow> 'c chroma_ops \<Rightarrow> add_faults \<Rightarrow> plan_proposal full_example \<Rightarrow> write_capability \<Rightarrow> 'c example_store
     \<Rightarrow> 'c example_store \<times> (store_error + string)" where
  "store_add lib co fl ex cap st =
     (if \<not> st_open st then (st, Err Store_closed)
      else case validate_record_id (fe_id ex) of
        Inl e \<Rightarrow> (st, Err e)
      | Inr _ \<Rightarrow>
          if af_lock_timeout fl then (st, Err (Store_write_contention (wc_workflow_id cap)))
          else case af_yaml_write fl of
            Some e \<Rightarrow> (st, Err (System_error e))
          | None \<Rightarrow>
              let st1 = write_yaml lib ex st;
                  name = collection_name (fe_task_class ex) (fe_language ex) (fe_build_system ex) in
              (case get_collection co name st1 of
                 (st2, Inl e) \<Rightarrow> (st2, Err e)
               | (st2, Inr _) \<Rightarrow>
                   (case ch_add co name (fe_id ex) (fe_embedding_vector ex) (metadata_from_example lib ex) (st_chroma st2) of
                      Inl e \<Rightarrow> (st2, Err (Chroma_error e))
                    | Inr c \<Rightarrow> roll_manifest lib fl (fe_id ex) (st2\<lparr>st_chroma := c\<rparr>))))"

section \<open>Querying\<close>

definition existing_collection :: "'c chroma_ops \<Rightarrow> string \<Rightarrow> 'c example_store \<Rightarrow> bool \<times> 'c example_store" where
  "existing_collection co name st =
     (if name \<in> set (st_collections st) then (True, st)
      else if ch_exists co name (st_chroma st) then (True, st\<lparr>st_collections := name # st_collections st\<rparr>)
      else (False, st))"

fun rehydrate :: "store_lib \<Rightarrow> json option \<Rightarrow> plan_proposal full_example option" where
  "rehydrate lib (Some (JObj kvs)) =
     (case map_of kvs ''example_json'' of Some (JStr payload) \<Rightarrow> sl_validate_example lib payload | _ \<Rightarrow> None)"
| "rehydrate lib _ = None"

definition similarity :: "rat \<Rightarrow> rat" where
  "similarity distance = max (- 1) (min 1 (1 - distance))"

text \<open>The loop over the ranks: an id without a distance is left out, and so is a record that cannot be read.\<close>

fun score_rows ::
  "store_lib \<Rightarrow> string list \<Rightarrow> rat list \<Rightarrow> json list \<Rightarrow> (plan_proposal full_example \<times> rat) list" where
  "score_rows lib [] ds ms = []"
| "score_rows lib (i # is) [] ms = []"
| "score_rows lib (i # is) (d # ds) ms =
     (case rehydrate lib (case ms of [] \<Rightarrow> None | m # _ \<Rightarrow> Some m) of
        None \<Rightarrow> score_rows lib is ds (tl ms)
      | Some r \<Rightarrow> (r, similarity d) # score_rows lib is ds (tl ms))"

definition first_page :: "'a list list \<Rightarrow> 'a list" where
  "first_page pages = (case pages of [] \<Rightarrow> [] | p # _ \<Rightarrow> p)"

definition query_candidates ::
  "store_lib \<Rightarrow> 'c chroma_ops \<Rightarrow> string \<Rightarrow> rat list \<Rightarrow> nat \<Rightarrow> 'c example_store
     \<Rightarrow> 'c example_store \<times> (store_error + (plan_proposal full_example \<times> rat) list)" where
  "query_candidates lib co name embedding top_k st =
     (if \<not> st_open st then (st, Err Store_closed)
      else case existing_collection co name st of
        (False, st') \<Rightarrow> (st', Ok [])
      | (True, st') \<Rightarrow>
          (case ch_query co name embedding top_k (st_chroma st') of
             Inl e \<Rightarrow> (st', Err (Chroma_error e))
           | Inr r \<Rightarrow>
               (st', Ok (if first_page (qr_ids r) = [] then []
                         else score_rows lib (first_page (qr_ids r)) (first_page (qr_distances r))
                                (first_page (qr_metadatas r))))))"

section \<open>The invariant of the store\<close>

lemma read_all_other: "rid \<notin> set rids \<Longrightarrow> read_all (fs\<lparr>sf_records := dict_set rid b (sf_records fs)\<rparr>) rids = read_all fs rids"
  by (induction rids) (auto simp: read_record_def dict_simps)

lemma read_all_manifest: "read_all (fs\<lparr>sf_manifest := m\<rparr>) rids = read_all fs rids"
  by (induction rids) (simp_all add: read_record_def)

lemma read_all_Ok: "set rids \<subseteq> set (dict_keys (sf_records fs)) \<Longrightarrow> \<exists>bs. read_all fs rids = Ok bs"
proof (induction rids)
  case (Cons rid rids)
  then obtain b where "dict_get (sf_records fs) rid = Some b"
    by (cases "dict_get (sf_records fs) rid") (auto simp: map_of_eq_None_iff)
  with Cons show ?case by (auto simp: read_record_def)
qed simp

definition manifest_round_trip :: "store_lib \<Rightarrow> bool" where
  "manifest_round_trip lib \<longleftrightarrow> (\<forall>m. parse_manifest lib (sl_yaml_manifest lib m) = Ok m)"

text \<open>What the files promise: the manifest can be read, its records are there, and its chain head is theirs.\<close>

definition disk_ids :: "store_lib \<Rightarrow> store_files \<Rightarrow> string list \<Rightarrow> bool" where
  "disk_ids lib fs ids \<longleftrightarrow>
     (case sf_manifest fs of
        None \<Rightarrow> ids = []
      | Some t \<Rightarrow> (\<exists>h. parse_manifest lib t = Ok \<lparr>sm_records = ids, sm_chain_head = h\<rparr> \<and> compute_chain_head lib ids fs = Ok h))"

definition store_ok :: "store_lib \<Rightarrow> 'c example_store \<Rightarrow> bool" where
  "store_ok lib st \<longleftrightarrow> distinct (st_record_ids st) \<and> set (st_record_ids st) \<subseteq> set (dict_keys (sf_records (st_files st))) \<and>
     (\<exists>ids. disk_ids lib (st_files st) ids \<and> prefix ids (st_record_ids st))"

lemma get_collection_keeps:
  "get_collection co name st = (st', r) \<Longrightarrow>
     st_files st' = st_files st \<and> st_record_ids st' = st_record_ids st \<and> st_open st' = st_open st"
  by (auto simp: get_collection_def split: if_splits sum.splits)

lemma write_yaml_ok:
  assumes "store_ok lib st" "fe_id ex \<notin> set (st_record_ids st)"
  shows "store_ok lib (write_yaml lib ex st)" "fe_id ex \<in> set (dict_keys (sf_records (st_files (write_yaml lib ex st))))"
    "st_record_ids (write_yaml lib ex st) = st_record_ids st" "st_open (write_yaml lib ex st) = st_open st"
proof -
  obtain ids where ids: "disk_ids lib (st_files st) ids" "prefix ids (st_record_ids st)"
    using assms(1) by (auto simp: store_ok_def)
  have "fe_id ex \<notin> set ids" using ids(2) assms(2) by (auto simp: prefix_def)
  then have "disk_ids lib (st_files (write_yaml lib ex st)) ids"
    using ids(1) by (auto simp: disk_ids_def write_yaml_def compute_chain_head_def read_all_other split: option.splits)
  moreover have k: "set (dict_keys (sf_records (st_files (write_yaml lib ex st)))) =
      insert (fe_id ex) (set (dict_keys (sf_records (st_files st))))"
    using dict_keys_set [of "fe_id ex" "sl_yaml_example lib ex" "sf_records (st_files st)"] by (simp add: write_yaml_def)
  moreover show i: "st_record_ids (write_yaml lib ex st) = st_record_ids st" by (simp add: write_yaml_def)
  ultimately show "store_ok lib (write_yaml lib ex st)"
    using assms(1) ids(2) unfolding store_ok_def k i by blast
  show "fe_id ex \<in> set (dict_keys (sf_records (st_files (write_yaml lib ex st))))" unfolding k by simp
qed (simp add: write_yaml_def)

lemma roll_manifest_ok:
  assumes "store_ok lib st" "rid \<notin> set (st_record_ids st)" "rid \<in> set (dict_keys (sf_records (st_files st)))"
    and "manifest_round_trip lib" "roll_manifest lib fl rid st = (st', r)"
  shows "store_ok lib st' \<and> st_record_ids st' = st_record_ids st @ [rid] \<and> st_open st' = st_open st
    \<and> (\<forall>sid. r = Ok sid \<longrightarrow> sid = rid \<and> disk_ids lib (st_files st') (st_record_ids st'))"
proof -
  let ?st = "st\<lparr>st_record_ids := st_record_ids st @ [rid]\<rparr>"
  obtain ids where ids: "disk_ids lib (st_files st) ids" "prefix ids (st_record_ids st)"
    using assms(1) by (auto simp: store_ok_def)
  have sub: "set (st_record_ids st @ [rid]) \<subseteq> set (dict_keys (sf_records (st_files st)))"
    using assms(1,3) by (auto simp: store_ok_def)
  then obtain bs where bs: "read_all (st_files st) (st_record_ids st @ [rid]) = Ok bs" using read_all_Ok by blast
  then have head: "compute_chain_head lib (st_record_ids ?st) (st_files ?st) = Ok (roll_chain_head lib bs)"
    by (simp add: compute_chain_head_def)
  have base: "store_ok lib ?st"
    using assms(1,2) ids sub by (auto simp: store_ok_def intro: prefix_prefix)
  show ?thesis
  proof (cases "af_manifest_write fl")
    case (Some e)
    then show ?thesis using assms(5) base head by (auto simp: roll_manifest_def)
  next
    case None
    let ?m = "\<lparr>sm_records = st_record_ids ?st, sm_chain_head = roll_chain_head lib bs\<rparr>"
    let ?st2 = "?st\<lparr>st_files := (st_files ?st)\<lparr>sf_manifest := Some (sl_yaml_manifest lib ?m)\<rparr>\<rparr>"
    have e: "st' = ?st2" "r = Ok rid" using assms(5) head None by (auto simp: roll_manifest_def Let_def)
    have "disk_ids lib (st_files ?st2) (st_record_ids ?st2)"
      using assms(4) head by (simp add: disk_ids_def manifest_round_trip_def compute_chain_head_def read_all_manifest)
    moreover have "store_ok lib ?st2" using calculation base by (auto simp: store_ok_def)
    ultimately show ?thesis using e by simp
  qed
qed

lemma store_add_ok:
  assumes "store_ok lib st" "fe_id ex \<notin> set (st_record_ids st)" "manifest_round_trip lib"
    and "store_add lib co fl ex cap st = (st', r)"
  shows "store_ok lib st' \<and> st_open st' = st_open st
    \<and> (st_record_ids st' = st_record_ids st \<or> st_record_ids st' = st_record_ids st @ [fe_id ex])
    \<and> (\<forall>sid. r = Ok sid \<longrightarrow> sid = fe_id ex \<and> st_open st \<and> st_record_ids st' = st_record_ids st @ [fe_id ex])"
proof -
  note w = write_yaml_ok [OF assms(1,2)]
  let ?name = "collection_name (fe_task_class ex) (fe_language ex) (fe_build_system ex)"
  consider (early) "st' = st" "\<forall>sid. r \<noteq> Ok sid"
    | (yaml) st2 where "get_collection co ?name (write_yaml lib ex st) = (st2, Ok ()) \<or> (\<exists>e. get_collection co ?name (write_yaml lib ex st) = (st2, Err e))"
        "st' = st2" "\<forall>sid. r \<noteq> Ok sid"
    | (roll) st2 c where "get_collection co ?name (write_yaml lib ex st) = (st2, Ok ())" "st_open st"
        "roll_manifest lib fl (fe_id ex) (st2\<lparr>st_chroma := c\<rparr>) = (st', r)"
    using assms(4) by (auto simp: store_add_def Let_def split: if_splits sum.splits option.splits prod.splits)
  then show ?thesis
  proof cases
    case early
    then show ?thesis using assms(1) by auto
  next
    case yaml
    then have "st_files st2 = st_files (write_yaml lib ex st)" "st_record_ids st2 = st_record_ids (write_yaml lib ex st)"
      "st_open st2 = st_open (write_yaml lib ex st)" using get_collection_keeps by blast+
    then show ?thesis using yaml w by (auto simp: store_ok_def)
  next
    case roll
    let ?s = "st2\<lparr>st_chroma := c\<rparr>"
    have k: "st_files ?s = st_files (write_yaml lib ex st)" "st_record_ids ?s = st_record_ids st" "st_open ?s = st_open st"
      using get_collection_keeps [OF roll(1)] w by simp_all
    have "store_ok lib ?s" using w(1) k w(3) by (simp add: store_ok_def)
    from roll_manifest_ok [OF this _ _ assms(3) roll(3)] show ?thesis
      using assms(2) w(2) k roll(2) by auto
  qed
qed

lemma open_after:
  assumes "store_ok lib st"
  shows "\<exists>st2. open_store lib (st_files st) c = Ok st2 \<and> store_ok lib st2 \<and> prefix (st_record_ids st2) (st_record_ids st)
    \<and> st_files st2 = st_files st \<and> disk_ids lib (st_files st) (st_record_ids st2)"
proof -
  obtain ids where ids: "disk_ids lib (st_files st) ids" "prefix ids (st_record_ids st)"
    using assms by (auto simp: store_ok_def)
  have "load_record_ids lib (st_files st) = Ok ids"
    using ids(1) by (auto simp: disk_ids_def load_record_ids_def split: option.splits)
  then have "open_store lib (st_files st) c =
      Ok \<lparr>st_open = True, st_collections = [], st_record_ids = ids, st_files = st_files st, st_chroma = c\<rparr>"
    by (simp add: open_store_def)
  moreover have "distinct ids" "set ids \<subseteq> set (dict_keys (sf_records (st_files st)))"
    using assms ids(2) by (auto simp: store_ok_def prefix_def)
  ultimately show ?thesis using ids by (auto simp: store_ok_def)
qed

section \<open>What opening and adding do not check\<close>

text \<open>The chain head of the manifest is never compared with the records: any head is accepted.\<close>

lemma opens_with_any_head:
  assumes "sf_manifest fs = Some t" "parse_manifest lib t = Ok \<lparr>sm_records = ids, sm_chain_head = h\<rparr>" "read_all fs ids = Ok bs"
  shows "\<exists>st. open_store lib fs c = Ok st \<and> store_digest lib st = Ok (roll_chain_head lib bs)"
  using assms by (simp add: open_store_def load_record_ids_def compute_chain_head_def store_digest_def)

text \<open>\<open>add\<close> does not look whether the record is there: two writers that both passed \<open>contains\<close> list it twice.\<close>

lemma add_twice_duplicates:
  assumes "store_add lib co fl ex cap st = (st1, Ok a)" "store_add lib co fl ex cap st1 = (st2, Ok b)"
  shows "st_record_ids st2 = st_record_ids st @ [fe_id ex, fe_id ex]"
proof -
  have roll: "st_record_ids s' = st_record_ids s @ [rid]" if "roll_manifest lib fl rid s = (s', r)" for rid s s' r
    using that by (auto simp: roll_manifest_def Let_def split: sum.splits option.splits)
  have add: "st_record_ids s' = st_record_ids s @ [fe_id ex]" if a: "store_add lib co fl ex cap s = (s', Ok x)" for s s' x
  proof -
    obtain name s2 c where g: "get_collection co name (write_yaml lib ex s) = (s2, Ok ())"
      and m: "roll_manifest lib fl (fe_id ex) (s2\<lparr>st_chroma := c\<rparr>) = (s', Ok x)"
      using a by (auto simp: store_add_def Let_def split: if_splits sum.splits option.splits prod.splits)
    have "st_record_ids s2 = st_record_ids s" using get_collection_keeps [OF g] by (simp add: write_yaml_def)
    then show ?thesis using roll [OF m] by simp
  qed
  show ?thesis using add [OF assms(1)] add [OF assms(2)] by simp
qed

end
