(* ===== verification/Fallback_Tier.thy ===== *)
theory Fallback_Tier
  imports Identifiers Example_Store Trust Emission
begin

text \<open>
  The fallback tier: \<open>fallback/tier.py\<close> with its outcomes (\<open>plan_outcome.py\<close>), its post-validation context,
  the attempt anchor and its writer (\<open>attempt_anchor.py\<close>, \<open>anchor_writer.py\<close>), the provenance gate
  (\<open>provenance_gate.py\<close>) and the writer of solved examples (\<open>rag/ingest.py\<close>). \<open>run\<close> is the placeholder of the
  source, which refuses. The embedder, the dump of a model and the date of an instant are parameters; a time
  is in microseconds.
\<close>

section \<open>Outcomes and projections\<close>

datatype plan_reason = Provenance_not_app_layer | Budget_exceeded | Leaf_refused | Leaf_schema_violation

fun plan_reason_str :: "plan_reason \<Rightarrow> string" where
  "plan_reason_str Provenance_not_app_layer = ''PROVENANCE_NOT_APP_LAYER''"
| "plan_reason_str Budget_exceeded = ''BUDGET_EXCEEDED''"
| "plan_reason_str Leaf_refused = ''LEAF_REFUSED''"
| "plan_reason_str Leaf_schema_violation = ''LEAF_SCHEMA_VIOLATION''"

datatype plan_outcome =
    Applied_from_recipe string
  | Applied_from_llm string "string option" string
  | Rag_only_applicable string
  | Refused plan_reason

fun outcome_kind :: "plan_outcome \<Rightarrow> plan_outcome_kind" where
  "outcome_kind (Applied_from_recipe _) = pok_recipe"
| "outcome_kind (Applied_from_llm _ _ _) = pok_llm"
| "outcome_kind (Rag_only_applicable _) = pok_rag_only"
| "outcome_kind (Refused _) = pok_refused"

fun emitted_kind :: "plan_outcome \<Rightarrow> emitted_outcome_kind" where
  "emitted_kind (Applied_from_recipe _) = eok_recipe"
| "emitted_kind (Applied_from_llm _ _ _) = eok_llm"
| "emitted_kind (Rag_only_applicable _) = eok_rag_only"
| "emitted_kind (Refused _) = eok_refused"

fun harvest_eligibility :: "plan_outcome \<Rightarrow> bool" where
  "harvest_eligibility (Applied_from_llm _ _ _) = True"
| "harvest_eligibility (Applied_from_recipe _) = False"
| "harvest_eligibility (Rag_only_applicable _) = False"
| "harvest_eligibility (Refused _) = False"

definition skip_reason_for :: "trust_outcome \<Rightarrow> harvest_skip_reason" where
  "skip_reason_for trust = (if \<not> to_passed trust then hsr_trust_failed else hsr_low_confidence)"

fun transform_from_plan :: "plan_proposal \<Rightarrow> plan_kind" where
  "transform_from_plan (Dep_bump _ _ _ _) = plan_dep_bump"
| "transform_from_plan (Override _ _ _ _) = plan_override"
| "transform_from_plan (Callsite_rewrite _ _ _ _) = plan_callsite_rewrite"
| "transform_from_plan (Refuse _ _) = plan_refuse"

record attempt_summary =
  as_attempt :: int
  as_failing_signals :: "string list"

definition select_retry_summary :: "attempt_summary list \<Rightarrow> attempt_summary option" where
  "select_retry_summary prior_attempts = (if length prior_attempts > 0 then Some (last prior_attempts) else None)"

section \<open>Solved examples\<close>

record post_validation_context =
  pc_workflow_id :: string
  pc_chain_head :: string
  pc_advisory_digest :: string
  pc_cve_id :: string
  pc_task_class :: string
  pc_language :: string
  pc_build_system :: string
  pc_transform_digest :: string
  pc_trust_outcome_digest :: string
  pc_query_text :: string
  pc_plan_proposal :: plan_proposal

record validated_plan_outcome = post_validation_context +
  vo_response_id :: string

definition validated_outcome_from :: "string \<Rightarrow> post_validation_context \<Rightarrow> validated_plan_outcome" where
  "validated_outcome_from response_id context =
     post_validation_context.extend context \<lparr>vo_response_id = response_id\<rparr>"

definition canonical_identity_bytes :: "validated_plan_outcome \<Rightarrow> string \<Rightarrow> string" where
  "canonical_identity_bytes outcome embedding_model =
     json_dumps (JObj [(''cve_id'', JStr (pc_cve_id outcome)), (''advisory_digest'', JStr (pc_advisory_digest outcome)),
       (''transform_digest'', JStr (pc_transform_digest outcome)),
       (''trust_outcome_digest'', JStr (pc_trust_outcome_digest outcome)), (''embedding_model'', JStr embedding_model)])"

definition solved_example_id_for :: "store_lib \<Rightarrow> validated_plan_outcome \<Rightarrow> string \<Rightarrow> string" where
  "solved_example_id_for lib outcome embedding_model = sl_blake3 lib (canonical_identity_bytes outcome embedding_model)"

definition solved_example_from_outcome ::
  "store_lib \<Rightarrow> validated_plan_outcome \<Rightarrow> string \<Rightarrow> rat list \<Rightarrow> write_capability \<Rightarrow> int \<Rightarrow> store_error + plan_proposal full_example" where
  "solved_example_from_outcome lib outcome embedding_model vector cap now =
     (let plan_kind = transform_from_plan (pc_plan_proposal outcome) in
      if plan_kind = plan_refuse then Err (Type_error ''refused plans are not harvestable as solved examples'')
      else Ok \<lparr>fe_id = solved_example_id_for lib outcome embedding_model, fe_task_class = pc_task_class outcome,
        fe_language = pc_language outcome, fe_build_system = pc_build_system outcome, fe_cve_id = pc_cve_id outcome,
        fe_advisory_digest = pc_advisory_digest outcome, fe_plan_kind = plan_kind_str plan_kind,
        fe_plan_proposal = pc_plan_proposal outcome, fe_transform_digest = pc_transform_digest outcome,
        fe_trust_outcome_digest = pc_trust_outcome_digest outcome,
        fe_provenance = \<lparr>rp_workflow_id = wc_workflow_id cap, rp_event_chain_head = pc_chain_head outcome,
          rp_created_at = now, rp_signing_method = ''hmac_sha256_chain''\<rparr>,
        fe_origin = ''llm_solved'', fe_embedding_model = embedding_model, fe_embedding_vector = vector, fe_created_at = now\<rparr>)"

record embedder =
  em_model_digest :: string
  em_embed :: "string \<Rightarrow> string + rat list"

definition capability_mint :: "string \<Rightarrow> string \<Rightarrow> write_capability" where
  "capability_mint workflow_id chain_head = \<lparr>wc_workflow_id = workflow_id\<rparr>"

definition ingest_solved_example ::
  "store_lib \<Rightarrow> 'c chroma_ops \<Rightarrow> embedder \<Rightarrow> int \<Rightarrow> add_faults \<Rightarrow> validated_plan_outcome \<Rightarrow> write_capability
     \<Rightarrow> 'c example_store \<Rightarrow> 'c example_store \<times> (store_error + string)" where
  "ingest_solved_example lib co em now fl outcome cap st =
     (case em_embed em (pc_query_text outcome) of
        Inl e \<Rightarrow> (st, Err (System_error e))
      | Inr vector \<Rightarrow>
          (case solved_example_from_outcome lib outcome (em_model_digest em) vector cap now of
             Inl e \<Rightarrow> (st, Err e)
           | Inr ex \<Rightarrow> store_add lib co fl ex cap st))"

section \<open>Attempt anchors\<close>

record attempt_anchor =
  aa_attempt_id :: string
  aa_workflow_id :: string
  aa_cve_id :: string
  aa_timestamp :: int
  aa_attempt_index :: int
  aa_plan_proposal_kind :: plan_kind
  aa_validator_outcome :: string
  aa_refusal_reason :: "plan_reason option"
  aa_retrieved_evidence_chain_head :: "string option"
  aa_retrieved_record_ids :: "string list"
  aa_trust_outcome_passed :: "bool option"
  aa_trust_outcome_confidence :: "string option"
  aa_prompt_digest :: "string option"
  aa_response_digest :: "string option"
  aa_tokens_in :: "int option"
  aa_tokens_out :: "int option"
  aa_cost_usd :: "string option"
  aa_extras :: "(string, string) dict"

definition phase_number_rx :: rx where
  "phase_number_rx = RAlt (rlit ''0'') (rseq [RCls (between (CHR ''1'') (CHR ''9'')), RStar (RCls digit)])"

definition extras_key_regex :: pattern where
  "extras_key_regex = compiled ''^phase(?:0|[1-9]~d*)(?:~.(?:0|[1-9]~d*))?~.[a-z][a-z0-9_]*$''
     [rlit ''phase'', phase_number_rx, ropt (rseq [rlit ''.'', phase_number_rx]), rlit ''.'', RCls lower,
      RStar (RCls (\<lambda>c. lower c \<or> digit c \<or> c = CHR ''_''))]"

definition validator_outcomes :: "string list" where
  "validator_outcomes = [''AppliedFromRecipe'', ''AppliedFromLlm'', ''RagOnlyApplicable'', ''Refused'']"

text \<open>The field validators and the cross-field rule; an error names the first that fails.\<close>

definition check_anchor :: "bool \<Rightarrow> attempt_anchor \<Rightarrow> string + attempt_anchor" where
  "check_anchor tz_aware a =
     (if \<not> tz_aware then Err ''timestamp_utc must be tz-aware UTC; got a naive datetime''
      else if aa_attempt_index a < 0 then Err ''attempt_index''
      else if aa_validator_outcome a \<notin> set validator_outcomes then Err ''validator_outcome''
      else if aa_trust_outcome_confidence a \<notin> {None, Some ''low'', Some ''medium'', Some ''high''} then Err ''trust_outcome_confidence''
      else if (\<exists>n \<in> set_option (aa_tokens_in a). n < 0) \<or> (\<exists>n \<in> set_option (aa_tokens_out a). n < 0) then Err ''tokens''
      else if \<not> list_all (\<lambda>k. fullmatch (pat_rx extras_key_regex) k) (dict_keys (aa_extras a)) then Err ''extras key''
      else if aa_validator_outcome a = ''Refused'' \<and> aa_refusal_reason a = None
      then Err (''refusal_reason must be set when validator_outcome == '' @ py_repr ''Refused'')
      else if aa_validator_outcome a \<noteq> ''Refused'' \<and> aa_refusal_reason a \<noteq> None
      then Err (''refusal_reason must be None when validator_outcome != '' @ py_repr ''Refused'')
      else Ok a)"

definition confidence_str :: "trust_confidence \<Rightarrow> string" where
  "confidence_str c = (case c of High \<Rightarrow> ''high'' | Degraded \<Rightarrow> ''degraded'')"

text \<open>\<open>model_copy(update=...)\<close> runs no validator.\<close>

definition attach_trust_outcome :: "attempt_anchor \<Rightarrow> trust_outcome \<Rightarrow> string + attempt_anchor" where
  "attach_trust_outcome a trust =
     (if aa_trust_outcome_passed a \<noteq> None then Err ''trust_outcome already attached''
      else if aa_validator_outcome a = ''Refused'' then Err ''cannot attach trust_outcome to a Refused anchor''
      else Ok (a\<lparr>aa_trust_outcome_passed := Some (to_passed trust),
                 aa_trust_outcome_confidence := Some (confidence_str (to_confidence trust))\<rparr>))"

text \<open>The writer appends one line to the file of the day and the workflow.\<close>

type_synonym anchor_files = "(string \<times> string, string list) dict"

record anchor_lib =
  al_utc_date :: "int \<Rightarrow> string"
  al_dump :: "attempt_anchor \<Rightarrow> json"
  al_dump_json :: "attempt_anchor \<Rightarrow> string"

definition anchor_write :: "anchor_lib \<Rightarrow> attempt_anchor \<Rightarrow> anchor_files \<Rightarrow> anchor_files" where
  "anchor_write al a files =
     (let k = (al_utc_date al (aa_timestamp a), aa_workflow_id a) in
      dict_set k ((case dict_get files k of None \<Rightarrow> [] | Some ls \<Rightarrow> ls) @ [al_dump_json al a]) files)"

section \<open>The tier\<close>

datatype tier_error = Store_failed store_error | Anchor_error string | Event_failed log_error

record 'c fallback_tier =
  ft_lib :: event_lib
  ft_store_lib :: store_lib
  ft_chroma :: "'c chroma_ops"
  ft_embedder :: embedder
  ft_anchor_lib :: anchor_lib
  ft_draws :: "nat \<Rightarrow> event_draw"

type_synonym ('a, 'i, 's) tier_act = "(tier_error, 'a, ('i, 's) event_log) act"

definition tier_say :: "'c fallback_tier \<Rightarrow> 'i sink_ops \<Rightarrow> internal_payload \<Rightarrow> (unit, 'i, 's) tier_act" where
  "tier_say ft io p = say (ft_lib ft) io (ft_draws ft) Event_failed p"

text \<open>\<open>run\<close>: the placeholder refuses; the refusal is logged, anchored and written.\<close>

definition build_refusal_anchor :: "string \<Rightarrow> string \<Rightarrow> string \<Rightarrow> int \<Rightarrow> plan_reason \<Rightarrow> int \<Rightarrow> string + attempt_anchor" where
  "build_refusal_anchor attempt_id workflow_id cve_id now reason attempt_index =
     check_anchor True \<lparr>aa_attempt_id = attempt_id, aa_workflow_id = workflow_id, aa_cve_id = cve_id, aa_timestamp = now,
       aa_attempt_index = attempt_index, aa_plan_proposal_kind = plan_refuse, aa_validator_outcome = ''Refused'',
       aa_refusal_reason = Some reason, aa_retrieved_evidence_chain_head = None, aa_retrieved_record_ids = [],
       aa_trust_outcome_passed = None, aa_trust_outcome_confidence = None, aa_prompt_digest = None,
       aa_response_digest = None, aa_tokens_in = None, aa_tokens_out = None, aa_cost_usd = None, aa_extras = []\<rparr>"

definition outcome_payload :: "plan_outcome \<Rightarrow> json" where
  "outcome_payload oc = JObj (case oc of
       Applied_from_recipe d \<Rightarrow> [(''kind'', JStr ''recipe''), (''recipe_outcome_digest'', JStr d)]
     | Applied_from_llm d few rid \<Rightarrow> [(''kind'', JStr ''llm''), (''recipe_outcome_digest'', JStr d),
         (''few_shot_ref'', opt_str few), (''response_id'', JStr rid)]
     | Rag_only_applicable few \<Rightarrow> [(''kind'', JStr ''rag_only''), (''few_shot_ref'', JStr few)]
     | Refused r \<Rightarrow> [(''kind'', JStr ''refused''), (''reason'', JStr (plan_reason_str r))])"

definition emit_rag_skipped :: "'c fallback_tier \<Rightarrow> 'i sink_ops \<Rightarrow> attempt_summary list \<Rightarrow> (unit, 'i, 's) tier_act" where
  "emit_rag_skipped ft io prior_attempts =
     (case select_retry_summary prior_attempts of
        None \<Rightarrow> return_act ()
      | Some latest \<Rightarrow> tier_say ft io (FallbackEv (RagSkippedOnRetry (int (length prior_attempts)) (as_attempt latest)
                          (as_failing_signals latest))))"

definition tier_run ::
  "'c fallback_tier \<Rightarrow> 'i sink_ops \<Rightarrow> string \<Rightarrow> string \<Rightarrow> int \<Rightarrow> string \<Rightarrow> attempt_summary list \<Rightarrow> anchor_files
     \<Rightarrow> (plan_outcome \<times> anchor_files, 'i, 's) tier_act" where
  "tier_run ft io attempt_id workflow_id now cve_id prior_attempts files =
     andThen (if prior_attempts \<noteq> [] then emit_rag_skipped ft io prior_attempts else return_act ()) (\<lambda>_.
     let outcome = Refused Provenance_not_app_layer in
     andThen (tier_say ft io (FallbackEv (PlanOutcomeEmitted (emitted_kind outcome) (outcome_payload outcome)))) (\<lambda>_.
       case build_refusal_anchor attempt_id workflow_id cve_id now Provenance_not_app_layer (int (length prior_attempts)) of
         Inl e \<Rightarrow> (\<lambda>st. (Err (Anchor_error e), st))
       | Inr anchor \<Rightarrow>
           andThen (tier_say ft io (FallbackEv (AttemptAnchorRecorded attempt_id (al_dump (ft_anchor_lib ft) anchor)))) (\<lambda>_.
             return_act (outcome, anchor_write (ft_anchor_lib ft) anchor files))))"

text \<open>The deferred write of a success anchor.\<close>

definition finalize_success_anchor ::
  "anchor_lib \<Rightarrow> string \<Rightarrow> trust_outcome \<Rightarrow> (string, attempt_anchor) dict \<times> anchor_files
     \<Rightarrow> ((string, attempt_anchor) dict \<times> anchor_files) \<times> (tier_error + unit)" where
  "finalize_success_anchor al attempt_id trust = (\<lambda>(pending, files).
     case dict_get pending attempt_id of
       None \<Rightarrow> ((pending, files), Ok ())
     | Some anchor \<Rightarrow>
         let rest = AList.delete attempt_id pending in
         (case attach_trust_outcome anchor trust of
            Inl e \<Rightarrow> ((rest, files), Err (Anchor_error e))
          | Inr attached \<Rightarrow> ((rest, anchor_write al attached files), Ok ())))"

text \<open>\<open>on_validated\<close> over the store; \<open>now\<close> is the clock of the ingest, \<open>fl\<close> what goes wrong outside.\<close>

definition harvest_skipped :: "harvest_skip_reason \<Rightarrow> plan_outcome \<Rightarrow> internal_payload" where
  "harvest_skipped reason outcome = FallbackEv (HarvestSkipped reason (outcome_kind outcome))"

definition on_validated ::
  "'c fallback_tier \<Rightarrow> 'i sink_ops \<Rightarrow> int \<Rightarrow> add_faults \<Rightarrow> plan_outcome \<Rightarrow> trust_outcome \<Rightarrow> post_validation_context
     \<Rightarrow> 'c example_store \<Rightarrow> ('i, 's) event_log \<times> nat \<Rightarrow> 'c example_store \<times> (tier_error + unit) \<times> (('i, 's) event_log \<times> nat)" where
  "on_validated ft io now fl outcome trust context st lgn =
     (let lib = ft_store_lib ft; em = ft_embedder ft in
      if \<not> harvest_eligibility outcome
      then (st, tier_say ft io (harvest_skipped hsr_outcome_not_harvestable outcome) lgn)
      else if \<not> gate_passes trust
      then (st, tier_say ft io (harvest_skipped (skip_reason_for trust) outcome) lgn)
      else (case outcome of
        Applied_from_llm _ _ response_id \<Rightarrow>
          let validated = validated_outcome_from response_id context;
              sid_candidate = solved_example_id_for lib validated (em_model_digest em) in
          if store_contains st sid_candidate
          then (st, tier_say ft io (harvest_skipped hsr_already_harvested outcome) lgn)
          else (case ingest_solved_example lib (ft_chroma ft) em now fl validated
                       (capability_mint (pc_workflow_id context) (pc_chain_head context)) st of
                  (st', Inl e) \<Rightarrow> (st', Err (Store_failed e), lgn)
                | (st', Inr actual_sid) \<Rightarrow>
                    (st', tier_say ft io (HarvestEv (SolvedExampleHarvested actual_sid (em_model_digest em)
                                            (pc_chain_head context))) lgn))
      | _ \<Rightarrow> (st, Ok (), lgn)))"

section \<open>The provenance gate\<close>

definition app_layer_provenance_kinds :: "provenance_kind list" where
  "app_layer_provenance_kinds = [prov_app_direct, prov_app_transitive, prov_app_vendored, prov_both]"

definition is_app_layer :: "provenance_kind \<Rightarrow> bool" where
  "is_app_layer k \<longleftrightarrow> k \<in> set app_layer_provenance_kinds"

text \<open>What the classifier does: a provenance with its kind, a \<open>ProvenanceError\<close>, or another exception.\<close>

datatype 'v classifier_answer = Classified provenance_kind 'v | Provenance_error string | Classifier_raised string

datatype 'v provenance = Classified_as provenance_kind 'v | Unknown_provenance string

fun provenance_kind_of :: "'v provenance \<Rightarrow> provenance_kind" where
  "provenance_kind_of (Classified_as k _) = k"
| "provenance_kind_of (Unknown_provenance _) = prov_unknown"

definition gate_classify ::
  "event_lib \<Rightarrow> 'i sink_ops \<Rightarrow> (nat \<Rightarrow> event_draw) \<Rightarrow> 'v classifier_answer \<Rightarrow> (string, 'v provenance, ('i, 's) event_log) act" where
  "gate_classify lib io ds answer =
     (case answer of
        Classifier_raised e \<Rightarrow> (\<lambda>st. (Err e, st))
      | Classified k v \<Rightarrow>
          andThen (say lib io ds (\<lambda>_. ''EventLogError'') (ProvenanceEv (ProvenanceClassified k None))) (\<lambda>_.
            return_act (Classified_as k v))
      | Provenance_error message \<Rightarrow>
          andThen (say lib io ds (\<lambda>_. ''EventLogError'')
                    (ProvenanceEv (ProvenanceClassified prov_unknown (Some message)))) (\<lambda>_.
            return_act (Unknown_provenance message)))"

section \<open>JSON texts of different strings differ\<close>

definition hex_value :: "char \<Rightarrow> nat" where
  "hex_value c = (if of_char c < (58 :: nat) then of_char c - 48 else of_char c - 87)"

lemma hex_value_char: "d < 16 \<Longrightarrow> hex_value (hex_char d) = d"
  by (simp add: hex_value_def hex_char_def)

text \<open>Reading one character of a JSON text back.\<close>

definition json_unchar :: "string \<Rightarrow> (char \<times> string) option" where
  "json_unchar s = (case s of [] \<Rightarrow> None | c # t \<Rightarrow>
     if c \<noteq> CHR 0x5C then Some (c, t)
     else (case t of [] \<Rightarrow> None | e # r \<Rightarrow>
       if e = CHR ''n'' then Some (char_of (10 :: nat), r) else if e = CHR ''r'' then Some (char_of (13 :: nat), r)
       else if e = CHR ''t'' then Some (char_of (9 :: nat), r) else if e = CHR ''f'' then Some (char_of (12 :: nat), r)
       else if e = CHR ''b'' then Some (char_of (8 :: nat), r)
       else if e = CHR ''u'' then
         (case r of _ # _ # h # l # rest \<Rightarrow> Some (char_of (16 * hex_value h + hex_value l), rest) | _ \<Rightarrow> None)
       else Some (e, r)))"

lemma json_unchar_char: "json_unchar (json_char c @ x) = Some (c, x)"
proof -
  define n where "n = (of_char c :: nat)"
  have c: "c = char_of n" by (simp add: n_def)
  have lt: "n < 256" using nat_of_char_less_256 [of c] by (simp add: n_def)
  then have h: "n div 16 < 16" "n mod 16 < 16" by (auto intro!: less_mult_imp_div_less)
  show ?thesis
  proof (cases "n \<in> {8, 9, 10, 12, 13, 34, 92}")
    case True
    have k: "char_of (8 :: nat) = CHR 0x08" "char_of (9 :: nat) = CHR 0x09" "char_of (10 :: nat) = CHR 0x0A"
      "char_of (12 :: nat) = CHR 0x0C" "char_of (13 :: nat) = CHR 0x0D" "char_of (34 :: nat) = CHR 0x22"
      "char_of (92 :: nat) = CHR 0x5C" by code_simp+
    have "c \<in> {CHR 0x08, CHR 0x09, CHR 0x0A, CHR 0x0C, CHR 0x0D, CHR 0x22, CHR 0x5C}"
      using True unfolding c by (auto simp: k)
    then show ?thesis by (auto simp: json_char_def json_unchar_def k)
  next
    case False
    note other = this
    show ?thesis
    proof (cases "n < 32 \<or> 126 < n")
      case True
      have "json_char c = [CHR 0x5C, CHR ''u'', CHR ''0'', CHR ''0'', hex_char (n div 16), hex_char (n mod 16)]"
        using other True unfolding json_char_def Let_def n_def [symmetric] by simp
      moreover have "char_of (16 * (n div 16) + n mod 16) = c" unfolding c by simp
      ultimately show ?thesis using h by (simp add: json_unchar_def hex_value_char)
    next
      case False
      have "json_char c = [c]" using other False unfolding json_char_def Let_def n_def [symmetric] by simp
      moreover have "c \<noteq> CHR 0x5C" using other by (auto simp: n_def)
      ultimately show ?thesis by (simp add: json_unchar_def)
    qed
  qed
qed

lemma json_char_not_quote: "json_char c = q # t \<Longrightarrow> q \<noteq> CHR 0x22"
proof
  assume e: "json_char c = q # t" and q: "q = CHR 0x22"
  then have "c = CHR 0x22" using json_unchar_char [of c "[]"] by (simp add: json_unchar_def)
  then show False using e q by (simp add: json_char_def)
qed

lemma json_char_not_Nil: "json_char c \<noteq> []"
proof
  assume "json_char c = []"
  then show False using json_unchar_char [of c "[]"] by (simp add: json_unchar_def)
qed

lemma json_char_cancel: "json_char c @ x = json_char d @ y \<Longrightarrow> c = d \<and> x = y"
proof -
  assume "json_char c @ x = json_char d @ y"
  then have "json_unchar (json_char c @ x) = json_unchar (json_char d @ y)" by (rule arg_cong)
  then show ?thesis unfolding json_unchar_char by simp
qed

lemma json_chars_cancel:
  "concat (map json_char a) @ CHR 0x22 # x = concat (map json_char b) @ CHR 0x22 # y \<Longrightarrow> a = b \<and> x = y"
proof (induction a arbitrary: b)
  case Nil
  show ?case
  proof (cases b)
    case (Cons d b')
    obtain q t where "json_char d = q # t" by (cases "json_char d") (simp_all add: json_char_not_Nil)
    then show ?thesis using Nil Cons json_char_not_quote by force
  qed (use Nil in simp)
next
  case (Cons c a)
  show ?case
  proof (cases b)
    case Nil
    obtain q t where "json_char c = q # t" by (cases "json_char c") (simp_all add: json_char_not_Nil)
    then show ?thesis using Nil Cons.prems json_char_not_quote by force
  next
    case (Cons d b')
    from Cons.prems have "json_char c @ (concat (map json_char a) @ CHR 0x22 # x) = json_char d @ (concat (map json_char b') @ CHR 0x22 # y)"
      by (simp add: Cons)
    from json_char_cancel [OF this] have "c = d" "concat (map json_char a) @ CHR 0x22 # x = concat (map json_char b') @ CHR 0x22 # y"
      by simp_all
    then show ?thesis using Cons.IH [of b'] Cons by simp
  qed
qed

lemma json_str_cancel: "json_str a @ x = json_str b @ y \<Longrightarrow> a = b \<and> x = y"
  using json_chars_cancel [of a x b y] by (simp add: json_str_def)

lemma identity_bytes_inject:
  "canonical_identity_bytes a m = canonical_identity_bytes b n \<longleftrightarrow>
     pc_cve_id a = pc_cve_id b \<and> pc_advisory_digest a = pc_advisory_digest b
     \<and> pc_transform_digest a = pc_transform_digest b \<and> pc_trust_outcome_digest a = pc_trust_outcome_digest b \<and> m = n"
proof
  let ?e = "\<lambda>a m. json_str ''advisory_digest'' @ '':'' @ json_str (pc_advisory_digest a) @ '','' @
      json_str ''cve_id'' @ '':'' @ json_str (pc_cve_id a) @ '','' @ json_str ''embedding_model'' @ '':'' @ json_str m @ '','' @
      json_str ''transform_digest'' @ '':'' @ json_str (pc_transform_digest a) @ '','' @
      json_str ''trust_outcome_digest'' @ '':'' @ json_str (pc_trust_outcome_digest a) @ ''}''"
  have e: "canonical_identity_bytes a m = ''{'' @ ?e a m" for a m
    by (simp add: canonical_identity_bytes_def json_dumps_def)
  assume "canonical_identity_bytes a m = canonical_identity_bytes b n"
  then have "?e a m = ?e b n" unfolding e by simp
  then show "pc_cve_id a = pc_cve_id b \<and> pc_advisory_digest a = pc_advisory_digest b
     \<and> pc_transform_digest a = pc_transform_digest b \<and> pc_trust_outcome_digest a = pc_trust_outcome_digest b \<and> m = n"
    by (auto dest!: json_str_cancel json_str_cancel [of _ "[]" _ "[]", simplified])
qed (simp add: canonical_identity_bytes_def)

section \<open>One harvest\<close>

definition logs_one ::
  "'c fallback_tier \<Rightarrow> 'i sink_ops \<Rightarrow> ('i, 's) event_log \<times> nat \<Rightarrow> internal_payload \<Rightarrow> (tier_error + unit) \<times> (('i, 's) event_log \<times> nat) \<Rightarrow> bool" where
  "logs_one ft io lgn p res \<longleftrightarrow>
     res = (Ok (), (all_logged (ft_lib ft) io (fst lgn) (drawn_from (ft_draws ft) (snd lgn) [p]), snd lgn + 1))"

lemma tier_say_logs: "logs_one ft io lgn p (tier_say ft io p lgn)"
  using doesD [OF does_say [of "ft_lib ft" io "ft_draws ft" Event_failed p], of "fst lgn" "snd lgn"]
  by (simp add: logs_one_def tier_say_def)

lemma example_id: "solved_example_from_outcome lib v m vec cap now = Ok ex \<Longrightarrow> fe_id ex = solved_example_id_for lib v m"
  by (auto simp: solved_example_from_outcome_def Let_def split: if_splits)

definition harvest_id :: "'c fallback_tier \<Rightarrow> post_validation_context \<Rightarrow> string" where
  "harvest_id ft context = solved_example_id_for (ft_store_lib ft) (validated_outcome_from [] context) (em_model_digest (ft_embedder ft))"

lemma harvest_id_response: "solved_example_id_for (ft_store_lib ft) (validated_outcome_from rid context) (em_model_digest (ft_embedder ft)) =
    harvest_id ft context"
  by (simp add: harvest_id_def solved_example_id_for_def canonical_identity_bytes_def validated_outcome_from_def
      post_validation_context.extend_def)

lemma ingest_ok:
  assumes "ingest_solved_example lib co em now fl v cap st = (st', r)" "store_ok lib st" "manifest_round_trip lib"
    and "solved_example_id_for lib v (em_model_digest em) \<notin> set (st_record_ids st)"
  shows "store_ok lib st' \<and> st_open st' = st_open st
    \<and> (st_record_ids st' = st_record_ids st \<or> st_record_ids st' = st_record_ids st @ [solved_example_id_for lib v (em_model_digest em)])
    \<and> (\<forall>sid. r = Ok sid \<longrightarrow> sid = solved_example_id_for lib v (em_model_digest em) \<and> st_open st
        \<and> st_record_ids st' = st_record_ids st @ [sid])"
proof -
  from assms(1) consider (same) "st' = st" "\<forall>sid. r \<noteq> Ok sid"
    | (add) ex vec where "solved_example_from_outcome lib v (em_model_digest em) vec cap now = Ok ex"
        "store_add lib co fl ex cap st = (st', r)"
    by (auto simp: ingest_solved_example_def split: sum.splits)
  then show ?thesis
  proof cases
    case add
    note i = example_id [OF add(1)]
    from store_add_ok [OF assms(2) _ assms(3) add(2)] assms(4) show ?thesis by (auto simp: i)
  qed (use assms(2) in auto)
qed

text \<open>What a call may do, in one predicate: skip and log why, store one new example and log it, or fail with an
  error of the store and log nothing.\<close>

definition harvest_result ::
  "'c fallback_tier \<Rightarrow> 'i sink_ops \<Rightarrow> plan_outcome \<Rightarrow> trust_outcome \<Rightarrow> post_validation_context \<Rightarrow> 'c example_store
     \<Rightarrow> ('i, 's) event_log \<times> nat \<Rightarrow> 'c example_store \<Rightarrow> (tier_error + unit) \<times> (('i, 's) event_log \<times> nat) \<Rightarrow> bool" where
  "harvest_result ft io outcome trust context st lgn st' res \<longleftrightarrow>
     (if \<not> harvest_eligibility outcome
      then st' = st \<and> logs_one ft io lgn (harvest_skipped hsr_outcome_not_harvestable outcome) res
      else if \<not> to_passed trust then st' = st \<and> logs_one ft io lgn (harvest_skipped hsr_trust_failed outcome) res
      else if to_confidence trust \<noteq> High then st' = st \<and> logs_one ft io lgn (harvest_skipped hsr_low_confidence outcome) res
      else if st_open st \<and> harvest_id ft context \<in> set (st_record_ids st)
      then st' = st \<and> logs_one ft io lgn (harvest_skipped hsr_already_harvested outcome) res
      else (case fst res of
              Inr _ \<Rightarrow> st_open st \<and> st_record_ids st' = st_record_ids st @ [harvest_id ft context]
                \<and> logs_one ft io lgn (HarvestEv (SolvedExampleHarvested (harvest_id ft context)
                     (em_model_digest (ft_embedder ft)) (pc_chain_head context))) res
            | Inl e \<Rightarrow> snd res = lgn \<and> (st_record_ids st' = st_record_ids st \<or>
                st_record_ids st' = st_record_ids st @ [harvest_id ft context])))"

lemma ingest_closed: "\<not> st_open st \<Longrightarrow> ingest_solved_example lib co em now fl v cap st = (st', r) \<Longrightarrow> st' = st \<and> (\<forall>sid. r \<noteq> Ok sid)"
  by (auto simp: ingest_solved_example_def store_add_def split: sum.splits)

lemma harvest_one:
  assumes "store_ok (ft_store_lib ft) st" "manifest_round_trip (ft_store_lib ft)"
    and "on_validated ft io now fl outcome trust context st lgn = (st', res)"
  shows "harvest_result ft io outcome trust context st lgn st' res \<and> store_ok (ft_store_lib ft) st' \<and> st_open st' = st_open st"
proof -
  let ?skip = "\<not> harvest_eligibility outcome \<or> \<not> to_passed trust \<or> to_confidence trust \<noteq> High
      \<or> st_open st \<and> harvest_id ft context \<in> set (st_record_ids st)"
  show ?thesis
  proof (cases ?skip)
    case True
    then show ?thesis
      using assms tier_say_logs [of ft io lgn]
      by (cases outcome) (auto simp: on_validated_def harvest_result_def gate_passes_def trust_passed_def
          high_confidence_def skip_reason_for_def Let_def harvest_id_response store_contains_def)
  next
    case False
    then obtain d few rid where o: "outcome = Applied_from_llm d few rid" by (cases outcome) auto
    let ?v = "validated_outcome_from rid context"
    let ?cap = "capability_mint (pc_workflow_id context) (pc_chain_head context)"
    obtain st2 r where i: "ingest_solved_example (ft_store_lib ft) (ft_chroma ft) (ft_embedder ft) now fl ?v ?cap st = (st2, r)"
      by (cases "ingest_solved_example (ft_store_lib ft) (ft_chroma ft) (ft_embedder ft) now fl ?v ?cap st")
    have gate: "gate_passes trust" using False by (simp add: gate_passes_def trust_passed_def high_confidence_def)
    have new: "\<not> store_contains st (solved_example_id_for (ft_store_lib ft) ?v (em_model_digest (ft_embedder ft)))"
      using False by (auto simp: store_contains_def harvest_id_response)
    have res: "(st', res) = (case r of Inl e \<Rightarrow> (st2, Err (Store_failed e), lgn)
        | Inr sid \<Rightarrow> (st2, tier_say ft io (HarvestEv (SolvedExampleHarvested sid (em_model_digest (ft_embedder ft)) (pc_chain_head context))) lgn))"
      using assms(3) gate new i by (simp add: on_validated_def o Let_def split: sum.splits)
    show ?thesis
    proof (cases "st_open st")
      case True
      then have "solved_example_id_for (ft_store_lib ft) ?v (em_model_digest (ft_embedder ft)) \<notin> set (st_record_ids st)"
        using new by (simp add: store_contains_def)
      from ingest_ok [OF i assms(1,2) this] show ?thesis
        using res False tier_say_logs [of ft io lgn]
        by (cases r) (auto simp: harvest_result_def o harvest_id_response logs_one_def)
    next
      case closed: False
      from ingest_closed [OF closed i] show ?thesis
        using res False assms(1) closed by (cases r) (auto simp: harvest_result_def o)
    qed
  qed
qed

section \<open>A history of harvests\<close>

text \<open>Requests, each with its clock and what goes wrong around it, and restarts of the process, which open the
  store from its files.\<close>

record harvest_request =
  hr_now :: int
  hr_faults :: add_faults
  hr_outcome :: plan_outcome
  hr_trust :: trust_outcome
  hr_context :: post_validation_context

datatype harvest_op = Harvest_op harvest_request | Restart_op

fun harvest_step ::
  "'c fallback_tier \<Rightarrow> 'i sink_ops \<Rightarrow> harvest_op \<Rightarrow> 'c example_store \<times> ('i, 's) event_log \<times> nat
     \<Rightarrow> 'c example_store \<times> ('i, 's) event_log \<times> nat" where
  "harvest_step ft io (Harvest_op r) (st, lgn) =
     (let (st', _, lgn') = on_validated ft io (hr_now r) (hr_faults r) (hr_outcome r) (hr_trust r) (hr_context r) st lgn
      in (st', lgn'))"
| "harvest_step ft io Restart_op (st, lgn) =
     (case open_store (ft_store_lib ft) (st_files st) (st_chroma st) of Inl _ \<Rightarrow> (st\<lparr>st_open := False\<rparr>, lgn) | Inr st' \<Rightarrow> (st', lgn))"

definition fresh_store :: "'c \<Rightarrow> 'c example_store" where
  "fresh_store c = \<lparr>st_open = True, st_collections = [], st_record_ids = [],
     st_files = \<lparr>sf_records = [], sf_manifest = None\<rparr>, st_chroma = c\<rparr>"

lemma fresh_store_ok: "store_ok lib (fresh_store c)"
  by (simp add: store_ok_def fresh_store_def disk_ids_def)

lemma harvest_step_ok:
  assumes "store_ok (ft_store_lib ft) (fst s)" "manifest_round_trip (ft_store_lib ft)"
  shows "store_ok (ft_store_lib ft) (fst (harvest_step ft io hop s)) \<and> (st_open (fst s) \<longrightarrow> st_open (fst (harvest_step ft io hop s)))"
proof -
  obtain st lgn where s: "s = (st, lgn)" by (cases s)
  show ?thesis
  proof (cases hop)
    case (Harvest_op r)
    obtain st' x where h: "on_validated ft io (hr_now r) (hr_faults r) (hr_outcome r) (hr_trust r) (hr_context r) st lgn = (st', x)"
      by (cases "on_validated ft io (hr_now r) (hr_faults r) (hr_outcome r) (hr_trust r) (hr_context r) st lgn")
    show ?thesis using harvest_one [OF _ assms(2) h] assms(1) h s Harvest_op by (simp add: split_beta)
  next
    case Restart_op
    obtain st2 where o: "open_store (ft_store_lib ft) (st_files st) (st_chroma st) = Ok st2" "store_ok (ft_store_lib ft) st2"
      using open_after [of "ft_store_lib ft" st "st_chroma st"] assms(1) s by auto
    have "st_open st2" using o(1) by (auto simp: open_store_def rbind_Ok_iff)
    then show ?thesis using s Restart_op o by simp
  qed
qed

lemma harvest_history_ok:
  assumes "manifest_round_trip (ft_store_lib ft)" "store_ok (ft_store_lib ft) (fst s)" "st_open (fst s)"
  shows "store_ok (ft_store_lib ft) (fst (fold (harvest_step ft io) ops s)) \<and> st_open (fst (fold (harvest_step ft io) ops s))"
  using assms(2,3)
proof (induction ops arbitrary: s)
  case (Cons hop ops)
  have "store_ok (ft_store_lib ft) (fst (harvest_step ft io hop s)) \<and> st_open (fst (harvest_step ft io hop s))"
    using harvest_step_ok [OF Cons.prems(1) assms(1)] Cons.prems(2) by blast
  then show ?case using Cons.IH by simp
qed simp

section \<open>Properties\<close>

text \<open>C3. From the empty store, after any history of harvests and restarts, whatever failed in between: the roster lists
  no example twice, the store opens again from its files with the roster of the last manifest, a prefix of the
  one in memory, and its digest is the chain head the manifest records.\<close>

theorem harvest_history_consistent:
  assumes "manifest_round_trip (ft_store_lib ft)"
  shows "\<exists>st lgn. fold (harvest_step ft io) ops (fresh_store c, lg, 0) = (st, lgn) \<and> distinct (st_record_ids st) \<and>
    (\<exists>st2. open_store (ft_store_lib ft) (st_files st) c' = Ok st2 \<and> prefix (st_record_ids st2) (st_record_ids st) \<and>
      (case sf_manifest (st_files st) of
         None \<Rightarrow> st_record_ids st2 = []
       | Some t \<Rightarrow> (\<exists>h. parse_manifest (ft_store_lib ft) t = Ok \<lparr>sm_records = st_record_ids st2, sm_chain_head = h\<rparr>
           \<and> store_digest (ft_store_lib ft) st2 = Ok h)))"
proof -
  obtain st lgn where f: "fold (harvest_step ft io) ops (fresh_store c, lg, 0) = (st, lgn)"
    by (cases "fold (harvest_step ft io) ops (fresh_store c, lg, 0)")
  have ok: "store_ok (ft_store_lib ft) st"
    using harvest_history_ok [OF assms, of "(fresh_store c, lg, 0)" io ops] fresh_store_ok [of "ft_store_lib ft" c] f
    by (simp add: fresh_store_def)
  obtain st2 where o: "open_store (ft_store_lib ft) (st_files st) c' = Ok st2" "prefix (st_record_ids st2) (st_record_ids st)"
      "st_files st2 = st_files st" "disk_ids (ft_store_lib ft) (st_files st) (st_record_ids st2)"
    using open_after [OF ok, of c'] by (elim exE conjE) (rule that)
  have "distinct (st_record_ids st)" using ok by (simp add: store_ok_def)
  moreover have "case sf_manifest (st_files st) of None \<Rightarrow> st_record_ids st2 = []
     | Some t \<Rightarrow> (\<exists>h. parse_manifest (ft_store_lib ft) t = Ok \<lparr>sm_records = st_record_ids st2, sm_chain_head = h\<rparr>
         \<and> store_digest (ft_store_lib ft) st2 = Ok h)"
    using o(4) by (simp add: disk_ids_def store_digest_def o(3) split: option.splits)
  ultimately show ?thesis
    using f o(1,2) by (intro exI [of _ st] exI [of _ lgn] exI [of _ st2] conjI)
qed

text \<open>C23. A call of \<open>on_validated\<close> stores an example only for an outcome of the model that passed the gate and is not
  stored yet, and then logs it; otherwise it leaves the store and logs the one reason; an error of the store
  leaves the log.\<close>

theorem harvest_exact:
  assumes "store_ok (ft_store_lib ft) st" "manifest_round_trip (ft_store_lib ft)"
    and "on_validated ft io now fl outcome trust context st lgn = (st', res)"
  shows "harvest_result ft io outcome trust context st lgn st' res"
  using harvest_one [OF assms] by blast

text \<open>Two outcomes share an example exactly when the five identity fields agree, up to a BLAKE3 collision; the
  workflow, the chain head, the query and the response do not matter.\<close>

theorem example_identity:
  "solved_example_id_for lib a m = solved_example_id_for lib b n \<longleftrightarrow>
     pc_cve_id a = pc_cve_id b \<and> pc_advisory_digest a = pc_advisory_digest b \<and> pc_transform_digest a = pc_transform_digest b
       \<and> pc_trust_outcome_digest a = pc_trust_outcome_digest b \<and> m = n
     \<or> canonical_identity_bytes a m \<noteq> canonical_identity_bytes b n
       \<and> sl_blake3 lib (canonical_identity_bytes a m) = sl_blake3 lib (canonical_identity_bytes b n)"
  using identity_bytes_inject [of a m b n] by (auto simp: solved_example_id_for_def)

text \<open>\<open>run\<close> always refuses: it logs the retry, the refusal and the anchor, in this order, and appends one line to the
  file of its day and workflow.\<close>

lemma does_tier_say [steps]: "does (ft_lib ft) io (ft_draws ft) (tier_say ft io p) () [p]"
  by (simp add: tier_say_def does_say)

theorem tier_refuses:
  "\<exists>anchor. build_refusal_anchor attempt_id workflow_id cve_id now Provenance_not_app_layer (int (length prior)) = Ok anchor
    \<and> does (ft_lib ft) io (ft_draws ft) (tier_run ft io attempt_id workflow_id now cve_id prior files)
        (Refused Provenance_not_app_layer, anchor_write (ft_anchor_lib ft) anchor files)
        ((if prior = [] then []
          else [FallbackEv (RagSkippedOnRetry (int (length prior)) (as_attempt (last prior)) (as_failing_signals (last prior)))])
         @ [FallbackEv (PlanOutcomeEmitted eok_refused (outcome_payload (Refused Provenance_not_app_layer))),
            FallbackEv (AttemptAnchorRecorded attempt_id (al_dump (ft_anchor_lib ft) anchor))])"
proof -
  obtain anchor where a: "build_refusal_anchor attempt_id workflow_id cve_id now Provenance_not_app_layer (int (length prior)) = Ok anchor"
    by (simp add: build_refusal_anchor_def check_anchor_def validator_outcomes_def)
  let ?first = "if prior = [] then []
          else [FallbackEv (RagSkippedOnRetry (int (length prior)) (as_attempt (last prior)) (as_failing_signals (last prior)))]"
  have one: "does (ft_lib ft) io (ft_draws ft)
      (if prior \<noteq> [] then emit_rag_skipped ft io prior else return_act ()) () ?first"
    by (simp add: emit_rag_skipped_def select_retry_summary_def does_tier_say does_return)
  let ?rest = "andThen (tier_say ft io (FallbackEv (AttemptAnchorRecorded attempt_id (al_dump (ft_anchor_lib ft) anchor)))) (\<lambda>_.
             return_act (Refused Provenance_not_app_layer, anchor_write (ft_anchor_lib ft) anchor files))"
  have rest: "does (ft_lib ft) io (ft_draws ft) ?rest (Refused Provenance_not_app_layer, anchor_write (ft_anchor_lib ft) anchor files)
      ([FallbackEv (AttemptAnchorRecorded attempt_id (al_dump (ft_anchor_lib ft) anchor))] @ [])"
    by (rule does_andThen [OF does_tier_say does_return])
  have "does (ft_lib ft) io (ft_draws ft) (tier_run ft io attempt_id workflow_id now cve_id prior files)
        (Refused Provenance_not_app_layer, anchor_write (ft_anchor_lib ft) anchor files)
        (?first @ [FallbackEv (PlanOutcomeEmitted eok_refused (outcome_payload (Refused Provenance_not_app_layer)))]
         @ [FallbackEv (AttemptAnchorRecorded attempt_id (al_dump (ft_anchor_lib ft) anchor))] @ [])"
    unfolding tier_run_def Let_def a emitted_kind.simps sum.case
    by (rule does_andThen [OF one does_andThen [OF does_tier_say rest]])
  then show ?thesis using a by auto
qed

section \<open>What the anchors do not check\<close>

text \<open>The copy that attaches a trust outcome is not validated, and a degraded outcome is none of the values that the
  constructor accepts.\<close>

lemma degraded_anchor_invalid:
  "attach_trust_outcome a t = Ok b \<Longrightarrow> to_confidence t = Degraded \<Longrightarrow> isl (check_anchor tz b)"
  by (auto simp: attach_trust_outcome_def check_anchor_def confidence_str_def split: if_splits)

lemma attach_once: "attach_trust_outcome a t = Ok b \<Longrightarrow> \<exists>e. attach_trust_outcome b u = Err e"
  by (auto simp: attach_trust_outcome_def split: if_splits)

section \<open>A small tier\<close>

text \<open>A manifest as a list of texts, each character behind a mark and each text ended by a comma.\<close>

definition text_code :: "string \<Rightarrow> string" where "text_code s = concat (map (\<lambda>c. [CHR ''x'', c]) s) @ '',''"

fun text_decode :: "string \<Rightarrow> string \<Rightarrow> string list" where
  "text_decode acc [] = []"
| "text_decode acc [c] = [acc]"
| "text_decode acc (c # d # t) = (if c = CHR '','' then acc # text_decode [] (d # t) else text_decode (acc @ [d]) t)"

lemma text_decode_code: "text_decode acc (text_code s @ t) = (acc @ s) # text_decode [] t"
proof (induction s arbitrary: acc)
  case Nil
  then show ?case by (cases t) (simp_all add: text_code_def)
qed (simp add: text_code_def)

lemma text_decode_codes: "text_decode [] (concat (map text_code ss)) = ss"
  by (induction ss) (simp_all add: text_decode_code)

fun toy_validate_manifest :: "json \<Rightarrow> store_manifest option" where
  "toy_validate_manifest (JObj [_, (_, JStr s)]) =
     (case text_decode [] s of h # ids \<Rightarrow> Some \<lparr>sm_records = ids, sm_chain_head = h\<rparr> | [] \<Rightarrow> None)"
| "toy_validate_manifest _ = None"

definition toy_store_lib :: store_lib where
  "toy_store_lib = \<lparr>sl_blake3 = (\<lambda>s. ''b'' @ s), sl_yaml_example = (\<lambda>_. ''e''),
     sl_yaml_manifest = (\<lambda>m. concat (map text_code (sm_chain_head m # sm_records m))),
     sl_yaml_load = (\<lambda>t. Some (JObj [(''schema_version'', JInt 1), (''raw'', JStr t)])),
     sl_validate_manifest = toy_validate_manifest, sl_example_json = (\<lambda>_. ''{}''), sl_validate_example = (\<lambda>_. None)\<rparr>"

lemma toy_manifest_round_trip: "manifest_round_trip toy_store_lib"
  by (simp add: manifest_round_trip_def parse_manifest_def toy_store_lib_def text_decode_code text_decode_codes)

definition toy_tier :: "unit fallback_tier" where
  "toy_tier = \<lparr>ft_lib = toy_lib, ft_store_lib = toy_store_lib,
     ft_chroma = \<lparr>ch_get_or_create = (\<lambda>_ c. Ok c), ch_exists = (\<lambda>_ _. False), ch_add = (\<lambda>_ _ _ _ c. Ok c),
       ch_query = (\<lambda>_ _ _ _. Err ''none'')\<rparr>,
     ft_embedder = \<lparr>em_model_digest = ''m'', em_embed = (\<lambda>_. Ok [1])\<rparr>,
     ft_anchor_lib = \<lparr>al_utc_date = (\<lambda>_. ''2026-01-01''), al_dump = (\<lambda>_. JNull), al_dump_json = (\<lambda>_. ''null'')\<rparr>,
     ft_draws = (\<lambda>n. \<lparr>ed_event_id = ''e'', ed_timestamp = int n, ed_now = int n\<rparr>)\<rparr>"

definition toy_context :: post_validation_context where
  "toy_context = \<lparr>pc_workflow_id = ''w'', pc_chain_head = ''h'', pc_advisory_digest = ''a'', pc_cve_id = ''CVE-2026-0001'',
     pc_task_class = ''t'', pc_language = ''l'', pc_build_system = ''npm'', pc_transform_digest = ''d'',
     pc_trust_outcome_digest = ''o'', pc_query_text = ''q'', pc_plan_proposal = Dep_bump [] ''p'' ''1.0.0'' []\<rparr>"

definition toy_trust :: trust_outcome where
  "toy_trust = \<lparr>to_passed = True, to_failing = [], to_signals = [], to_confidence = High\<rparr>"

definition no_faults :: add_faults where
  "no_faults = \<lparr>af_lock_timeout = False, af_yaml_write = None, af_manifest_write = None\<rparr>"

definition toy_request :: harvest_request where
  "toy_request = \<lparr>hr_now = 1, hr_faults = no_faults\<lparr>af_manifest_write := Some ''disk full''\<rparr>,
     hr_outcome = Applied_from_llm ''r'' None ''i'', hr_trust = toy_trust, hr_context = toy_context\<rparr>"

lemma harvest_history_consistent_witness:
  "\<exists>st lgn. fold (harvest_step toy_tier memory_ops) [Harvest_op toy_request, Restart_op, Harvest_op toy_request]
       (fresh_store (), memory_log, 0) = (st, lgn) \<and> distinct (st_record_ids st)"
proof -
  have m: "manifest_round_trip (ft_store_lib toy_tier)" using toy_manifest_round_trip by (simp add: toy_tier_def)
  show ?thesis
    using harvest_history_consistent [OF m, of memory_ops "[Harvest_op toy_request, Restart_op, Harvest_op toy_request]"
        "()" memory_log "()"] by blast
qed

lemma harvest_exact_witness:
  "\<exists>st' res. on_validated toy_tier memory_ops 1 no_faults (Applied_from_llm ''r'' None ''i'') toy_trust toy_context
       (fresh_store ()) (memory_log, 0) = (st', res)
     \<and> harvest_result toy_tier memory_ops (Applied_from_llm ''r'' None ''i'') toy_trust toy_context (fresh_store ())
         (memory_log, 0) st' res"
proof -
  obtain st' res where e: "on_validated toy_tier memory_ops 1 no_faults (Applied_from_llm ''r'' None ''i'') toy_trust
      toy_context (fresh_store ()) (memory_log, 0) = (st', res)" by (metis surj_pair)
  have m: "manifest_round_trip (ft_store_lib toy_tier)" using toy_manifest_round_trip by (simp add: toy_tier_def)
  note h = harvest_exact [OF fresh_store_ok m e]
  show ?thesis using e h by blast
qed

end
