(* ===== verification/Language_Detection.thy ===== *)
theory Language_Detection
  imports Probe_Base Py_Text Json Parsers
begin

text \<open>
  The language probe, \<open>src/src/codegenie/probes/language_detection.py\<close>: the walk over the repository
  that counts source files, the choice of the primary language, the framework hints, the monorepo
  markers and the output with every error branch.

  The file system is an answer per directory: the entries that \<open>os.scandir\<close> yields and the error that
  ends it, if any; a symbolic link carries its resolved target. A path below the root is the list of its
  components. \<open>casefold\<close> is the ASCII one: no other character below 256 folds to an ASCII letter, and the
  sharp s folds to two that no extension holds. Log records are not modelled.
\<close>

section \<open>Tables\<close>



definition framework_seed :: "(string, string) dict" where
  "framework_seed = [(''@nestjs/core'', ''nestjs''), (''express'', ''express''), (''fastify'', ''fastify''),
     (''next'', ''next''), (''koa'', ''koa''), (''@hapi/hapi'', ''hapi'')]"



section \<open>The walk\<close>











section \<open>The slice\<close>






definition section_keys :: "string \<Rightarrow> (string \<times> json) list \<Rightarrow> string list" where
  "section_keys name pkg = (case jget name pkg of JObj kvs \<Rightarrow> map fst kvs | _ \<Rightarrow> [])"

definition framework_hints_from :: "(string \<times> json) list \<Rightarrow> string list" where
  "framework_hints_from pkg =
     sort (remdups (List.map_filter (map_of framework_seed)
       (section_keys ''dependencies'' pkg @ section_keys ''devDependencies'' pkg)))"







section \<open>What the walk visits\<close>









section \<open>The counter\<close>








section \<open>The directories below a directory\<close>










section \<open>The loop\<close>








section \<open>The output\<close>





lemma framework_hints_exact:
  "set (framework_hints_from pkg) = {f. \<exists>k. map_of framework_seed k = Some f
     \<and> (k \<in> set (section_keys ''dependencies'' pkg) \<or> k \<in> set (section_keys ''devDependencies'' pkg))}"
  "sorted (framework_hints_from pkg)" "distinct (framework_hints_from pkg)"
    apply (force simp: framework_hints_from_def List.map_filter_def image_iff)
   apply (simp_all add: framework_hints_from_def)
  done




section \<open>A small repository\<close>











end
