(* ===== verification/Exec.thy ===== *)
theory Exec
  imports Py_Text
begin

text \<open>
  The subprocess chokepoint, \<open>src/src/codegenie/exec/__init__.py\<close>: the allowlist, the environment of
  the child, the spawn with its escalation on a timeout, and \<open>run_external_cli\<close> with the bubblewrap prefix and the
  cap on the output.

  The state is the table of running processes, the warn-once flag, the temporary directories that exist and,
  for the statements only, the processes created so far. What the operating system answers is a parameter:
  the parent's environment, the platform, path resolution, a fresh temporary name, and the fate of a process.
  The two signal methods raise \<open>ProcessLookupError\<close> on a process that has ended, as those of asyncio do; the dash of one message is
  written as two hyphens. Log records are
  not modelled, the warn-once flag that guards two of them is.
\<close>

section \<open>The allowlist and the environment\<close>


definition sensitive_exact :: "string list" where
  "sensitive_exact = [''SSH_AUTH_SOCK'', ''GITHUB_TOKEN'', ''OPENAI_API_KEY'', ''ANTHROPIC_API_KEY'']"
definition sensitive_prefix :: "string list" where "sensitive_prefix = [''AWS_'']"

definition exec_is_sensitive :: "string \<Rightarrow> bool" where
  "exec_is_sensitive key \<longleftrightarrow>
     py_upper key \<in> set sensitive_exact \<or> list_ex (\<lambda>p. prefix p (py_upper key)) sensitive_prefix"

definition base_env :: "(string, string) dict \<Rightarrow> (string, string) dict" where
  "base_env environ = (let get = (\<lambda>k d. case map_of environ k of None \<Rightarrow> d | Some v \<Rightarrow> v) in
     [(''PATH'', get ''PATH'' []), (''HOME'', get ''HOME'' []), (''LANG'', get ''LANG'' ''C''), (''LC_ALL'', get ''LC_ALL'' ''C'')])"

definition filter_env :: "(string, string) dict \<Rightarrow> (string, string) dict option \<Rightarrow> (string, string) dict" where
  "filter_env environ env_extra = (case env_extra of
     None \<Rightarrow> base_env environ
   | Some extra \<Rightarrow> fold (\<lambda>(k, v) env. if exec_is_sensitive k then env else dict_set k v env) extra (base_env environ))"

section \<open>The world and the state\<close>

text \<open>How a process that outlives its budget meets the two signals.\<close>

datatype grace = Gone_before_term | Ends_in_grace | Needs_kill

datatype fate = Exits int string string | Runs_over int grace





record process_result =
  pr_returncode :: int
  pr_stdout :: string
  pr_stderr :: string

datatype exec_error =
    Disallowed string
  | Cwd_error exn
  | Not_a_directory string
  | Tool_missing string
  | Probe_timeout string
  | Bad_probe_name string
  | Spawn_error exn
  | Process_lookup


section \<open>One process\<close>

text \<open>\<open>_escalate_and_kill\<close>: it returns, or the signal that finds no process raises.\<close>

definition escalate_and_kill :: "grace \<Rightarrow> exec_error + unit" where
  "escalate_and_kill g = (case g of
     Gone_before_term \<Rightarrow> Err Process_lookup
   | Ends_in_grace \<Rightarrow> Err Process_lookup
   | Needs_kill \<Rightarrow> Ok ())"

definition timeout_text :: "string \<Rightarrow> string \<Rightarrow> int \<Rightarrow> string" where
  "timeout_text binary timeout_s elapsed_ms =
     py_repr binary @ '' exceeded timeout_s='' @ timeout_s @ '' (elapsed_ms='' @ int_str elapsed_ms @ '')''"

text \<open>The wait for a started process; \<open>timeout_s\<close> is its text.\<close>

definition await_process :: "string \<Rightarrow> string \<Rightarrow> fate \<Rightarrow> exec_error + process_result" where
  "await_process binary timeout_s f = (case f of
     Exits rc out err \<Rightarrow> Ok \<lparr>pr_returncode = rc, pr_stdout = out, pr_stderr = err\<rparr>
   | Runs_over elapsed_ms g \<Rightarrow>
       rbind (escalate_and_kill g) (\<lambda>_. Err (Probe_timeout (timeout_text binary timeout_s elapsed_ms))))"





section \<open>The port of the probes\<close>

definition trunc_marker :: string where "trunc_marker = ''...[TRUNCATED]...''"

text \<open>\<open>_PROBE_NAME_RE.match\<close>: the dollar also matches before a final line feed.\<close>

definition probe_name_body :: "string \<Rightarrow> bool" where
  "probe_name_body s \<longleftrightarrow> s \<noteq> [] \<and> lower (hd s) \<and> list_all (\<lambda>c. lower c \<or> digit c \<or> c = CHR ''_'') (tl s) \<and> length s \<le> 64"

definition probe_name_matches :: "string \<Rightarrow> bool" where
  "probe_name_matches s \<longleftrightarrow> probe_name_body s \<or> s \<noteq> [] \<and> last s = CHR 0x0A \<and> probe_name_body (butlast s)"


text \<open>\<open>buf[i:]\<close> for any integer.\<close>

definition slice_from :: "int \<Rightarrow> 'a list \<Rightarrow> 'a list" where
  "slice_from i xs = (if i < 0 then drop (nat (max 0 (int (length xs) + i))) xs else drop (nat i) xs)"

definition truncate_tail :: "string \<Rightarrow> int \<Rightarrow> string" where
  "truncate_tail buf cap =
     (if int (length buf) \<le> cap then buf
      else let keep = cap - int (length trunc_marker) in trunc_marker @ slice_from (- keep) buf)"






section \<open>The environment\<close>

lemma filter_env_get:
  "dict_wf extra \<Longrightarrow> map_of (filter_env environ (Some extra)) k =
     (if exec_is_sensitive k then map_of (base_env environ) k
      else case map_of extra k of Some v \<Rightarrow> Some v | None \<Rightarrow> map_of (base_env environ) k)"
proof -
  have "map_of (fold (\<lambda>(k, v) env. if exec_is_sensitive k then env else dict_set k v env) extra b) k =
     (if exec_is_sensitive k then map_of b k else case map_of extra k of Some v \<Rightarrow> Some v | None \<Rightarrow> map_of b k)"
    if "dict_wf extra" for b
    using that
  proof (induction extra arbitrary: b)
    case (Cons x extra)
    then have "map_of extra (fst x) = None" "dict_wf extra" by (auto simp: dict_wf_def map_of_eq_None_iff)
    then show ?case using Cons.IH by (cases x) (auto simp: dict_simps split: option.splits)
  qed simp
  then show "dict_wf extra \<Longrightarrow> ?thesis" by (simp add: filter_env_def)
qed

lemma base_env_keys: "set (dict_keys (base_env environ)) = {''PATH'', ''HOME'', ''LANG'', ''LC_ALL''}"
  by (auto simp: base_env_def Let_def)

lemma base_keys_not_sensitive: "k \<in> {''PATH'', ''HOME'', ''LANG'', ''LC_ALL''} \<Longrightarrow> \<not> exec_is_sensitive k"
proof -
  have "\<not> exec_is_sensitive ''PATH''" "\<not> exec_is_sensitive ''HOME''" "\<not> exec_is_sensitive ''LANG''" "\<not> exec_is_sensitive ''LC_ALL''"
    by code_simp+
  then show "k \<in> {''PATH'', ''HOME'', ''LANG'', ''LC_ALL''} \<Longrightarrow> \<not> exec_is_sensitive k" by auto
qed

text \<open>The child sees the four base keys and the extras that are not sensitive, and no sensitive key.\<close>

theorem child_env_exact:
  assumes "dict_wf extra"
  shows "map_of (filter_env environ (Some extra)) k = Some v \<longleftrightarrow>
     \<not> exec_is_sensitive k \<and> (map_of extra k = Some v \<or> map_of extra k = None \<and> map_of (base_env environ) k = Some v)"
proof -
  have "map_of (base_env environ) k = None" if "exec_is_sensitive k"
    using base_keys_not_sensitive [of k] that base_env_keys [of environ] by (metis map_of_eq_None_iff set_map)
  then show ?thesis using filter_env_get [OF assms, of environ k] by (auto split: option.splits)
qed

section \<open>The output\<close>



section \<open>Containment\<close>












section \<open>What the comments promise and the code does not keep\<close>

text \<open>A child that ends on the first signal, as most do, makes the second one raise: the caller sees
  \<open>ProcessLookupError\<close> in place of the timeout.\<close>

lemma prompt_child_hides_timeout:
  "await_process binary t (Runs_over ms Ends_in_grace) = Err Process_lookup"
  by (simp add: await_process_def escalate_and_kill_def)

text \<open>With a cap of at most the length of the marker, the result is longer than both.\<close>

lemma small_cap_overflows: "length (truncate_tail (replicate 100 CHR ''x'') 17) = 117"
  by (simp add: truncate_tail_def trunc_marker_def slice_from_def)

lemma probe_name_line_feed: "probe_name_matches (''ab'' @ [CHR 0x0A])"
  by code_simp

section \<open>A small world\<close>




lemma child_env_exact_witness:
  "map_of (filter_env [(''PATH'', ''/bin'')] (Some [(''CI'', ''1''), (''aws_key'', ''k'')])) ''CI'' = Some ''1''
   \<and> map_of (filter_env [(''PATH'', ''/bin'')] (Some [(''CI'', ''1''), (''aws_key'', ''k'')])) ''aws_key'' \<noteq> Some ''k''"
proof -
  have wf: "dict_wf [(''CI'', ''1''), (''aws_key'', ''k'')]" by (simp add: dict_wf_def)
  have s: "\<not> exec_is_sensitive ''CI''" "exec_is_sensitive ''aws_key''" by code_simp+
  show ?thesis
    unfolding child_env_exact [OF wf] using s by simp
qed

end
