(* ===== verification/Run_Audit.thy ===== *)
theory Run_Audit
  imports Coordinator Cache_Store
begin

text \<open>
  The audit of a gather run, \<open>src/src/codegenie/audit.py\<close>: the run record built from the executions of the
  coordinator, the writer with its collision retry, and \<open>verify_runs\<close>, which recomputes every anchor from the bytes in the
  cache and the YAML file.

  The directory of run records is a map from names to contents (None is a file that cannot be read). Names drawn from the clock and the
  random source, pydantic's JSON of a run record, \<open>str\<close> of a JSON value that is no string, and the Python and platform
  texts are parameters. A blob file that exists can be read; log events and file modes are not modelled.
\<close>

section \<open>Records\<close>

record probe_record =
  pe_name :: string
  pe_version :: string
  pe_cache_hit :: bool
  pe_wall_clock_ms :: int
  pe_exit_status :: string
  pe_cache_key :: string
  pe_blob_sha256 :: string

record run_record =
  ru_cli_version :: string
  ru_sherpa_commit :: string
  ru_python_version :: string
  ru_os_kernel_sha :: string
  ru_probes :: "probe_record list"
  ru_tool_versions :: "(string, string) dict"
  ru_yaml_sha256 :: string

record audit_lib =
  au_cache :: cache_lib
  au_dump :: "run_record \<Rightarrow> string"
  au_validate :: "string \<Rightarrow> run_record option"
  au_str :: "json \<Rightarrow> string"
  au_python :: string
  au_platform :: string






fun cache_key_of_execution :: "probe_execution \<Rightarrow> string" where
  "cache_key_of_execution (Skipped _) = []"
| "cache_key_of_execution (Ran _ key) = key"
| "cache_key_of_execution (CacheHit _ key) = key"






section \<open>The writer\<close>



section \<open>Verification\<close>

definition content_hash_field :: "index_record \<Rightarrow> string" where
  "content_hash_field rec =
     (case List.find (\<lambda>k. prefix ''blob_'' k \<and> k \<noteq> ''blob_sha256'') (map fst rec) of None \<Rightarrow> [] | Some k \<Rightarrow> k)"

definition str_of_json :: "audit_lib \<Rightarrow> json \<Rightarrow> string" where
  "str_of_json au j = (case j of JStr s \<Rightarrow> s | _ \<Rightarrow> au_str au j)"

text \<open>\<open>content_hash.partition(":")[2]\<close>.\<close>

definition blob_hex_of :: "audit_lib \<Rightarrow> index_record \<Rightarrow> string" where
  "blob_hex_of au rec =
     (let content_hash = (case map_of rec (content_hash_field rec) of None \<Rightarrow> [] | Some j \<Rightarrow> str_of_json au j) in
      tl (dropWhile ((\<noteq>) CHR '':'') content_hash))"








section \<open>What verification sees\<close>

definition index_of :: "cache_lib \<Rightarrow> cache_store \<Rightarrow> cache_error + (string, index_record) dict" where
  "index_of lib st = (case cs_index_file st of None \<Rightarrow> Ok [] | Some ls \<Rightarrow> load_index lib ls)"

text \<open>The fields of an index record that \<open>put\<close> writes: one content hash beside the SHA-256.\<close>

definition one_blob_field :: "index_record \<Rightarrow> bool" where
  "one_blob_field rec \<longleftrightarrow> (\<forall>k \<in> dom (map_of rec). prefix ''blob_'' k \<and> k \<noteq> ''blob_sha256'' \<longrightarrow> k = ''blob_blake3'')"


definition current_record :: "cache_lib \<Rightarrow> cache_store \<Rightarrow> string \<Rightarrow> index_record option" where
  "current_record lib st key = (case index_of lib st of Err _ \<Rightarrow> None | Ok idx \<Rightarrow> dict_get idx key)"

text \<open>The bytes that the index names for a key now.\<close>

definition stored_bytes :: "audit_lib \<Rightarrow> cache_store \<Rightarrow> string \<Rightarrow> string option" where
  "stored_bytes au st key = (case current_record (au_cache au) st key of
     None \<Rightarrow> None
   | Some rec \<Rightarrow> if blob_hex_of au rec = [] then None else dict_get (cs_blobs st) (blob_hex_of au rec))"

definition sha_of :: "audit_lib \<Rightarrow> string \<Rightarrow> string" where "sha_of au b = identity_hash_bytes (cl_sha256 (au_cache au)) b"









lemma content_hash_field_alt:
  "one_blob_field rec \<Longrightarrow>
   content_hash_field rec = (if ''blob_blake3'' \<in> dom (map_of rec) then ''blob_blake3'' else [])"
proof -
  assume o: "one_blob_field rec"
  let ?P = "\<lambda>k. prefix ''blob_'' k \<and> k \<noteq> ''blob_sha256''"
  have dom: "k \<in> set (map fst rec) \<longleftrightarrow> k \<in> dom (map_of rec)" for k by (simp add: dom_map_of_conv_image_fst)
  have all: "k = ''blob_blake3''" if "k \<in> set (map fst rec)" "?P k" for k using o that dom by (auto simp: one_blob_field_def)
  show ?thesis
  proof (cases "List.find ?P (map fst rec)")
    case None
    then have n: "\<not> (\<exists>k \<in> set (map fst rec). ?P k)" unfolding find_None_iff by blast
    have "?P ''blob_blake3''" by simp
    then have "''blob_blake3'' \<notin> set (map fst rec)" using n by blast
    then have "''blob_blake3'' \<notin> dom (map_of rec)" using dom by blast
    with None show ?thesis by (simp add: content_hash_field_def)
  next
    case (Some k)
    then obtain i where "i < length (map fst rec)" "?P (map fst rec ! i)" "k = map fst rec ! i" unfolding find_Some_iff by blast
    then have "k \<in> set (map fst rec)" "?P k" by simp_all
    with all [of k] have k: "k = ''blob_blake3''" "''blob_blake3'' \<in> dom (map_of rec)" using dom by blast+
    then show ?thesis using Some by (simp add: content_hash_field_def)
  qed
qed







section \<open>Record, then verify\<close>

text \<open>The bytes an execution is recorded with: the serialised output of a probe that has one without errors.\<close>

fun anchored :: "probe_execution \<Rightarrow> string option" where
  "anchored (Skipped _) = None"
| "anchored (Ran out _) = (if po_errors out \<noteq> [] then None else case serialize_output out of Err _ \<Rightarrow> None | Ok b \<Rightarrow> Some b)"
| "anchored (CacheHit out _) = (case serialize_output out of Err _ \<Rightarrow> None | Ok b \<Rightarrow> Some b)"

text \<open>The index still names bytes with the SHA-256 of what was recorded.\<close>

definition intact :: "audit_lib \<Rightarrow> cache_store \<Rightarrow> probe_execution \<Rightarrow> bool" where
  "intact au st exe \<longleftrightarrow> (\<forall>b. anchored exe = Some b \<longrightarrow>
     map_option (sha_of au) (stored_bytes au st (cache_key_of_execution exe)) = Some (sha_of au b))"





section \<open>What a put leaves for the audit\<close>

lemma put_current:
  assumes inv: "cache_inv lib st" and sto: "storable lib now st key out n v" and put: "cache_put lib now st key out n v = Ok st'"
  shows "\<exists>b rec. serialize_output out = Ok b \<and> current_record lib st' key = Some rec \<and> map_of rec = map_of (put_record lib now key b n v)
    \<and> cs_blobs st' = dict_set (cl_blake3 lib b) b (cs_blobs st) \<and> dict_get (cs_blobs st) (cl_blake3 lib b) \<in> {None, Some b}
    \<and> (\<forall>k. k \<noteq> key \<longrightarrow> current_record lib st' k = current_record lib st k)"
proof -
  obtain b where b: "serialize_output out = Ok b" using put by (auto simp: cache_put_def rbind_iffs)
  then obtain j where j: "pv_json (PDict (po_schema_slice out)) = Some j" "b = json_dumps (output_payload j out)"
    by (auto simp: serialize_output_def split: option.splits)
  have d: "reads_doc lib (JObj (put_record lib now key b n v))" "dict_get (cs_blobs st) (cl_blake3 lib b) \<in> {None, Some b}"
    using sto unfolding storable_def j(1) option.case Let_def j(2) by blast+
  let ?ls = "case cs_index_file st of None \<Rightarrow> [] | Some ls \<Rightarrow> ls" and ?line = "json_dumps (JObj (put_record lib now key b n v))"
  have st': "cs_index_file st' = Some (?ls @ [?line])" "cs_blobs st' = dict_set (cl_blake3 lib b) b (cs_blobs st)"
    using put b by (auto simp: cache_put_def Let_def hex_of_tag split: if_splits option.splits)
  obtain idx where idx: "load_index lib ?ls = Ok idx" "index_of lib st = Ok idx"
    using inv by (cases "cs_index_file st") (auto simp: cache_inv_def files_ok_def load_index_def index_of_def)
  obtain rec where rec: "map_of rec = map_of (put_record lib now key b n v)" "load_index lib (?ls @ [?line]) = Ok (dict_set key rec idx)"
    using load_put_line [OF d(1), of ?ls] idx(1) by auto
  have i': "index_of lib st' = Ok (dict_set key rec idx)" by (simp add: index_of_def st'(1) rec(2))
  have "current_record lib st' key = Some rec" by (simp add: current_record_def i' dict_simps)
  moreover have "current_record lib st' k = current_record lib st k" if "k \<noteq> key" for k
    using that by (simp add: current_record_def i' idx(2) dict_simps)
  ultimately show ?thesis using b rec(1) st'(2) d(2) by blast
qed

lemma put_one_blob_field: "map_of rec = map_of (put_record lib now key b n v) \<Longrightarrow> one_blob_field rec"
  by (auto simp: one_blob_field_def put_record_def prefix_def split: if_splits)

lemma put_stored:
  assumes "cache_inv (au_cache au) st" "storable (au_cache au) now st key out n v" "\<forall>b. cl_blake3 (au_cache au) b \<noteq> []"
    and "cache_put (au_cache au) now st key out n v = Ok st'"
  shows "(\<exists>b. serialize_output out = Ok b \<and> stored_bytes au st' key = Some b)
    \<and> (\<forall>k c. k \<noteq> key \<longrightarrow> stored_bytes au st k = Some c \<longrightarrow> stored_bytes au st' k = Some c)"
proof -
  obtain b rec where p: "serialize_output out = Ok b" "current_record (au_cache au) st' key = Some rec"
      "map_of rec = map_of (put_record (au_cache au) now key b n v)"
      "cs_blobs st' = dict_set (cl_blake3 (au_cache au) b) b (cs_blobs st)"
      "dict_get (cs_blobs st) (cl_blake3 (au_cache au) b) \<in> {None, Some b}"
      "\<forall>k. k \<noteq> key \<longrightarrow> current_record (au_cache au) st' k = current_record (au_cache au) st k"
    using put_current [OF assms(1,2,4)] by blast
  have "content_hash_field rec = ''blob_blake3''"
    using content_hash_field_alt [OF put_one_blob_field [OF p(3)]] p(3) by (simp add: put_record_def dom_def)
  then have hex: "blob_hex_of au rec = cl_blake3 (au_cache au) b"
    using p(3) by (simp add: blob_hex_of_def put_record_def str_of_json_def blake3_tagged_def)
  then have "stored_bytes au st' key = Some b"
    using assms(3) by (simp add: stored_bytes_def p(2,4) dict_simps)
  moreover have "stored_bytes au st' k = Some c" if "k \<noteq> key" "stored_bytes au st k = Some c" for k c
    using that p(4,5,6) by (auto simp: stored_bytes_def dict_simps split: option.splits if_splits)
  ultimately show ?thesis using p(1) by blast
qed

text \<open>The execution of a probe whose output was just put is intact, and a put under another key leaves the others intact.\<close>

theorem put_is_intact:
  assumes "cache_inv (au_cache au) st" "storable (au_cache au) now st key out n v" "\<forall>b. cl_blake3 (au_cache au) b \<noteq> []"
    and "cache_put (au_cache au) now st key out n v = Ok st'"
  shows "intact au st' (Ran out key)
    \<and> (\<forall>exe. cache_key_of_execution exe \<noteq> key \<longrightarrow> intact au st exe \<longrightarrow> intact au st' exe)"
  using put_stored [OF assms] by (auto simp: intact_def)

text \<open>When a probe has run again under the same key, after its entry expired, the index names the new bytes: the older run
  record counts as damaged although its bytes are still in the cache. The duration is part of the bytes, so two runs rarely agree.\<close>

lemma rerun_counts_as_damage:
  assumes "anchored exe = Some b" "stored_bytes au st (cache_key_of_execution exe) = Some b'" "sha_of au b' \<noteq> sha_of au b"
    and "dict_get (cs_blobs st) h = Some b"
  shows "\<not> intact au st exe"
  using assms(1-3) by (simp add: intact_def)


section \<open>A small run\<close>


text \<open>A library that knows the one record of this run.\<close>

definition sample_audit :: audit_lib where
  "sample_audit = \<lparr>au_cache = sample_lib, au_dump = (\<lambda>_. ''r''),
     au_validate = (\<lambda>_. Some \<lparr>ru_cli_version = ''1'', ru_sherpa_commit = [], ru_python_version = ''3.11'', ru_os_kernel_sha = ''sha256:5a'',
       ru_probes = [\<lparr>pe_name = ''p'', pe_version = ''0.0.0'', pe_cache_hit = False, pe_wall_clock_ms = 3, pe_exit_status = ''ok'',
           pe_cache_key = ''sha256:k'', pe_blob_sha256 = ''sha256:5a''\<rparr>,
         \<lparr>pe_name = ''q'', pe_version = ''0.0.0'', pe_cache_hit = False, pe_wall_clock_ms = 0, pe_exit_status = ''skipped'',
           pe_cache_key = [], pe_blob_sha256 = []\<rparr>],
       ru_tool_versions = [], ru_yaml_sha256 = ''sha256:5a''\<rparr>),
     au_str = (\<lambda>_. []), au_python = ''3.11'', au_platform = ''linux''\<rparr>"

lemma sample_put: "\<exists>st. cache_put sample_lib 7000000 (cache_init 1 None []) ''sha256:k'' sample_output ''p'' ''1'' = Ok st
    \<and> cache_inv sample_lib st"
  using put_lookup [OF sample_inv sample_storable] by blast




lemma put_is_intact_witness:
  "\<exists>st. cache_put sample_lib 7000000 (cache_init 1 None []) ''sha256:k'' sample_output ''p'' ''1'' = Ok st
     \<and> intact sample_audit st (Ran sample_output ''sha256:k'')"
proof -
  obtain st where st: "cache_put sample_lib 7000000 (cache_init 1 None []) ''sha256:k'' sample_output ''p'' ''1'' = Ok st"
    using sample_put by blast
  have a: "au_cache sample_audit = sample_lib" by (simp add: sample_audit_def)
  have "\<forall>b. cl_blake3 sample_lib b \<noteq> []" by (simp add: sample_lib_def)
  then show ?thesis
    using put_is_intact [of sample_audit, unfolded a, OF sample_inv sample_storable _ st] st by blast
qed


end
