(* ===== verification/Npm_Engine.thy ===== *)
theory Npm_Engine
  imports Recipes Json Identifiers
begin

text \<open>
  The npm engine, \<open>src/src/codegenie/transforms/engines/npm_lockfile.py\<close>, on the sandboxed paths of
  \<open>src/src/codegenie/plugins/sandbox_path.py\<close>: reading and editing \<open>package.json\<close>, the jailed
  \<open>npm install\<close>, reading the lockfile it leaves, and the transform that is registered.

  A repository is a state of files \<open>'f\<close> with the operations of the file system on it; a path is the
  list of its components from the root. The jail, orjson, difflib, BLAKE3, the clock and pydantic's JSON of a capability are
  parameters; a float is its text. The free frames of the Python stack are a parameter too, since the depth walk recurses.
\<close>

section \<open>Sandboxed paths\<close>

type_synonym abs_path = "string list"

datatype resolved = Resolved abs_path | Not_there | Os_error

record 'f file_ops =
  fo_resolve :: "'f \<Rightarrow> abs_path \<Rightarrow> resolved"
  fo_is_symlink :: "'f \<Rightarrow> abs_path \<Rightarrow> bool"
  fo_read :: "'f \<Rightarrow> abs_path \<Rightarrow> int + string"
  fo_write :: "'f \<Rightarrow> abs_path \<Rightarrow> string \<Rightarrow> int + 'f"

text \<open>\<open>Path(s)\<close>: empty and single-dot components vanish.\<close>

definition path_parts :: "string \<Rightarrow> string list" where
  "path_parts s = filter (\<lambda>c. c \<noteq> [] \<and> c \<noteq> ''.'') (py_split ''/'' s)"

datatype escape_reason = Not_under_jail | Not_resolvable | Path_missing | Path_absolute | Invalid_jail

fun escape_reason_str :: "escape_reason \<Rightarrow> string" where
  "escape_reason_str Not_under_jail = ''not_under_jail''"
| "escape_reason_str Not_resolvable = ''not_resolvable''"
| "escape_reason_str Path_missing = ''missing''"
| "escape_reason_str Path_absolute = ''absolute''"
| "escape_reason_str Invalid_jail = ''invalid_jail''"

text \<open>\<open>SandboxedPath.create\<close>; an \<open>OSError\<close> other than \<open>FileNotFoundError\<close> on the jail itself is not caught.\<close>

definition sandbox_create :: "'f file_ops \<Rightarrow> 'f \<Rightarrow> abs_path \<Rightarrow> string \<Rightarrow> exn + (escape_reason + abs_path)" where
  "sandbox_create ops files jail relative =
     (if prefix ''/'' relative then Ok (Err Path_absolute)
      else case fo_resolve ops files jail of
        Not_there \<Rightarrow> Ok (Err Invalid_jail)
      | Os_error \<Rightarrow> Err (''OSError'', [])
      | Resolved jail_abs \<Rightarrow>
          (let candidate = jail_abs @ path_parts relative in
           case fo_resolve ops files candidate of
             Not_there \<Rightarrow> Ok (Err (if fo_is_symlink ops files candidate then Not_resolvable else Path_missing))
           | Os_error \<Rightarrow> Ok (Err Not_resolvable)
           | Resolved p \<Rightarrow> if \<not> prefix jail_abs p then Ok (Err Not_under_jail) else Ok (Ok p)))"

text \<open>The flags of \<open>open\<close>; an unknown mode raises.\<close>

definition mode_to_base_flags :: "(string, string list) dict" where
  "mode_to_base_flags =
     [(''r'', [''O_RDONLY'']), (''rb'', [''O_RDONLY'']),
      (''w'', [''O_WRONLY'', ''O_CREAT'', ''O_TRUNC'']), (''wb'', [''O_WRONLY'', ''O_CREAT'', ''O_TRUNC'']),
      (''a'', [''O_WRONLY'', ''O_CREAT'', ''O_APPEND'']), (''ab'', [''O_WRONLY'', ''O_CREAT'', ''O_APPEND'']),
      (''r+'', [''O_RDWR'']), (''rb+'', [''O_RDWR'']),
      (''x'', [''O_WRONLY'', ''O_CREAT'', ''O_EXCL'']), (''xb'', [''O_WRONLY'', ''O_CREAT'', ''O_EXCL''])]"

definition mandatory_flags :: "string list" where "mandatory_flags = [''O_NOFOLLOW'', ''O_CLOEXEC'']"

definition open_flags :: "string \<Rightarrow> exn + string list" where
  "open_flags mode = (case map_of mode_to_base_flags mode of
     None \<Rightarrow> Err (''ValueError'', ''unsupported mode for SandboxedPath.open: '' @ py_repr mode)
   | Some flags \<Rightarrow> Ok (flags @ mandatory_flags))"

section \<open>Errors and results\<close>

record npm_error =
  ne_error_id :: string
  ne_message :: string
  ne_details :: "(string \<times> json) list"

definition npm_err :: "string \<Rightarrow> string \<Rightarrow> (string \<times> json) list \<Rightarrow> npm_error" where
  "npm_err error_id message details = \<lparr>ne_error_id = error_id, ne_message = message, ne_details = details\<rparr>"

text \<open>A step raises, fails with an error of the taxonomy, or goes on.\<close>

datatype 'a npm_step = Raised exn | Failed npm_error | Done 'a

fun nbind :: "'a npm_step \<Rightarrow> ('a \<Rightarrow> 'b npm_step) \<Rightarrow> 'b npm_step" where
  "nbind (Raised e) f = Raised e"
| "nbind (Failed e) f = Failed e"
| "nbind (Done a) f = f a"

datatype recipe_outcome = Applied_outcome string string string | Failed_outcome npm_error

definition error_message_max_len :: nat where "error_message_max_len = 4096"

text \<open>\<open>_to_failed\<close>: the error of the outcome bounds its message.\<close>

definition to_failed :: "npm_error \<Rightarrow> exn + recipe_outcome" where
  "to_failed e =
     (if length (ne_message e) > error_message_max_len
      then Err (''ValidationError'', ''message exceeds '' @ nat_str error_message_max_len @ '' chars'')
      else Ok (Failed_outcome e))"

section \<open>The engine's surroundings\<close>

datatype jail_result =
    Jail_completed int int string
  | Jail_timed_out string string
  | Jail_oom_killed int
  | Jail_network_denied string
  | Jail_disk_quota int int
  | Jail_setup_failed string string

record npm_capability =
  nc_minted_by :: string
  nc_dump :: string

record 'f npm_world =
  nw_files :: "'f file_ops"
  nw_jail :: "string list \<Rightarrow> abs_path \<Rightarrow> 'f \<Rightarrow> jail_result \<times> 'f"
  nw_loads :: "string \<Rightarrow> exn + json"
  nw_dumps :: "json \<Rightarrow> string"
  nw_diff :: "string \<Rightarrow> string \<Rightarrow> string \<Rightarrow> exn + string"
  nw_blake3 :: "string \<Rightarrow> string"
  nw_now :: int
  nw_frames :: nat
  nw_type_name :: "json \<Rightarrow> string"

definition package_json_max_bytes :: nat where "package_json_max_bytes = 1048576"
definition package_json_max_depth :: nat where "package_json_max_depth = 16"
definition npm_lock_max_bytes :: nat where "npm_lock_max_bytes = 33554432"
definition npm_lock_max_depth :: nat where "npm_lock_max_depth = 24"
definition supported_lockfile_version :: int where "supported_lockfile_version = 3"

definition npm_install_cmd :: "string list" where
  "npm_install_cmd = [''npm'', ''install'', ''--package-lock-only'', ''--ignore-scripts'', ''--no-audit'', ''--prefer-offline'']"

definition dep_sections :: "string list" where
  "dep_sections = [''dependencies'', ''devDependencies'', ''optionalDependencies'', ''overrides'']"

definition pjson_marker :: string where "pjson_marker = ''--- file: package.json ---'' @ [CHR 0x0A]"
definition lockfile_marker :: string where "lockfile_marker = ''--- file: package-lock.json ---'' @ [CHR 0x0A]"
definition npm_plugin_version :: string where "npm_plugin_version = ''3.0.0''"
definition npm_recipe_version :: string where "npm_recipe_version = ''3.0.0''"

section \<open>Depth\<close>

fun json_depth :: "json \<Rightarrow> nat" where
  "json_depth (JObj kvs) = Suc (Max (insert 0 (set (map (\<lambda>kv. json_depth (snd kv)) kvs))))"
| "json_depth (JArr js) = Suc (Max (insert 0 (set (map json_depth js))))"
| "json_depth _ = 0"

text \<open>The frames the recursion needs: one for the call, and one more for the generator of a container.\<close>

fun depth_frames :: "json \<Rightarrow> nat" where
  "depth_frames (JObj kvs) = 2 + Max (insert 0 (set (map (\<lambda>kv. depth_frames (snd kv)) kvs)))"
| "depth_frames (JArr js) = 2 + Max (insert 0 (set (map depth_frames js)))"
| "depth_frames _ = 1"

definition max_depth_call :: "nat \<Rightarrow> json \<Rightarrow> exn + nat" where
  "max_depth_call frames v =
     (if depth_frames v > frames then Err (''RecursionError'', ''maximum recursion depth exceeded'') else Ok (json_depth v))"

section \<open>Reading and editing\<close>

definition os_exn :: "int \<Rightarrow> exn" where "os_exn errno = (''OSError'', int_str errno)"

text \<open>The part the two readers share: bytes, size cap, JSON object, depth cap.\<close>

definition read_json_object ::
  "'f npm_world \<Rightarrow> 'f \<Rightarrow> abs_path \<Rightarrow> nat \<Rightarrow> npm_error \<Rightarrow> string \<Rightarrow> nat \<Rightarrow> string \<times> string
     \<Rightarrow> ((string \<times> json) list \<times> string) npm_step" where
  "read_json_object w files path max_bytes too_large root_message max_depth deep =
     (case fo_read (nw_files w) files path of
        Err errno \<Rightarrow> Raised (os_exn errno)
      | Ok raw \<Rightarrow>
          if length raw > max_bytes
          then Failed (too_large\<lparr>ne_details := ne_details too_large @ [(''observed_bytes'', JInt (int (length raw)))]\<rparr>)
          else case nw_loads w raw of
            Err e \<Rightarrow> Raised e
          | Ok parsed \<Rightarrow>
              (case parsed of
                 JObj doc \<Rightarrow>
                   (case max_depth_call (nw_frames w) (JObj doc) of
                      Err e \<Rightarrow> Raised e
                    | Ok depth \<Rightarrow>
                        if depth > max_depth
                        then Failed (npm_err (fst deep) (snd deep)
                               [(''limit'', JInt (int max_depth)), (''observed'', JInt (int depth))])
                        else Done (doc, raw))
               | other \<Rightarrow> Failed (npm_err ''recipe.adversarial_repo_content'' root_message
                    [(''root_type'', JStr (nw_type_name w other))])))"

definition read_package_json :: "'f npm_world \<Rightarrow> 'f \<Rightarrow> abs_path \<Rightarrow> ((string \<times> json) list \<times> string) npm_step" where
  "read_package_json w files path =
     nbind (read_json_object w files path package_json_max_bytes
              (npm_err ''recipe.package_json_too_large'' ''package.json exceeds 1 MiB cap''
                 [(''limit_bytes'', JInt (int package_json_max_bytes))])
              ''package.json root is not a JSON object'' package_json_max_depth
              (''recipe.package_json_depth_exceeded'', ''package.json nesting depth exceeds cap''))
       (\<lambda>(doc, raw).
         case map_of doc ''name'' of
           Some (JStr name) \<Rightarrow>
             if isl (parse_package_name name)
             then Failed (npm_err ''recipe.adversarial_repo_content'' ''package.json 'name' failed smart-constructor validation''
                    [(''field'', JStr ''name'')])
             else Done (doc, raw)
         | _ \<Rightarrow> Done (doc, raw))"

text \<open>The loop over the sections; the document is a copy, so the assignment changes nothing else.\<close>

fun edit_sections :: "string list \<Rightarrow> (string \<times> json) list \<Rightarrow> string \<Rightarrow> string \<Rightarrow> (string \<times> json) list option" where
  "edit_sections [] doc package new_version = None"
| "edit_sections (section # sections) doc package new_version =
     (case map_of doc section of
        Some (JObj deps) \<Rightarrow>
          if package \<in> set (map fst deps) then Some (dict_set section (JObj (dict_set package (JStr new_version) deps)) doc)
          else edit_sections sections doc package new_version
      | _ \<Rightarrow> edit_sections sections doc package new_version)"

definition edit_dep_version :: "(string \<times> json) list \<Rightarrow> string \<Rightarrow> string \<Rightarrow> (string \<times> json) list npm_step" where
  "edit_dep_version doc package new_version =
     (case edit_sections dep_sections doc package new_version of
        Some edited \<Rightarrow> Done edited
      | None \<Rightarrow> Failed (npm_err ''recipe.package_not_in_dependencies''
          (''package '' @ py_repr package @ '' not found in any dependency section'')
          [(''package'', JStr package), (''sections_searched'', JStr (py_join '','' dep_sections))]))"

definition serialize_json :: "'f npm_world \<Rightarrow> (string \<times> json) list \<Rightarrow> string" where
  "serialize_json w doc = nw_dumps w (JObj doc) @ [CHR 0x0A]"

text \<open>\<open>version != 3\<close>: a float equal to three passes.\<close>

definition is_version_3 :: "json \<Rightarrow> bool" where
  "is_version_3 v = (case v of JInt i \<Rightarrow> i = supported_lockfile_version | JFloat r \<Rightarrow> r = ''3.0'' | _ \<Rightarrow> False)"

definition version_detail :: "json \<Rightarrow> json" where
  "version_detail v = (case v of JInt i \<Rightarrow> JInt i | JBool b \<Rightarrow> JBool b | _ \<Rightarrow> JInt (-1))"

definition parse_npm_lock :: "'f npm_world \<Rightarrow> 'f \<Rightarrow> abs_path \<Rightarrow> ((string \<times> json) list \<times> string) npm_step" where
  "parse_npm_lock w files path =
     nbind (read_json_object w files path npm_lock_max_bytes
              (npm_err ''recipe.lockfile_too_large'' ''package-lock.json exceeds 32 MiB cap''
                 [(''limit_bytes'', JInt (int npm_lock_max_bytes))])
              ''package-lock.json root is not a JSON object'' npm_lock_max_depth
              (''recipe.lockfile_depth_exceeded'', ''package-lock.json nesting depth exceeds cap''))
       (\<lambda>(doc, raw).
         let version = jget ''lockfileVersion'' doc in
         if is_version_3 version then Done (doc, raw)
         else Failed (npm_err ''recipe.lockfile_v1_unsupported'' ''only npm lockfileVersion 3 is supported''
                [(''lockfile_version'', version_detail version), (''supported'', JInt supported_lockfile_version)]))"

section \<open>Effects\<close>

definition errno_eloop :: int where "errno_eloop = 40"

definition write_package_json :: "'f npm_world \<Rightarrow> 'f \<Rightarrow> abs_path \<Rightarrow> string \<Rightarrow> 'f npm_step" where
  "write_package_json w files path payload =
     (case fo_write (nw_files w) files path payload of
        Ok files' \<Rightarrow> Done files'
      | Err errno \<Rightarrow>
          if errno = errno_eloop
          then Failed (npm_err ''recipe.filesystem_race'' ''symlink swap detected on package.json write-back''
                 [(''path'', JStr ''package.json'')])
          else Raised (os_exn errno))"

fun classify_jail_result :: "jail_result \<Rightarrow> npm_error option" where
  "classify_jail_result (Jail_completed exit_code stderr_bytes wall_time_s) =
     (if exit_code = 0 then None
      else Some (npm_err ''recipe.npm_install_exit_nonzero'' (''npm install exited '' @ int_str exit_code)
        [(''exit_code'', JInt exit_code), (''stderr_bytes'', JInt stderr_bytes), (''wall_time_s'', JFloat wall_time_s)]))"
| "classify_jail_result (Jail_timed_out budget_s elapsed_s) =
     Some (npm_err ''recipe.install_timeout'' ''npm install exceeded its time budget''
       [(''budget_s'', JFloat budget_s), (''elapsed_s'', JFloat elapsed_s)])"
| "classify_jail_result (Jail_oom_killed peak_rss_mib) =
     Some (npm_err ''recipe.install_oom'' ''npm install was killed for exceeding the memory budget''
       [(''peak_rss_mib'', JInt peak_rss_mib)])"
| "classify_jail_result (Jail_network_denied host) =
     Some (npm_err ''recipe.network_policy_violation'' ''npm install attempted egress to a non-allowlisted host''
       [(''host'', JStr host)])"
| "classify_jail_result (Jail_disk_quota quota_bytes bytes_written) =
     Some (npm_err ''recipe.disk_quota_exceeded'' ''npm install exceeded the jail disk quota''
       [(''quota_bytes'', JInt quota_bytes), (''bytes_written'', JInt bytes_written)])"
| "classify_jail_result (Jail_setup_failed reason detail) =
     Some (npm_err ''recipe.jail_setup_failed'' ''the subprocess jail could not be set up''
       [(''reason'', JStr reason), (''detail'', JStr detail)])"

definition npm_resolve :: "'f npm_world \<Rightarrow> 'f \<Rightarrow> abs_path \<Rightarrow> string \<Rightarrow> abs_path npm_step" where
  "npm_resolve w files repo relative =
     (case sandbox_create (nw_files w) files repo relative of
        Err e \<Rightarrow> Raised e
      | Ok (Inr p) \<Rightarrow> Done p
      | Ok (Inl reason) \<Rightarrow> Failed (npm_err ''recipe.filesystem_race''
          (relative @ '' could not be resolved safely under the repo jail'')
          [(''path'', JStr relative), (''reason'', JStr (escape_reason_str reason))]))"

text \<open>The lockfile before the install: no file, and any other failure to resolve it, is empty bytes.\<close>

definition read_before_lockfile :: "'f npm_world \<Rightarrow> 'f \<Rightarrow> abs_path \<Rightarrow> string npm_step" where
  "read_before_lockfile w files repo =
     (case npm_resolve w files repo ''package-lock.json'' of
        Raised e \<Rightarrow> Raised e
      | Failed _ \<Rightarrow> Done []
      | Done p \<Rightarrow> (case fo_read (nw_files w) files p of Err errno \<Rightarrow> Raised (os_exn errno) | Ok raw \<Rightarrow> Done raw))"

definition build_unified_diff :: "'f npm_world \<Rightarrow> string \<Rightarrow> string \<Rightarrow> string \<Rightarrow> string \<Rightarrow> exn + string" where
  "build_unified_diff w before_pjson after_pjson before_lock after_lock =
     rbind (nw_diff w ''package.json'' before_pjson after_pjson) (\<lambda>pjson_diff.
     rbind (nw_diff w ''package-lock.json'' before_lock after_lock) (\<lambda>lock_diff.
       Ok (pjson_marker @ pjson_diff @ lockfile_marker @ lock_diff)))"

section \<open>Apply\<close>

text \<open>What \<open>apply\<close> does before it writes: the resolved path, the bytes read and the bytes to write.\<close>

definition npm_prepare :: "'f npm_world \<Rightarrow> 'f \<Rightarrow> abs_path \<Rightarrow> string \<Rightarrow> string \<Rightarrow> (abs_path \<times> string \<times> string) npm_step" where
  "npm_prepare w files repo package to_version =
     nbind (npm_resolve w files repo ''package.json'') (\<lambda>pkg_path.
     nbind (read_package_json w files pkg_path) (\<lambda>(before_doc, before_bytes).
     nbind (edit_dep_version before_doc package to_version) (\<lambda>edited.
       Done (pkg_path, before_bytes, serialize_json w edited))))"

definition npm_install :: "'f npm_world \<Rightarrow> abs_path \<Rightarrow> 'f \<Rightarrow> unit npm_step \<times> 'f" where
  "npm_install w repo files =
     (case nw_jail w npm_install_cmd repo files of (result, files') \<Rightarrow>
        (case classify_jail_result result of None \<Rightarrow> Done () | Some e \<Rightarrow> Failed e, files'))"

definition npm_transform ::
  "'f npm_world \<Rightarrow> npm_capability \<Rightarrow> string \<Rightarrow> string \<Rightarrow> abs_path list \<Rightarrow> transform" where
  "npm_transform w cap transform_kind diff_bytes files_changed =
     \<lparr>tf_transform_id = nw_blake3 w diff_bytes, tf_diff_bytes = diff_bytes, tf_files_changed = files_changed,
      tf_provenance = \<lparr>tp_plugin_id = nc_minted_by cap, tp_plugin_version = npm_plugin_version,
        tp_recipe_id = transform_kind, tp_recipe_version = npm_recipe_version, tp_transform_kind = transform_kind,
        tp_applied_at = nw_now w, tp_capability_use_id = nw_blake3 w (nc_dump cap)\<rparr>,
      tf_origin = ''codegenie.transforms.engines.npm_lockfile.NpmLockfileTransform''\<rparr>"

text \<open>What it does after the install, and the transform it registers.\<close>

definition npm_finish ::
  "'f npm_world \<Rightarrow> 'f \<Rightarrow> abs_path \<Rightarrow> npm_capability \<Rightarrow> string \<Rightarrow> abs_path \<times> string \<times> string \<Rightarrow> string
     \<Rightarrow> transform npm_step" where
  "npm_finish w files repo cap transform_kind prepared before_lock =
     (case prepared of (pkg_path, before_bytes, after_bytes) \<Rightarrow>
        nbind (npm_resolve w files repo ''package-lock.json'') (\<lambda>lock_path.
        nbind (parse_npm_lock w files lock_path) (\<lambda>(_, after_lock).
          case build_unified_diff w before_bytes after_bytes before_lock after_lock of
            Err e \<Rightarrow> Raised e
          | Ok diff_bytes \<Rightarrow> Done (npm_transform w cap transform_kind diff_bytes [pkg_path, lock_path]))))"

text \<open>How a step that does not go on ends \<open>apply\<close>.\<close>

fun stopped :: "'a npm_step \<Rightarrow> exn + recipe_outcome" where
  "stopped (Raised e) = Err e"
| "stopped (Failed e) = to_failed e"
| "stopped (Done _) = Err (''AssertionError'', [])"

definition npm_apply ::
  "'f npm_world \<Rightarrow> abs_path \<Rightarrow> application_plan \<Rightarrow> npm_capability \<Rightarrow> 'f \<times> transform_registry
     \<Rightarrow> (exn + recipe_outcome) \<times> 'f \<times> transform_registry" where
  "npm_apply w repo plan cap st =
     (case st of (files, reg) \<Rightarrow>
        (case (ap_package plan, ap_to_version plan, ap_transform_kind plan) of
           (Some package, Some to_version, Some transform_kind) \<Rightarrow>
             (case npm_prepare w files repo package to_version of
                Done (pkg_path, before_bytes, after_bytes) \<Rightarrow>
                  (case write_package_json w files pkg_path after_bytes of
                     Done files1 \<Rightarrow>
                       (case read_before_lockfile w files1 repo of
                          Done before_lock \<Rightarrow>
                            (case npm_install w repo files1 of
                               (Done _, files2) \<Rightarrow>
                                 (case npm_finish w files2 repo cap transform_kind (pkg_path, before_bytes, after_bytes) before_lock of
                                    Done t \<Rightarrow>
                                      (case register_transform t reg of
                                         Ok reg' \<Rightarrow> (Ok (Applied_outcome (tf_transform_id t) (nc_minted_by cap) transform_kind), files2, reg')
                                       | Err e \<Rightarrow> (Err (''TransformAlreadyRegistered'', tf_transform_id t), files2, reg))
                                  | s \<Rightarrow> (stopped s, files2, reg))
                             | (s, files2) \<Rightarrow> (stopped s, files2, reg))
                        | s \<Rightarrow> (stopped s, files1, reg))
                   | s \<Rightarrow> (stopped s, files, reg))
              | s \<Rightarrow> (stopped s, files, reg))
         | (package, _, _) \<Rightarrow>
             (to_failed (npm_err ''recipe.package_not_in_dependencies'' ''ApplicationPlan missing package field''
                [(''package'', JStr (case package of None \<Rightarrow> [] | Some p \<Rightarrow> p))]), files, reg)))"

section \<open>Sandboxed paths stay in the jail\<close>



lemma open_never_follows: "open_flags mode = Ok flags \<Longrightarrow> ''O_NOFOLLOW'' \<in> set flags \<and> ''O_CLOEXEC'' \<in> set flags"
  by (auto simp: open_flags_def mandatory_flags_def split: option.splits)

section \<open>The edit\<close>

definition section_holds :: "(string \<times> json) list \<Rightarrow> string \<Rightarrow> string \<Rightarrow> bool" where
  "section_holds doc package section \<longleftrightarrow>
     (\<exists>deps. map_of doc section = Some (JObj deps) \<and> package \<in> set (map fst deps))"

text \<open>The document that differs in the version of one package of one section only.\<close>

definition only_version_changed ::
  "(string \<times> json) list \<Rightarrow> (string \<times> json) list \<Rightarrow> string \<Rightarrow> string \<Rightarrow> string \<Rightarrow> bool" where
  "only_version_changed doc doc' section package new_version \<longleftrightarrow>
     dict_keys doc' = dict_keys doc \<and> (\<forall>s. s \<noteq> section \<longrightarrow> map_of doc' s = map_of doc s)
   \<and> (\<exists>deps deps'. map_of doc section = Some (JObj deps) \<and> map_of doc' section = Some (JObj deps')
       \<and> dict_keys deps' = dict_keys deps \<and> map_of deps' package = Some (JStr new_version)
       \<and> (\<forall>q. q \<noteq> package \<longrightarrow> map_of deps' q = map_of deps q))"

lemma dict_set_keys: "k \<in> set (dict_keys d) \<Longrightarrow> dict_keys (dict_set k v d) = dict_keys d"
  by (induction d) auto

lemma edit_sections_exact:
  "case edit_sections sections doc package v of
     None \<Rightarrow> \<forall>s \<in> set sections. \<not> section_holds doc package s
   | Some doc' \<Rightarrow> \<exists>before s after. sections = before @ s # after \<and> (\<forall>t \<in> set before. \<not> section_holds doc package t)
       \<and> section_holds doc package s \<and> only_version_changed doc doc' s package v"
proof (induction sections)
  case (Cons s sections)
  show ?case
  proof (cases "section_holds doc package s")
    case True
    then obtain deps where d: "map_of doc s = Some (JObj deps)" "package \<in> set (map fst deps)"
      by (auto simp: section_holds_def)
    then have "s \<in> set (dict_keys doc)" by (metis map_of_eq_None_iff option.distinct(1) set_map)
    then have "only_version_changed doc (dict_set s (JObj (dict_set package (JStr v) deps)) doc) s package v"
      using d by (auto simp: only_version_changed_def dict_set_keys dict_simps)
    moreover have "edit_sections (s # sections) doc package v = Some (dict_set s (JObj (dict_set package (JStr v) deps)) doc)"
      using d by simp
    ultimately show ?thesis
      using True by (simp only: option.case) (intro exI [of _ "[]"] exI [of _ s] exI [of _ sections] conjI, simp_all)
  next
    case False
    then have e: "edit_sections (s # sections) doc package v = edit_sections sections doc package v"
      by (auto simp: section_holds_def split: option.split json.split)
    show ?thesis
    proof (cases "edit_sections sections doc package v")
      case None
      then show ?thesis using Cons.IH False e by simp
    next
      case (Some doc')
      then obtain before t after where "sections = before @ t # after" "\<forall>t \<in> set before. \<not> section_holds doc package t"
          "section_holds doc package t" "only_version_changed doc doc' t package v"
        using Cons.IH by auto
      then show ?thesis
        using Some e False
        by (simp only: option.case) (intro exI [of _ "s # before"] exI [of _ t] exI [of _ after] conjI, simp_all)
    qed
  qed
qed simp

text \<open>C27. The edit changes the version of the package in the first section that has it, and nothing else, not even the order of the
  keys; it fails exactly when no section has the package.\<close>

theorem edit_dep_version_exact:
  "case edit_dep_version doc package v of
     Done doc' \<Rightarrow> \<exists>before s after. dep_sections = before @ s # after \<and> (\<forall>t \<in> set before. \<not> section_holds doc package t)
       \<and> section_holds doc package s \<and> only_version_changed doc doc' s package v
   | Failed e \<Rightarrow> ne_error_id e = ''recipe.package_not_in_dependencies'' \<and> (\<forall>s \<in> set dep_sections. \<not> section_holds doc package s)
   | Raised _ \<Rightarrow> False"
  using edit_sections_exact [of dep_sections doc package v]
  by (simp add: edit_dep_version_def npm_err_def split: option.splits)

section \<open>What apply leaves behind\<close>


















section \<open>A run\<close>

text \<open>A repository of two files: one dependency, and the lockfile that the jail leaves. The files' texts stand for their
  documents.\<close>

definition toy_files :: "string \<Rightarrow> (abs_path, string) dict" where
  "toy_files pjson = [([''r''], []), ([''r'', ''package.json''], pjson), ([''r'', ''package-lock.json''], ''L'')]"

definition toy_file_ops :: "(abs_path, string) dict file_ops" where
  "toy_file_ops = \<lparr>fo_resolve = (\<lambda>files p. if dict_get files p = None then Not_there else Resolved p),
     fo_is_symlink = (\<lambda>files p. False),
     fo_read = (\<lambda>files p. case dict_get files p of None \<Rightarrow> Err 2 | Some b \<Rightarrow> Ok b),
     fo_write = (\<lambda>files p b. Ok (dict_set p b files))\<rparr>"

definition toy_doc :: "string \<Rightarrow> json" where
  "toy_doc v = JObj [(''dependencies'', JObj [(''a'', JStr v)])]"

definition toy_dumps :: "json \<Rightarrow> string" where
  "toy_dumps v = (if v = toy_doc ''2'' then ''P2'' else ''P1'')"

definition toy_loads :: "string \<Rightarrow> exn + json" where
  "toy_loads s = (if s = ''L'' then Ok (JObj [(''lockfileVersion'', JInt 3)])
     else if s = ''P2'' @ [CHR 0x0A] then Ok (toy_doc ''2'') else Ok (toy_doc ''1''))"

definition toy_npm_world :: "jail_result \<Rightarrow> (abs_path, string) dict npm_world" where
  "toy_npm_world r = \<lparr>nw_files = toy_file_ops, nw_jail = (\<lambda>cmd repo files. (r, files)), nw_loads = toy_loads,
     nw_dumps = toy_dumps, nw_diff = (\<lambda>name before after. Ok (before @ after)), nw_blake3 = (\<lambda>b. b), nw_now = 0,
     nw_frames = 1000, nw_type_name = (\<lambda>v. ''list'')\<rparr>"

definition toy_plan :: "application_plan" where
  "toy_plan = for_npm_semver_bump ''a'' ''1'' ''2'' ''k''"

definition toy_cap :: npm_capability where "toy_cap = \<lparr>nc_minted_by = ''p'', nc_dump = ''c''\<rparr>"

definition no_transforms :: transform_registry where "no_transforms = \<lparr>tg_transforms = [], tg_origins = []\<rparr>"

lemma toy_paths:
  "path_parts ''package.json'' = [''package.json'']" "path_parts ''package-lock.json'' = [''package-lock.json'']"
  "prefix ''/'' ''package.json'' = False" "prefix ''/'' ''package-lock.json'' = False"
  by code_simp+

lemma toy_world:
  "nw_files (toy_npm_world r) = toy_file_ops" "nw_jail (toy_npm_world r) = (\<lambda>cmd repo files. (r, files))"
  "nw_loads (toy_npm_world r) = toy_loads" "nw_dumps (toy_npm_world r) = toy_dumps"
  "nw_diff (toy_npm_world r) = (\<lambda>name before after. Ok (before @ after))" "nw_blake3 (toy_npm_world r) = (\<lambda>b. b)"
  "nw_frames (toy_npm_world r) = 1000"
  by (simp_all add: toy_npm_world_def)

lemma toy_resolve:
  "npm_resolve (toy_npm_world r) (toy_files s) [''r''] ''package.json'' = Done [''r'', ''package.json'']"
  "npm_resolve (toy_npm_world r) (toy_files s) [''r''] ''package-lock.json'' = Done [''r'', ''package-lock.json'']"
  by (simp_all add: npm_resolve_def sandbox_create_def toy_paths toy_world toy_file_ops_def toy_files_def)

lemma toy_reads:
  "fo_read toy_file_ops (toy_files s) [''r'', ''package.json''] = Ok s"
  "fo_read toy_file_ops (toy_files s) [''r'', ''package-lock.json''] = Ok ''L''"
  "fo_write toy_file_ops (toy_files s) [''r'', ''package.json''] s' = Ok (toy_files s')"
  by (simp_all add: toy_file_ops_def toy_files_def)

lemma toy_edit: "edit_dep_version [(''dependencies'', JObj [(''a'', JStr v)])] ''a'' ''2'' = Done [(''dependencies'', JObj [(''a'', JStr ''2'')])]"
  by (simp add: edit_dep_version_def dep_sections_def)

lemma npm_toy_prepare:
  assumes "s \<in> {''P1'', ''P2'' @ [CHR 0x0A]}"
  shows "npm_prepare (toy_npm_world r) (toy_files s) [''r''] ''a'' ''2'' = Done ([''r'', ''package.json''], s, ''P2'' @ [CHR 0x0A])"
  using assms
  by (auto simp: npm_prepare_def toy_resolve read_package_json_def read_json_object_def toy_world toy_reads toy_loads_def
      toy_doc_def package_json_max_bytes_def package_json_max_depth_def max_depth_call_def toy_edit serialize_json_def toy_dumps_def)

definition toy_diff :: "string \<Rightarrow> string" where
  "toy_diff s = pjson_marker @ (s @ ''P2'' @ [CHR 0x0A]) @ lockfile_marker @ ''LL''"

definition toy_transform :: "jail_result \<Rightarrow> string \<Rightarrow> transform" where
  "toy_transform r s = npm_transform (toy_npm_world r) toy_cap ''k'' (toy_diff s) [[''r'', ''package.json''], [''r'', ''package-lock.json'']]"

lemma toy_transform_id: "tf_transform_id (toy_transform r s) = toy_diff s"
  by (simp add: toy_transform_def npm_transform_def toy_world)

lemma toy_apply:
  assumes "s \<in> {''P1'', ''P2'' @ [CHR 0x0A]}"
  shows "npm_apply (toy_npm_world r) [''r''] toy_plan toy_cap (toy_files s, reg) =
     (case classify_jail_result r of
        Some e \<Rightarrow> (to_failed e, toy_files (''P2'' @ [CHR 0x0A]), reg)
      | None \<Rightarrow>
          (case register_transform (toy_transform r s) reg of
             Ok reg' \<Rightarrow> (Ok (Applied_outcome (toy_diff s) ''p'' ''k''), toy_files (''P2'' @ [CHR 0x0A]), reg')
           | Err e \<Rightarrow> (Err (''TransformAlreadyRegistered'', toy_diff s), toy_files (''P2'' @ [CHR 0x0A]), reg)))"
proof -
  have plan: "ap_package toy_plan = Some ''a''" "ap_to_version toy_plan = Some ''2''" "ap_transform_kind toy_plan = Some ''k''"
    by (simp_all add: toy_plan_def for_npm_semver_bump_def)
  have wr: "write_package_json (toy_npm_world r) (toy_files s) [''r'', ''package.json''] b = Done (toy_files b)" for b
    by (simp add: write_package_json_def toy_world toy_reads)
  have bl: "read_before_lockfile (toy_npm_world r) (toy_files b) [''r''] = Done ''L''" for b
    by (simp add: read_before_lockfile_def toy_resolve) (simp add: toy_world toy_reads)
  have inst: "npm_install (toy_npm_world r) [''r''] fs = (case classify_jail_result r of None \<Rightarrow> Done () | Some e \<Rightarrow> Failed e, fs)" for fs
    by (simp add: npm_install_def toy_world)
  have lock: "parse_npm_lock (toy_npm_world r) (toy_files b) [''r'', ''package-lock.json''] = Done ([(''lockfileVersion'', JInt 3)], ''L'')" for b
    by (simp add: parse_npm_lock_def read_json_object_def toy_world toy_reads toy_loads_def npm_lock_max_bytes_def
        npm_lock_max_depth_def max_depth_call_def jget_def is_version_3_def supported_lockfile_version_def)
  have fin: "npm_finish (toy_npm_world r) (toy_files b) [''r''] toy_cap ''k'' ([''r'', ''package.json''], s, ''P2'' @ [CHR 0x0A]) ''L'' =
      Done (toy_transform r s)" for b
    by (simp add: npm_finish_def toy_resolve lock build_unified_diff_def toy_world toy_transform_def toy_diff_def)
  have cap: "nc_minted_by toy_cap = ''p''" by (simp add: toy_cap_def)
  show ?thesis
    by (simp add: npm_apply_def plan npm_toy_prepare [OF assms, unfolded append.simps] wr bl inst fin [unfolded append.simps] cap toy_transform_id
        split: option.split sum.split)
qed

lemma edit_dep_version_exact_witness:
  "edit_dep_version [(''dependencies'', JObj [(''a'', JStr ''1'')])] ''a'' ''2'' = Done [(''dependencies'', JObj [(''a'', JStr ''2'')])]
   \<and> (\<exists>before s after. dep_sections = before @ s # after
       \<and> only_version_changed [(''dependencies'', JObj [(''a'', JStr ''1'')])] [(''dependencies'', JObj [(''a'', JStr ''2'')])] s ''a'' ''2'')"
  using edit_dep_version_exact [of "[(''dependencies'', JObj [(''a'', JStr ''1'')])]" "''a''" "''2''"]
  unfolding toy_edit by auto


section \<open>What modelling showed\<close>

text \<open>An install that fails leaves the edited manifest in the repository: nothing rolls the write back.\<close>

lemma failed_install_keeps_edit:
  assumes "ap_package plan = Some package" "ap_to_version plan = Some to_version" "ap_transform_kind plan = Some kind"
      "npm_prepare w files repo package to_version = Done (pkg_path, before_bytes, after_bytes)"
      "write_package_json w files pkg_path after_bytes = Done files1"
      "read_before_lockfile w files1 repo = Done before_lock"
      "npm_install w repo files1 = (Failed e, files2)"
  shows "npm_apply w repo plan cap (files, reg) = (to_failed e, files2, reg)"
  using assms by (simp add: npm_apply_def)

lemma failed_install_toy:
  "npm_apply (toy_npm_world (Jail_oom_killed 64)) [''r''] toy_plan toy_cap (toy_files ''P1'', no_transforms) =
     (to_failed (npm_err ''recipe.install_oom'' ''npm install was killed for exceeding the memory budget'' [(''peak_rss_mib'', JInt 64)]),
      toy_files (''P2'' @ [CHR 0x0A]), no_transforms)"
  by (simp add: toy_apply)

text \<open>A second application that changes nothing has the digest of the first, and registering it raises.\<close>

lemma same_diff_raises:
  "\<exists>d reg'. npm_apply (toy_npm_world (Jail_completed 0 0 ''0.0'')) [''r''] toy_plan toy_cap (toy_files (''P2'' @ [CHR 0x0A]), no_transforms)
       = (Ok (Applied_outcome d ''p'' ''k''), toy_files (''P2'' @ [CHR 0x0A]), reg')
     \<and> npm_apply (toy_npm_world (Jail_completed 0 0 ''0.0'')) [''r''] toy_plan toy_cap (toy_files (''P2'' @ [CHR 0x0A]), reg')
       = (Err (''TransformAlreadyRegistered'', d), toy_files (''P2'' @ [CHR 0x0A]), reg')"
  by (simp add: toy_apply register_transform_def no_transforms_def toy_transform_id)

text \<open>The depth walk recurses before the cap is looked at: a manifest of nested lists, well within the size cap, raises instead of
  failing with the error of the taxonomy.\<close>

fun nested_list :: "nat \<Rightarrow> json" where
  "nested_list 0 = JArr []"
| "nested_list (Suc n) = JArr [nested_list n]"

lemma nested_frames: "depth_frames (nested_list n) = 2 * n + 2"
  by (induction n) auto

lemma deep_manifest_raises:
  assumes "nw_frames w \<le> 1000" "fo_read (nw_files w) files path = Ok raw" "length raw \<le> package_json_max_bytes"
      "nw_loads w raw = Ok (JObj [(''x'', nested_list 500)])"
  shows "read_package_json w files path = Raised (''RecursionError'', ''maximum recursion depth exceeded'')"
  using assms by (simp add: read_package_json_def read_json_object_def max_depth_call_def nested_frames)

end
