(* ===== verification/Deployment.thy ===== *)
theory Deployment
  imports Cache_Store Py_Text Parsers
begin

text \<open>
  The deployment probe, \<open>src/src/codegenie/probes/deployment.py\<close>: detection of the kind, the four parsers with the
  walk over Kustomize overlays, and the slice that \<open>run\<close> returns.

  The repository is what the file system and the capped YAML readers answer. A path is the list of its parts, the root
  first; a name that \<open>rglob\<close> or \<open>glob\<close> lists is given by the environment. A decoded document is a JSON value, a
  mapping by its string keys.
\<close>

section \<open>Paths\<close>

type_synonym dpath = "string list"

text \<open>\<open>directory / text\<close>: an absolute text replaces the directory; exactly two slashes are a root of their own.\<close>

definition path_parts_of :: "string \<Rightarrow> string list" where
  "path_parts_of s = filter (\<lambda>c. c \<noteq> [] \<and> c \<noteq> ''.'') (py_split ''/'' s)"

definition path_join :: "dpath \<Rightarrow> string \<Rightarrow> dpath" where
  "path_join dir text =
     (if prefix ''//'' text \<and> \<not> prefix ''///'' text then ''//'' # path_parts_of text
      else if prefix ''/'' text then ''/'' # path_parts_of text
      else dir @ path_parts_of text)"

section \<open>What the probe asks of its surroundings\<close>

text \<open>An exception that leaves the probe: one of the readers' own, or another.\<close>

datatype deploy_exn = Reader_error parser_error | Python_error exn

text \<open>\<open>dy_resolve\<close> answers \<open>resolve()\<close>, whose exceptions are named by the class that an \<open>except\<close> clause names. The
  generator of \<open>load_all\<close> gives its documents and how it ended. \<open>dy_tree dir pattern\<close> is \<open>rglob\<close>.\<close>

record deploy_env =
  dy_root :: dpath
  dy_resolve :: "dpath \<Rightarrow> exn + dpath"
  dy_is_file :: "dpath \<Rightarrow> bool"
  dy_is_dir :: "dpath \<Rightarrow> bool"
  dy_names :: "string list"
  dy_tree :: "dpath \<Rightarrow> string \<Rightarrow> dpath list"
  dy_text :: "dpath \<Rightarrow> string option"
  dy_load :: "dpath \<Rightarrow> parser_error + (string \<times> json) list"
  dy_load_all :: "dpath \<Rightarrow> json list \<times> parser_error option"
  dy_duration :: int

text \<open>The class name of an error that the parsers catch; \<open>None\<close> where the error passes through.\<close>

fun caught_reader_error :: "parser_error \<Rightarrow> string option" where
  "caught_reader_error (SizeCapExceeded _ _) = Some ''SizeCapExceeded''"
| "caught_reader_error (DepthCapExceeded _) = Some ''DepthCapExceeded''"
| "caught_reader_error (MalformedYAMLError _) = Some ''MalformedYAMLError''"
| "caught_reader_error SymlinkRefusedError = Some ''SymlinkRefusedError''"
| "caught_reader_error (MalformedJSONError _) = None"
| "caught_reader_error (Parsers.OSError _) = None"

section \<open>Names and documents\<close>

definition deploy_confidence_rank :: "string \<Rightarrow> nat" where
  "deploy_confidence_rank c = (if c = ''low'' then 0 else if c = ''medium'' then 1 else 2)"

definition deploy_demote :: "string \<Rightarrow> string \<Rightarrow> string" where
  "deploy_demote current target = (if deploy_confidence_rank target < deploy_confidence_rank current then target else current)"

definition is_under :: "deploy_env \<Rightarrow> dpath \<Rightarrow> dpath \<Rightarrow> exn + bool" where
  "is_under env candidate root_resolved =
     (case dy_resolve env candidate of
        Ok resolved \<Rightarrow> Ok (prefix root_resolved resolved)
      | Err e \<Rightarrow> if fst e = ''OSError'' then Ok False else Err e)"

definition strip_yaml_suffix :: "string \<Rightarrow> string" where
  "strip_yaml_suffix s =
     (if suffix ''.yaml'' s then take (length s - 5) s else if suffix ''.yml'' s then take (length s - 4) s else s)"

definition env_name_from_filename :: "string \<Rightarrow> string \<times> bool" where
  "env_name_from_filename filename =
     (let stem = strip_yaml_suffix filename in
      if prefix ''values-'' stem \<and> length stem > length ''values-'' then (drop (length ''values-'') stem, True)
      else (stem, False))"

text \<open>\<open>f"{tag}"\<close> of a string, an integer or a bool, which is an integer too.\<close>

fun tag_text :: "json \<Rightarrow> string option" where
  "tag_text (JStr s) = Some s"
| "tag_text (JInt i) = Some (int_str i)"
| "tag_text (JBool b) = Some (if b then ''True'' else ''False'')"
| "tag_text _ = None"

definition extract_image_ref :: "(string \<times> json) list \<Rightarrow> (string \<times> string) option" where
  "extract_image_ref values =
     (case jget ''image'' values of
        JStr s \<Rightarrow> Some (''image'', s)
      | JObj img \<Rightarrow>
          (case jget ''repository'' img of
             JStr repo \<Rightarrow>
               (case tag_text (jget ''tag'' img) of
                  Some tag \<Rightarrow> Some (''image.repository'', repo @ '':'' @ tag)
                | None \<Rightarrow> Some (''image.repository'', repo))
           | _ \<Rightarrow> None)
      | _ \<Rightarrow> None)"

definition raw_kind_filter :: "string list" where
  "raw_kind_filter = [''Deployment'', ''StatefulSet'', ''DaemonSet'', ''Pod'']"

fun as_obj :: "json \<Rightarrow> (string \<times> json) list option" where
  "as_obj (JObj kvs) = Some kvs"
| "as_obj _ = None"

text \<open>A kind that is a list or a mapping cannot be looked up in a set.\<close>

fun kind_in_filter :: "json \<Rightarrow> deploy_exn + bool" where
  "kind_in_filter (JStr k) = Ok (k \<in> set raw_kind_filter)"
| "kind_in_filter (JArr _) = Err (Python_error (''TypeError'', ''unhashable type: 'list'' @ [CHR 0x27]))"
| "kind_in_filter (JObj _) = Err (Python_error (''TypeError'', ''unhashable type: 'dict'' @ [CHR 0x27]))"
| "kind_in_filter _ = Ok False"

fun filter_k8s_kinds :: "(string \<times> json) list list \<Rightarrow> deploy_exn + (string \<times> json) list list" where
  "filter_k8s_kinds [] = Ok []"
| "filter_k8s_kinds (d # docs) =
     rbind (kind_in_filter (jget ''kind'' d)) (\<lambda>keep.
     rbind (filter_k8s_kinds docs) (\<lambda>rest. Ok (if keep then d # rest else rest)))"

definition field_list :: "string \<Rightarrow> (string \<times> json) list \<Rightarrow> json list" where
  "field_list key doc = (case jget key doc of JArr js \<Rightarrow> js | _ \<Rightarrow> [])"

definition extract_container_specs :: "(string \<times> json) list \<Rightarrow> (string \<times> json) list list" where
  "extract_container_specs doc =
     (case jget ''spec'' doc of
        JObj spec \<Rightarrow>
          List.map_filter as_obj
            (if jget ''kind'' doc = JStr ''Pod'' then field_list ''containers'' spec
             else case jget ''template'' spec of
               JObj template \<Rightarrow> (case jget ''spec'' template of JObj inner \<Rightarrow> field_list ''containers'' inner | _ \<Rightarrow> [])
             | _ \<Rightarrow> [])
      | _ \<Rightarrow> [])"

definition container_ports :: "(string \<times> json) list \<Rightarrow> int list" where
  "container_ports c =
     List.map_filter (\<lambda>p. case p of JObj kvs \<Rightarrow> (case jget ''containerPort'' kvs of JInt i \<Rightarrow> Some i | _ \<Rightarrow> None) | _ \<Rightarrow> None)
       (field_list ''ports'' c)"

definition aggregate_exposed_ports :: "(string \<times> json) list list \<Rightarrow> int list" where
  "aggregate_exposed_ports containers = sorted_list_of_set (set (concat (map container_ports containers)))"

definition env_names :: "(string \<times> json) list \<Rightarrow> string list" where
  "env_names c =
     List.map_filter (\<lambda>e. case e of JObj kvs \<Rightarrow> (case jget ''name'' kvs of JStr s \<Rightarrow> Some s | _ \<Rightarrow> None) | _ \<Rightarrow> None)
       (field_list ''env'' c)"

definition aggregate_env_var_names :: "(string \<times> json) list list \<Rightarrow> string list" where
  "aggregate_env_var_names containers = sorted_list_of_set (set (concat (map env_names containers)))"

fun first_some :: "('a \<Rightarrow> 'b option) \<Rightarrow> 'a list \<Rightarrow> 'b option" where
  "first_some f [] = None"
| "first_some f (x # xs) = (case f x of Some y \<Rightarrow> Some y | None \<Rightarrow> first_some f xs)"

definition first_security_context :: "(string \<times> json) list list \<Rightarrow> (string \<times> json) list option" where
  "first_security_context workloads =
     first_some (\<lambda>c. as_obj (jget ''securityContext'' c)) (concat (map extract_container_specs workloads))"

section \<open>Detection\<close>

text \<open>The regular expression of a kind at the start of a line.\<close>

definition kind_here :: "string \<Rightarrow> bool" where
  "kind_here s \<longleftrightarrow> prefix ''kind'' s \<and> prefix '':'' (dropWhile py_isspace (drop 4 s))"

fun kind_marker :: "string \<Rightarrow> bool" where
  "kind_marker [] = False"
| "kind_marker (c # s) = (c = CHR 0x0A \<and> kind_here s \<or> kind_marker s)"

definition has_kind_line :: "string \<Rightarrow> bool" where
  "has_kind_line t \<longleftrightarrow> kind_here t \<or> kind_marker t"

definition raw_dirs :: "string list" where "raw_dirs = [''deploy'', ''k8s'', ''kubernetes'']"
definition raw_globs :: "string list" where "raw_globs = [''*.yaml'', ''*.yml'']"

definition has_helm :: "deploy_env \<Rightarrow> bool" where
  "has_helm env \<longleftrightarrow> dy_is_file env (dy_root env @ [''Chart.yaml''])"

definition has_kustomize :: "deploy_env \<Rightarrow> bool" where
  "has_kustomize env \<longleftrightarrow> dy_is_file env (dy_root env @ [''kustomization.yaml'']) \<or> dy_is_file env (dy_root env @ [''kustomization.yml''])"

definition has_raw_k8s :: "deploy_env \<Rightarrow> bool" where
  "has_raw_k8s env \<longleftrightarrow>
     list_ex (\<lambda>d. dy_is_dir env (dy_root env @ [d])
       \<and> list_ex (\<lambda>ext. list_ex (\<lambda>path. case dy_text env path of None \<Rightarrow> False | Some t \<Rightarrow> has_kind_line t)
            (dy_tree env (dy_root env @ [d]) ext)) raw_globs) raw_dirs"

definition has_terraform :: "deploy_env \<Rightarrow> bool" where
  "has_terraform env \<longleftrightarrow> dy_tree env (dy_root env) ''*.tf'' \<noteq> []"

definition deployment_detectors :: "(string \<times> (deploy_env \<Rightarrow> bool)) list" where
  "deployment_detectors =
     [(''helm'', has_helm), (''kustomize'', has_kustomize), (''raw'', has_raw_k8s), (''terraform'', has_terraform)]"

definition select_deployment_type :: "deploy_env \<Rightarrow> string \<times> string list" where
  "select_deployment_type env =
     (case map fst (filter (\<lambda>(_, predicate). predicate env) deployment_detectors) of
        [] \<Rightarrow> (''none'', [])
      | t # others \<Rightarrow> (t, others))"

section \<open>The slice\<close>

record deploy_slice =
  ds_chart_path :: "string option"
  ds_image_reference :: "(string \<times> string) option"
  ds_environments :: "(string \<times> (string \<times> string) option) list"
  ds_terraform_files :: "string list"
  ds_outside_repo :: bool
  ds_security_context :: "(string \<times> json) list option"
  ds_exposed_ports :: "int list"
  ds_required_env_vars :: "string list"

definition empty_fragment :: deploy_slice where
  "empty_fragment =
     \<lparr>ds_chart_path = None, ds_image_reference = None, ds_environments = [], ds_terraform_files = [],
      ds_outside_repo = False, ds_security_context = None, ds_exposed_ports = [], ds_required_env_vars = []\<rparr>"

text \<open>\<open>_ParseResult\<close>, with the document that the Helm parser tries to write beside it.\<close>

record parse_result =
  pr_slice_fragment :: deploy_slice
  pr_warnings :: "string list"
  pr_demote_to :: "string option"
  pr_raw :: "json option"

definition add_warning :: "string \<Rightarrow> string list \<Rightarrow> string list" where
  "add_warning w ws = (if w \<in> set ws then ws else ws @ [w])"

section \<open>Helm\<close>

definition values_baselines :: "string list" where "values_baselines = [''values.yaml'', ''values.yml'']"

text \<open>The two globs: the star matches the empty text too. No name has both suffixes, so the names in order are the
  dictionary's keys.\<close>

definition values_overlay :: "string \<Rightarrow> string \<Rightarrow> bool" where
  "values_overlay ext name \<longleftrightarrow> prefix ''values'' name \<and> suffix ext name \<and> length ''values'' + length ext \<le> length name"

definition discovered_values :: "deploy_env \<Rightarrow> string list" where
  "discovered_values env = concat (map (\<lambda>ext. sort (filter (values_overlay ext) (dy_names env))) [''.yaml'', ''.yml''])"

definition write_raw :: "(string \<times> string) list \<Rightarrow> json option" where
  "write_raw parse_errors =
     (if parse_errors = [] then None
      else Some (JObj [(''parse_errors'',
        JArr (map (\<lambda>(path, kind). JObj [(''kind'', JStr kind), (''path'', JStr path)]) parse_errors))]))"

text \<open>What the loop over the overlays has gathered: environments, warnings and errors.\<close>

type_synonym helm_state = "(string \<times> (string \<times> string) option) list \<times> string list \<times> (string \<times> string) list"

definition helm_overlay :: "deploy_env \<Rightarrow> string \<Rightarrow> helm_state \<Rightarrow> deploy_exn + helm_state" where
  "helm_overlay env file st =
     (case st of (environments, warnings, parse_errors) \<Rightarrow>
        (case env_name_from_filename file of (name, conforming) \<Rightarrow>
           let warnings1 = (if conforming then warnings else add_warning ''helm.values_filename_unrecognized'' warnings) in
           (case dy_load env (dy_root env @ [file]) of
              Ok data \<Rightarrow> Ok (environments @ [(name, extract_image_ref data)], warnings1, parse_errors)
            | Err e \<Rightarrow>
                (case caught_reader_error e of
                   None \<Rightarrow> Err (Reader_error e)
                 | Some kind \<Rightarrow>
                     Ok (environments, add_warning ''helm.values_file_parse_error'' warnings1, parse_errors @ [(file, kind)])))))"

fun helm_overlays :: "deploy_env \<Rightarrow> string list \<Rightarrow> helm_state \<Rightarrow> deploy_exn + helm_state" where
  "helm_overlays env [] st = Ok st"
| "helm_overlays env (file # files) st = rbind (helm_overlay env file st) (helm_overlays env files)"

definition helm_baseline ::
  "deploy_env \<Rightarrow> string option \<Rightarrow> deploy_exn + ((string \<times> string) option \<times> string list \<times> (string \<times> string) list)" where
  "helm_baseline env baseline =
     (case baseline of
        None \<Rightarrow> Ok (None, [], [])
      | Some file \<Rightarrow>
          (case dy_load env (dy_root env @ [file]) of
             Ok data \<Rightarrow> Ok (extract_image_ref data, [], [])
           | Err e \<Rightarrow>
               (case caught_reader_error e of
                  None \<Rightarrow> Err (Reader_error e)
                | Some kind \<Rightarrow> Ok (None, [''helm.values_file_parse_error''], [(file, kind)]))))"

definition parse_helm :: "deploy_env \<Rightarrow> deploy_exn + parse_result" where
  "parse_helm env =
     (let discovered = discovered_values env;
          baselines = filter (\<lambda>n. n \<in> set values_baselines) discovered;
          env_files = filter (\<lambda>n. n \<notin> set values_baselines) discovered;
          baseline = (case baselines of [] \<Rightarrow> None | b # _ \<Rightarrow> Some b) in
      rbind (helm_baseline env baseline) (\<lambda>(image_reference, warnings0, errors0).
      rbind (helm_overlays env (sort env_files) ([], warnings0, errors0)) (\<lambda>(environments, warnings, parse_errors).
        let nothing = baseline = None \<and> env_files = [] in
        Ok \<lparr>pr_slice_fragment = empty_fragment
               \<lparr>ds_chart_path := Some ''Chart.yaml'', ds_image_reference := image_reference,
                ds_environments := sort_key fst environments\<rparr>,
            pr_warnings = (if nothing then warnings @ [''helm.no_values_files''] else warnings),
            pr_demote_to = (if parse_errors \<noteq> [] \<or> nothing then Some ''low'' else None),
            pr_raw = write_raw parse_errors\<rparr>)))"

section \<open>Kustomize\<close>

definition overlay_max_depth :: int where "overlay_max_depth = 5"
definition overlay_max_files :: int where "overlay_max_files = 50"

text \<open>What the walk has gathered: the files it accepted, its warnings, the paths it has seen, the entries counted and the
  overlays to read.\<close>

record overlay_state =
  ov_safe :: "dpath list"
  ov_warnings :: "string list"
  ov_visited :: "dpath list"
  ov_accepted :: int
  ov_pending :: "(dpath \<times> int) list"

text \<open>The overlay file of a directory, if it has one.\<close>

definition nested_kustomization :: "deploy_env \<Rightarrow> dpath \<Rightarrow> dpath option" where
  "nested_kustomization env dir =
     (let nest = (if dy_is_file env (dir @ [''kustomization.yaml'']) then dir @ [''kustomization.yaml'']
                    else dir @ [''kustomization.yml'']) in
      if dy_is_file env nest then Some nest else None)"

text \<open>A resource that passed the caps: the last part of the loop body.\<close>

definition visit_resource :: "deploy_env \<Rightarrow> int \<Rightarrow> dpath \<Rightarrow> overlay_state \<Rightarrow> overlay_state" where
  "visit_resource env depth resolved st =
     (if resolved \<in> set (ov_visited st) then st
      else let st1 = st\<lparr>ov_visited := resolved # ov_visited st\<rparr> in
        if dy_is_dir env resolved then
          (case nested_kustomization env resolved of
             None \<Rightarrow> st1
           | Some nest \<Rightarrow> st1\<lparr>ov_pending := ov_pending st1 @ [(nest, depth + 1)]\<rparr>)
        else if dy_is_file env resolved then st1\<lparr>ov_safe := ov_safe st1 @ [resolved]\<rparr>
        else st1)"

text \<open>The loop over the resources of one overlay: it goes on, or the file cap makes the whole walk return.\<close>

datatype overlay_step = Walk_on overlay_state | Walk_ends overlay_state

definition resource_step :: "deploy_env \<Rightarrow> dpath \<Rightarrow> int \<Rightarrow> dpath \<Rightarrow> int \<Rightarrow> string \<Rightarrow> overlay_state \<Rightarrow> exn + overlay_step" where
  "resource_step env base max_files dir depth resource st =
     (let candidate = path_join dir resource in
      rbind (is_under env candidate base) (\<lambda>inside.
        if \<not> inside then Ok (Walk_on (st\<lparr>ov_warnings := add_warning ''kustomization.resource_outside_repo'' (ov_warnings st)\<rparr>))
        else if ov_accepted st \<ge> max_files then
          Ok (Walk_ends (st\<lparr>ov_warnings := add_warning ''kustomization.file_cap_exceeded'' (ov_warnings st)\<rparr>))
        else let st1 = st\<lparr>ov_accepted := ov_accepted st + 1\<rparr> in
          case dy_resolve env candidate of
            Err e \<Rightarrow> if fst e = ''OSError'' then Ok (Walk_on st1) else Err e
          | Ok resolved \<Rightarrow> Ok (Walk_on (visit_resource env depth resolved st1))))"

fun resources_loop :: "deploy_env \<Rightarrow> dpath \<Rightarrow> int \<Rightarrow> dpath \<Rightarrow> int \<Rightarrow> json list \<Rightarrow> overlay_state \<Rightarrow> exn + overlay_step" where
  "resources_loop env base max_files dir depth [] st = Ok (Walk_on st)"
| "resources_loop env base max_files dir depth (JStr resource # rest) st =
     rbind (resource_step env base max_files dir depth resource st) (\<lambda>r.
       case r of Walk_ends st' \<Rightarrow> Ok (Walk_ends st') | Walk_on st' \<Rightarrow> resources_loop env base max_files dir depth rest st')"
| "resources_loop env base max_files dir depth (_ # rest) st = resources_loop env base max_files dir depth rest st"

text \<open>One overlay taken from the front of the queue.\<close>

definition overlay_iteration ::
  "deploy_env \<Rightarrow> dpath \<Rightarrow> int \<Rightarrow> int \<Rightarrow> dpath \<Rightarrow> int \<Rightarrow> overlay_state \<Rightarrow> deploy_exn + overlay_step" where
  "overlay_iteration env base max_depth max_files current depth st =
     (if depth \<ge> max_depth then
        Ok (Walk_on (st\<lparr>ov_warnings := add_warning ''kustomization.depth_cap_exceeded'' (ov_warnings st)\<rparr>))
      else case dy_load env current of
        Err e \<Rightarrow> (case caught_reader_error e of None \<Rightarrow> Err (Reader_error e) | Some _ \<Rightarrow> Ok (Walk_on st))
      | Ok data \<Rightarrow>
          (case jget ''resources'' data of
             JArr resources \<Rightarrow>
               (case resources_loop env base max_files (butlast current) depth resources st of
                  Err e \<Rightarrow> Err (Python_error e)
                | Ok r \<Rightarrow> Ok r)
           | _ \<Rightarrow> Ok (Walk_on st)))"

text \<open>The loop itself: nothing in it bounds it at sight, so it may not return.\<close>

partial_function (option) walk_overlays_loop ::
  "deploy_env \<Rightarrow> dpath \<Rightarrow> int \<Rightarrow> int \<Rightarrow> overlay_state \<Rightarrow> (deploy_exn + overlay_state) option" where
  "walk_overlays_loop env base max_depth max_files st =
     (case ov_pending st of
        [] \<Rightarrow> Some (Ok st)
      | (current, depth) # rest \<Rightarrow>
          (case overlay_iteration env base max_depth max_files current depth (st\<lparr>ov_pending := rest\<rparr>) of
             Err e \<Rightarrow> Some (Err e)
           | Ok r \<Rightarrow>
               (case r of
                  Walk_ends st' \<Rightarrow> Some (Ok st')
                | Walk_on st' \<Rightarrow> walk_overlays_loop env base max_depth max_files st')))"

definition overlay_start :: "dpath \<Rightarrow> overlay_state" where
  "overlay_start kustomization_path =
     \<lparr>ov_safe = [], ov_warnings = [], ov_visited = [], ov_accepted = 0, ov_pending = [(kustomization_path, 0)]\<rparr>"

definition walk_overlays ::
  "deploy_env \<Rightarrow> dpath \<Rightarrow> dpath \<Rightarrow> int \<Rightarrow> int \<Rightarrow> (deploy_exn + (dpath list \<times> string list)) option" where
  "walk_overlays env base kustomization_path max_depth max_files =
     (case walk_overlays_loop env base max_depth max_files (overlay_start kustomization_path) of
        None \<Rightarrow> None
      | Some r \<Rightarrow> Some (rbind r (\<lambda>st. Ok (ov_safe st, ov_warnings st))))"

section \<open>Workloads\<close>

text \<open>The documents that the generators of some files yield and \<open>keep\<close> admits; an error that is caught ends its file only.\<close>

fun gather_docs ::
  "deploy_env \<Rightarrow> ((string \<times> json) list \<Rightarrow> bool) \<Rightarrow> dpath list \<Rightarrow> deploy_exn + (string \<times> json) list list" where
  "gather_docs env keep [] = Ok []"
| "gather_docs env keep (path # paths) =
     (case dy_load_all env path of (docs, ending) \<Rightarrow>
        let kept = filter keep (List.map_filter as_obj docs) in
        (case ending of
           Some e \<Rightarrow>
             (if caught_reader_error e = None then Err (Reader_error e)
              else rbind (gather_docs env keep paths) (\<lambda>rest. Ok (kept @ rest)))
         | None \<Rightarrow> rbind (gather_docs env keep paths) (\<lambda>rest. Ok (kept @ rest))))"

definition workload_fragment :: "(string \<times> json) list list \<Rightarrow> deploy_slice" where
  "workload_fragment workloads =
     (let containers = concat (map extract_container_specs workloads) in
      empty_fragment
        \<lparr>ds_exposed_ports := aggregate_exposed_ports containers,
         ds_required_env_vars := aggregate_env_var_names containers,
         ds_security_context := first_security_context workloads\<rparr>)"

definition parse_kustomize :: "deploy_env \<Rightarrow> (deploy_exn + parse_result) option" where
  "parse_kustomize env =
     (case dy_resolve env (dy_root env) of
        Err e \<Rightarrow> Some (Err (Python_error e))
      | Ok base \<Rightarrow>
          (let kustomization_path =
             (if dy_is_file env (dy_root env @ [''kustomization.yaml'']) then dy_root env @ [''kustomization.yaml'']
              else dy_root env @ [''kustomization.yml'']) in
           map_option (\<lambda>walk.
             rbind walk (\<lambda>(safe_paths, warnings).
             rbind (gather_docs env (\<lambda>_. True) safe_paths) (\<lambda>docs.
             rbind (filter_k8s_kinds docs) (\<lambda>workloads.
               let outside = ''kustomization.resource_outside_repo'' \<in> set warnings in
               Ok \<lparr>pr_slice_fragment = (workload_fragment workloads)\<lparr>ds_outside_repo := outside\<rparr>,
                   pr_warnings = fold add_warning warnings [],
                   pr_demote_to = (if outside then Some ''low'' else None), pr_raw = None\<rparr>))))
             (walk_overlays env base kustomization_path overlay_max_depth overlay_max_files)))"

definition raw_paths :: "deploy_env \<Rightarrow> dpath list" where
  "raw_paths env =
     concat (map (\<lambda>d. if dy_is_dir env (dy_root env @ [d])
       then concat (map (\<lambda>pattern. sort (dy_tree env (dy_root env @ [d]) pattern)) raw_globs) else []) raw_dirs)"

definition parse_raw :: "deploy_env \<Rightarrow> deploy_exn + parse_result" where
  "parse_raw env =
     rbind (gather_docs env (\<lambda>d. ''kind'' \<in> set (map fst d)) (raw_paths env)) (\<lambda>docs.
     rbind (filter_k8s_kinds docs) (\<lambda>workloads.
       let idle = docs \<noteq> [] \<and> workloads = [] in
       Ok \<lparr>pr_slice_fragment = workload_fragment workloads,
           pr_warnings = (if idle then [''deployment.raw_no_workloads''] else []),
           pr_demote_to = (if idle then Some ''low'' else None), pr_raw = None\<rparr>))"

definition list_terraform_files :: "deploy_env \<Rightarrow> string list" where
  "list_terraform_files env =
     sort (map (\<lambda>p. py_join ''/'' (drop (length (dy_root env)) p)) (dy_tree env (dy_root env) ''*.tf''))"

definition parse_terraform :: "deploy_env \<Rightarrow> parse_result" where
  "parse_terraform env =
     \<lparr>pr_slice_fragment = empty_fragment\<lparr>ds_terraform_files := list_terraform_files env\<rparr>,
      pr_warnings = [''terraform.paths_only''], pr_demote_to = Some ''low'', pr_raw = None\<rparr>"

definition parse_none :: parse_result where
  "parse_none = \<lparr>pr_slice_fragment = empty_fragment, pr_warnings = [], pr_demote_to = None, pr_raw = None\<rparr>"

definition deployment_parsers :: "string \<Rightarrow> deploy_env \<Rightarrow> (deploy_exn + parse_result) option" where
  "deployment_parsers kind env =
     (if kind = ''helm'' then Some (parse_helm env)
      else if kind = ''kustomize'' then parse_kustomize env
      else if kind = ''raw'' then Some (parse_raw env)
      else if kind = ''terraform'' then Some (Ok (parse_terraform env))
      else Some (Ok parse_none))"

section \<open>Run\<close>

definition image_ref_block :: "(string \<times> string) option \<Rightarrow> pv" where
  "image_ref_block r = (case r of None \<Rightarrow> PNone | Some (path, v) \<Rightarrow> PDict [(''path'', PStr path), (''value'', PStr v)])"

definition deploy_schema_slice :: "deploy_slice \<Rightarrow> string \<Rightarrow> string list \<Rightarrow> (string \<times> pv) list" where
  "deploy_schema_slice f primary warnings =
     [(''deployment'', PDict
        [(''chart_path'', case ds_chart_path f of None \<Rightarrow> PNone | Some p \<Rightarrow> PStr p),
         (''image_reference'', image_ref_block (ds_image_reference f)),
         (''environments'', PList (map (\<lambda>(name, r). PDict [(''name'', PStr name), (''image_reference'', image_ref_block r)]) (ds_environments f))),
         (''terraform_files'', PList (map PStr (ds_terraform_files f))),
         (''kustomization_resource_path_outside_repo'', PBool (ds_outside_repo f)),
         (''security_context'', case ds_security_context f of None \<Rightarrow> PNone | Some kvs \<Rightarrow> json_pv (JObj kvs)),
         (''exposed_ports'', PList (map PInt (ds_exposed_ports f))),
         (''required_env_vars'', PList (map PStr (ds_required_env_vars f))),
         (''type'', PStr primary), (''warnings'', PList (map PStr warnings))])]"

text \<open>The parts that \<open>run\<close> assembles: the slice, the warnings in it and the confidence.\<close>

definition deploy_assemble :: "deploy_env \<Rightarrow> string list \<Rightarrow> parse_result \<Rightarrow> deploy_slice \<times> string list \<times> string" where
  "deploy_assemble env others result =
     (let confidence = (case pr_demote_to result of None \<Rightarrow> ''high'' | Some c \<Rightarrow> deploy_demote ''high'' c) in
      if others = [] then (pr_slice_fragment result, pr_warnings result, confidence)
      else ((if ''terraform'' \<in> set others
               then (pr_slice_fragment result)\<lparr>ds_terraform_files := list_terraform_files env\<rparr> else pr_slice_fragment result),
            pr_warnings result @ [''deployment.multi_type''], deploy_demote confidence ''low''))"

definition deployment_run :: "deploy_env \<Rightarrow> (deploy_exn + probe_output) option" where
  "deployment_run env =
     (case select_deployment_type env of (primary, others) \<Rightarrow>
        map_option (\<lambda>r. rbind r (\<lambda>result.
          case deploy_assemble env others result of (slice, warnings, confidence) \<Rightarrow>
            Ok \<lparr>po_schema_slice = deploy_schema_slice slice primary warnings, po_raw_artifacts = [],
                po_confidence = confidence, po_duration_ms = max 0 (dy_duration env), po_warnings = [], po_errors = []\<rparr>))
          (deployment_parsers primary env))"

section \<open>The walk over overlays\<close>

text \<open>What the walk keeps: an accepted path is a regular file below the root, accepted once; the cap bounds the entries counted,
  and what is counted bounds what was accepted and what is still to be read.\<close>

definition overlay_warnings :: "string list" where
  "overlay_warnings =
     [''kustomization.resource_outside_repo'', ''kustomization.depth_cap_exceeded'', ''kustomization.file_cap_exceeded'']"

definition walk_inv :: "deploy_env \<Rightarrow> dpath \<Rightarrow> int \<Rightarrow> overlay_state \<Rightarrow> bool" where
  "walk_inv env base max_files st \<longleftrightarrow>
     (\<forall>p \<in> set (ov_safe st). prefix base p \<and> dy_is_file env p \<and> p \<in> set (ov_visited st))
   \<and> distinct (ov_safe st) \<and> distinct (ov_warnings st) \<and> set (ov_warnings st) \<subseteq> set overlay_warnings
   \<and> int (length (ov_safe st)) \<le> ov_accepted st \<and> 0 \<le> ov_accepted st \<and> ov_accepted st \<le> max 0 max_files"

lemma visit_resource_inv:
  assumes "walk_inv env base max_files (st\<lparr>ov_accepted := n\<rparr>)" "n + 1 \<le> max 0 max_files" "prefix base resolved"
  shows "walk_inv env base max_files (visit_resource env depth resolved (st\<lparr>ov_accepted := n + 1\<rparr>))
    \<and> int (length (ov_pending (visit_resource env depth resolved (st\<lparr>ov_accepted := n + 1\<rparr>)))) \<le> int (length (ov_pending st)) + 1
    \<and> ov_accepted (visit_resource env depth resolved (st\<lparr>ov_accepted := n + 1\<rparr>)) = n + 1"
  using assms by (auto simp: visit_resource_def walk_inv_def Let_def split: option.splits)

text \<open>Entries still to be read, less the entries counted: what a step does not increase.\<close>

definition walk_debt :: "overlay_state \<Rightarrow> int" where
  "walk_debt st = int (length (ov_pending st)) - ov_accepted st"

fun step_ok :: "deploy_env \<Rightarrow> dpath \<Rightarrow> int \<Rightarrow> overlay_state \<Rightarrow> overlay_step \<Rightarrow> bool" where
  "step_ok env base max_files st (Walk_on st') = (walk_inv env base max_files st' \<and> walk_debt st' \<le> walk_debt st)"
| "step_ok env base max_files st (Walk_ends st') = walk_inv env base max_files st'"

lemma step_ok_trans:
  "walk_debt st' \<le> walk_debt st \<Longrightarrow> step_ok env base max_files st' r \<Longrightarrow> step_ok env base max_files st r"
  by (cases r) auto

lemma walk_inv_warn:
  "walk_inv env base max_files st \<Longrightarrow> x \<in> set overlay_warnings \<Longrightarrow> walk_inv env base max_files (st\<lparr>ov_warnings := add_warning x (ov_warnings st)\<rparr>)"
  by (auto simp: walk_inv_def add_warning_def)

lemma walk_debt_warn [simp]: "walk_debt (st\<lparr>ov_warnings := ws\<rparr>) = walk_debt st"
  by (simp add: walk_debt_def)

lemma is_under_True:
  "is_under env c base = Ok True \<Longrightarrow> dy_resolve env c = Ok p \<Longrightarrow> prefix base p"
  by (auto simp: is_under_def split: if_splits)

lemma resource_step_ok:
  assumes "walk_inv env base max_files st" "resource_step env base max_files dir depth resource st = Ok r"
  shows "step_ok env base max_files st r"
proof -
  obtain inside where u: "is_under env (path_join dir resource) base = Ok inside"
    using assms(2) by (auto simp: resource_step_def rbind_iffs Let_def)
  consider "\<not> inside" | "inside" "ov_accepted st \<ge> max_files" | "inside" "ov_accepted st < max_files" by fastforce
  then show ?thesis
  proof cases
    case 1
    then show ?thesis using assms u by (auto simp: resource_step_def Let_def walk_inv_warn overlay_warnings_def)
  next
    case 2
    then show ?thesis using assms u by (auto simp: resource_step_def Let_def walk_inv_warn overlay_warnings_def)
  next
    case 3
    let ?st = "st\<lparr>ov_accepted := ov_accepted st + 1\<rparr>"
    have i: "walk_inv env base max_files ?st" "walk_debt ?st \<le> walk_debt st"
      using assms(1) 3 by (auto simp: walk_inv_def walk_debt_def)
    show ?thesis
    proof (cases "dy_resolve env (path_join dir resource)")
      case (Inl e)
      then show ?thesis using assms(2) u 3 i by (auto simp: resource_step_def Let_def split: if_splits)
    next
      case (Inr p)
      then have r: "r = Walk_on (visit_resource env depth p ?st)" using assms(2) u 3 by (simp add: resource_step_def Let_def)
      have "prefix base p" using u 3(1) Inr by (auto intro: is_under_True)
        moreover have "ov_accepted st + 1 \<le> max 0 max_files" using 3 by simp
      ultimately show ?thesis
        using visit_resource_inv [of env base max_files "ov_accepted st" st p depth] assms(1) unfolding r
        by (simp add: walk_debt_def)
    qed
  qed
qed

lemma resources_loop_ok:
  "walk_inv env base max_files st \<Longrightarrow> resources_loop env base max_files dir depth rs st = Ok r \<Longrightarrow> step_ok env base max_files st r"
proof (induction env base max_files dir depth rs st rule: resources_loop.induct)
  case (2 env base max_files dir depth resource rest st)
  then obtain r1 where r1: "resource_step env base max_files dir depth resource st = Ok r1"
      "(case r1 of Walk_ends st' \<Rightarrow> Ok (Walk_ends st') | Walk_on st' \<Rightarrow> resources_loop env base max_files dir depth rest st') = Ok r"
    by (auto simp: rbind_iffs)
  have ok: "step_ok env base max_files st r1" by (rule resource_step_ok [OF 2(2) r1(1)])
  show ?case
  proof (cases r1)
    case (Walk_on st')
    then show ?thesis using ok r1(2) Walk_on 2(1) step_ok_trans by auto
  next
    case (Walk_ends st')
    then show ?thesis using ok r1 by auto
  qed
qed (auto simp: walk_debt_def)

lemma overlay_iteration_ok:
  "walk_inv env base max_files st \<Longrightarrow> overlay_iteration env base max_depth max_files current depth st = Ok r
   \<Longrightarrow> step_ok env base max_files st r"
  by (auto simp: overlay_iteration_def walk_inv_warn overlay_warnings_def dest: resources_loop_ok
      split: if_splits sum.splits option.splits json.splits)

text \<open>The walk returns: an overlay is read for the start and for an entry counted, and the cap bounds those.\<close>

lemma walk_returns:
  assumes "walk_inv env base max_files st" "max 0 max_files + walk_debt st \<le> int n"
  shows "\<exists>r. walk_overlays_loop env base max_depth max_files st = Some r \<and> (\<forall>st'. r = Ok st' \<longrightarrow> walk_inv env base max_files st')"
  using assms
proof (induction n arbitrary: st)
  case (0 st)
  then have "int (length (ov_pending st)) \<le> 0" unfolding walk_debt_def walk_inv_def by linarith
  then have "ov_pending st = []" by simp
  then show ?case using 0 by (simp add: walk_overlays_loop.simps)
next
  case (Suc n st)
  show ?case
  proof (cases "ov_pending st")
    case Nil
    then show ?thesis using Suc by (simp add: walk_overlays_loop.simps)
  next
    case (Cons x rest)
    obtain current depth where x: "x = (current, depth)" by (cases x)
    let ?st = "st\<lparr>ov_pending := rest\<rparr>"
    have i: "walk_inv env base max_files ?st" and d: "walk_debt ?st = walk_debt st - 1"
      using Suc.prems Cons by (auto simp: walk_inv_def walk_debt_def)
    have step: "walk_overlays_loop env base max_depth max_files st =
        (case overlay_iteration env base max_depth max_files current depth ?st of
           Err e \<Rightarrow> Some (Err e)
         | Ok (Walk_ends st') \<Rightarrow> Some (Ok st')
         | Ok (Walk_on st') \<Rightarrow> walk_overlays_loop env base max_depth max_files st')"
      by (subst walk_overlays_loop.simps) (simp add: Cons x)
    show ?thesis
    proof (cases "overlay_iteration env base max_depth max_files current depth ?st")
      case (Inl e)
      then show ?thesis unfolding step by simp
    next
      case (Inr r)
      have ok: "step_ok env base max_files ?st r" by (rule overlay_iteration_ok [OF i Inr])
      show ?thesis
      proof (cases r)
        case (Walk_on st')
        then have "walk_inv env base max_files st'" "max 0 max_files + walk_debt st' \<le> int n"
          using ok d Suc.prems(2) by auto
        then show ?thesis unfolding step using Suc.IH Inr Walk_on by simp
      next
        case (Walk_ends st')
        then show ?thesis unfolding step using Inr ok by simp
      qed
    qed
  qed
qed

lemma walk_from_start:
  "\<exists>r. walk_overlays_loop env base max_depth max_files (overlay_start kustomization_path) = Some r
     \<and> (\<forall>st'. r = Ok st' \<longrightarrow> walk_inv env base max_files st')"
proof -
  have "walk_inv env base max_files (overlay_start kustomization_path)" by (simp add: walk_inv_def overlay_start_def)
  moreover have "max 0 max_files + walk_debt (overlay_start kustomization_path) \<le> int (nat (max 0 max_files) + 1)"
    by (simp add: walk_debt_def overlay_start_def)
  ultimately show ?thesis by (rule walk_returns)
qed


section \<open>Warnings and confidence\<close>

text \<open>\<open>_WARNING_IDS\<close>, and those of them that come with a lowered confidence.\<close>

definition deployment_warning_ids :: "string list" where
  "deployment_warning_ids =
     [''kustomization.resource_outside_repo'', ''kustomization.depth_cap_exceeded'', ''kustomization.file_cap_exceeded'',
      ''helm.values_file_parse_error'', ''helm.values_filename_unrecognized'', ''helm.no_values_files'',
      ''deployment.multi_type'', ''deployment.raw_no_workloads'', ''terraform.paths_only'']"

definition lowering_warnings :: "string list" where
  "lowering_warnings =
     [''kustomization.resource_outside_repo'', ''helm.values_file_parse_error'', ''helm.no_values_files'',
      ''deployment.multi_type'', ''deployment.raw_no_workloads'', ''terraform.paths_only'']"

definition lowers :: "string list \<Rightarrow> bool" where
  "lowers ws \<longleftrightarrow> list_ex (\<lambda>w. w \<in> set lowering_warnings) ws"

lemma lowering_members:
  "''kustomization.resource_outside_repo'' \<in> set lowering_warnings" "''helm.values_file_parse_error'' \<in> set lowering_warnings"
  "''helm.no_values_files'' \<in> set lowering_warnings" "''deployment.multi_type'' \<in> set lowering_warnings"
  "''deployment.raw_no_workloads'' \<in> set lowering_warnings" "''terraform.paths_only'' \<in> set lowering_warnings"
  "''kustomization.depth_cap_exceeded'' \<notin> set lowering_warnings" "''kustomization.file_cap_exceeded'' \<notin> set lowering_warnings"
  "''helm.values_filename_unrecognized'' \<notin> set lowering_warnings"
  by code_simp+

lemma known_warnings:
  "set overlay_warnings \<subseteq> set deployment_warning_ids - {''deployment.multi_type''}"
  "set [''helm.values_file_parse_error'', ''helm.values_filename_unrecognized'', ''helm.no_values_files'',
     ''deployment.raw_no_workloads'', ''terraform.paths_only''] \<subseteq> set deployment_warning_ids - {''deployment.multi_type''}"
  "''deployment.multi_type'' \<in> set deployment_warning_ids"
  by (simp_all add: overlay_warnings_def deployment_warning_ids_def)

lemma lowers_alt: "lowers ws \<longleftrightarrow> (\<exists>w \<in> set ws. w \<in> set lowering_warnings)"
  by (auto simp: lowers_def list_ex_iff)

lemma lowers_only:
  "set ws \<subseteq> insert a B \<Longrightarrow> a \<in> set lowering_warnings \<Longrightarrow> \<forall>b \<in> B. b \<notin> set lowering_warnings \<Longrightarrow> lowers ws \<longleftrightarrow> a \<in> set ws"
  by (auto simp: lowers_alt)

lemma lowers_append: "lowers (ws @ [w]) \<longleftrightarrow> lowers ws \<or> w \<in> set lowering_warnings"
  by (auto simp: lowers_alt)

definition result_ok :: "parse_result \<Rightarrow> bool" where
  "result_ok r \<longleftrightarrow> distinct (pr_warnings r) \<and> set (pr_warnings r) \<subseteq> set deployment_warning_ids - {''deployment.multi_type''}
   \<and> pr_demote_to r = (if lowers (pr_warnings r) then Some ''low'' else None)"

definition helm_ok :: "string list \<Rightarrow> (string \<times> string) list \<Rightarrow> bool" where
  "helm_ok ws errs \<longleftrightarrow> distinct ws \<and> set ws \<subseteq> {''helm.values_file_parse_error'', ''helm.values_filename_unrecognized''}
   \<and> (''helm.values_file_parse_error'' \<in> set ws \<longleftrightarrow> errs \<noteq> [])"

lemma helm_overlay_ok:
  "helm_ok ws errs \<Longrightarrow> helm_overlay env file (envs, ws, errs) = Ok (envs', ws', errs') \<Longrightarrow> helm_ok ws' errs'"
  by (auto simp: helm_overlay_def helm_ok_def add_warning_def Let_def split: prod.splits sum.splits option.splits if_splits)

lemma helm_overlays_ok:
  "helm_ok ws errs \<Longrightarrow> helm_overlays env files (envs, ws, errs) = Ok (envs', ws', errs') \<Longrightarrow> helm_ok ws' errs'"
proof (induction files arbitrary: envs ws errs)
  case (Cons f fs)
  then obtain envs1 ws1 errs1 where s: "helm_overlay env f (envs, ws, errs) = Ok (envs1, ws1, errs1)"
      "helm_overlays env fs (envs1, ws1, errs1) = Ok (envs', ws', errs')"
    by (auto simp: rbind_iffs)
  show ?case by (rule Cons.IH [OF helm_overlay_ok [OF Cons.prems(1) s(1)] s(2)])
qed simp

lemma helm_baseline_ok: "helm_baseline env b = Ok (r, ws, errs) \<Longrightarrow> helm_ok ws errs"
  by (auto simp: helm_baseline_def helm_ok_def split: option.splits sum.splits)

lemma parse_helm_ok:
  assumes "parse_helm env = Ok r"
  shows "result_ok r"
proof -
  define discovered where "discovered = discovered_values env"
  define env_files where "env_files = filter (\<lambda>n. n \<notin> set values_baselines) discovered"
  define baseline where "baseline = (case filter (\<lambda>n. n \<in> set values_baselines) discovered of [] \<Rightarrow> None | b # _ \<Rightarrow> Some b)"
  obtain img ws0 errs0 where b: "helm_baseline env baseline = Ok (img, ws0, errs0)"
    using assms by (auto simp: parse_helm_def Let_def rbind_iffs baseline_def discovered_def)
  obtain envs ws errs where o: "helm_overlays env (sort env_files) ([], ws0, errs0) = Ok (envs, ws, errs)"
    using assms b by (auto simp: parse_helm_def Let_def rbind_iffs baseline_def env_files_def discovered_def)
  let ?nothing = "baseline = None \<and> env_files = []"
  have r: "pr_warnings r = (if ?nothing then ws @ [''helm.no_values_files''] else ws)"
      "pr_demote_to r = (if errs \<noteq> [] \<or> ?nothing then Some ''low'' else None)"
    using assms b o unfolding parse_helm_def Let_def discovered_def [symmetric] env_files_def [symmetric] baseline_def [symmetric]
    by auto
  have ok: "helm_ok ws errs" using helm_overlays_ok [OF helm_baseline_ok [OF b] o] .
  have sub: "set ws \<subseteq> insert ''helm.values_file_parse_error'' {''helm.values_filename_unrecognized''}" "distinct ws"
    using ok by (simp_all add: helm_ok_def)
  have l: "lowers ws \<longleftrightarrow> errs \<noteq> []"
    using lowers_only [OF sub(1)] ok by (simp add: lowering_members helm_ok_def)
  have "lowers (pr_warnings r) \<longleftrightarrow> errs \<noteq> [] \<or> ?nothing"
    unfolding r using l by (auto simp: lowers_append lowering_members)
  moreover have "distinct (pr_warnings r)" unfolding r using sub by auto
  moreover have "set (pr_warnings r) \<subseteq> set deployment_warning_ids - {''deployment.multi_type''}"
    unfolding r using sub known_warnings(2) by auto
  ultimately show ?thesis unfolding result_ok_def r(2) by simp
qed

lemma parse_raw_ok: "parse_raw env = Ok r \<Longrightarrow> result_ok r"
  using known_warnings(2) by (auto simp: parse_raw_def Let_def rbind_iffs result_ok_def lowers_alt lowering_members split: if_splits)

lemma fold_add_warning: "distinct (xs @ ws) \<Longrightarrow> fold add_warning ws xs = xs @ ws"
  by (induction ws arbitrary: xs) (auto simp: add_warning_def)

lemma walk_warnings:
  assumes "walk_overlays env base path max_depth max_files = Some (Ok (safe_paths, warnings))"
  shows "distinct warnings \<and> set warnings \<subseteq> set overlay_warnings"
proof -
  obtain st where st: "walk_overlays_loop env base max_depth max_files (overlay_start path) = Some (Ok st)" "warnings = ov_warnings st"
    using assms by (auto simp: walk_overlays_def rbind_iffs split: option.splits)
  then have "walk_inv env base max_files st" using walk_from_start [of env base max_depth max_files path] by auto
  then show ?thesis using st by (simp add: walk_inv_def)
qed

lemma parse_kustomize_ok: "parse_kustomize env = Some (Ok r) \<Longrightarrow> result_ok r"
proof -
  assume a: "parse_kustomize env = Some (Ok r)"
  then obtain base safe_paths warnings where w:
      "walk_overlays env base (if dy_is_file env (dy_root env @ [''kustomization.yaml'']) then dy_root env @ [''kustomization.yaml'']
         else dy_root env @ [''kustomization.yml'']) overlay_max_depth overlay_max_files = Some (Ok (safe_paths, warnings))"
      and r: "pr_warnings r = fold add_warning warnings []"
      "pr_demote_to r = (if ''kustomization.resource_outside_repo'' \<in> set warnings then Some ''low'' else None)"
    by (auto simp: parse_kustomize_def Let_def rbind_iffs split: sum.splits)
  have ws: "distinct warnings" "set warnings \<subseteq> set overlay_warnings" using walk_warnings [OF w] by blast+
  have p: "pr_warnings r = warnings" using r fold_add_warning [of "[]" warnings] ws by simp
  have "lowers warnings \<longleftrightarrow> ''kustomization.resource_outside_repo'' \<in> set warnings"
    using ws(2) by (intro lowers_only) (auto simp: overlay_warnings_def lowering_members)
  then show ?thesis using ws known_warnings(1) unfolding result_ok_def p r(2) by auto
qed

lemma walk_total: "\<exists>r. walk_overlays env base path max_depth max_files = Some r"
proof -
  obtain r where "walk_overlays_loop env base max_depth max_files (overlay_start path) = Some r"
    using walk_from_start [of env base max_depth max_files path] by blast
  then show ?thesis by (simp add: walk_overlays_def)
qed

lemma parsers_ok:
  "\<exists>x. deployment_parsers kind env = Some x \<and> (\<forall>r. x = Ok r \<longrightarrow> result_ok r)"
proof -
  have "\<exists>x. parse_kustomize env = Some x"
    using walk_total by (auto simp: parse_kustomize_def Let_def split: sum.splits)
  moreover have "result_ok (parse_terraform env)" "result_ok parse_none"
    using known_warnings(2) by (auto simp: parse_terraform_def parse_none_def result_ok_def lowers_alt lowering_members)
  ultimately show ?thesis
    using parse_helm_ok parse_raw_ok parse_kustomize_ok by (auto simp: deployment_parsers_def)
qed

lemma assembled_ok:
  assumes "result_ok r" "deploy_assemble env others r = (slice, warnings, confidence)"
  shows "distinct warnings \<and> set warnings \<subseteq> set deployment_warning_ids \<and> (''deployment.multi_type'' \<in> set warnings \<longleftrightarrow> others \<noteq> [])
    \<and> confidence = (if lowers warnings then ''low'' else ''high'')"
proof (cases "others = []")
  case True
  then show ?thesis using assms by (auto simp: deploy_assemble_def result_ok_def deploy_demote_def deploy_confidence_rank_def)
next
  case False
  then have "warnings = pr_warnings r @ [''deployment.multi_type'']" "confidence = ''low''"
    using assms by (auto simp: deploy_assemble_def result_ok_def Let_def deploy_demote_def deploy_confidence_rank_def split: option.splits if_splits)
  then show ?thesis using assms(1) False known_warnings(3) by (auto simp: result_ok_def lowers_append lowering_members)
qed

text \<open>The probe returns on every repository. Unless a reader raises, the slice has the first kind detected, its warnings are known
  ones and each comes once, several kinds are flagged, and the confidence is low exactly when a warning says why.\<close>

theorem deployment_confidence_exact:
  "\<exists>r. deployment_run env = Some r
     \<and> (case r of
          Inl _ \<Rightarrow> True
        | Inr out \<Rightarrow>
            (\<exists>slice warnings. po_schema_slice out = deploy_schema_slice slice (fst (select_deployment_type env)) warnings
               \<and> distinct warnings \<and> set warnings \<subseteq> set deployment_warning_ids
               \<and> (''deployment.multi_type'' \<in> set warnings \<longleftrightarrow> snd (select_deployment_type env) \<noteq> [])
               \<and> po_confidence out = (if lowers warnings then ''low'' else ''high'')))"
proof -
  obtain primary others where sel: "select_deployment_type env = (primary, others)" by (cases "select_deployment_type env")
  obtain x where x: "deployment_parsers primary env = Some x" "\<forall>r. x = Ok r \<longrightarrow> result_ok r" using parsers_ok by blast
  show ?thesis
  proof (cases x)
    case (Inl e)
    then show ?thesis using x by (simp add: deployment_run_def sel)
  next
    case (Inr r)
    obtain slice warnings confidence where as: "deploy_assemble env others r = (slice, warnings, confidence)"
      by (cases "deploy_assemble env others r")
    have run: "deployment_run env = Some (Ok \<lparr>po_schema_slice = deploy_schema_slice slice primary warnings, po_raw_artifacts = [],
        po_confidence = confidence, po_duration_ms = max 0 (dy_duration env), po_warnings = [], po_errors = []\<rparr>)"
      using x(1) Inr by (simp add: deployment_run_def sel as)
    have ok: "result_ok r" using x(2) Inr by blast
    have "distinct warnings \<and> set warnings \<subseteq> set deployment_warning_ids \<and> (''deployment.multi_type'' \<in> set warnings \<longleftrightarrow> others \<noteq> [])
        \<and> confidence = (if lowers warnings then ''low'' else ''high'')"
      using assembled_ok [OF ok as] .
    then show ?thesis unfolding run using sel by auto
  qed
qed

section \<open>What modelling showed\<close>

text \<open>Where \<open>resolve()\<close> raises anything but an \<open>OSError\<close>, as it does on a loop of symbolic links before
  Python 3.13, the exception leaves the walk.\<close>

lemma symlink_loop_escapes:
  assumes "dy_load env path = Ok data" "jget ''resources'' data = JArr [JStr resource]"
      "dy_resolve env (path_join (butlast path) resource) = Err (''RuntimeError'', msg)"
  shows "walk_overlays env base path overlay_max_depth overlay_max_files = Some (Err (Python_error (''RuntimeError'', msg)))"
  using assms
  by (simp add: walk_overlays_def walk_overlays_loop.simps overlay_start_def overlay_iteration_def overlay_max_depth_def
      resource_step_def is_under_def Let_def)

text \<open>A manifest whose kind is a list stops the probe with a \<open>TypeError\<close>.\<close>

lemma list_kind_raises:
  "filter_k8s_kinds [[(''kind'', JArr [JStr ''Pod''])]] = Err (Python_error (''TypeError'', ''unhashable type: 'list'' @ [CHR 0x27]))"
  by (simp add: jget_def)

end
