(* ===== verification/Cassette.thy ===== *)
theory Cassette
  imports Redactor Py_Text
begin

text \<open>
  The cassette sanitizer, \<open>src/src/codegenie/fallback/cassette/sanitizer.py\<close>: the hooks that strip headers and redact
  secrets before a cassette is written, and the verifier that scans a cassette.

  A text is given by its bytes in UTF-8 (with surrogates passed), so that \<open>encode\<close> and \<open>decode\<close> are the identity; a
  byte is a character. \<open>str()\<close> and \<open>repr()\<close> of a value that is no text are a parameter.
\<close>

section \<open>Texts as bytes\<close>

text \<open>The code points of a text, each with its bytes.\<close>

definition is_cont_byte :: "char \<Rightarrow> bool" where
  "is_cont_byte c \<longleftrightarrow> (of_char c :: nat) div 64 = 2"

function code_points :: "string \<Rightarrow> string list" where
  "code_points [] = []"
| "code_points (c # s) = (c # takeWhile is_cont_byte s) # code_points (dropWhile is_cont_byte s)"
  by pat_completeness auto
termination by (relation "measure length") (auto simp: le_imp_less_Suc length_dropWhile_le)

text \<open>\<open>str.lower\<close>, as far as a comparison with an ASCII text can see it: the Kelvin sign is the one character beyond ASCII
  whose lower case is an ASCII letter.\<close>

definition kelvin_sign :: string where "kelvin_sign = [CHR 0xE2, CHR 0x84, CHR 0xAA]"

definition header_lower :: "string \<Rightarrow> string" where
  "header_lower s = concat (map (\<lambda>p. if p = kelvin_sign then ''k'' else ascii_lower p) (code_points s))"

section \<open>Values\<close>

text \<open>A value of Python as the hooks and the cassette documents have it; a key is shown by its text.\<close>

datatype cval = C_none | C_str string | C_bytes string | C_other string
  | C_list "cval list" | C_tuple "cval list" | C_map "(string \<times> cval) list"

definition py_str :: "(cval \<Rightarrow> string) \<Rightarrow> cval \<Rightarrow> string" where
  "py_str to_text v = (case v of C_str s \<Rightarrow> s | _ \<Rightarrow> to_text v)"

text \<open>\<open>for n, v in headers\<close>: what unpacks into two.\<close>

definition two_of :: "'a list \<Rightarrow> exn + ('a \<times> 'a)" where
  "two_of xs =
     (case xs of
        [a, b] \<Rightarrow> Ok (a, b)
      | _ \<Rightarrow> Err (''ValueError'', if length xs < 2 then ''not enough values to unpack'' else ''too many values to unpack''))"

fun unpack_pair :: "cval \<Rightarrow> exn + (cval \<times> cval)" where
  "unpack_pair (C_list xs) = two_of xs"
| "unpack_pair (C_tuple xs) = two_of xs"
| "unpack_pair (C_str s) = two_of (map C_str (code_points s))"
| "unpack_pair (C_bytes b) = two_of (map (\<lambda>c. C_other (nat_str (of_char c))) b)"
| "unpack_pair (C_map kvs) = two_of (map (\<lambda>kv. C_str (fst kv)) kvs)"
| "unpack_pair C_none = Err (''TypeError'', ''cannot unpack non-iterable object'')"
| "unpack_pair (C_other t) = Err (''TypeError'', ''cannot unpack non-iterable object'')"

section \<open>Patterns\<close>

definition forbidden_headers :: "string list" where
  "forbidden_headers = [''authorization'', ''x-api-key'', ''cookie'', ''set-cookie'', ''anthropic-version'']"

text \<open>A pattern at a place: the byte before it, if any, and the bytes from it on; the length of the match.\<close>

type_synonym at_matcher = "char option \<Rightarrow> string \<Rightarrow> nat option"

definition re_word :: "char \<Rightarrow> bool" where
  "re_word c \<longleftrightarrow> is_alnum c \<or> c = CHR ''_''"

definition re_base64 :: "char \<Rightarrow> bool" where
  "re_base64 c \<longleftrightarrow> is_alnum c \<or> c = CHR ''+'' \<or> c = CHR ''/''"

definition word_at :: "char option \<Rightarrow> bool" where
  "word_at c = (case c of None \<Rightarrow> False | Some c \<Rightarrow> re_word c)"

definition first_char :: "string \<Rightarrow> char option" where
  "first_char s = (case s of [] \<Rightarrow> None | c # _ \<Rightarrow> Some c)"

text \<open>A word boundary between the byte before and the bytes after.\<close>

definition boundary :: "char option \<Rightarrow> string \<Rightarrow> bool" where
  "boundary prev s \<longleftrightarrow> word_at prev \<noteq> word_at (first_char s)"

text \<open>The byte before position \<open>n\<close> of \<open>s\<close>.\<close>

definition before :: "char option \<Rightarrow> string \<Rightarrow> nat \<Rightarrow> char option" where
  "before prev s n = (if n = 0 then prev else if n \<le> length s then Some (s ! (n - 1)) else None)"

text \<open>\<open>[A-Za-z0-9+/]{40,}={0,2}\b\<close> after its own first boundary: the longest run, then as many equality signs as there
  are up to two, and back one at a time until there is a boundary. A shorter run is followed by a byte of its class, so
  no sign can follow it.\<close>

fun ends_from :: "char option \<Rightarrow> string \<Rightarrow> nat \<Rightarrow> nat option" where
  "ends_from prev s n =
     (if n < 40 then None
      else if boundary (before prev s n) (drop n s) then Some n
      else if n = 0 then None else ends_from prev s (n - 1))"

declare ends_from.simps [simp del]

definition base64_run :: at_matcher where
  "base64_run prev s =
     (let run = length (takeWhile re_base64 s);
          signs = min 2 (length (takeWhile ((=) CHR ''='') (drop run s))) in
      if boundary prev s \<and> 40 \<le> run then ends_from prev s (run + signs) else None)"

definition body_secret_patterns :: "(string \<times> at_matcher) list" where
  "body_secret_patterns =
     [(''sk-ant-[A-Za-z0-9_-]{20,}'', \<lambda>prev. open_token ''sk-ant-'' is_word 20),
      (''claude_[A-Za-z0-9_-]{20,}'', \<lambda>prev. open_token ''claude_'' is_word 20),
      (CHR 0x5C # ''b[A-Za-z0-9+/]{40,}={0,2}'' @ CHR 0x5C # ''b'', base64_run)]"

definition redacted_bytes :: string where "redacted_bytes = ''[REDACTED]''"

text \<open>\<open>pattern.sub(_REDACTED_BYTES, s)\<close> and \<open>pattern.search(s)\<close>.\<close>

function sub_at :: "at_matcher \<Rightarrow> char option \<Rightarrow> string \<Rightarrow> string" where
  "sub_at m prev s =
     (if s = [] then []
      else case m prev s of
        Some n \<Rightarrow> redacted_bytes @ sub_at m (before prev s (max 1 n)) (drop (max 1 n) s)
      | None \<Rightarrow> hd s # sub_at m (Some (hd s)) (tl s))"
  by pat_completeness auto
termination by (relation "measure (\<lambda>(m, prev, s). length s)") auto

declare sub_at.simps [simp del]

fun search_at :: "at_matcher \<Rightarrow> char option \<Rightarrow> string \<Rightarrow> bool" where
  "search_at m prev [] = False"
| "search_at m prev (c # s) = (m prev (c # s) \<noteq> None \<or> search_at m (Some c) s)"

section \<open>The hooks\<close>

definition redact_value_bytes :: "string \<Rightarrow> string" where
  "redact_value_bytes s = fold (\<lambda>(name, m) out. sub_at m None out) body_secret_patterns s"

fun header_rows :: "(cval \<Rightarrow> string) \<Rightarrow> string \<Rightarrow> cval \<Rightarrow> (string \<times> string) list" where
  "header_rows to_text name (C_list vs) = map (\<lambda>v. (name, py_str to_text v)) vs"
| "header_rows to_text name (C_tuple vs) = map (\<lambda>v. (name, py_str to_text v)) vs"
| "header_rows to_text name v = [(name, py_str to_text v)]"

fun pair_rows :: "(cval \<Rightarrow> string) \<Rightarrow> cval list \<Rightarrow> exn + (string \<times> string) list" where
  "pair_rows to_text [] = Ok []"
| "pair_rows to_text (x # xs) =
     rbind (unpack_pair x) (\<lambda>(n, v).
     rbind (pair_rows to_text xs) (\<lambda>rest. Ok ((py_str to_text n, py_str to_text v) # rest)))"

definition normalize_headers :: "(cval \<Rightarrow> string) \<Rightarrow> cval \<Rightarrow> exn + (string \<times> string) list" where
  "normalize_headers to_text headers =
     (case headers of
        C_map kvs \<Rightarrow> Ok (concat (map (\<lambda>(name, v). header_rows to_text name v) kvs))
      | C_list xs \<Rightarrow> pair_rows to_text xs
      | C_tuple xs \<Rightarrow> pair_rows to_text xs
      | _ \<Rightarrow> Ok [])"

definition strip_headers :: "(string \<times> string) list \<Rightarrow> (string \<times> string) list" where
  "strip_headers pairs = filter (\<lambda>(n, v). header_lower n \<notin> set forbidden_headers) pairs"

definition redact_header_values :: "(string \<times> string) list \<Rightarrow> (string \<times> string) list" where
  "redact_header_values pairs =
     map (\<lambda>(name, v). let scanned = redact_value_bytes v in if scanned = v then (name, v) else (name, scanned)) pairs"

fun redact_body :: "cval \<Rightarrow> cval" where
  "redact_body (C_bytes b) = C_bytes (redact_value_bytes b)"
| "redact_body (C_str s) = C_str (redact_value_bytes s)"
| "redact_body (C_map kvs) =
     C_map (map (\<lambda>(k, v). if k = ''string'' then (k, redact_body v) else (k, v)) kvs)"
| "redact_body v = v"

text \<open>A request or response: a mapping, or an object with or without the two attributes.\<close>

datatype cmessage = M_none | M_map "(string \<times> cval) list" | M_obj "cval option" "cval option"

definition or_none :: "cval option \<Rightarrow> cval" where
  "or_none v = (case v of None \<Rightarrow> C_none | Some v \<Rightarrow> v)"

fun message_headers :: "cmessage \<Rightarrow> cval" where
  "message_headers M_none = C_none"
| "message_headers (M_map kvs) = or_none (map_of kvs ''headers'')"
| "message_headers (M_obj h b) = or_none h"

text \<open>The mapping that replaces one: a list of values for each name if a value was a list, else the last value.\<close>

definition new_headers :: "(string \<times> cval) list \<Rightarrow> (string \<times> string) list \<Rightarrow> (string \<times> cval) list" where
  "new_headers existing pairs =
     (if list_ex (\<lambda>(k, v). case v of C_list _ \<Rightarrow> True | _ \<Rightarrow> False) existing
      then map (\<lambda>(n, vs). (n, C_list (map C_str vs)))
        (fold (\<lambda>(n, v) d. dict_set n ((case dict_get d n of None \<Rightarrow> [] | Some vs \<Rightarrow> vs) @ [v]) d) pairs [])
      else fold (\<lambda>(n, v) d. dict_set n (C_str v) d) pairs [])"

definition pair_values :: "(string \<times> string) list \<Rightarrow> cval" where
  "pair_values pairs = C_list (map (\<lambda>(n, v). C_tuple [C_str n, C_str v]) pairs)"

fun set_headers :: "cval \<Rightarrow> cmessage \<Rightarrow> cmessage" where
  "set_headers h M_none = M_none"
| "set_headers h (M_map kvs) = M_map (dict_set ''headers'' h kvs)"
| "set_headers h (M_obj (Some _) b) = M_obj (Some h) b"
| "set_headers h (M_obj None b) = M_obj None b"

definition write_headers :: "cmessage \<Rightarrow> (string \<times> string) list \<Rightarrow> cmessage" where
  "write_headers target pairs =
     (case message_headers target of
        C_map existing \<Rightarrow> set_headers (C_map (new_headers existing pairs)) target
      | C_list _ \<Rightarrow> set_headers (pair_values pairs) target
      | C_tuple _ \<Rightarrow> set_headers (pair_values pairs) target
      | _ \<Rightarrow> if pairs = [] then target
             else set_headers (C_map (fold (\<lambda>(n, v) d. dict_set n (C_str v) d) pairs [])) target)"

fun redact_message_body :: "cmessage \<Rightarrow> cmessage" where
  "redact_message_body M_none = M_none"
| "redact_message_body (M_map kvs) =
     M_map (case map_of kvs ''body'' of None \<Rightarrow> kvs | Some b \<Rightarrow> dict_set ''body'' (redact_body b) kvs)"
| "redact_message_body (M_obj h b) = M_obj h (map_option redact_body b)"

definition sanitize_message :: "(cval \<Rightarrow> string) \<Rightarrow> cmessage \<Rightarrow> exn + cmessage" where
  "sanitize_message to_text m =
     (if m = M_none then Ok M_none
      else rbind (normalize_headers to_text (message_headers m)) (\<lambda>pairs.
        Ok (redact_message_body (write_headers m (redact_header_values (strip_headers pairs))))))"

section \<open>The verifier\<close>

datatype violation_kind = V_header | V_header_value | V_body_request | V_body_response | V_unreadable

record violation =
  vi_interaction_index :: int
  vi_kind :: violation_kind
  vi_header_name :: "string option"
  vi_pattern :: "string option"
  vi_snippet :: string

text \<open>The coupling that the model validator demands; every violation of the module meets it.\<close>

definition violation_ok :: "violation \<Rightarrow> bool" where
  "violation_ok v \<longleftrightarrow> (vi_kind v \<in> {V_header, V_header_value} \<longrightarrow> vi_header_name v \<noteq> None)
     \<and> (vi_kind v \<in> {V_body_request, V_body_response} \<longrightarrow> vi_pattern v \<noteq> None)"

definition snippet_of :: "string \<Rightarrow> string" where
  "snippet_of s = (if length (code_points s) \<le> 60 then s
     else concat (take 60 (code_points s)) @ [CHR 0xE2, CHR 0x80, CHR 0xA6])"

fun body_to_bytes :: "cval \<Rightarrow> string option" where
  "body_to_bytes (C_bytes b) = Some b"
| "body_to_bytes (C_str s) = Some s"
| "body_to_bytes (C_map kvs) =
     (case map_of (map (\<lambda>(k, v). (k, body_to_bytes v)) kvs) ''string'' of None \<Rightarrow> None | Some r \<Rightarrow> r)"
| "body_to_bytes _ = None"

definition first_pattern_match :: "string \<Rightarrow> string option" where
  "first_pattern_match buf = map_option fst (find (\<lambda>(name, m). search_at m None buf) body_secret_patterns)"

definition unreadable :: "string \<Rightarrow> violation" where
  "unreadable snippet =
     \<lparr>vi_interaction_index = -1, vi_kind = V_unreadable, vi_header_name = None, vi_pattern = None, vi_snippet = snippet\<rparr>"

definition header_violations :: "int \<Rightarrow> (string \<times> string) list \<Rightarrow> violation list" where
  "header_violations idx pairs =
     map (\<lambda>(name, v). \<lparr>vi_interaction_index = idx, vi_kind = V_header, vi_header_name = Some name, vi_pattern = None,
        vi_snippet = snippet_of v\<rparr>)
       (filter (\<lambda>(name, v). header_lower name \<in> set forbidden_headers) pairs)
   @ concat (map (\<lambda>(name, v).
       if header_lower name \<in> set forbidden_headers then []
       else case first_pattern_match v of
          None \<Rightarrow> []
        | Some p \<Rightarrow> [\<lparr>vi_interaction_index = idx, vi_kind = V_header_value, vi_header_name = Some name, vi_pattern = Some p,
            vi_snippet = snippet_of v\<rparr>]) pairs)"

text \<open>\<open>replaced\<close> is \<open>decode("utf-8", "replace")\<close>, for the snippet only.\<close>

definition body_violations :: "(string \<Rightarrow> string) \<Rightarrow> int \<Rightarrow> violation_kind \<Rightarrow> cval \<Rightarrow> violation list" where
  "body_violations replaced idx kind body =
     (case body_to_bytes body of
        None \<Rightarrow> []
      | Some buf \<Rightarrow>
          (case first_pattern_match buf of
             None \<Rightarrow> []
           | Some p \<Rightarrow> [\<lparr>vi_interaction_index = idx, vi_kind = kind, vi_header_name = None, vi_pattern = Some p,
               vi_snippet = snippet_of (replaced buf)\<rparr>]))"

definition scan_message ::
  "(cval \<Rightarrow> string) \<Rightarrow> (string \<Rightarrow> string) \<Rightarrow> int \<Rightarrow> (string \<times> cval) list \<Rightarrow> violation_kind \<Rightarrow> exn + violation list" where
  "scan_message to_text replaced idx message kind =
     rbind (normalize_headers to_text (or_none (map_of message ''headers''))) (\<lambda>pairs.
       Ok (header_violations idx pairs @ body_violations replaced idx kind (or_none (map_of message ''body''))))"

text \<open>\<open>interaction.get(key) or {}\<close>, where it is a mapping.\<close>

definition message_part :: "string \<Rightarrow> (string \<times> cval) list \<Rightarrow> (string \<times> cval) list option" where
  "message_part key interaction =
     (case map_of interaction key of
        None \<Rightarrow> Some []
      | Some v \<Rightarrow> (case v of C_map kvs \<Rightarrow> Some kvs | C_none \<Rightarrow> Some []
          | C_str s \<Rightarrow> if s = [] then Some [] else None | C_bytes b \<Rightarrow> if b = [] then Some [] else None
          | C_list xs \<Rightarrow> if xs = [] then Some [] else None | C_tuple xs \<Rightarrow> if xs = [] then Some [] else None
          | C_other t \<Rightarrow> if t \<in> {''0'', ''0.0'', ''-0.0'', ''False''} then Some [] else None))"

definition scan_part ::
  "(cval \<Rightarrow> string) \<Rightarrow> (string \<Rightarrow> string) \<Rightarrow> int \<Rightarrow> (string \<times> cval) list option \<Rightarrow> violation_kind \<Rightarrow> exn + violation list" where
  "scan_part to_text replaced idx part kind =
     (case part of None \<Rightarrow> Ok [] | Some kvs \<Rightarrow> scan_message to_text replaced idx kvs kind)"

fun scan_interactions ::
  "(cval \<Rightarrow> string) \<Rightarrow> (string \<Rightarrow> string) \<Rightarrow> int \<Rightarrow> cval list \<Rightarrow> exn + violation list" where
  "scan_interactions to_text replaced idx [] = Ok []"
| "scan_interactions to_text replaced idx (C_map interaction # rest) =
     rbind (scan_part to_text replaced idx (message_part ''request'' interaction) V_body_request) (\<lambda>a.
     rbind (scan_part to_text replaced idx (message_part ''response'' interaction) V_body_response) (\<lambda>b.
     rbind (scan_interactions to_text replaced (idx + 1) rest) (\<lambda>c. Ok (a @ b @ c))))"
| "scan_interactions to_text replaced idx (_ # rest) = scan_interactions to_text replaced (idx + 1) rest"

definition scan_cassette_doc :: "(cval \<Rightarrow> string) \<Rightarrow> (string \<Rightarrow> string) \<Rightarrow> cval \<Rightarrow> exn + violation list" where
  "scan_cassette_doc to_text replaced doc =
     (case doc of
        C_map kvs \<Rightarrow>
          (case map_of kvs ''interactions'' of
             None \<Rightarrow> Ok [unreadable ''cassette missing 'interactions' key'']
           | Some v \<Rightarrow>
               (case v of
                  C_list xs \<Rightarrow> scan_interactions to_text replaced 0 xs
                | _ \<Rightarrow> if message_part ''interactions'' kvs = Some [] then Ok []
                       else Ok [unreadable ''cassette 'interactions' is not a list'']))
      | _ \<Rightarrow> Ok [unreadable (snippet_of (concat (take 120 (code_points (to_text doc)))))])"

text \<open>What reading a file and \<open>yaml.safe_load\<close> answer; an error of the file system has its class, any other exception passes.\<close>

datatype cassette_file = Unreadable_file string | Undecodable exn | File_text string

definition verify_cassette ::
  "(cval \<Rightarrow> string) \<Rightarrow> (string \<Rightarrow> string) \<Rightarrow> (string \<Rightarrow> (string + exn) + cval) \<Rightarrow> string \<Rightarrow> cassette_file \<Rightarrow> exn + violation list" where
  "verify_cassette to_text replaced yaml_load path file_answer =
     (case file_answer of
        Unreadable_file cls \<Rightarrow> Ok [unreadable (''could not read '' @ path @ '': '' @ cls)]
      | Undecodable e \<Rightarrow> Err e
      | File_text t \<Rightarrow>
          if py_strip t = [] then Ok [unreadable ''empty cassette file'']
          else (case yaml_load t of
             Inl (Inl cls) \<Rightarrow> Ok [unreadable (''yaml parse error: '' @ cls)]
           | Inl (Inr e) \<Rightarrow> Err e
           | Inr doc \<Rightarrow> scan_cassette_doc to_text replaced doc))"

definition passed :: "violation list \<Rightarrow> bool" where "passed violations \<longleftrightarrow> violations = []"

section \<open>Substitution leaves no match behind\<close>

lemma sub_at_Nil [simp]: "sub_at m prev [] = []"
  by (simp add: sub_at.simps)

lemma sub_at_keep: "m prev (c # s) = None \<Longrightarrow> sub_at m prev (c # s) = c # sub_at m (Some c) s"
  by (subst sub_at.simps) simp

lemma sub_at_cut:
  "m prev s = Some n \<Longrightarrow> s \<noteq> [] \<Longrightarrow> sub_at m prev s = redacted_bytes @ sub_at m (before prev s (max 1 n)) (drop (max 1 n) s)"
  by (subst sub_at.simps) simp

lemma sub_at_induct [case_names Nil keep cut]:
  assumes "\<And>prev. P prev []" and "\<And>prev c s. m prev (c # s) = None \<Longrightarrow> P (Some c) s \<Longrightarrow> P prev (c # s)"
    and "\<And>prev c s n. m prev (c # s) = Some n \<Longrightarrow> P (before prev (c # s) (max 1 n)) (drop (max 1 n) (c # s)) \<Longrightarrow> P prev (c # s)"
  shows "P prev s"
proof (induction s arbitrary: prev rule: length_induct)
  case (1 s)
  show ?case
  proof (cases s)
    case (Cons c t)
    show ?thesis
    proof (cases "m prev (c # t)")
      case None
      with 1 Cons assms(2) show ?thesis by simp
    next
      case (Some n)
      have "length (drop (max 1 n) (c # t)) < length s" using Cons by simp
      with 1 have "P (before prev (c # t) (max 1 n)) (drop (max 1 n) (c # t))" by blast
      with Some Cons assms(3) show ?thesis by simp
    qed
  qed (simp add: assms(1))
qed

text \<open>A part of the result without an opening bracket is a part of the text.\<close>

definition last_before :: "char option \<Rightarrow> string \<Rightarrow> char option" where
  "last_before prev w = (if w = [] then prev else Some (last w))"

lemma sub_at_kept:
  "sub_at m prev s = w @ rest \<Longrightarrow> CHR ''['' \<notin> set w \<Longrightarrow> \<exists>s'. s = w @ s' \<and> rest = sub_at m (last_before prev w) s'"
proof (induction prev s arbitrary: w rule: sub_at_induct [where m = m])
  case (Nil prev)
  then show ?case by (simp add: last_before_def)
next
  case (keep prev c s)
  show ?case
  proof (cases w)
    case Nil
    then show ?thesis using keep by (simp add: last_before_def)
  next
    case (Cons a w')
    have "c # sub_at m (Some c) s = a # w' @ rest" using keep.prems(1) keep.hyps Cons by (simp only: sub_at_keep append_Cons)
    then have "a = c" "sub_at m (Some c) s = w' @ rest" by blast+
    moreover have "CHR ''['' \<notin> set w'" using keep.prems(2) Cons by simp
    ultimately show ?thesis using keep.IH [of w'] Cons by (auto simp: last_before_def)
  qed
next
  case (cut prev c s n)
  then have "w = []" by (cases w) (auto simp: sub_at_cut redacted_bytes_def)
  then show ?case using cut by (simp add: last_before_def)
qed

subsection \<open>The two keys\<close>

fun absent :: "(string \<Rightarrow> nat option) \<Rightarrow> string \<Rightarrow> bool" where
  "absent m [] = True"
| "absent m (c # s) = (m (c # s) = None \<and> absent m s)"

lemma search_absent: "search_at (\<lambda>_. m) prev s \<longleftrightarrow> \<not> absent m s"
  by (induction s arbitrary: prev) auto

lemma absent_drop: "absent m s \<Longrightarrow> absent m (drop n s)"
proof (induction s arbitrary: n)
  case (Cons c s)
  then show ?case by (cases n) auto
qed simp

text \<open>What is found by its first part alone, which has a dash or an underscore and no bracket.\<close>

definition bare_token :: "(string \<Rightarrow> nat option) \<Rightarrow> bool" where
  "bare_token m \<longleftrightarrow> (\<forall>s. m s \<noteq> None \<longrightarrow>
     (\<exists>p. prefix p s \<and> CHR ''['' \<notin> set p \<and> CHR '']'' \<notin> set p \<and> (CHR ''-'' \<in> set p \<or> CHR ''_'' \<in> set p)
        \<and> (\<forall>y. prefix p y \<longrightarrow> m y \<noteq> None)))"

lemma bare_tokenE:
  assumes "bare_token m" "m s \<noteq> None"
  obtains p where "prefix p s" "CHR ''['' \<notin> set p" "CHR '']'' \<notin> set p" "CHR ''-'' \<in> set p \<or> CHR ''_'' \<in> set p"
    "\<And>y. prefix p y \<Longrightarrow> m y \<noteq> None"
  using assms unfolding bare_token_def by blast

lemma open_token_found:
  "prefix (lit @ r) y \<Longrightarrow> length r = n \<Longrightarrow> list_all cls r \<Longrightarrow> open_token lit cls n y \<noteq> None"
proof -
  assume a: "prefix (lit @ r) y" "length r = n" "list_all cls r"
  then obtain z where y: "y = lit @ r @ z" by (auto simp: prefix_def)
  have "n \<le> length (takeWhile cls (r @ z))" using length_takeWhile_append [OF a(3)] a(2) by auto
  then show ?thesis by (simp add: open_token_def y)
qed

lemma bare_open_token:
  assumes "\<not> cls (CHR ''['')" "\<not> cls (CHR '']'')" "CHR ''['' \<notin> set lit" "CHR '']'' \<notin> set lit" "CHR ''-'' \<in> set lit \<or> CHR ''_'' \<in> set lit"
  shows "bare_token (open_token lit cls n)"
  unfolding bare_token_def
proof (intro allI impI)
  fix s
  assume a: "open_token lit cls n s \<noteq> None"
  let ?run = "takeWhile cls (drop (length lit) s)"
  from a have p: "prefix lit s" and len: "n \<le> length ?run" by (auto simp: open_token_def Let_def split: if_splits)
  let ?r = "take n ?run"
  have s: "s = lit @ ?r @ drop n ?run @ dropWhile cls (drop (length lit) s)"
    using prefix_split [OF p] by (metis append.assoc append_take_drop_id takeWhile_dropWhile_id)
  have all: "list_all cls ?r" using takeWhile_list_all [of cls] by (auto simp: list_all_iff dest: in_set_takeD)
  have "prefix (lit @ ?r) s" using s by (metis append.assoc prefixI)
  moreover have "CHR ''['' \<notin> set (lit @ ?r)" "CHR '']'' \<notin> set (lit @ ?r)"
    using assms all by (auto simp: list_all_iff)
  moreover have "open_token lit cls n y \<noteq> None" if "prefix (lit @ ?r) y" for y
    using open_token_found [OF that _ all] len by simp
  ultimately show "\<exists>p. prefix p s \<and> CHR ''['' \<notin> set p \<and> CHR '']'' \<notin> set p \<and> (CHR ''-'' \<in> set p \<or> CHR ''_'' \<in> set p)
        \<and> (\<forall>y. prefix p y \<longrightarrow> open_token lit cls n y \<noteq> None)"
    using assms(5) by (intro exI [of _ "lit @ ?r"]) auto
qed

lemma prefix_before_bracket: "prefix p (u @ CHR '']'' # t) \<Longrightarrow> CHR '']'' \<notin> set p \<Longrightarrow> set p \<subseteq> set u"
proof (induction u arbitrary: p)
  case Nil
  then show ?case by (cases p) auto
next
  case (Cons a u)
  then show ?case by (cases p) auto
qed

lemma not_at_bracket:
  assumes "bare_token m" "CHR ''-'' \<notin> set u" "CHR ''_'' \<notin> set u"
  shows "m (u @ CHR '']'' # t) = None"
proof (rule ccontr)
  assume "m (u @ CHR '']'' # t) \<noteq> None"
  then obtain p where "prefix p (u @ CHR '']'' # t)" "CHR '']'' \<notin> set p" "CHR ''-'' \<in> set p \<or> CHR ''_'' \<in> set p"
    using assms(1) bare_tokenE by metis
  then show False using assms prefix_before_bracket by blast
qed

lemma absent_marker:
  assumes "bare_token m" "absent m t"
  shows "absent m (redacted_bytes @ t)"
proof -
  have "m (drop k ''[REDACTED'' @ CHR '']'' # t) = None" for k
    by (rule not_at_bracket [OF assms(1)]) (auto dest: in_set_dropD)
  from this [of 0] this [of 1] this [of 2] this [of 3] this [of 4] this [of 5] this [of 6] this [of 7] this [of 8] this [of 9]
  show ?thesis using assms(2) by (simp add: redacted_bytes_def)
qed

lemma absent_kept:
  assumes "bare_token m'" "m' (c # s) = None"
  shows "m' (c # sub_at m (Some c) s) = None"
proof (rule ccontr)
  assume "m' (c # sub_at m (Some c) s) \<noteq> None"
  then obtain p where p: "prefix p (c # sub_at m (Some c) s)" "CHR ''['' \<notin> set p" "CHR ''-'' \<in> set p \<or> CHR ''_'' \<in> set p"
      "\<And>y. prefix p y \<Longrightarrow> m' y \<noteq> None"
    using assms(1) bare_tokenE by metis
  then obtain p' where p': "p = c # p'" "prefix p' (sub_at m (Some c) s)" by (cases p) (auto simp: prefix_Cons)
  then obtain rest where "sub_at m (Some c) s = p' @ rest" by (auto simp: prefix_def)
  moreover have "CHR ''['' \<notin> set p'" using p(2) p'(1) by simp
  ultimately obtain s' where "s = p' @ s'" using sub_at_kept by blast
  then have "prefix p (c # s)" using p' by (simp add: prefix_def)
  with p(4) assms(2) show False by blast
qed

lemma absent_sub: "bare_token m' \<Longrightarrow> absent m' s \<Longrightarrow> absent m' (sub_at m prev s)"
proof (induction prev s rule: sub_at_induct [where m = m])
  case (keep prev c s)
  then show ?case by (simp add: sub_at_keep absent_kept)
next
  case (cut prev c s n)
  then show ?case using absent_drop [OF cut.prems(2)] by (simp add: sub_at_cut absent_marker)
qed simp

lemma absent_sub_self: "bare_token m \<Longrightarrow> absent m (sub_at (\<lambda>_. m) prev s)"
proof (induction prev s rule: sub_at_induct [where m = "\<lambda>_. m"])
  case (keep prev c s)
  then show ?case by (simp add: sub_at_keep absent_kept)
next
  case (cut prev c s n)
  then show ?case by (simp add: sub_at_cut absent_marker)
qed simp

subsection \<open>The base64 run\<close>

text \<open>What a match after its first boundary looks like.\<close>

definition base64_shape :: "string \<Rightarrow> bool" where
  "base64_shape s \<longleftrightarrow>
     (\<exists>r g rest. s = r @ g @ rest \<and> 40 \<le> length r \<and> list_all re_base64 r \<and> list_all ((=) CHR ''='') g \<and> length g \<le> 2
        \<and> boundary (Some (last (r @ g))) rest)"

lemma ends_from_Some: "ends_from prev s n = Some k \<Longrightarrow> 40 \<le> k \<and> k \<le> n \<and> boundary (before prev s k) (drop k s)"
proof (induction n)
  case 0
  then show ?case by (simp add: ends_from.simps)
next
  case (Suc n)
  then show ?case by (subst (asm) ends_from.simps) (auto split: if_splits)
qed

lemma ends_from_found: "40 \<le> k \<Longrightarrow> k \<le> n \<Longrightarrow> boundary (before prev s k) (drop k s) \<Longrightarrow> ends_from prev s n \<noteq> None"
proof (induction n)
  case (Suc n)
  show ?case
  proof (cases "k = Suc n")
    case True
    with Suc.prems show ?thesis by (subst ends_from.simps) simp
  next
    case False
    with Suc show ?thesis by (subst ends_from.simps) simp
  qed
qed simp

lemma before_append: "r \<noteq> [] \<Longrightarrow> before prev (r @ s) (length r) = Some (last r)"
  by (simp add: before_def nth_append last_conv_nth)

lemma not_base64_sign: "\<not> re_base64 (CHR ''='')" "\<not> re_base64 (CHR ''['')" "\<not> re_base64 (CHR '']'')"
  by (simp_all add: re_base64_def is_alnum_def is_upper_def is_lower_def is_digit_def)

lemma base64_run_shape: "base64_run prev s = Some n \<Longrightarrow> boundary prev s \<and> 40 \<le> n \<and> n \<le> length s
    \<and> boundary (before prev s n) (drop n s) \<and> base64_shape s"
proof -
  assume a: "base64_run prev s = Some n"
  let ?r = "takeWhile re_base64 s"
  let ?after = "drop (length ?r) s"
  let ?g = "takeWhile ((=) CHR ''='') ?after"
  have b: "boundary prev s" and e: "ends_from prev s (length ?r + min 2 (length ?g)) = Some n"
    using a by (auto simp: base64_run_def Let_def split: if_splits)
  have n: "40 \<le> n" "n \<le> length ?r + min 2 (length ?g)" "boundary (before prev s n) (drop n s)"
    using ends_from_Some [OF e] by auto
  have s: "s = ?r @ ?after" by (metis append_take_drop_id takeWhile_eq_take)
  have len: "length ?r + length ?g \<le> length s"
    using length_takeWhile_le [of "(=) CHR ''=''" ?after] length_takeWhile_le [of re_base64 s] by simp
  then have le: "n \<le> length s" using n(2) by simp
  have bd: "boundary (Some (last (take n s))) (drop n s)"
    using n(3) before_append [of "take n s" prev "drop n s"] n(1) le by (cases s) auto
  have "base64_shape s"
  proof (cases "n \<le> length ?r")
    case True
    then have "take n s = take n ?r" by (subst s) simp
    then have "list_all re_base64 (take n s)" using takeWhile_list_all [of re_base64 s] by (auto simp: list_all_iff dest: in_set_takeD)
    then show ?thesis
      unfolding base64_shape_def using bd n(1) le
      by (intro exI [of _ "take n s"] exI [of _ "[]"] exI [of _ "drop n s"]) simp
  next
    case False
    let ?k = "n - length ?r"
    have k: "?k \<le> 2" "?k \<le> length ?g" using n(2) by auto
    have t: "take n s = ?r @ take ?k ?after" using False by (subst s) simp
    have "take ?k ?after = take ?k ?g" using k(2) by (metis takeWhile_eq_take min.absorb1 take_take)
    then have "list_all ((=) CHR ''='') (take ?k ?after)"
      using takeWhile_list_all [of "(=) CHR ''=''" ?after] by (auto simp: list_all_iff dest: in_set_takeD)
    moreover have "40 \<le> length ?r" using a by (auto simp: base64_run_def Let_def split: if_splits)
    moreover have "s = ?r @ take ?k ?after @ drop n s" using t by (metis append.assoc append_take_drop_id)
    moreover have "length (take ?k ?after) \<le> 2" using k(1) by simp
    moreover have "boundary (Some (last (?r @ take ?k ?after))) (drop n s)" using bd unfolding t .
    ultimately show ?thesis
      unfolding base64_shape_def using takeWhile_list_all [of re_base64 s] by blast
  qed
  with b n le show ?thesis by blast
qed

lemma base64_run_found:
  assumes "boundary prev s" "base64_shape s"
  shows "base64_run prev s \<noteq> None"
proof -
  obtain r g rest where s: "s = r @ g @ rest" "40 \<le> length r" "list_all re_base64 r" "list_all ((=) CHR ''='') g" "length g \<le> 2"
      "boundary (Some (last (r @ g))) rest"
    using assms(2) unfolding base64_shape_def by blast
  let ?run = "length (takeWhile re_base64 s)"
  let ?signs = "min 2 (length (takeWhile ((=) CHR ''='') (drop ?run s)))"
  have run: "length r \<le> ?run" unfolding s(1) by (rule length_takeWhile_append [OF s(3)])
  have "length (r @ g) \<le> ?run + ?signs"
  proof (cases g)
    case Nil
    then show ?thesis using run by simp
  next
    case (Cons c g')
    then have "\<not> re_base64 c" using s(4) not_base64_sign by auto
    then have "takeWhile re_base64 s = r" unfolding s(1) Cons by (simp add: takeWhile_stop [OF s(3)])
    moreover have "length g \<le> length (takeWhile ((=) CHR ''='') (g @ rest))" by (rule length_takeWhile_append [OF s(4)])
    ultimately show ?thesis using s(1,5) by simp
  qed
  moreover have "boundary (before prev s (length (r @ g))) (drop (length (r @ g)) s)"
    using before_append [of "r @ g" prev rest] s(1,2,6) by (cases r) auto
  ultimately have "ends_from prev s (?run + ?signs) \<noteq> None" using s(2) by (intro ends_from_found) auto
  then show ?thesis using assms(1) run s(2) by (simp add: base64_run_def Let_def)
qed

lemma base64_run_iff: "base64_run prev s \<noteq> None \<longleftrightarrow> boundary prev s \<and> base64_shape s"
  using base64_run_shape base64_run_found by fastforce

lemma no_shape_bracket: "length u < 40 \<Longrightarrow> \<not> base64_shape (u @ CHR '']'' # t)"
proof
  assume u: "length u < 40" and "base64_shape (u @ CHR '']'' # t)"
  then obtain r v where r: "u @ CHR '']'' # t = r @ v" "40 \<le> length r" "list_all re_base64 r"
    unfolding base64_shape_def by blast
  have "(u @ CHR '']'' # t) ! length u = r ! length u" using r(2) u by (simp add: r(1) nth_append)
  then have "CHR '']'' \<in> set r" using r(2) u by (metis nth_append_length nth_mem order_less_le_trans)
  then show False using r(3) not_base64_sign by (auto simp: list_all_iff)
qed

lemma search_marker:
  assumes "\<not> search_at base64_run (Some (CHR '']'')) t"
  shows "\<not> search_at base64_run prev (redacted_bytes @ t)"
proof -
  have "base64_run p (drop k ''[REDACTED'' @ CHR '']'' # t) = None" for p k
  proof -
    have "\<not> base64_shape (drop k ''[REDACTED'' @ CHR '']'' # t)" by (rule no_shape_bracket) simp
    then show ?thesis using base64_run_iff by blast
  qed
  note none = this [of _ 0, simplified] this [of _ 1, simplified] this [of _ 2, simplified] this [of _ 3, simplified]
    this [of _ 4, simplified] this [of _ 5, simplified] this [of _ 6, simplified] this [of _ 7, simplified]
    this [of _ 8, simplified] this [of _ 9, simplified]
  show ?thesis using assms by (simp add: redacted_bytes_def none)
qed

text \<open>A shape that reaches into the result of the substitution was there before it.\<close>

lemma shape_kept:
  assumes "base64_shape (c # sub_at base64_run (Some c) s)"
  shows "base64_shape (c # s)"
proof -
  obtain r g rest where s: "c # sub_at base64_run (Some c) s = r @ g @ rest" "40 \<le> length r" "list_all re_base64 r"
      "list_all ((=) CHR ''='') g" "length g \<le> 2" "boundary (Some (last (r @ g))) rest"
    using assms unfolding base64_shape_def by blast
  obtain r' where r: "r = c # r'" "sub_at base64_run (Some c) s = (r' @ g) @ rest" using s(1,2) by (cases r) auto
  have "CHR ''['' \<notin> set (r' @ g)" using s(3,4) r(1) not_base64_sign by (auto simp: list_all_iff)
  then obtain s' where s': "s = (r' @ g) @ s'" "rest = sub_at base64_run (last_before (Some c) (r' @ g)) s'"
    using sub_at_kept [OF r(2)] by blast
  have l: "last_before (Some c) (r' @ g) = Some (last (r @ g))" by (simp add: last_before_def r(1))
  have "boundary (Some (last (r @ g))) s'"
  proof (cases s')
    case Nil
    then show ?thesis using s(6) s'(2) by simp
  next
    case (Cons d s'')
    show ?thesis
    proof (cases "base64_run (Some (last (r @ g))) s'")
      case None
      then show ?thesis using s(6) s'(2) unfolding l Cons by (simp add: sub_at_keep boundary_def first_char_def)
    next
      case (Some n)
      then show ?thesis using base64_run_iff by blast
    qed
  qed
  then show ?thesis
    unfolding base64_shape_def using s r(1) s'(1)
    by (intro exI [of _ r] exI [of _ g] exI [of _ s'] conjI) simp_all
qed

lemma base64_gone:
  "\<not> search_at base64_run prev (sub_at base64_run prev s)
   \<and> (boundary prev s \<longrightarrow> \<not> search_at base64_run (Some (CHR '']'')) (sub_at base64_run prev s))"
proof (induction prev s rule: sub_at_induct [where m = base64_run])
  case (keep prev c s)
  have n: "\<not> (boundary prev (c # s) \<and> base64_shape (c # s))" using keep.hyps base64_run_iff by metis
  have same: "boundary p (c # t) \<longleftrightarrow> boundary p (c # s)" for p t by (simp add: boundary_def first_char_def)
  have "base64_run prev (c # sub_at base64_run (Some c) s) = None"
    using n shape_kept same base64_run_iff by metis
  moreover have "boundary prev (c # s) \<Longrightarrow> base64_run (Some (CHR '']'')) (c # sub_at base64_run (Some c) s) = None"
    using n shape_kept base64_run_iff by metis
  ultimately show ?case using keep by (simp add: sub_at_keep)
next
  case (cut prev c s n)
  have "boundary (before prev (c # s) n) (drop n (c # s))" "max 1 n = n" using base64_run_shape [OF cut.hyps] by auto
  then have "\<not> search_at base64_run (Some (CHR '']'')) (sub_at base64_run (before prev (c # s) (max 1 n)) (drop (max 1 n) (c # s)))"
    using cut.IH by simp
  then show ?case using cut.hyps by (simp add: sub_at_cut search_marker)
qed simp

section \<open>What the hooks let through, the verifier finds clean\<close>

lemma token_patterns: "bare_token (open_token ''sk-ant-'' is_word 20)" "bare_token (open_token ''claude_'' is_word 20)"
  by (rule bare_open_token; simp add: is_word_def is_alnum_def is_upper_def is_lower_def is_digit_def)+

lemma redacted_no_match: "first_pattern_match (redact_value_bytes s) = None"
proof -
  let ?m1 = "open_token ''sk-ant-'' is_word 20" and ?m2 = "open_token ''claude_'' is_word 20"
  let ?s1 = "sub_at (\<lambda>_. ?m1) None s"
  let ?s2 = "sub_at (\<lambda>_. ?m2) None ?s1"
  let ?s3 = "sub_at base64_run None ?s2"
  have s3: "redact_value_bytes s = ?s3" by (simp add: redact_value_bytes_def body_secret_patterns_def)
  have "absent ?m1 ?s3"
    by (intro absent_sub absent_sub_self token_patterns)
  moreover have "absent ?m2 ?s3"
    by (intro absent_sub absent_sub_self token_patterns)
  moreover have "\<not> search_at base64_run None ?s3" using base64_gone by blast
  ultimately show ?thesis unfolding s3 by (simp add: first_pattern_match_def body_secret_patterns_def search_absent)
qed

lemma redacted_body_clean: "body_to_bytes (redact_body b) = Some buf \<Longrightarrow> first_pattern_match buf = None"
proof (induction b arbitrary: buf rule: redact_body.induct)
  case (3 kvs)
  have "map_of (map (\<lambda>(k, v). (k, body_to_bytes v)) (map (\<lambda>(k, v). if k = ''string'' then (k, redact_body v) else (k, v)) kvs)) ''string''
      = map_option (\<lambda>v. body_to_bytes (redact_body v)) (map_of kvs ''string'')"
    by (induction kvs) auto
  then obtain v where v: "map_of kvs ''string'' = Some v" "body_to_bytes (redact_body v) = Some buf"
    using 3(2) by (auto split: option.splits)
  then have "(''string'', v) \<in> set kvs" by (simp add: map_of_SomeD)
  then show ?case using 3(1) [of "(''string'', v)" "''string''" v] v(2) by simp
qed (auto simp: redacted_no_match)

text \<open>The rows that are left after stripping and redacting.\<close>

definition clean_rows :: "(string \<times> string) list \<Rightarrow> bool" where
  "clean_rows pairs \<longleftrightarrow> list_all (\<lambda>(n, v). header_lower n \<notin> set forbidden_headers \<and> first_pattern_match v = None) pairs"

lemma redacted_rows_clean: "clean_rows (redact_header_values (strip_headers pairs))"
proof -
  have "first_pattern_match v = None" if "redact_value_bytes v = v" for v using redacted_no_match [of v] that by simp
  then show ?thesis
    by (auto simp: clean_rows_def redact_header_values_def strip_headers_def list_all_iff Let_def redacted_no_match split: if_splits)
qed

lemma clean_rows_subset: "clean_rows ps \<Longrightarrow> set qs \<subseteq> set ps \<Longrightarrow> clean_rows qs"
  by (auto simp: clean_rows_def list_all_iff)

lemma clean_rows_scan: "clean_rows ps \<Longrightarrow> header_violations idx ps = []"
  by (auto simp: clean_rows_def header_violations_def list_all_iff filter_empty_conv)

lemma set_dict_set: "set (dict_set k v d) \<subseteq> insert (k, v) (set d)"
  by (induction d) auto

lemma fold_last_value:
  "set d \<subseteq> (\<lambda>(n, v). (n, C_str v)) ` S \<Longrightarrow> set ps \<subseteq> S \<Longrightarrow>
   set (fold (\<lambda>(n, v) d. dict_set n (C_str v) d) ps d) \<subseteq> (\<lambda>(n, v). (n, C_str v)) ` S"
proof (induction ps arbitrary: d)
  case (Cons p ps)
  obtain n v where p: "p = (n, v)" by (cases p)
  have "set (dict_set n (C_str v) d) \<subseteq> (\<lambda>(n, v). (n, C_str v)) ` S"
    using Cons.prems set_dict_set [of n "C_str v" d] p by force
  then show ?case using Cons.IH Cons.prems p by simp
qed simp

lemma fold_grouped:
  "\<forall>(n, vs) \<in> set d. \<forall>v \<in> set vs. (n, v) \<in> S \<Longrightarrow> set ps \<subseteq> S \<Longrightarrow>
   \<forall>(n, vs) \<in> set (fold (\<lambda>(n, v) d. dict_set n ((case dict_get d n of None \<Rightarrow> [] | Some vs \<Rightarrow> vs) @ [v]) d) ps d).
     \<forall>v \<in> set vs. (n, v) \<in> S"
proof (induction ps arbitrary: d)
  case (Cons p ps)
  obtain n v where p: "p = (n, v)" by (cases p)
  let ?vs = "(case dict_get d n of None \<Rightarrow> [] | Some vs \<Rightarrow> vs) @ [v]"
  have "\<forall>w \<in> set ?vs. (n, w) \<in> S"
  proof (cases "dict_get d n")
    case (Some us)
    then have "(n, us) \<in> set d" by (rule map_of_SomeD)
    then show ?thesis using Cons.prems p Some by auto
  qed (use Cons.prems p in auto)
  then have "\<forall>(n, vs) \<in> set (dict_set n ?vs d). \<forall>v \<in> set vs. (n, v) \<in> S"
    using Cons.prems(1) set_dict_set [of n ?vs d] by blast
  then show ?case using Cons.IH Cons.prems p by simp
qed simp

lemma new_headers_rows:
  "set (concat (map (\<lambda>(name, v). header_rows to_text name v) (new_headers existing pairs))) \<subseteq> set pairs"
proof (cases "list_ex (\<lambda>(k, v). case v of C_list _ \<Rightarrow> True | _ \<Rightarrow> False) existing")
  case True
  then show ?thesis using fold_grouped [of "[]" "set pairs" pairs] by (fastforce simp: new_headers_def py_str_def)
next
  case False
  then show ?thesis using fold_last_value [of "[]" "set pairs" pairs] by (fastforce simp: new_headers_def py_str_def)
qed

lemma pair_values_rows: "pair_rows to_text (map (\<lambda>(n, v). C_tuple [C_str n, C_str v]) ps) = Ok ps"
  by (induction ps) (auto simp: two_of_def py_str_def)

lemma message_headers_set:
  "message_headers m \<noteq> C_none \<Longrightarrow> message_headers (set_headers h m) = h"
  by (cases m) (auto simp: or_none_def dict_simps split: option.splits)

lemma message_headers_body: "message_headers (redact_message_body m) = message_headers m"
  by (cases m) (auto simp: or_none_def dict_simps split: option.splits)

text \<open>The headers that are written back are rows of those given.\<close>

lemma written_headers:
  assumes "normalize_headers to_text (message_headers m) = Ok pairs0" "set pairs \<subseteq> {} \<or> pairs0 \<noteq> []"
  shows "\<exists>rows. normalize_headers to_text (message_headers (write_headers m pairs)) = Ok rows \<and> set rows \<subseteq> set pairs"
proof (cases "message_headers m")
  case (C_map existing)
  then have "message_headers (write_headers m pairs) = C_map (new_headers existing pairs)"
    by (simp add: write_headers_def message_headers_set)
  then show ?thesis using new_headers_rows by (simp add: normalize_headers_def)
next
  case (C_list xs)
  then have "message_headers (write_headers m pairs) = pair_values pairs" by (simp add: write_headers_def message_headers_set)
  then show ?thesis by (simp add: normalize_headers_def pair_values_def pair_values_rows)
next
  case (C_tuple xs)
  then have "message_headers (write_headers m pairs) = pair_values pairs" by (simp add: write_headers_def message_headers_set)
  then show ?thesis by (simp add: normalize_headers_def pair_values_def pair_values_rows)
qed (use assms in \<open>auto simp: write_headers_def normalize_headers_def\<close>)

text \<open>A message as a cassette document has it.\<close>

fun recorded :: "cmessage \<Rightarrow> (string \<times> cval) list" where
  "recorded M_none = []"
| "recorded (M_map kvs) = kvs"
| "recorded (M_obj h b) = [(''headers'', or_none h), (''body'', or_none b)]"

lemma recorded_headers: "or_none (map_of (recorded m) ''headers'') = message_headers m"
  by (cases m) (auto simp: or_none_def)

lemma recorded_body: "body_violations replaced idx kind (or_none (map_of (recorded (redact_message_body m)) ''body'')) = []"
proof -
  have "\<exists>b. or_none (map_of (recorded (redact_message_body m)) ''body'') = redact_body b"
  proof (cases m)
    case (M_map kvs)
    show ?thesis
    proof (cases "map_of kvs ''body''")
      case None
      then show ?thesis using M_map by (intro exI [of _ C_none]) (simp add: or_none_def)
    next
      case (Some b)
      then show ?thesis using M_map by (intro exI [of _ b]) (simp add: or_none_def dict_simps)
    qed
  next
    case (M_obj h b)
    then show ?thesis by (cases b) (auto simp: or_none_def intro: exI [of _ C_none])
  qed (auto simp: or_none_def intro: exI [of _ C_none])
  then show ?thesis using redacted_body_clean by (auto simp: body_violations_def split: option.splits)
qed

text \<open>C26. A request or response that a hook returns is clean: recorded, its scan finds no forbidden header and no secret in a header
  value or the body, whatever shape headers and body had.\<close>

theorem sanitized_scans_clean:
  assumes "sanitize_message to_text m = Ok m'"
  shows "scan_message to_text replaced idx (recorded m') kind = Ok []"
proof (cases "m = M_none")
  case True
  then show ?thesis using assms by (auto simp: sanitize_message_def scan_message_def or_none_def normalize_headers_def
      header_violations_def body_violations_def)
next
  case False
  then obtain pairs where p: "normalize_headers to_text (message_headers m) = Ok pairs"
      "m' = redact_message_body (write_headers m (redact_header_values (strip_headers pairs)))"
    using assms by (auto simp: sanitize_message_def rbind_iffs)
  have "set (redact_header_values (strip_headers pairs)) \<subseteq> {} \<or> pairs \<noteq> []"
    by (cases pairs) (auto simp: redact_header_values_def strip_headers_def)
  then obtain rows where r: "normalize_headers to_text (message_headers m') = Ok rows"
      "set rows \<subseteq> set (redact_header_values (strip_headers pairs))"
    using written_headers [OF p(1)] unfolding p(2) message_headers_body by blast
  have "header_violations idx rows = []" by (rule clean_rows_scan [OF clean_rows_subset [OF redacted_rows_clean r(2)]])
  then show ?thesis using r(1) recorded_body unfolding p(2) by (simp add: scan_message_def recorded_headers)
qed

definition sample_message :: cmessage where
  "sample_message = M_map [(''headers'', C_map [(''Cookie'', C_str ''a''), (''x'', C_str (''sk-ant-'' @ replicate 20 CHR ''a''))]),
     (''body'', C_bytes (''k: claude_'' @ replicate 21 CHR ''b''))]"

lemma sanitized_scans_clean_witness:
  "\<exists>m'. sanitize_message (\<lambda>_. []) sample_message = Ok m'
     \<and> m' = M_map [(''headers'', C_map [(''x'', C_str ''[REDACTED]'')]), (''body'', C_bytes ''k: [REDACTED]'')]
     \<and> scan_message (\<lambda>_. []) id 0 (recorded m') V_body_request = Ok []"
proof -
  have "sanitize_message (\<lambda>_. []) sample_message =
      Ok (M_map [(''headers'', C_map [(''x'', C_str ''[REDACTED]'')]), (''body'', C_bytes ''k: [REDACTED]'')])"
    by code_simp
  from sanitized_scans_clean [OF this] this show ?thesis by blast
qed

section \<open>What modelling showed\<close>

text \<open>The verifier promises not to raise; a document whose headers are a list of single texts makes it.\<close>

lemma malformed_headers_raise:
  "scan_cassette_doc to_text replaced (C_map [(''interactions'', C_list [C_map [(''request'', C_map [(''headers'', C_list [C_str ''a''])])]])])
     = Err (''ValueError'', ''not enough values to unpack'')"
  by (simp add: scan_cassette_doc_def message_part_def scan_part_def scan_message_def normalize_headers_def or_none_def two_of_def)

text \<open>A header whose values are a tuple comes back with the last of them only.\<close>

lemma tuple_header_loses_value:
  "sanitize_message to_text (M_map [(''headers'', C_map [(''x'', C_tuple [C_str ''1'', C_str ''2''])])])
     = Ok (M_map [(''headers'', C_map [(''x'', C_str ''2'')])])"
proof -
  have "redact_value_bytes ''1'' = ''1''" "redact_value_bytes ''2'' = ''2''" "header_lower ''x'' \<notin> set forbidden_headers"
    by code_simp+
  then show ?thesis
    by (simp add: sanitize_message_def normalize_headers_def or_none_def strip_headers_def redact_header_values_def
        write_headers_def new_headers_def py_str_def)
qed

end
