(* ===== verification/Py_Url.thy ===== *)
theory Py_Url
  imports Py_Text
begin

text \<open>
  \<open>urllib.parse.urlparse\<close> as far as the code reads its result: scheme, netloc, host name and port. Characters are code
  points below 256. Whether the text in brackets is an address is a parameter. No definition here models code of the repository.
\<close>

section \<open>Lower case\<close>

definition lower_char :: "char \<Rightarrow> char" where
  "lower_char c =
     (let n = of_char c :: nat in
      if 65 \<le> n \<and> n \<le> 90 \<or> 192 \<le> n \<and> n \<le> 222 \<and> n \<noteq> 215 then char_of (n + 32) else c)"

definition py_lower :: "string \<Rightarrow> string" where "py_lower = map lower_char"

section \<open>Splitting a URL\<close>

text \<open>The text before and after the first occurrence of a character, and whether it occurs.\<close>

definition cut_at :: "char \<Rightarrow> string \<Rightarrow> string \<times> bool \<times> string" where
  "cut_at c s = (takeWhile ((\<noteq>) c) s, c \<in> set s, tl (dropWhile ((\<noteq>) c) s))"

definition scheme_char :: "char \<Rightarrow> bool" where
  "scheme_char c \<longleftrightarrow> lower c \<or> upper c \<or> digit c \<or> c \<in> set ''+-.''"

text \<open>Leading control characters and spaces, and every tab and line end, are dropped first.\<close>

definition url_clean :: "string \<Rightarrow> string" where
  "url_clean s = filter (\<lambda>c. c \<notin> {CHR 0x09, CHR 0x0A, CHR 0x0D}) (dropWhile (\<lambda>c. (of_char c :: nat) \<le> 32) s)"

definition split_scheme :: "string \<Rightarrow> string \<times> string" where
  "split_scheme s =
     (case cut_at (CHR '':'') s of (before, found, after) \<Rightarrow>
        if found \<and> before \<noteq> [] \<and> (lower (hd before) \<or> upper (hd before)) \<and> list_all scheme_char before
        then (ascii_lower before, after) else ([], s))"

record split_url =
  su_scheme :: string
  su_netloc :: string

definition url_split :: "(string \<Rightarrow> bool) \<Rightarrow> string \<Rightarrow> exn + split_url" where
  "url_split address_ok url =
     (case split_scheme (url_clean url) of (scheme, rest) \<Rightarrow>
        if \<not> prefix ''//'' rest then Ok \<lparr>su_scheme = scheme, su_netloc = []\<rparr>
        else let netloc = takeWhile (\<lambda>c. c \<notin> set ''/?#'') (drop 2 rest);
                 opens = CHR ''['' \<in> set netloc; closes = CHR '']'' \<in> set netloc in
          if opens \<noteq> closes then Err (''ValueError'', ''Invalid IPv6 URL'')
          else if opens \<and> \<not> address_ok (takeWhile ((\<noteq>) CHR '']'') (tl (dropWhile ((\<noteq>) CHR ''['') netloc)))
          then Err (''ValueError'', ''Invalid IPv6 URL'')
          else Ok \<lparr>su_scheme = scheme, su_netloc = netloc\<rparr>)"

section \<open>Host name and port\<close>

text \<open>\<open>rpartition('@')[2]\<close>.\<close>

definition host_info :: "string \<Rightarrow> string" where
  "host_info netloc = rev (takeWhile ((\<noteq>) CHR ''@'') (rev netloc))"

text \<open>The text of the host and of the port, which is absent where it is empty.\<close>

definition host_and_port :: "string \<Rightarrow> string \<times> string option" where
  "host_and_port netloc =
     (let info = host_info netloc in
      case cut_at (CHR ''['') info of (_, have_open, bracketed) \<Rightarrow>
        if have_open then
          (case cut_at (CHR '']'') bracketed of (host, _, after) \<Rightarrow>
             (host, case cut_at (CHR '':'') after of (_, _, port) \<Rightarrow> if port = [] then None else Some port))
        else (case cut_at (CHR '':'') info of (host, _, port) \<Rightarrow> (host, if port = [] then None else Some port)))"

definition url_hostname :: "split_url \<Rightarrow> string option" where
  "url_hostname u =
     (let host = fst (host_and_port (su_netloc u)) in
      if host = [] then None
      else Some (case cut_at (CHR ''%'') host of (h, found, zone) \<Rightarrow> py_lower h @ (if found then CHR ''%'' # zone else [])))"

definition url_port :: "split_url \<Rightarrow> exn + int option" where
  "url_port u =
     (case snd (host_and_port (su_netloc u)) of
        None \<Rightarrow> Ok None
      | Some t \<Rightarrow>
          if \<not> list_all digit t then Err (''ValueError'', ''Port could not be cast to integer value as '' @ py_repr t)
          else (case py_int_text t of
             None \<Rightarrow> Err (''ValueError'', ''Port could not be cast to integer value'')
           | Some n \<Rightarrow> if n \<le> 65535 then Ok (Some n) else Err (''ValueError'', ''Port out of range 0-65535'')))"

end
