(* ===== verification/Lockfile_Policy.thy ===== *)
theory Lockfile_Policy
  imports Py_Url Json Identifiers
begin

text \<open>
  The registry policy, \<open>src/src/codegenie/transforms/policy/lockfile_policy.py\<close>: loading the policy file and checking
  a lockfile's origins against it. The YAML parser is a parameter; a decoded document is a JSON value, a mapping by its
  string keys.
\<close>

section \<open>Loading\<close>



record lockfile_policy =
  lp_schema_version :: int
  lp_allowed_registries :: "string list"







section \<open>Evaluation\<close>

record policy_violation =
  pv_registry :: string
  pv_package :: string

definition url_origin :: "(string \<Rightarrow> bool) \<Rightarrow> string \<Rightarrow> exn + string" where
  "url_origin address_ok url =
     rbind (url_split address_ok url) (\<lambda>u. Ok (su_scheme u @ ''://'' @ su_netloc u @ ''/''))"

fun all_origins :: "(string \<Rightarrow> bool) \<Rightarrow> string list \<Rightarrow> exn + string list" where
  "all_origins address_ok [] = Ok []"
| "all_origins address_ok (url # urls) =
     rbind (url_origin address_ok url) (\<lambda>o1. rbind (all_origins address_ok urls) (\<lambda>os. Ok (o1 # os)))"

fun resolved_of :: "json \<Rightarrow> string option" where
  "resolved_of (JObj entry) = (case jget ''resolved'' entry of JStr s \<Rightarrow> Some s | _ \<Rightarrow> None)"
| "resolved_of _ = None"

text \<open>The loop over the packages.\<close>

fun gather_violations :: "(string \<Rightarrow> bool) \<Rightarrow> string list \<Rightarrow> (string \<times> json) list \<Rightarrow> exn + policy_violation list" where
  "gather_violations address_ok allowed [] = Ok []"
| "gather_violations address_ok allowed ((pkg_path, entry) # packages) =
     (case resolved_of entry of
        None \<Rightarrow> gather_violations address_ok allowed packages
      | Some resolved \<Rightarrow>
          rbind (url_origin address_ok resolved) (\<lambda>origin.
          rbind (gather_violations address_ok allowed packages) (\<lambda>rest.
            Ok (if origin \<in> set allowed then rest else \<lparr>pv_registry = origin, pv_package = pkg_path\<rparr> # rest))))"

definition policy_evaluate ::
  "(string \<Rightarrow> bool) \<Rightarrow> lockfile_policy \<Rightarrow> (string \<times> json) list \<Rightarrow> exn + policy_violation list" where
  "policy_evaluate address_ok policy lockfile_doc =
     rbind (all_origins address_ok (lp_allowed_registries policy)) (\<lambda>allowed.
       case jget ''packages'' lockfile_doc of
         JObj packages \<Rightarrow>
           rbind (gather_violations address_ok allowed packages) (\<lambda>vs. Ok (sort_key (\<lambda>v. (pv_package v, pv_registry v)) vs))
       | _ \<Rightarrow> Ok [])"

section \<open>The verdict\<close>


section \<open>Origins of the accepted registries\<close>








lemma all_origins_total:
  "\<forall>url \<in> set urls. \<exists>x. url_origin ok url = Ok x \<Longrightarrow> \<exists>os. all_origins ok urls = Ok os"
  by (induction urls) auto







section \<open>What modelling showed\<close>

text \<open>A workspace link, whose resolved field is a path, is reported as an unauthorized registry without a host.\<close>

lemma workspace_link_flagged:
  "policy_evaluate (\<lambda>_. True) \<lparr>lp_schema_version = 1, lp_allowed_registries = [''https://r.io/'']\<rparr>
     [(''packages'', JObj [(''node_modules/a'', JObj [(''resolved'', JStr ''packages/a''), (''link'', JBool True)])])]
   = Ok [\<lparr>pv_registry = '':///'', pv_package = ''node_modules/a''\<rparr>]"
  by code_simp

text \<open>A resolved field with an open bracket makes the evaluation raise.\<close>

lemma open_bracket_raises:
  "policy_evaluate (\<lambda>_. True) \<lparr>lp_schema_version = 1, lp_allowed_registries = [''https://r.io/'']\<rparr>
     [(''packages'', JObj [(''a'', JObj [(''resolved'', JStr ''https://[x/'')])])]
   = Err (''ValueError'', ''Invalid IPv6 URL'')"
  by code_simp

end
