(* ===== verification/Spec2Isabelle.thy ===== *)
theory Spec2Isabelle
  imports Jsonc Seccomp Replay Event_Replay Budget Coordinator Redactor
    Prompt Load_Resolve Recipes Trust Plan_Proposal Rag
    Vuln_Feeds Bundle_Cache Lockfiles Lcov Fallback_Tier
    Language_Detection Exec Run_Audit Npm_Engine Deployment Cassette Lockfile_Policy
begin

text \<open>
  A verification library for the core of codegenie (\<open>src/src/codegenie\<close>).
\<close>

end
